(* ===== verification/Prelude.thy ===== *)
theory Prelude
  imports Main "HOL-Library.Product_Lexorder"
begin

text \<open>
  Shared vocabulary of the development: the fact collections the component theories fill,
  the 64-bit arithmetic of Go's \<open>int\<close> and \<open>time.Duration\<close>, Go error values, and the
  relational helpers (update where, delete where, order by) in which the SQL statements of
  the repositories are written.  Nothing here models a source file by itself.
\<close>

named_theorems go_simps \<open>unfolding facts for the Go runtime vocabulary\<close>
named_theorems table_simps \<open>rewriting facts for the relational helpers\<close>

section \<open>Machine integers and clock values\<close>

text \<open>
  A \<open>time.Duration\<close> is a signed 64-bit count of nanoseconds.  It is modelled as an
  \<open>int\<close>; where the code multiplies or shifts one, the wrap-around is written out with
  \<open>wrap64\<close>.  An instant is an \<open>int\<close> too (nanoseconds since the epoch), and the zero
  \<open>time.Time\<close>, which the code tests with \<open>IsZero\<close>, is \<open>None\<close> of type \<open>instant option\<close>.
\<close>

type_synonym duration = int
type_synonym instant = int

definition wrap64 :: "int \<Rightarrow> int" where
  "wrap64 x = (x + 2 ^ 63) mod 2 ^ 64 - 2 ^ 63"

lemma wrap64_id: "- (2 ^ 63) \<le> x \<Longrightarrow> x < 2 ^ 63 \<Longrightarrow> wrap64 x = x"
  by (simp add: wrap64_def)

lemma wrap64_range: "- (2 ^ 63) \<le> wrap64 x \<and> wrap64 x < 2 ^ 63"
  by (simp add: wrap64_def)

abbreviation max_int64 :: int where
  "max_int64 \<equiv> 2 ^ 63 - 1"

text \<open>\<open>seconds\<close>, \<open>minutes\<close> and \<open>hours\<close> are the unit constants of package \<open>time\<close>.\<close>

abbreviation second :: duration where "second \<equiv> 1000000000"
abbreviation minute :: duration where "minute \<equiv> 60000000000"
abbreviation hour :: duration where "hour \<equiv> 3600000000000"

text \<open>
  Timestamps in the database have one-second resolution: \<open>formatTime\<close> prints an instant
  with RFC 3339 in UTC, which drops the fraction of the second.  A stored timestamp is
  modelled by the whole second it names; the text order SQLite compares them with is the
  order of these numbers for the four-digit years RFC 3339 can print.
\<close>

type_synonym stamp = int

section \<open>Decimal rendering\<close>

text \<open>\<open>itoa\<close> is the \<open>%d\<close> verb (and \<open>strconv.Itoa\<close>).\<close>

fun digits_of :: "nat \<Rightarrow> string" where
  "digits_of n =
     (if n < 10 then [char_of (48 + n)] else digits_of (n div 10) @ [char_of (48 + n mod 10)])"

declare digits_of.simps [simp del]

definition itoa :: "int \<Rightarrow> string" where
  "itoa i = (if i < 0 then ''-'' @ digits_of (nat (- i)) else digits_of (nat i))"

section \<open>Error values\<close>

text \<open>
  A non-nil Go \<open>error\<close> is its message together with the sentinels that \<open>errors.Is\<close> finds
  along its \<open>Unwrap\<close> chain.  \<open>fmt.Errorf\<close> with \<open>%w\<close> keeps the chain and extends the
  message; without \<open>%w\<close> the chain is empty.
\<close>

datatype sentinel =
    ErrNoRows
  | ErrNotRetryable
  | ErrLaneUnavailable
  | MxUnauthorized
  | MxRateLimited
  | MxNotFound
  | MxNoLyrics
  | MxTruncatedResponse
  | MxTokenRenewalRequired
  | PlUnauthorized
  | PlRateLimited
  | PlNotFound
  | CtxCanceled
  | CtxDeadlineExceeded
  | WorkerQueueEmpty
  | AuthDuplicateKey
  | AuthInvalidKey
  | AuthRevokedKey
  | AuthForbiddenScope
  | WebInvalidCredentials
  | WebInvalidSession
  | WebPasswordTooShort
  | WebUserExists
  | WebInvalidHash
  | WebIncompatibleVersion

datatype goerr = GoErr (err_msg: string) (err_chain: "sentinel list")

definition errors_is :: "goerr \<Rightarrow> sentinel \<Rightarrow> bool" where
  "errors_is e s \<longleftrightarrow> s \<in> set (err_chain e)"

text \<open>\<open>errorf m\<close> is \<open>fmt.Errorf\<close> without a wrapped operand; \<open>wrapf m e\<close> is the common
  format \<open>"m: %w"\<close>.\<close>

definition errorf :: "string \<Rightarrow> goerr" where
  "errorf m = GoErr m []"

definition wrapf :: "string \<Rightarrow> goerr \<Rightarrow> goerr" where
  "wrapf m e = GoErr (m @ '': '' @ err_msg e) (err_chain e)"

definition errors_join :: "goerr \<Rightarrow> goerr \<Rightarrow> goerr" where
  "errors_join e f = GoErr (err_msg e @ [char_of (10::nat)] @ err_msg f) (err_chain e @ err_chain f)"

lemma errors_is_wrapf [simp]: "errors_is (wrapf m e) s = errors_is e s"
  by (simp add: errors_is_def wrapf_def)

lemma errors_is_errorf [simp]: "\<not> errors_is (errorf m) s"
  by (simp add: errors_is_def errorf_def)

lemma errors_is_join [simp]: "errors_is (errors_join e f) s \<longleftrightarrow> errors_is e s \<or> errors_is f s"
  by (auto simp: errors_is_def errors_join_def)

text \<open>A fallible call returns \<open>Inl\<close> the error or \<open>Inr\<close> the value.\<close>

type_synonym 'a result = "goerr + 'a"

definition err_of :: "'a result \<Rightarrow> goerr option" where
  "err_of r = (case r of Inl e \<Rightarrow> Some e | Inr _ \<Rightarrow> None)"

lemma err_of_simps [simp]:
  "err_of (Inl e) = Some e"
  "err_of (Inr v) = None"
  by (simp_all add: err_of_def)

section \<open>Tables\<close>

text \<open>
  A table is the list of its rows in row-id order (new rows go to the end, because every
  table uses \<open>AUTOINCREMENT\<close>).  \<open>update_where p f\<close> is \<open>UPDATE .. SET f WHERE p\<close>,
  \<open>delete_where p\<close> is \<open>DELETE .. WHERE p\<close>, and \<open>count_where p\<close> is both \<open>SELECT COUNT(*)\<close>
  and the \<open>RowsAffected\<close> of the other two.
\<close>

definition update_where :: "('r \<Rightarrow> bool) \<Rightarrow> ('r \<Rightarrow> 'r) \<Rightarrow> 'r list \<Rightarrow> 'r list" where
  "update_where p f t = map (\<lambda>r. if p r then f r else r) t"

definition delete_where :: "('r \<Rightarrow> bool) \<Rightarrow> 'r list \<Rightarrow> 'r list" where
  "delete_where p t = filter (\<lambda>r. \<not> p r) t"

definition count_where :: "('r \<Rightarrow> bool) \<Rightarrow> 'r list \<Rightarrow> int" where
  "count_where p t = int (length (filter p t))"

text \<open>\<open>first_where p\<close> reads the single row a unique key selects.\<close>

definition first_where :: "('r \<Rightarrow> bool) \<Rightarrow> 'r list \<Rightarrow> 'r option" where
  "first_where p t = find p t"

definition limit_rows :: "int \<Rightarrow> 'r list \<Rightarrow> 'r list" where
  "limit_rows n t = (if n > 0 then take (nat n) t else t)"

lemma set_update_where [table_simps]:
  "set (update_where p f t) = {if p r then f r else r | r. r \<in> set t}"
  by (auto simp: update_where_def)

lemma length_update_where [simp]: "length (update_where p f t) = length t"
  by (simp add: update_where_def)

lemma map_update_where_frame:
  "(\<And>r. r \<in> set t \<Longrightarrow> p r \<Longrightarrow> g (f r) = g r) \<Longrightarrow> map g (update_where p f t) = map g t"
  by (auto simp: update_where_def)

lemma update_where_none [simp]: "(\<And>r. r \<in> set t \<Longrightarrow> \<not> p r) \<Longrightarrow> update_where p f t = t"
  by (simp add: update_where_def map_idI)

lemma set_delete_where [simp, table_simps]: "set (delete_where p t) = {r \<in> set t. \<not> p r}"
  by (auto simp: delete_where_def)

lemma distinct_map_delete_where [intro]:
  "distinct (map g t) \<Longrightarrow> distinct (map g (delete_where p t))"
  by (simp add: delete_where_def distinct_map_filter)

lemma count_where_zero_iff: "count_where p t = 0 \<longleftrightarrow> (\<forall>r \<in> set t. \<not> p r)"
  by (simp add: count_where_def filter_empty_conv)

lemma count_where_nonneg [simp]: "0 \<le> count_where p t"
  by (simp add: count_where_def)

lemma count_where_cong:
  "(\<And>r. r \<in> set t \<Longrightarrow> p r = q r) \<Longrightarrow> count_where p t = count_where q t"
  unfolding count_where_def by (metis filter_cong)

lemma first_where_Some:
  "first_where p t = Some r \<Longrightarrow> r \<in> set t \<and> p r"
  by (auto simp: first_where_def find_Some_iff)

lemma first_where_None: "first_where p t = None \<longleftrightarrow> (\<forall>r \<in> set t. \<not> p r)"
  by (auto simp: first_where_def find_None_iff)

text \<open>A key that is distinct in the table selects exactly one row.\<close>

lemma distinct_key_unique:
  "distinct (map g t) \<Longrightarrow> r \<in> set t \<Longrightarrow> s \<in> set t \<Longrightarrow> g r = g s \<Longrightarrow> r = s"
  by (auto simp: distinct_map inj_on_def)

lemma first_where_key:
  assumes "distinct (map g t)" "r \<in> set t"
  shows "first_where (\<lambda>x. g x = g r) t = Some r"
proof (cases "first_where (\<lambda>x. g x = g r) t")
  case None
  with assms(2) show ?thesis by (auto simp: first_where_None)
next
  case (Some s)
  then have "s \<in> set t" "g s = g r" by (auto dest: first_where_Some)
  with assms have "s = r" by (auto intro: distinct_key_unique)
  with Some show ?thesis by simp
qed

lemma count_where_key:
  "distinct (map g t) \<Longrightarrow> r \<in> set t \<Longrightarrow> count_where (\<lambda>x. g x = g r) t = 1"
proof (induction t)
  case Nil
  then show ?case by simp
next
  case (Cons a t)
  show ?case
  proof (cases "a = r")
    case True
    with Cons.prems have "filter (\<lambda>x. g x = g r) t = []"
      by (auto simp: filter_empty_conv image_iff)
    with True show ?thesis by (simp add: count_where_def)
  next
    case False
    with Cons.prems have "r \<in> set t" "g a \<noteq> g r" by (auto simp: image_iff)
    with Cons show ?thesis by (simp add: count_where_def)
  qed
qed

lemma map_filter_mem: "x \<in> set t \<Longrightarrow> p x \<Longrightarrow> g x \<in> set (map g (filter p t))"
  by auto

text \<open>\<open>count_where_update\<close>: an update that makes its own guard false leaves nothing to update.\<close>

lemma count_where_update_done:
  "(\<And>r. p r \<Longrightarrow> \<not> p (f r)) \<Longrightarrow> count_where p (update_where p f t) = 0"
  by (auto simp: count_where_zero_iff update_where_def)

lemma find_append:
  "find p (xs @ [y]) = (case find p xs of None \<Rightarrow> if p y then Some y else None | Some x \<Rightarrow> Some x)"
  by (induction xs) auto

end
