(* ===== verification/Backoff.thy ===== *)
theory Backoff
  imports Prelude
begin

text \<open>
  \<^verbatim>\<open>internal/backoff/backoff.go\<close>: the retry-delay formula shared by the worker, the durable
  queue, the circuit breaker and the database retry helper.  The loop of \<open>Geometric\<close> is
  \<open>geometric_loop\<close>, with the doubling done in 64-bit arithmetic; the lemmas give its closed
  form, show that the doubling never wraps, and derive the bounds the callers rely on.
\<close>

section \<open>Constants\<close>

definition DefaultBase :: duration where "DefaultBase = minute"
definition DefaultMax :: duration where "DefaultMax = hour"
definition DefaultMissBase :: duration where "DefaultMissBase = 7 * 24 * hour"
definition DefaultMissCap :: duration where "DefaultMissCap = 28 * 24 * hour"

section \<open>The formula\<close>

text \<open>One turn of \<open>for i := 1; i < attempts; i++\<close>; Go's \<open>max/2\<close> is \<open>div\<close> because
  \<open>max\<close> is positive here.\<close>

function geometric_loop :: "int \<Rightarrow> int \<Rightarrow> duration \<Rightarrow> duration \<Rightarrow> duration" where
  "geometric_loop i attempts delay cap =
     (if i < attempts
      then (if delay \<ge> cap \<or> delay > cap div 2 then cap
            else geometric_loop (i + 1) attempts (wrap64 (delay * 2)) cap)
      else (if delay > cap then cap else delay))"
  by pat_completeness auto
termination
  by (relation "measure (\<lambda>(i, attempts, _, _). nat (attempts - i))") auto

declare geometric_loop.simps [simp del]

definition Geometric :: "int \<Rightarrow> duration \<Rightarrow> duration \<Rightarrow> duration" where
  "Geometric attempts base cap =
     (if base \<le> 0 \<or> cap \<le> 0 then 0
      else geometric_loop 1 (if attempts < 1 then 1 else attempts) base cap)"

definition MissCooldown :: "int \<Rightarrow> duration \<Rightarrow> duration \<Rightarrow> duration" where
  "MissCooldown missCount base cap = Geometric missCount base cap"

section \<open>Closed form\<close>

lemma doubling_in_range:
  "0 < delay \<Longrightarrow> \<not> delay > cap div 2 \<Longrightarrow> cap \<le> max_int64 \<Longrightarrow> wrap64 (delay * 2) = delay * 2"
  by (rule wrap64_id) auto

lemma geometric_loop_eq:
  assumes "0 < delay" "0 < cap" "cap \<le> max_int64"
  shows "geometric_loop i attempts delay cap = min cap (delay * 2 ^ nat (attempts - i))"
  using assms
proof (induction i attempts delay cap rule: geometric_loop.induct)
  case (1 i attempts delay cap)
  show ?case
  proof (cases "i < attempts")
    case False
    then show ?thesis by (simp add: geometric_loop.simps [of i] min_def)
  next
    case True
    define n where "n = nat (attempts - (i + 1))"
    then have n': "nat (attempts - (i + 1)) = n" by simp
    from True have n: "nat (attempts - i) = Suc n" unfolding n_def by linarith
    have pow: "(1::int) \<le> 2 ^ n" by simp
    show ?thesis
    proof (cases "delay \<ge> cap \<or> delay > cap div 2")
      case big: True
      then have "cap \<le> delay * 2" using "1.prems"(1,2) by auto
      also have "\<dots> \<le> delay * 2 * 2 ^ n"
        using pow "1.prems"(1) by (simp add: mult_le_cancel_left1)
      finally have "min cap (delay * 2 ^ nat (attempts - i)) = cap"
        using n by (simp add: min_def mult.assoc)
      with True big show ?thesis by (simp add: geometric_loop.simps [of i])
    next
      case False
      then have w: "wrap64 (delay * 2) = delay * 2"
        using "1.prems" by (auto intro: doubling_in_range)
      have "geometric_loop (i + 1) attempts (wrap64 (delay * 2)) cap
          = min cap (wrap64 (delay * 2) * 2 ^ nat (attempts - (i + 1)))"
        using "1.IH" [OF True False] "1.prems" w by simp
      then show ?thesis
        using True False w n n' by (simp add: geometric_loop.simps [of i] mult.assoc)
    qed
  qed
qed

lemma Geometric_closed:
  assumes "0 < base" "0 < cap" "cap \<le> max_int64"
  shows "Geometric attempts base cap = min cap (base * 2 ^ nat (attempts - 1))"
  using assms by (simp add: Geometric_def geometric_loop_eq)

lemma Geometric_bounds:
  assumes "0 < base" "0 < cap" "cap \<le> max_int64"
  shows "min base cap \<le> Geometric attempts base cap" "Geometric attempts base cap \<le> cap"
proof -
  have "base \<le> base * 2 ^ nat (attempts - 1)" using assms by simp
  then show "min base cap \<le> Geometric attempts base cap"
    unfolding Geometric_closed [OF assms] by linarith
  show "Geometric attempts base cap \<le> cap" using assms by (simp add: Geometric_closed)
qed

lemma Geometric_pos:
  "0 < base \<Longrightarrow> 0 < cap \<Longrightarrow> cap \<le> max_int64 \<Longrightarrow> 0 < Geometric attempts base cap"
  using Geometric_bounds(1) [of base cap attempts] by (auto simp: min_def split: if_splits)

lemma Geometric_nonneg: "cap \<le> max_int64 \<Longrightarrow> 0 \<le> Geometric attempts base cap"
  using Geometric_pos [of base cap attempts] by (cases "base \<le> 0 \<or> cap \<le> 0") (auto simp: Geometric_def)

lemma Geometric_mono:
  assumes "m \<le> n" "cap \<le> max_int64"
  shows "Geometric m base cap \<le> Geometric n base cap"
proof (cases "0 < base \<and> 0 < cap")
  case True
  then have "base * 2 ^ nat (m - 1) \<le> base * 2 ^ nat (n - 1)"
    using assms(1) by (simp add: power_increasing)
  moreover have "Geometric m base cap = min cap (base * 2 ^ nat (m - 1))"
    and "Geometric n base cap = min cap (base * 2 ^ nat (n - 1))"
    using True assms(2) by (simp_all add: Geometric_closed)
  ultimately show ?thesis by linarith
next
  case False
  then show ?thesis by (auto simp: Geometric_def)
qed

end
