(* ===== verification/Circuit.thy ===== *)
theory Circuit
  imports Backoff
begin

text \<open>
  \<^verbatim>\<open>internal/circuit/breaker.go\<close>: the circuit breaker of one provider lane.  A \<open>breaker\<close> is
  the struct without its mutex (every method runs its whole read-modify-write under the
  lock, so a method is one atomic step) and without its clock: a method that calls
  \<open>b.now()\<close> takes the instant as an argument, which is also how \<open>SetClock\<close> is covered.
  The lemmas relate the fields to the three-state machine the package comment describes and
  show the geometric throttle ramp.
\<close>

section \<open>State\<close>

datatype breaker_state = StateClosed | StateOpen | StateHalfOpen

record breaker =
  backoffBase :: duration
  openDuration :: duration
  openUntil :: "instant option"
  consecutiveTrips :: int
  probing :: bool
  everProviderSuccess :: bool

record trip_result =
  tr_trips :: int
  tr_window :: duration
  tr_open_until :: instant

section \<open>Operations\<close>

definition new_breaker :: "duration \<Rightarrow> duration \<Rightarrow> breaker" where
  "new_breaker base openD = \<lparr>backoffBase = base, openDuration = openD, openUntil = None,
     consecutiveTrips = 0, probing = False, everProviderSuccess = False\<rparr>"

definition SetBackoff :: "duration \<Rightarrow> duration \<Rightarrow> breaker \<Rightarrow> breaker" where
  "SetBackoff base cap b =
     (let b1 = (if base > 0 then b\<lparr>backoffBase := base\<rparr> else b)
      in (if cap > 0 then b1\<lparr>openDuration := cap\<rparr> else b1))"

definition SetOpenDuration :: "duration \<Rightarrow> breaker \<Rightarrow> breaker" where
  "SetOpenDuration d b = (if d > 0 then b\<lparr>openDuration := d\<rparr> else b)"

definition Allow :: "instant \<Rightarrow> breaker \<Rightarrow> breaker_state \<times> breaker" where
  "Allow now b =
     (case openUntil b of
        Some u \<Rightarrow>
          if now < u then (StateOpen, b)
          else (StateHalfOpen, b\<lparr>probing := True, openUntil := None\<rparr>)
      | None \<Rightarrow> (if probing b then StateHalfOpen else StateClosed, b))"

definition OpenUntil :: "breaker \<Rightarrow> instant option" where
  "OpenUntil b = openUntil b"

definition Trip :: "instant \<Rightarrow> breaker \<Rightarrow> trip_result \<times> breaker" where
  "Trip now b =
     (let trips = consecutiveTrips b + 1;
          window = Geometric trips (backoffBase b) (openDuration b);
          u = now + window
      in (\<lparr>tr_trips = trips, tr_window = window, tr_open_until = u\<rparr>,
          b\<lparr>consecutiveTrips := trips, openUntil := Some u, probing := False\<rparr>))"

definition TripRenewal :: "instant \<Rightarrow> breaker \<Rightarrow> trip_result \<times> breaker" where
  "TripRenewal now b =
     (let u = now + openDuration b
      in (\<lparr>tr_trips = consecutiveTrips b, tr_window = openDuration b, tr_open_until = u\<rparr>,
          b\<lparr>openUntil := Some u, probing := False\<rparr>))"

definition RecordSuccess :: "breaker \<Rightarrow> bool \<times> breaker" where
  "RecordSuccess b =
     (probing b, b\<lparr>everProviderSuccess := True, consecutiveTrips := 0, probing := False\<rparr>)"

definition RecordBenignMiss :: "breaker \<Rightarrow> bool \<times> breaker" where
  "RecordBenignMiss b = (probing b, b\<lparr>consecutiveTrips := 0, probing := False\<rparr>)"

definition Trips :: "breaker \<Rightarrow> int" where
  "Trips b = consecutiveTrips b"

definition EverSucceeded :: "breaker \<Rightarrow> bool" where
  "EverSucceeded b = everProviderSuccess b"

lemmas breaker_defs =
  new_breaker_def SetBackoff_def SetOpenDuration_def Allow_def OpenUntil_def Trip_def
  TripRenewal_def RecordSuccess_def RecordBenignMiss_def Trips_def EverSucceeded_def

section \<open>Steps and reachable breakers\<close>

text \<open>One method call, and the breaker after a sequence of calls.\<close>

datatype breaker_op =
    OpAllow instant
  | OpTrip instant
  | OpTripRenewal instant
  | OpRecordSuccess
  | OpRecordBenignMiss
  | OpSetBackoff duration duration
  | OpSetOpenDuration duration

fun breaker_step :: "breaker_op \<Rightarrow> breaker \<Rightarrow> breaker" where
  "breaker_step (OpAllow t) b = snd (Allow t b)"
| "breaker_step (OpTrip t) b = snd (Trip t b)"
| "breaker_step (OpTripRenewal t) b = snd (TripRenewal t b)"
| "breaker_step OpRecordSuccess b = snd (RecordSuccess b)"
| "breaker_step OpRecordBenignMiss b = snd (RecordBenignMiss b)"
| "breaker_step (OpSetBackoff x y) b = SetBackoff x y b"
| "breaker_step (OpSetOpenDuration d) b = SetOpenDuration d b"

definition breaker_run :: "breaker_op list \<Rightarrow> breaker \<Rightarrow> breaker" where
  "breaker_run ops b = fold breaker_step ops b"

text \<open>The well-formedness the constructors and setters establish: positive windows, a
  non-negative ramp, and never both an open window and a probe.\<close>

definition wf_breaker :: "breaker \<Rightarrow> bool" where
  "wf_breaker b \<longleftrightarrow> 0 < backoffBase b \<and> 0 < openDuration b \<and> 0 \<le> consecutiveTrips b
     \<and> \<not> (probing b \<and> openUntil b \<noteq> None)"

lemma wf_new_breaker: "0 < base \<Longrightarrow> 0 < openD \<Longrightarrow> wf_breaker (new_breaker base openD)"
  by (simp add: wf_breaker_def new_breaker_def)

lemma wf_breaker_step: "wf_breaker b \<Longrightarrow> wf_breaker (breaker_step oper b)"
  by (cases oper) (auto simp: wf_breaker_def breaker_defs Let_def split: option.splits)

lemma wf_breaker_run: "wf_breaker b \<Longrightarrow> wf_breaker (breaker_run ops b)"
  unfolding breaker_run_def by (induction ops arbitrary: b) (auto intro: wf_breaker_step)

text \<open>\<open>EverSucceeded\<close> is latched: no operation clears it.\<close>

lemma ever_succeeded_step: "everProviderSuccess b \<Longrightarrow> everProviderSuccess (breaker_step oper b)"
  by (cases oper) (auto simp: breaker_defs Let_def split: option.splits)

lemma ever_succeeded_run: "everProviderSuccess b \<Longrightarrow> everProviderSuccess (breaker_run ops b)"
  unfolding breaker_run_def by (induction ops arbitrary: b) (auto intro: ever_succeeded_step)

section \<open>The abstract machine\<close>

text \<open>
  The package comment's machine: closed, open until an instant, half-open.  \<open>phase_step\<close>
  has one rule per transition; the clock of the transition is the call's instant.
\<close>

datatype phase = Closed | Open instant | HalfOpen

definition phase_of :: "breaker \<Rightarrow> phase" where
  "phase_of b =
     (case openUntil b of Some u \<Rightarrow> Open u | None \<Rightarrow> (if probing b then HalfOpen else Closed))"

inductive phase_step :: "breaker_op \<Rightarrow> phase \<Rightarrow> phase \<Rightarrow> bool" where
  stay_open: "t < u \<Longrightarrow> phase_step (OpAllow t) (Open u) (Open u)"
| elapse: "u \<le> t \<Longrightarrow> phase_step (OpAllow t) (Open u) HalfOpen"
| allow_closed: "phase_step (OpAllow t) Closed Closed"
| allow_half: "phase_step (OpAllow t) HalfOpen HalfOpen"
| trip: "t < u \<Longrightarrow> phase_step (OpTrip t) p (Open u)"
| renew: "t < u \<Longrightarrow> phase_step (OpTripRenewal t) p (Open u)"
| success_probe: "phase_step OpRecordSuccess HalfOpen Closed"
| success_closed: "phase_step OpRecordSuccess Closed Closed"
| success_open: "phase_step OpRecordSuccess (Open u) (Open u)"
| miss_probe: "phase_step OpRecordBenignMiss HalfOpen Closed"
| miss_closed: "phase_step OpRecordBenignMiss Closed Closed"
| miss_open: "phase_step OpRecordBenignMiss (Open u) (Open u)"
| backoff: "phase_step (OpSetBackoff x y) p p"
| opendur: "phase_step (OpSetOpenDuration d) p p"

inductive_cases phase_from_open: "phase_step oper (Open u) q"
inductive_simps phase_allow_simps:
  "phase_step (OpAllow t) Closed q" "phase_step (OpAllow t) HalfOpen q"

lemma phase_refines:
  assumes "wf_breaker b" "openDuration b \<le> max_int64"
  shows "phase_step oper (phase_of b) (phase_of (breaker_step oper b))"
proof (cases oper)
  case (OpTrip t)
  have "0 < Geometric (consecutiveTrips b + 1) (backoffBase b) (openDuration b)"
    using assms by (intro Geometric_pos) (auto simp: wf_breaker_def)
  with OpTrip show ?thesis
    by (auto simp: Trip_def phase_of_def Let_def intro: phase_step.intros)
next
  case (OpTripRenewal t)
  with assms show ?thesis
    by (auto simp: TripRenewal_def phase_of_def wf_breaker_def Let_def intro: phase_step.intros)
qed (use assms in \<open>auto simp: breaker_defs phase_of_def wf_breaker_def Let_def
      intro: phase_step.intros split: option.splits\<close>)

section \<open>The throttle ramp\<close>

text \<open>\<open>n\<close> throttle trips in a row (at the instants of \<open>ts\<close>), with nothing in between that
  resets the ramp, advance it by \<open>n\<close>.\<close>

lemma trips_after_run:
  "consecutiveTrips (breaker_run (map OpTrip ts) b) = consecutiveTrips b + int (length ts)"
  unfolding breaker_run_def
  by (induction ts arbitrary: b) (auto simp: Trip_def Let_def)

lemma trip_params:
  "backoffBase (breaker_run (map OpTrip ts) b) = backoffBase b"
  "openDuration (breaker_run (map OpTrip ts) b) = openDuration b"
  unfolding breaker_run_def
  by (induction ts arbitrary: b) (auto simp: Trip_def Let_def)

lemma Trip_window:
  assumes "wf_breaker b" "openDuration b \<le> max_int64"
  shows "tr_window (fst (Trip t b))
       = min (openDuration b) (backoffBase b * 2 ^ nat (consecutiveTrips b))"
  using assms by (simp add: Trip_def Let_def wf_breaker_def Geometric_closed)

section \<open>Properties\<close>

text \<open>A tripped breaker refuses every call until its window has elapsed, refusing changes
  nothing, and the first call at or after the end of the window is let through as a
  half-open probe, as is every later one until an outcome is recorded.\<close>

theorem trip_then_allow:
  assumes "wf_breaker b" "openDuration b \<le> max_int64" "Trip t b = (r, b')"
  shows "t < tr_open_until r \<and> tr_open_until r \<le> t + openDuration b
    \<and> (now < tr_open_until r \<longrightarrow> Allow now b' = (StateOpen, b'))
    \<and> (tr_open_until r \<le> now \<longrightarrow> fst (Allow now b') = StateHalfOpen
         \<and> Allow later (snd (Allow now b')) = (StateHalfOpen, snd (Allow now b')))"
proof -
  have "0 < Geometric (consecutiveTrips b + 1) (backoffBase b) (openDuration b)"
    using assms by (intro Geometric_pos) (auto simp: wf_breaker_def)
  moreover have "Geometric (consecutiveTrips b + 1) (backoffBase b) (openDuration b) \<le> openDuration b"
    using assms by (intro Geometric_bounds) (auto simp: wf_breaker_def)
  ultimately show ?thesis
    using assms(3) by (auto simp: Trip_def Allow_def Let_def)
qed

theorem trip_then_allow_witness:
  "let b' = snd (Trip 5 (new_breaker (60 * second) (30 * minute))) in
     Allow 6 b' = (StateOpen, b') \<and> fst (Allow (5 + 60 * second) b') = StateHalfOpen"
proof -
  let ?b = "new_breaker (60 * second) (30 * minute)"
  have wf: "wf_breaker ?b" "openDuration ?b \<le> max_int64"
    by (simp_all add: new_breaker_def wf_breaker_def)
  have u: "tr_open_until (fst (Trip 5 ?b)) = 5 + 60 * second"
    by (simp add: Trip_def Let_def new_breaker_def Geometric_closed)
  show ?thesis
    using trip_then_allow [OF wf prod.collapse [symmetric, of "Trip 5 ?b"], of 6 6]
      trip_then_allow [OF wf prod.collapse [symmetric, of "Trip 5 ?b"], of "5 + 60 * second" 6]
    unfolding u Let_def by simp
qed

text \<open>The window of the k-th throttle trip in a row is the base doubled k-1 times and
  capped at the open duration; a renewal trip in between opens for the full cap and leaves
  the ramp where it was, while a success or a benign miss sends it back to the base.\<close>

theorem throttle_ramp:
  assumes "wf_breaker b" "openDuration b \<le> max_int64" "consecutiveTrips b = 0"
    and b': "b' = breaker_run (map OpTrip ts) b"
  shows "tr_window (fst (Trip t b')) = min (openDuration b) (backoffBase b * 2 ^ length ts)
    \<and> tr_window (fst (TripRenewal t b')) = openDuration b
    \<and> tr_window (fst (Trip t' (snd (TripRenewal t b')))) = tr_window (fst (Trip t' b'))
    \<and> tr_window (fst (Trip t (snd (RecordSuccess b')))) = min (openDuration b) (backoffBase b)
    \<and> tr_window (fst (Trip t (snd (RecordBenignMiss b')))) = min (openDuration b) (backoffBase b)"
proof -
  have wf: "wf_breaker b'" unfolding b' using assms(1) by (rule wf_breaker_run)
  have par: "backoffBase b' = backoffBase b" "openDuration b' = openDuration b"
    and k: "consecutiveTrips b' = int (length ts)"
    using assms(3) by (simp_all add: b' trip_params trips_after_run)
  have "tr_window (fst (Trip t b')) = min (openDuration b) (backoffBase b * 2 ^ length ts)"
    using Trip_window [OF wf] assms(2) par k by simp
  moreover have "tr_window (fst (TripRenewal t b')) = openDuration b"
    by (simp add: TripRenewal_def Let_def par)
  moreover have "tr_window (fst (Trip t' (snd (TripRenewal t b')))) = tr_window (fst (Trip t' b'))"
    by (simp add: Trip_def TripRenewal_def Let_def)
  moreover have "tr_window (fst (Trip t (snd (RecordSuccess b')))) = min (openDuration b) (backoffBase b)"
    and "tr_window (fst (Trip t (snd (RecordBenignMiss b')))) = min (openDuration b) (backoffBase b)"
    using wf assms(2) par
    by (simp_all add: Trip_def RecordSuccess_def RecordBenignMiss_def Let_def Geometric_closed
        wf_breaker_def)
  ultimately show ?thesis by blast
qed

theorem throttle_ramp_witness:
  "tr_window (fst (Trip 9 (breaker_run (map OpTrip [1, 2, 3])
      (new_breaker (60 * second) (30 * minute))))) = 480 * second"
  using throttle_ramp [of "new_breaker (60 * second) (30 * minute)"
      "breaker_run (map OpTrip [1, 2, 3]) (new_breaker (60 * second) (30 * minute))" "[1, 2, 3]" 9 9]
  by (simp add: new_breaker_def wf_breaker_def)

text \<open>C19. Refinement: from a breaker with positive parameters, any sequence of method calls
  keeps the fields consistent, and each call is a transition of the closed / open /
  half-open machine.\<close>

theorem breaker_refines_machine:
  assumes "0 < base" "0 < cap"
    and "b = breaker_run ops (new_breaker base cap)" "openDuration b \<le> max_int64"
  shows "wf_breaker b \<and> phase_step oper (phase_of b) (phase_of (breaker_step oper b))"
proof -
  have wf: "wf_breaker b"
    unfolding assms(3) using assms(1,2) by (intro wf_breaker_run wf_new_breaker)
  with assms(4) show ?thesis by (blast intro: phase_refines)
qed

theorem breaker_refines_machine_witness:
  "phase_step (OpAllow (2 * minute)) (Open (61 * second)) HalfOpen"
  using breaker_refines_machine [of "60 * second" "30 * minute"
      "breaker_run [OpTrip second] (new_breaker (60 * second) (30 * minute))" "[OpTrip second]"
      "OpAllow (2 * minute)"]
  by (simp add: breaker_run_def breaker_defs Let_def Geometric_closed phase_of_def)

end
