(* ===== verification/Models.thy ===== *)
theory Models
  imports Complex_Main Prelude
begin

text \<open>
  \<^verbatim>\<open>internal/models/models.go\<close>: the data every component passes around.  A Go string is a
  \<open>string\<close> (its UTF-8 bytes), an \<open>int\<close> or \<open>int64\<close> an \<open>int\<close>, a \<open>*bool\<close> a
  \<open>bool option\<close>, a \<open>float64\<close> the rational it denotes, and the zero value of a struct is a
  named constant where the code uses it.
\<close>

record track =
  TrackName :: string
  ArtistName :: string
  AlbumName :: string
  AlbumArtist :: string
  TrackLength :: int
  Instrumental :: int
  HasLyrics :: int
  HasSubtitles :: int
  ISRC :: string
  SpotifyID :: string
  RecordingMBID :: string

definition zero_track :: track where
  "zero_track = \<lparr>TrackName = [], ArtistName = [], AlbumName = [], AlbumArtist = [],
     TrackLength = 0, Instrumental = 0, HasLyrics = 0, HasSubtitles = 0, ISRC = [],
     SpotifyID = [], RecordingMBID = []\<rparr>"

record lrc_time =
  Total :: rat
  Minutes :: int
  Seconds :: int
  Hundredths :: int

record lrc_line =
  Text :: string
  Time :: lrc_time

record lane_attempt =
  la_Lane :: string
  la_Hit :: bool

text \<open>\<open>Lyrics\<close> and \<open>Synced\<close> are one-field structs and are modelled by that field.\<close>

record song =
  Track :: track
  LyricsBody :: string
  Subtitles :: "lrc_line list"
  TranslationSubtitles :: "lrc_line list"
  RomanizationSubtitles :: "lrc_line list"
  WinningLane :: string
  LaneAttempts :: "lane_attempt list"
  FetchedAt :: "instant option"

definition zero_song :: song where
  "zero_song = \<lparr>Track = zero_track, LyricsBody = [], Subtitles = [], TranslationSubtitles = [],
     RomanizationSubtitles = [], WinningLane = [], LaneAttempts = [], FetchedAt = None\<rparr>"

record output_path =
  op_Outdir :: string
  op_Filename :: string

record inputs =
  in_Track :: track
  in_Outdir :: string
  in_Filename :: string
  in_SourcePath :: string
  in_OutputPaths :: "output_path list"
  in_ScanResultID :: int
  in_DetectInstrumental :: "bool option"

definition zero_inputs :: inputs where
  "zero_inputs = \<lparr>in_Track = zero_track, in_Outdir = [], in_Filename = [], in_SourcePath = [],
     in_OutputPaths = [], in_ScanResultID = 0, in_DetectInstrumental = None\<rparr>"

record library =
  lib_ID :: int
  lib_Path :: string
  lib_Name :: string
  lib_CreatedAt :: string
  lib_UpdatedAt :: string
  lib_EnrichRecording :: "bool option"
  lib_DetectInstrumental :: "bool option"

text \<open>A timestamp field is \<open>None\<close> when its text is empty.\<close>

record scan_result =
  res_ID :: int
  res_LibraryID :: int
  res_FilePath :: string
  res_Track :: track
  res_Outdir :: string
  res_Filename :: string
  res_Status :: string
  res_CreatedAt :: "stamp option"
  res_UpdatedAt :: "stamp option"

end
