(* ===== verification/Orchestrator.thy ===== *)
theory Orchestrator
  imports Circuit Models
begin

text \<open>
  \<^verbatim>\<open>internal/orchestrator\<close>: outcome classes and their precedence (\<^verbatim>\<open>errors.go\<close>), lyric quality and
  suitability (\<^verbatim>\<open>suitability.go\<close>), the lane that wraps one provider with its breaker
  (\<^verbatim>\<open>lane.go\<close>), ordered dispatch (\<^verbatim>\<open>orchestrator.go\<close>) and parallel dispatch (\<^verbatim>\<open>parallel.go\<close>).
  A provider is outside the model: for one dispatch, a \<open>lane_env\<close> says what the provider would
  answer, which clock readings the breaker sees, and what \<open>ctx.Err()\<close> returns just before the
  lane.  The field \<open>ln_calls\<close> counts provider calls so that "was not called" can be stated.
\<close>

section \<open>Outcome classes\<close>

datatype outcome_class =
    OutcomeSuccess | OutcomeBenignMiss | OutcomeTransport | OutcomeAuthRateLimit | OutcomeUnavailable

definition IsBenignMiss :: "goerr \<Rightarrow> bool" where
  "IsBenignMiss e \<longleftrightarrow> errors_is e MxNotFound \<or> errors_is e MxNoLyrics"

definition is_throttle :: "goerr \<Rightarrow> bool" where
  "is_throttle e \<longleftrightarrow> errors_is e MxRateLimited \<or> errors_is e MxUnauthorized \<or> errors_is e MxTruncatedResponse"

definition ClassifyOutcome :: "goerr option \<Rightarrow> outcome_class" where
  "ClassifyOutcome err =
     (case err of None \<Rightarrow> OutcomeSuccess
      | Some e \<Rightarrow>
          if errors_is e ErrLaneUnavailable then OutcomeUnavailable
          else if errors_is e MxTokenRenewalRequired \<or> errors_is e MxUnauthorized
            \<or> errors_is e MxRateLimited \<or> errors_is e MxTruncatedResponse then OutcomeAuthRateLimit
          else if IsBenignMiss e then OutcomeBenignMiss
          else OutcomeTransport)"

fun precedence :: "outcome_class \<Rightarrow> int" where
  "precedence OutcomeSuccess = 0"
| "precedence OutcomeBenignMiss = 1"
| "precedence OutcomeTransport = 2"
| "precedence OutcomeAuthRateLimit = 3"
| "precedence OutcomeUnavailable = 3"

section \<open>Quality and suitability\<close>

datatype quality = QualityNone | QualityInstrumental | QualityUnsynced | QualitySynced

fun quality_rank :: "quality \<Rightarrow> nat" where
  "quality_rank QualityNone = 0"
| "quality_rank QualityInstrumental = 1"
| "quality_rank QualityUnsynced = 2"
| "quality_rank QualitySynced = 3"

lemma quality_rank_inj [simp]: "quality_rank a = quality_rank b \<longleftrightarrow> a = b"
  by (cases a; cases b) simp_all

instantiation quality :: linorder
begin

definition less_eq_quality :: "quality \<Rightarrow> quality \<Rightarrow> bool" where
  "less_eq_quality a b \<longleftrightarrow> quality_rank a \<le> quality_rank b"

definition less_quality :: "quality \<Rightarrow> quality \<Rightarrow> bool" where
  "less_quality a b \<longleftrightarrow> quality_rank a < quality_rank b"

instance
  by standard (auto simp: less_eq_quality_def less_quality_def)

end

definition QualityOf :: "song \<Rightarrow> quality" where
  "QualityOf s =
     (if length (Subtitles s) > 0 then QualitySynced
      else if LyricsBody s \<noteq> [] then QualityUnsynced
      else if Instrumental (Track s) = 1 then QualityInstrumental
      else QualityNone)"

text \<open>A \<open>ScriptGuard\<close> is its two methods; a nil guard is \<open>None\<close>.\<close>

record script_guard =
  sg_Accept :: "song \<Rightarrow> bool \<times> string"
  sg_Enabled :: bool

definition IsSuitable :: "song \<Rightarrow> script_guard option \<Rightarrow> bool" where
  "IsSuitable s g =
     (if QualityOf s < QualityUnsynced then False
      else case g of None \<Rightarrow> True
           | Some gd \<Rightarrow> if sg_Enabled gd then fst (sg_Accept gd s) else True)"

section \<open>Lanes\<close>

datatype pacer_event = OnThrottle | OnSuccess

record lane =
  ln_name :: string
  ln_breaker :: breaker
  ln_adaptive :: bool
  ln_pacer :: "pacer_event list"
  ln_calls :: nat

record lane_env =
  le_ctx :: "goerr option"
  le_allow_at :: instant
  le_reply :: "song result"
  le_trip_at :: instant

definition NewLane :: "string \<Rightarrow> bool \<Rightarrow> breaker \<Rightarrow> lane" where
  "NewLane name adaptive b =
     \<lparr>ln_name = name, ln_breaker = b, ln_adaptive = adaptive, ln_pacer = [], ln_calls = 0\<rparr>"

definition lane_unavailable :: goerr where
  "lane_unavailable =
     GoErr ''orchestrator: lane unavailable (circuit open)'' [ErrLaneUnavailable]"

definition notify :: "pacer_event \<Rightarrow> lane \<Rightarrow> lane" where
  "notify ev l = (if ln_adaptive l then l\<lparr>ln_pacer := ln_pacer l @ [ev]\<rparr> else l)"

text \<open>\<open>classify\<close> returns the error to surface and the lane with its breaker driven.\<close>

definition classify :: "instant \<Rightarrow> goerr \<Rightarrow> lane \<Rightarrow> goerr \<times> lane" where
  "classify t e l =
     (if errors_is e MxTokenRenewalRequired then
        (e, l\<lparr>ln_breaker := snd (TripRenewal t (ln_breaker l))\<rparr>)
      else if is_throttle e then
        (let l1 = l\<lparr>ln_breaker := snd (Trip t (ln_breaker l))\<rparr>
         in (e, if errors_is e MxRateLimited \<or> errors_is e MxTruncatedResponse
                   \<or> (errors_is e MxUnauthorized \<and> EverSucceeded (ln_breaker l1))
                then notify OnThrottle l1 else l1))
      else if IsBenignMiss e then
        (e, l\<lparr>ln_breaker := snd (RecordBenignMiss (ln_breaker l))\<rparr>)
      else (wrapf (''lane '' @ ln_name l @ '': find lyrics'') e, l))"

definition lane_FindLyrics :: "lane_env \<Rightarrow> lane \<Rightarrow> song result \<times> lane" where
  "lane_FindLyrics env l =
     (let (st, b) = Allow (le_allow_at env) (ln_breaker l); l1 = l\<lparr>ln_breaker := b\<rparr>
      in if st = StateOpen then (Inl lane_unavailable, l1)
         else
           let l2 = l1\<lparr>ln_calls := ln_calls l1 + 1\<rparr>
           in case le_reply env of
                Inl e \<Rightarrow> (let (e', l3) = classify (le_trip_at env) e l2 in (Inl e', l3))
              | Inr s \<Rightarrow>
                  (Inr s, notify OnSuccess
                     (l2\<lparr>ln_breaker := snd (RecordSuccess (ln_breaker l2))\<rparr>)))"

section \<open>Dispatch results\<close>

type_synonym fetch_result = "song \<times> goerr option"

definition laneAttemptsFor :: "string list \<Rightarrow> string \<Rightarrow> lane_attempt list" where
  "laneAttemptsFor attempted winner =
     map (\<lambda>n. \<lparr>la_Lane = n, la_Hit = (n = winner)\<rparr>) attempted"

record dispatch_result =
  bestSong :: song
  bestLane :: string
  haveBest :: bool
  bestQuality :: quality
  topErr :: "goerr option"
  topClass :: outcome_class
  consulted :: nat

definition zero_dispatch :: dispatch_result where
  "zero_dispatch = \<lparr>bestSong = zero_song, bestLane = [], haveBest = False, bestQuality = QualityNone,
     topErr = None, topClass = OutcomeSuccess, consulted = 0\<rparr>"

definition retain :: "song \<Rightarrow> string \<Rightarrow> dispatch_result \<Rightarrow> dispatch_result" where
  "retain s n r =
     (if \<not> haveBest r \<or> QualityOf s > bestQuality r
      then r\<lparr>bestSong := s, bestQuality := QualityOf s, haveBest := True, bestLane := n\<rparr> else r)"

definition rankErr :: "goerr \<Rightarrow> outcome_class \<Rightarrow> dispatch_result \<Rightarrow> dispatch_result" where
  "rankErr e c r =
     (if topErr r = None \<or> precedence c > precedence (topClass r)
      then r\<lparr>topErr := Some e, topClass := c\<rparr> else r)"

text \<open>\<open>resolve\<close> with the number of lanes and what \<open>ctx.Err()\<close> returns in it.\<close>

definition resolve :: "nat \<Rightarrow> goerr option \<Rightarrow> dispatch_result \<Rightarrow> fetch_result" where
  "resolve n ctx r =
     (if haveBest r then ((bestSong r)\<lparr>WinningLane := bestLane r\<rparr>, None)
      else if consulted r = 0 \<and> n > 0 then
        (case ctx of Some e \<Rightarrow> (zero_song, Some e) | None \<Rightarrow> (zero_song, Some lane_unavailable))
      else case topErr r of Some e \<Rightarrow> (zero_song, Some e) | None \<Rightarrow> (zero_song, Some lane_unavailable))"

section \<open>Ordered dispatch\<close>

definition attribute :: "string list \<Rightarrow> string \<Rightarrow> song \<Rightarrow> song" where
  "attribute attempted winner s =
     s\<lparr>WinningLane := winner, LaneAttempts := laneAttemptsFor attempted winner\<rparr>"

text \<open>The loop over the lanes: \<open>Inl\<close> is an early return, \<open>Inr\<close> the accumulators after the last
  lane; the lanes come back in their order.\<close>

fun ordered_loop :: "script_guard option \<Rightarrow> (lane \<times> lane_env) list \<Rightarrow> dispatch_result \<Rightarrow> string list
    \<Rightarrow> (fetch_result + (dispatch_result \<times> string list)) \<times> lane list" where
  "ordered_loop g [] r att = (Inr (r, att), [])"
| "ordered_loop g ((l, env) # ls) r att =
     (case le_ctx env of
        Some e \<Rightarrow> (Inl (zero_song, Some e), l # map fst ls)
      | None \<Rightarrow>
          let (res, l') = lane_FindLyrics env l; c = ClassifyOutcome (err_of res)
          in if c = OutcomeUnavailable then
               (let (x, ls') = ordered_loop g ls r att in (x, l' # ls'))
             else
               let r1 = r\<lparr>consulted := consulted r + 1\<rparr>; att1 = att @ [ln_name l]
               in case res of
                    Inr s \<Rightarrow>
                      if IsSuitable s g then
                        (Inl (attribute att1 (ln_name l) s, None), l' # map fst ls)
                      else (let (x, ls') = ordered_loop g ls (retain s (ln_name l) r1) att1
                            in (x, l' # ls'))
                  | Inl e \<Rightarrow> (let (x, ls') = ordered_loop g ls (rankErr e c r1) att1 in (x, l' # ls')))"

definition findOrdered :: "script_guard option \<Rightarrow> (lane \<times> lane_env) list \<Rightarrow> goerr option
    \<Rightarrow> fetch_result \<times> lane list" where
  "findOrdered g ls ctx_end =
     (case ordered_loop g ls zero_dispatch [] of
        (Inl res, ls') \<Rightarrow> (res, ls')
      | (Inr (r, att), ls') \<Rightarrow>
          (let (s, err) = resolve (length ls) ctx_end r
           in ((s\<lparr>LaneAttempts := laneAttemptsFor att (WinningLane s)\<rparr>, err), ls')))"

section \<open>Parallel dispatch\<close>

text \<open>
  Every lane runs \<open>FindLyrics\<close> in its own goroutine and sends one result; the collector's
  \<open>select\<close> takes one ready event per turn.  An execution of the collector is the sequence of
  events it takes: the parent context is done, a lane's result is received, or the upgrade timer
  fires; the last two carry what \<open>ctx.Err()\<close> returns if that turn asks for it.
\<close>

record lane_result =
  lr_song :: song
  lr_err :: "goerr option"
  lr_name :: string

datatype par_event =
    CtxDone goerr
  | Received lane_result "goerr option"
  | UpgradeFired "goerr option"

record par_state =
  ps_r :: dispatch_result
  ps_held :: "(song \<times> string) option"
  ps_upgrade :: bool
  ps_pending :: nat
  ps_consulted :: "string list"

definition par_init :: "nat \<Rightarrow> par_state" where
  "par_init n = \<lparr>ps_r = zero_dispatch, ps_held = None, ps_upgrade = False, ps_pending = n,
     ps_consulted = []\<rparr>"

definition held_result :: "par_state \<Rightarrow> fetch_result" where
  "held_result p =
     (case ps_held p of
        Some (s, n) \<Rightarrow> (attribute (ps_consulted p) n s, None)
      | None \<Rightarrow> (attribute (ps_consulted p) [] zero_song, None))"

text \<open>The body of the \<open>case res := <-results\<close> arm up to the test of \<open>pending\<close>: \<open>Inl\<close> is the
  commit of a synced winner.\<close>

definition par_receive :: "script_guard option \<Rightarrow> lane_result \<Rightarrow> par_state \<Rightarrow> fetch_result + par_state" where
  "par_receive g res p =
     (let p1 = p\<lparr>ps_pending := ps_pending p - 1\<rparr>; c = ClassifyOutcome (lr_err res)
      in if (case lr_err res of Some e \<Rightarrow> errors_is e CtxCanceled | None \<Rightarrow> False) then Inr p1
         else if c = OutcomeUnavailable then Inr p1
         else
           let p2 = p1\<lparr>ps_r := (ps_r p1)\<lparr>consulted := consulted (ps_r p1) + 1\<rparr>,
                       ps_consulted := ps_consulted p1 @ [lr_name res]\<rparr>
           in case lr_err res of
                Some e \<Rightarrow> Inr (p2\<lparr>ps_r := rankErr e c (ps_r p2)\<rparr>)
              | None \<Rightarrow>
                  if IsSuitable (lr_song res) g then
                    (if QualityOf (lr_song res) \<ge> QualitySynced
                     then Inl (attribute (ps_consulted p2) (lr_name res) (lr_song res), None)
                     else Inr (p2\<lparr>ps_held := (case ps_held p2 of None \<Rightarrow> Some (lr_song res, lr_name res)
                                              | Some h \<Rightarrow> Some h),
                                  ps_upgrade := (ps_upgrade p2 \<or> ps_pending p2 > 0)\<rparr>))
                  else Inr (p2\<lparr>ps_r := retain (lr_song res) (lr_name res) (ps_r p2)\<rparr>))"

text \<open>The commit once every lane has reported.\<close>

definition par_finish :: "nat \<Rightarrow> goerr option \<Rightarrow> par_state \<Rightarrow> fetch_result" where
  "par_finish n ctx p =
     (case ctx of
        Some e \<Rightarrow> (zero_song, Some e)
      | None \<Rightarrow>
          if ps_held p \<noteq> None then held_result p
          else (let (s, err) = resolve n ctx (ps_r p)
                in (s\<lparr>LaneAttempts := laneAttemptsFor (ps_consulted p) (WinningLane s)\<rparr>, err)))"

definition par_step :: "nat \<Rightarrow> script_guard option \<Rightarrow> par_event \<Rightarrow> par_state \<Rightarrow> fetch_result + par_state" where
  "par_step n g ev p =
     (case ev of
        CtxDone e \<Rightarrow> Inl (zero_song, Some e)
      | Received res ctx \<Rightarrow>
          (case par_receive g res p of
             Inl out \<Rightarrow> Inl out
           | Inr p' \<Rightarrow> if ps_pending p' = 0 then Inl (par_finish n ctx p') else Inr p')
      | UpgradeFired ctx \<Rightarrow>
          (if \<not> ps_upgrade p then Inr p
           else case ctx of Some e \<Rightarrow> Inl (zero_song, Some e) | None \<Rightarrow> Inl (held_result p)))"

fun par_run :: "nat \<Rightarrow> script_guard option \<Rightarrow> par_event list \<Rightarrow> par_state \<Rightarrow> fetch_result option" where
  "par_run n g [] p = None"
| "par_run n g (ev # evs) p =
     (case par_step n g ev p of Inl out \<Rightarrow> Some out | Inr p' \<Rightarrow> par_run n g evs p')"

text \<open>The result a lane's goroutine sends, and an execution over given lanes.  Every launched
  goroutine runs its lane to the end, so every lane is driven, committed or not.\<close>

definition lane_result_of :: "lane \<times> lane_env \<Rightarrow> lane_result" where
  "lane_result_of le =
     (case lane_FindLyrics (snd le) (fst le) of
        (Inl e, _) \<Rightarrow> \<lparr>lr_song = zero_song, lr_err = Some e, lr_name = ln_name (fst le)\<rparr>
      | (Inr s, _) \<Rightarrow> \<lparr>lr_song = s, lr_err = None, lr_name = ln_name (fst le)\<rparr>)"

definition findParallel :: "script_guard option \<Rightarrow> (lane \<times> lane_env) list \<Rightarrow> goerr option
    \<Rightarrow> par_event list \<Rightarrow> fetch_result option \<times> lane list" where
  "findParallel g ls ctx_start evs =
     (case ctx_start of
        Some e \<Rightarrow> (Some (zero_song, Some e), map fst ls)
      | None \<Rightarrow> (par_run (length ls) g evs (par_init (length ls)),
                 map (\<lambda>(l, env). snd (lane_FindLyrics env l)) ls))"

section \<open>The orchestrator\<close>

definition ModeOrdered :: string where "ModeOrdered = ''ordered''"
definition ModeParallel :: string where "ModeParallel = ''parallel''"
definition DefaultRaceWait :: duration where "DefaultRaceWait = 2 * second"

record orchestrator =
  or_lanes :: "lane list"
  or_guard :: "script_guard option"
  or_mode :: string
  or_raceWait :: duration

text \<open>The \<open>%q\<close> verb, for text without characters it would escape.\<close>

definition quoted :: "string \<Rightarrow> string" where
  "quoted s = ''\"'' @ s @ ''\"''"

definition NewOrchestrator :: "string \<Rightarrow> lane option list \<Rightarrow> orchestrator result" where
  "NewOrchestrator mode lanes =
     (let m = (if mode = [] then ModeOrdered else mode)
      in if m \<noteq> ModeOrdered \<and> m \<noteq> ModeParallel then
           Inl (errorf (''orchestrator: unsupported mode '' @ quoted m @ '' (supported: ''
                        @ quoted ModeOrdered @ '', '' @ quoted ModeParallel @ '')''))
         else if lanes = [] then Inl (errorf ''orchestrator: at least one lane is required'')
         else case find (\<lambda>i. lanes ! i = None) [0 ..< length lanes] of
                Some i \<Rightarrow> Inl (errorf (''orchestrator: lane '' @ itoa (int i) @ '' is nil''))
              | None \<Rightarrow> Inr \<lparr>or_lanes = map the lanes, or_guard = None, or_mode = m,
                            or_raceWait = DefaultRaceWait\<rparr>)"

definition SetGuard :: "script_guard option \<Rightarrow> orchestrator \<Rightarrow> orchestrator" where
  "SetGuard g o' = o'\<lparr>or_guard := g\<rparr>"

definition LaneNames :: "orchestrator \<Rightarrow> string list" where
  "LaneNames o' = map ln_name (or_lanes o')"

definition SetRaceWait :: "duration \<Rightarrow> orchestrator \<Rightarrow> orchestrator" where
  "SetRaceWait t o' = (if t \<le> 0 then o' else o'\<lparr>or_raceWait := t\<rparr>)"

text \<open>The results an execution receives, and the execution continued until every lane that has not
  been received is (the collector waits for them).\<close>

fun received :: "par_event list \<Rightarrow> lane_result list" where
  "received [] = []"
| "received (Received res c # evs) = res # received evs"
| "received (_ # evs) = received evs"

definition par_schedule :: "(lane \<times> lane_env) list \<Rightarrow> par_event list \<Rightarrow> par_event list" where
  "par_schedule ls evs =
     evs @ map (\<lambda>r. Received r None) (fold remove1 (received evs) (map lane_result_of ls))"

text \<open>What the environment decides in one dispatch: an entry per lane index, \<open>ctx.Err()\<close> at the start
  (parallel mode) or in \<open>resolve\<close> (ordered mode), and the collector's events.\<close>

record dispatch_env =
  de_lanes :: "nat \<Rightarrow> lane_env"
  de_ctx :: "goerr option"
  de_events :: "par_event list"

definition orch_FindLyrics :: "dispatch_env \<Rightarrow> orchestrator \<Rightarrow> fetch_result \<times> orchestrator" where
  "orch_FindLyrics env o' =
     (let ls = zip (or_lanes o') (map (de_lanes env) [0 ..< length (or_lanes o')])
      in if or_mode o' = ModeParallel then
           (let (out, lanes) = findParallel (or_guard o') ls (de_ctx env) (par_schedule ls (de_events env))
            in (case out of Some res \<Rightarrow> res | None \<Rightarrow> (zero_song, Some lane_unavailable),
                o'\<lparr>or_lanes := lanes\<rparr>))
         else
           (let (out, lanes) = findOrdered (or_guard o') ls (de_ctx env)
            in (out, o'\<lparr>or_lanes := lanes\<rparr>)))"

end
