(* ===== verification/Orch_Props.thy ===== *)
theory Orch_Props
  imports Orchestrator
begin

text \<open>
  What the orchestrator promises: how a lane drives its breaker, that ordered dispatch stops at
  the first suitable result, how the outcomes of all lanes resolve when none is suitable, the
  per-track attribution, and the race of parallel dispatch.
\<close>

section \<open>Views of a dispatch\<close>

type_synonym arm = "lane \<times> lane_env"

definition arm_outcome :: "arm \<Rightarrow> song result" where
  "arm_outcome a = fst (lane_FindLyrics (snd a) (fst a))"

definition arm_driven :: "arm \<Rightarrow> lane" where
  "arm_driven a = snd (lane_FindLyrics (snd a) (fst a))"

definition arm_class :: "arm \<Rightarrow> outcome_class" where
  "arm_class a = ClassifyOutcome (err_of (arm_outcome a))"

definition reports :: "arm \<Rightarrow> bool" where
  "reports a \<longleftrightarrow> arm_class a \<noteq> OutcomeUnavailable"

definition arm_suitable :: "script_guard option \<Rightarrow> arm \<Rightarrow> bool" where
  "arm_suitable g a = (case arm_outcome a of Inr s \<Rightarrow> IsSuitable s g | Inl _ \<Rightarrow> False)"

abbreviation arm_name :: "arm \<Rightarrow> string" where
  "arm_name a \<equiv> ln_name (fst a)"

abbreviation consulted_names :: "arm list \<Rightarrow> string list" where
  "consulted_names ls \<equiv> map arm_name (filter reports ls)"

text \<open>What one unsuitable arm adds to the accumulators.\<close>

definition absorb :: "arm \<Rightarrow> dispatch_result \<Rightarrow> dispatch_result" where
  "absorb a r =
     (if \<not> reports a then r
      else let r1 = r\<lparr>consulted := consulted r + 1\<rparr>
           in case arm_outcome a of
                Inr s \<Rightarrow> retain s (arm_name a) r1
              | Inl e \<Rightarrow> rankErr e (arm_class a) r1)"

lemma song_reports: "arm_outcome a = Inr s \<Longrightarrow> reports a"
  by (simp add: reports_def arm_class_def ClassifyOutcome_def)

lemma arm_name_driven [simp]: "ln_name (arm_driven a) = arm_name a"
  by (auto simp: arm_driven_def lane_FindLyrics_def classify_def notify_def Let_def
      split: prod.splits sum.splits)

lemma ordered_loop_skip:
  assumes "\<forall>a \<in> set pre. le_ctx (snd a) = None \<and> \<not> arm_suitable g a"
  shows "ordered_loop g (pre @ rest) r att =
    (let (x, ls') = ordered_loop g rest (fold absorb pre r) (att @ consulted_names pre)
     in (x, map arm_driven pre @ ls'))"
  using assms
proof (induction pre arbitrary: r att)
  case Nil
  then show ?case by simp
next
  case (Cons a pre)
  obtain l env where a: "a = (l, env)" by fastforce
  obtain res l' where f: "lane_FindLyrics env l = (res, l')" by fastforce
  have ctx: "le_ctx env = None" and ns: "\<not> arm_suitable g a" using Cons.prems a by auto
  have view: "arm_outcome a = res" "arm_driven a = l'" "arm_class a = ClassifyOutcome (err_of res)"
    by (simp_all add: a f arm_outcome_def arm_driven_def arm_class_def)
  show ?case
  proof (cases res)
    case (Inl e)
    then show ?thesis
      using Cons.IH Cons.prems by (simp add: a f ctx absorb_def reports_def view [unfolded a] Let_def
          case_prod_beta)
  next
    case (Inr s)
    moreover from this have "\<not> IsSuitable s g" using ns view(1) by (simp add: arm_suitable_def)
    ultimately show ?thesis
      using Cons.IH Cons.prems song_reports [of a s] view(1)
      by (simp add: a f ctx absorb_def reports_def view [unfolded a] Let_def case_prod_beta
          ClassifyOutcome_def)
  qed
qed

section \<open>The first suitable result wins\<close>

text \<open>A sample lane whose breaker is closed, and one that has just tripped.\<close>

definition sample_lane :: "string \<Rightarrow> lane" where
  "sample_lane n = NewLane n False (new_breaker minute hour)"

definition tripped_lane :: "string \<Rightarrow> lane" where
  "tripped_lane n = NewLane n False (snd (Trip 0 (new_breaker minute hour)))"

definition answer :: "song result \<Rightarrow> lane_env" where
  "answer r = \<lparr>le_ctx = None, le_allow_at = 1, le_reply = r, le_trip_at = 1\<rparr>"

definition synced_song :: song where
  "synced_song = zero_song\<lparr>Subtitles := [\<lparr>Text = ''la'', Time = \<lparr>Total = 0, Minutes = 0, Seconds = 0, Hundredths = 0\<rparr>\<rparr>]\<rparr>"

definition unsynced_song :: song where
  "unsynced_song = zero_song\<lparr>LyricsBody := ''la''\<rparr>"

lemma sample_outcomes [simp]:
  "arm_outcome (sample_lane n, answer (Inr s)) = Inr s"
  "arm_outcome (tripped_lane n, answer r) = Inl lane_unavailable"
  "ln_name (sample_lane n) = n" "ln_name (tripped_lane n) = n" "le_ctx (answer r) = None"
  by (simp_all add: arm_outcome_def lane_FindLyrics_def sample_lane_def tripped_lane_def answer_def
      NewLane_def new_breaker_def Allow_def Trip_def Let_def Geometric_closed notify_def)

lemma findOrdered_first:
  assumes "\<forall>a \<in> set pre. le_ctx (snd a) = None \<and> \<not> arm_suitable g a"
    and "le_ctx (snd a) = None" "arm_outcome a = Inr s" "IsSuitable s g"
  shows "findOrdered g (pre @ a # post) ctx_end =
    ((attribute (consulted_names pre @ [arm_name a]) (arm_name a) s, None),
     map arm_driven pre @ arm_driven a # map fst post)"
proof -
  obtain l env where a: "a = (l, env)" by fastforce
  obtain res l' where f: "lane_FindLyrics env l = (res, l')" by fastforce
  with a assms(3) have "res = Inr s" "arm_driven a = l'" by (simp_all add: arm_outcome_def arm_driven_def)
  then show ?thesis
    using assms(2,4) by (simp add: findOrdered_def ordered_loop_skip [OF assms(1)] a f Let_def
        ClassifyOutcome_def)
qed

text \<open>
  C10. Ordered dispatch commits the first suitable result in priority order.  It is returned with
  that lane as the winner; the attribution lists exactly the lanes that were consulted (open
  breakers excluded), with the winner last; the lanes before it have been driven; and the lanes
  after it are not touched at all, so their providers are not called.
\<close>

theorem ordered_first_suitable:
  assumes "\<forall>a \<in> set pre. le_ctx (snd a) = None \<and> \<not> arm_suitable g a"
    and "le_ctx (snd a) = None" "arm_outcome a = Inr s" "IsSuitable s g"
  shows "findOrdered g (pre @ a # post) ctx_end =
    ((attribute (consulted_names pre @ [arm_name a]) (arm_name a) s, None),
     map arm_driven pre @ arm_driven a # map fst post)"
  using findOrdered_first [OF assms] .

theorem ordered_first_suitable_witness:
  "findOrdered None [(tripped_lane ''a'', answer (Inr synced_song)), (sample_lane ''b'', answer (Inr unsynced_song)),
       (sample_lane ''c'', answer (Inr synced_song))] None
   = ((attribute [''b''] ''b'' unsynced_song, None),
      [arm_driven (tripped_lane ''a'', answer (Inr synced_song)),
       arm_driven (sample_lane ''b'', answer (Inr unsynced_song)), sample_lane ''c''])"
  using ordered_first_suitable [of "[(tripped_lane ''a'', answer (Inr synced_song))]" None
      "(sample_lane ''b'', answer (Inr unsynced_song))" unsynced_song
      "[(sample_lane ''c'', answer (Inr synced_song))]" None]
  by (simp add: arm_suitable_def reports_def arm_class_def ClassifyOutcome_def lane_unavailable_def
      errors_is_def IsSuitable_def QualityOf_def unsynced_song_def zero_song_def less_quality_def)

section \<open>Resolution when nothing is suitable\<close>

definition best_inv :: "arm list \<Rightarrow> dispatch_result \<Rightarrow> bool" where
  "best_inv ls r \<longleftrightarrow>
     (if haveBest r
      then (\<exists>a \<in> set ls. arm_outcome a = Inr (bestSong r) \<and> bestLane r = arm_name a)
         \<and> bestQuality r = QualityOf (bestSong r)
         \<and> (\<forall>a \<in> set ls. \<forall>s. arm_outcome a = Inr s \<longrightarrow> QualityOf s \<le> bestQuality r)
      else (\<forall>a \<in> set ls. \<forall>s. arm_outcome a \<noteq> Inr s))"

definition err_inv :: "arm list \<Rightarrow> dispatch_result \<Rightarrow> bool" where
  "err_inv ls r \<longleftrightarrow>
     (case topErr r of
        None \<Rightarrow> (\<forall>a \<in> set ls. \<forall>e. reports a \<longrightarrow> arm_outcome a \<noteq> Inl e)
      | Some e \<Rightarrow>
          (\<exists>a \<in> set ls. reports a \<and> arm_outcome a = Inl e \<and> topClass r = arm_class a)
          \<and> (\<forall>a \<in> set ls. \<forall>f. reports a \<and> arm_outcome a = Inl f
               \<longrightarrow> precedence (arm_class a) \<le> precedence (topClass r)))"

lemma best_inv_other: "best_inv ls r \<Longrightarrow> arm_outcome a = Inl e \<Longrightarrow>
    best_inv (ls @ [a]) (rankErr f c (r\<lparr>consulted := n\<rparr>))"
  by (auto simp: best_inv_def rankErr_def split: if_splits)

lemma err_inv_other: "err_inv ls r \<Longrightarrow> arm_outcome a = Inr s \<Longrightarrow>
    err_inv (ls @ [a]) (retain t m (r\<lparr>consulted := n\<rparr>))"
  by (auto simp: err_inv_def retain_def split: option.splits)

lemma best_inv_retain: "best_inv ls r \<Longrightarrow> arm_outcome a = Inr s \<Longrightarrow>
    best_inv (ls @ [a]) (retain s (arm_name a) (r\<lparr>consulted := n\<rparr>))"
  by (fastforce simp: best_inv_def retain_def split: if_splits)

lemma err_inv_rank: "err_inv ls r \<Longrightarrow> arm_outcome a = Inl e \<Longrightarrow> reports a \<Longrightarrow>
    err_inv (ls @ [a]) (rankErr e (arm_class a) (r\<lparr>consulted := n\<rparr>))"
  by (fastforce simp: err_inv_def rankErr_def split: option.splits)

lemma inv_silent: "\<not> reports a \<Longrightarrow> best_inv ls r \<Longrightarrow> best_inv (ls @ [a]) r"
  "\<not> reports a \<Longrightarrow> err_inv ls r \<Longrightarrow> err_inv (ls @ [a]) r"
  using song_reports [of a] by (auto simp: best_inv_def err_inv_def split: option.splits)

lemma absorb_all:
  "consulted (fold absorb ls zero_dispatch) = length (filter reports ls)
   \<and> best_inv ls (fold absorb ls zero_dispatch) \<and> err_inv ls (fold absorb ls zero_dispatch)"
proof (induction ls rule: rev_induct)
  case Nil
  show ?case by (simp add: best_inv_def err_inv_def zero_dispatch_def)
next
  case (snoc a ls)
  let ?r = "fold absorb ls zero_dispatch"
  show ?case
  proof (cases "reports a")
    case False
    then have "absorb a ?r = ?r" by (simp add: absorb_def)
    with False snoc show ?thesis by (simp add: inv_silent)
  next
    case True
    show ?thesis
    proof (cases "arm_outcome a")
      case (Inl e)
      with True snoc show ?thesis
        by (simp add: absorb_def Let_def best_inv_other err_inv_rank) (simp add: rankErr_def)
    next
      case (Inr s)
      with True snoc show ?thesis
        by (simp add: absorb_def Let_def best_inv_retain err_inv_other) (simp add: retain_def)
    qed
  qed
qed

lemma findOrdered_unsuitable:
  assumes "\<forall>a \<in> set ls. le_ctx (snd a) = None \<and> \<not> arm_suitable g a"
  shows "findOrdered g ls ctx_end =
    (let (s, err) = resolve (length ls) ctx_end (fold absorb ls zero_dispatch)
     in ((s\<lparr>LaneAttempts := laneAttemptsFor (consulted_names ls) (WinningLane s)\<rparr>, err), map arm_driven ls))"
  using ordered_loop_skip [OF assms, of "[]" zero_dispatch "[]"]
  by (simp add: findOrdered_def Let_def case_prod_beta)

text \<open>
  C11. When no lane has a suitable result, ordered dispatch still commits the best result any
  lane returned, of the highest quality and with no error.  With no result at all it surfaces an
  error of the highest precedence among the lanes that were consulted, so a benign miss is
  surfaced only if every consulted lane reported a benign miss; and if no lane was consulted,
  the lane-unavailable sentinel (or the cancellation).
\<close>

theorem ordered_resolution:
  assumes "\<forall>a \<in> set ls. le_ctx (snd a) = None \<and> \<not> arm_suitable g a" "ls \<noteq> []"
  shows "case fst (findOrdered g ls ctx_end) of
      (s, None) \<Rightarrow> (\<exists>a \<in> set ls. \<exists>t. arm_outcome a = Inr t
          \<and> s = attribute (consulted_names ls) (arm_name a) t
          \<and> (\<forall>b \<in> set ls. \<forall>u. arm_outcome b = Inr u \<longrightarrow> QualityOf u \<le> QualityOf t))
    | (s, Some e) \<Rightarrow> (\<forall>a \<in> set ls. \<forall>t. arm_outcome a \<noteq> Inr t)
        \<and> (if \<exists>a \<in> set ls. reports a
           then (\<exists>a \<in> set ls. reports a \<and> arm_outcome a = Inl e
                  \<and> (\<forall>b \<in> set ls. reports b \<longrightarrow> precedence (arm_class b) \<le> precedence (arm_class a)))
           else e = (case ctx_end of Some c \<Rightarrow> c | None \<Rightarrow> lane_unavailable))"
proof -
  let ?r = "fold absorb ls zero_dispatch"
  have inv: "consulted ?r = length (filter reports ls)" "best_inv ls ?r" "err_inv ls ?r"
    using absorb_all by auto
  note fo = findOrdered_unsuitable [OF assms(1), of ctx_end]
  show ?thesis
  proof (cases "haveBest ?r")
    case True
    with inv(2) obtain a where "a \<in> set ls" "arm_outcome a = Inr (bestSong ?r)" "bestLane ?r = arm_name a"
      "\<forall>b \<in> set ls. \<forall>u. arm_outcome b = Inr u \<longrightarrow> QualityOf u \<le> QualityOf (bestSong ?r)"
      unfolding best_inv_def by auto
    with True show ?thesis by (auto simp: fo resolve_def Let_def attribute_def)
  next
    case False
    with inv(2) have none: "\<forall>a \<in> set ls. \<forall>t. arm_outcome a \<noteq> Inr t" by (simp add: best_inv_def)
    show ?thesis
    proof (cases "\<exists>a \<in> set ls. reports a")
      case no: False
      then have "filter reports ls = []" by (simp add: filter_empty_conv)
      with inv(1) have "consulted ?r = 0" by simp
      with False none no assms(2) show ?thesis by (auto simp: fo resolve_def Let_def split: option.split)
    next
      case yes: True
      then obtain b where b: "b \<in> set ls" "reports b" by blast
      then have "consulted ?r \<noteq> 0" using inv(1) by (auto simp: filter_empty_conv)
      have inl: "\<exists>f. arm_outcome x = Inl f" if "x \<in> set ls" for x
        using none that by (cases "arm_outcome x") auto
      obtain f where "arm_outcome b = Inl f" using inl b(1) by blast
      with b inv(3) obtain e a where e: "topErr ?r = Some e" "a \<in> set ls" "reports a" "arm_outcome a = Inl e"
        "\<forall>x \<in> set ls. \<forall>f. reports x \<and> arm_outcome x = Inl f \<longrightarrow> precedence (arm_class x) \<le> precedence (arm_class a)"
        unfolding err_inv_def by (cases "topErr ?r") auto
      then have "\<forall>x \<in> set ls. reports x \<longrightarrow> precedence (arm_class x) \<le> precedence (arm_class a)"
        using inl by blast
      with False none yes e \<open>consulted ?r \<noteq> 0\<close> show ?thesis by (auto simp: fo resolve_def Let_def)
    qed
  qed
qed

definition miss_reply :: "song result" where
  "miss_reply = Inl (GoErr ''musixmatch: no results found'' [MxNotFound])"

definition timeout_reply :: "song result" where
  "timeout_reply = Inl (GoErr ''timeout'' [CtxDeadlineExceeded])"

lemma sample_errors [simp]:
  "arm_outcome (sample_lane n, answer miss_reply) = miss_reply"
  "arm_outcome (sample_lane n, answer timeout_reply)
     = Inl (wrapf (''lane '' @ n @ '': find lyrics'') (GoErr ''timeout'' [CtxDeadlineExceeded]))"
  by (simp_all add: arm_outcome_def lane_FindLyrics_def sample_lane_def answer_def miss_reply_def
      timeout_reply_def NewLane_def new_breaker_def Allow_def Let_def classify_def errors_is_def
      is_throttle_def IsBenignMiss_def)

theorem ordered_resolution_witness:
  "\<exists>s e. fst (findOrdered None [(sample_lane ''a'', answer miss_reply), (sample_lane ''b'', answer timeout_reply)] None)
      = (s, Some e) \<and> ClassifyOutcome (Some e) = OutcomeTransport"
proof -
  let ?ls = "[(sample_lane ''a'', answer miss_reply), (sample_lane ''b'', answer timeout_reply)]"
  have cl: "arm_class (sample_lane ''a'', answer miss_reply) = OutcomeBenignMiss"
    "arm_class (sample_lane ''b'', answer timeout_reply) = OutcomeTransport"
    by (simp_all add: arm_class_def) (simp_all add: miss_reply_def ClassifyOutcome_def IsBenignMiss_def errors_is_def wrapf_def)
  have "\<forall>a \<in> set ?ls. le_ctx (snd a) = None \<and> \<not> arm_suitable None a"
    by (simp add: arm_suitable_def) (simp add: miss_reply_def)
  moreover have no: "arm_outcome (sample_lane ''a'', answer miss_reply) \<noteq> Inr t" for t
    by simp (simp add: miss_reply_def)
  ultimately obtain s e where
    se: "fst (findOrdered None ?ls None) = (s, Some e)"
    and top: "\<exists>a \<in> set ?ls. reports a \<and> arm_outcome a = Inl e
          \<and> (\<forall>b \<in> set ?ls. reports b \<longrightarrow> precedence (arm_class b) \<le> precedence (arm_class a))"
    using cl ordered_resolution [of ?ls None None] by (cases "fst (findOrdered None ?ls None)"; cases "snd (fst (findOrdered None ?ls None))")
      (auto simp: reports_def miss_reply_def [symmetric] simp del: sample_errors(1) split: if_splits)
  have "ClassifyOutcome (Some e) = OutcomeTransport"
    using top cl by (auto simp: reports_def arm_class_def)
  with se show ?thesis by blast
qed

section \<open>Driving the breaker\<close>

lemma class_error:
  "ClassifyOutcome (Some e) = OutcomeAuthRateLimit \<Longrightarrow> errors_is e MxTokenRenewalRequired \<or> is_throttle e"
  "ClassifyOutcome (Some e) = OutcomeBenignMiss \<Longrightarrow>
     IsBenignMiss e \<and> \<not> errors_is e MxTokenRenewalRequired \<and> \<not> is_throttle e"
  "ClassifyOutcome (Some e) = OutcomeTransport \<Longrightarrow>
     \<not> IsBenignMiss e \<and> \<not> errors_is e MxTokenRenewalRequired \<and> \<not> is_throttle e"
  by (auto simp: ClassifyOutcome_def is_throttle_def split: if_splits)

lemma breaker_notify [simp]: "ln_breaker (notify ev l) = ln_breaker l" "ln_calls (notify ev l) = ln_calls l"
  by (simp_all add: notify_def)

lemma classify_effect:
  assumes "classify t e l = (e', l')"
  shows "ln_calls l' = ln_calls l" "ClassifyOutcome (Some e') = ClassifyOutcome (Some e)"
    "ClassifyOutcome (Some e) = OutcomeAuthRateLimit \<Longrightarrow> wf_breaker (ln_breaker l) \<Longrightarrow>
       openDuration (ln_breaker l) \<le> max_int64 \<Longrightarrow> \<exists>u > t. openUntil (ln_breaker l') = Some u"
    "ClassifyOutcome (Some e) = OutcomeBenignMiss \<Longrightarrow> ln_breaker l' = snd (RecordBenignMiss (ln_breaker l))"
    "ClassifyOutcome (Some e) = OutcomeTransport \<Longrightarrow> ln_breaker l' = ln_breaker l"
proof -
  show "ln_calls l' = ln_calls l" using assms by (auto simp: classify_def Let_def split: if_splits)
  show "ClassifyOutcome (Some e') = ClassifyOutcome (Some e)"
    using assms by (auto simp: classify_def Let_def ClassifyOutcome_def IsBenignMiss_def split: if_splits)
  show "ClassifyOutcome (Some e) = OutcomeBenignMiss \<Longrightarrow> ln_breaker l' = snd (RecordBenignMiss (ln_breaker l))"
    using class_error(2) [of e] assms by (auto simp: classify_def)
  show "ClassifyOutcome (Some e) = OutcomeTransport \<Longrightarrow> ln_breaker l' = ln_breaker l"
    using class_error(3) [of e] assms by (auto simp: classify_def)
  assume a: "ClassifyOutcome (Some e) = OutcomeAuthRateLimit" "wf_breaker (ln_breaker l)"
    "openDuration (ln_breaker l) \<le> max_int64"
  then have "0 < Geometric (consecutiveTrips (ln_breaker l) + 1) (backoffBase (ln_breaker l)) (openDuration (ln_breaker l))"
    by (intro Geometric_pos) (auto simp: wf_breaker_def)
  with class_error(1) [OF a(1)] a(2) assms show "\<exists>u > t. openUntil (ln_breaker l') = Some u"
    by (auto simp: classify_def Let_def Trip_def TripRenewal_def wf_breaker_def split: if_splits)
qed

text \<open>
  A lane spends no provider call while its breaker is open, and otherwise makes exactly one
  call whose outcome class decides what happens to the breaker: an authentication, rate-limit or
  truncation signal opens it for a positive window; a benign miss closes it and resets the ramp
  without counting as a proven success; a transport error leaves it as the gate left it; a result
  closes it and marks the lane as having succeeded.  The class the dispatcher ranks the surfaced
  error by is the class the breaker was driven by.
\<close>

theorem lane_drives_breaker:
  assumes "wf_breaker (ln_breaker l)" "openDuration (ln_breaker l) \<le> max_int64"
    and "lane_FindLyrics env l = (res, l')"
  shows "if fst (Allow (le_allow_at env) (ln_breaker l)) = StateOpen
    then res = Inl lane_unavailable \<and> ln_calls l' = ln_calls l \<and> ln_breaker l' = ln_breaker l
    else ln_calls l' = ln_calls l + 1
      \<and> (case le_reply env of
           Inr s \<Rightarrow> res = Inr s \<and> phase_of (ln_breaker l') = Closed \<and> Trips (ln_breaker l') = 0
                    \<and> EverSucceeded (ln_breaker l')
         | Inl e \<Rightarrow> (\<exists>e'. res = Inl e' \<and> ClassifyOutcome (Some e') = ClassifyOutcome (Some e))
             \<and> (ClassifyOutcome (Some e) = OutcomeAuthRateLimit \<longrightarrow>
                  (\<exists>u > le_trip_at env. openUntil (ln_breaker l') = Some u))
             \<and> (ClassifyOutcome (Some e) = OutcomeBenignMiss \<longrightarrow>
                  phase_of (ln_breaker l') = Closed \<and> Trips (ln_breaker l') = 0
                  \<and> EverSucceeded (ln_breaker l') = EverSucceeded (ln_breaker l))
             \<and> (ClassifyOutcome (Some e) = OutcomeTransport \<longrightarrow>
                  ln_breaker l' = snd (Allow (le_allow_at env) (ln_breaker l))))"
proof -
  obtain st b where al: "Allow (le_allow_at env) (ln_breaker l) = (st, b)" by fastforce
  have open_same: "st = StateOpen \<Longrightarrow> b = ln_breaker l"
    using al by (auto simp: Allow_def split: option.splits if_splits)
  show ?thesis
  proof (cases "st = StateOpen")
    case True
    with open_same al assms(3) show ?thesis by (auto simp: lane_FindLyrics_def Let_def)
  next
    case False
    have wf: "wf_breaker b" "openDuration b \<le> max_int64" and closed: "openUntil b = None"
      and ever: "EverSucceeded b = EverSucceeded (ln_breaker l)"
      using al False assms(1,2)
      by (auto simp: Allow_def wf_breaker_def EverSucceeded_def split: option.splits if_splits)
    show ?thesis
    proof (cases "le_reply env")
      case (Inr s)
      let ?l2 = "l\<lparr>ln_breaker := b, ln_calls := ln_calls l + 1\<rparr>"
      have "res = Inr s" "l' = notify OnSuccess (?l2\<lparr>ln_breaker := snd (RecordSuccess b)\<rparr>)"
        using assms(3) False al Inr by (auto simp: lane_FindLyrics_def Let_def)
      with False al Inr closed show ?thesis
        by (simp add: RecordSuccess_def phase_of_def Trips_def EverSucceeded_def)
    next
      case (Inl e)
      let ?l2 = "l\<lparr>ln_breaker := b, ln_calls := ln_calls l + 1\<rparr>"
      obtain e' l3 where c: "classify (le_trip_at env) e ?l2 = (e', l3)" by fastforce
      have r: "res = Inl e'" "l' = l3" using assms(3) False al Inl c by (auto simp: lane_FindLyrics_def Let_def)
      have eff: "ln_calls l3 = ln_calls l + 1" "ClassifyOutcome (Some e') = ClassifyOutcome (Some e)"
        "ClassifyOutcome (Some e) = OutcomeAuthRateLimit \<Longrightarrow>
           \<exists>u > le_trip_at env. openUntil (ln_breaker l3) = Some u"
        "ClassifyOutcome (Some e) = OutcomeBenignMiss \<Longrightarrow> ln_breaker l3 = snd (RecordBenignMiss b)"
        "ClassifyOutcome (Some e) = OutcomeTransport \<Longrightarrow> ln_breaker l3 = b"
        using classify_effect [OF c] wf by auto
      show ?thesis
        using False al Inl r eff closed ever
        by (auto simp: RecordBenignMiss_def phase_of_def Trips_def EverSucceeded_def)
    qed
  qed
qed

theorem lane_drives_breaker_witness:
  "lane_FindLyrics (answer (Inr unsynced_song)) (tripped_lane ''a'') = (Inl lane_unavailable, tripped_lane ''a'')"
proof -
  have wf: "wf_breaker (ln_breaker (tripped_lane ''a''))" "openDuration (ln_breaker (tripped_lane ''a'')) \<le> max_int64"
    by (simp_all add: tripped_lane_def NewLane_def new_breaker_def Trip_def Let_def wf_breaker_def)
  have "fst (Allow 1 (ln_breaker (tripped_lane ''a''))) = StateOpen"
    by (simp add: tripped_lane_def NewLane_def new_breaker_def Trip_def Let_def Allow_def Geometric_closed)
  with lane_drives_breaker [OF wf prod.collapse [symmetric, of "lane_FindLyrics (answer (Inr unsynced_song)) (tripped_lane ''a'')"]]
  have "fst (lane_FindLyrics (answer (Inr unsynced_song)) (tripped_lane ''a'')) = Inl lane_unavailable"
    by (simp add: answer_def)
  moreover have "snd (lane_FindLyrics (answer (Inr unsynced_song)) (tripped_lane ''a'')) = tripped_lane ''a''"
    by (simp add: lane_FindLyrics_def answer_def tripped_lane_def NewLane_def new_breaker_def Trip_def
        Let_def Allow_def Geometric_closed)
  ultimately show ?thesis by (metis prod.collapse)
qed

section \<open>The parallel race\<close>

definition lr_returned :: "lane_result \<Rightarrow> bool" where
  "lr_returned res \<longleftrightarrow> lr_err res = None"

definition lr_suitable :: "script_guard option \<Rightarrow> lane_result \<Rightarrow> bool" where
  "lr_suitable g res \<longleftrightarrow> lr_err res = None \<and> IsSuitable (lr_song res) g"

definition lr_synced :: "script_guard option \<Rightarrow> lane_result \<Rightarrow> bool" where
  "lr_synced g res \<longleftrightarrow> lr_suitable g res \<and> QualityOf (lr_song res) = QualitySynced"

lemma quality_top: "QualityOf s \<ge> QualitySynced \<longleftrightarrow> QualityOf s = QualitySynced"
  by (cases "QualityOf s") (simp_all add: less_eq_quality_def)

lemma received_append [simp]: "received (xs @ ys) = received xs @ received ys"
  by (induction xs rule: received.induct) auto

text \<open>The lanes that ran their provider, and the reply the fallback takes: the first of the best quality.\<close>

definition lr_ran :: "lane_result \<Rightarrow> bool" where
  "lr_ran res \<longleftrightarrow> \<not> (case lr_err res of Some e \<Rightarrow> errors_is e CtxCanceled | None \<Rightarrow> False)
     \<and> ClassifyOutcome (lr_err res) \<noteq> OutcomeUnavailable"

definition race_consulted :: "lane_result list \<Rightarrow> string list" where
  "race_consulted rs = map lr_name (filter lr_ran rs)"

definition best_reply :: "lane_result list \<Rightarrow> lane_result \<Rightarrow> bool" where
  "best_reply rs res \<longleftrightarrow> (\<exists>xs ys. rs = xs @ res # ys \<and> lr_returned res
     \<and> (\<forall>r \<in> set xs. lr_returned r \<longrightarrow> QualityOf (lr_song r) < QualityOf (lr_song res))
     \<and> (\<forall>r \<in> set ys. lr_returned r \<longrightarrow> QualityOf (lr_song r) \<le> QualityOf (lr_song res)))"

text \<open>
  The rule of the race, over the events up to the commit: a suitable time-synced reply wins at its
  arrival; without one the first suitable reply wins, when the upgrade window has elapsed or all
  \<open>n\<close> lanes have reported; without any, the best reply wins once all have reported.
\<close>

definition race_winner :: "script_guard option \<Rightarrow> nat \<Rightarrow> par_event list \<Rightarrow> lane_result \<Rightarrow> bool" where
  "race_winner g n pre res \<longleftrightarrow>
     (let rs = received pre in
      if list_ex (lr_synced g) rs
      then (\<exists>c. last pre = Received res c) \<and> lr_synced g res \<and> \<not> list_ex (lr_synced g) (butlast rs)
      else if list_ex (lr_suitable g) rs
      then find (lr_suitable g) rs = Some res \<and> (last pre = UpgradeFired None \<or> length rs = n)
      else length rs = n \<and> best_reply rs res)"

definition race_best :: "lane_result list \<Rightarrow> dispatch_result \<Rightarrow> bool" where
  "race_best rs d \<longleftrightarrow>
     (if haveBest d
      then \<exists>res. best_reply rs res \<and> bestSong d = lr_song res \<and> bestLane d = lr_name res \<and> bestQuality d = QualityOf (lr_song res)
      else \<forall>r \<in> set rs. \<not> lr_returned r)"

definition race_inv :: "script_guard option \<Rightarrow> nat \<Rightarrow> lane_result list \<Rightarrow> par_state \<Rightarrow> bool" where
  "race_inv g n seen p \<longleftrightarrow>
     ps_pending p + length seen = n \<and> \<not> list_ex (lr_synced g) seen
     \<and> ps_consulted p = race_consulted seen
     \<and> ps_held p = map_option (\<lambda>r. (lr_song r, lr_name r)) (find (lr_suitable g) seen)
     \<and> (ps_upgrade p \<longrightarrow> ps_held p \<noteq> None)
     \<and> race_best (filter (\<lambda>r. \<not> lr_suitable g r) seen) (ps_r p)"

lemma race_inv_init: "race_inv g n [] (par_init n)"
  by (simp add: race_inv_def par_init_def zero_dispatch_def race_consulted_def race_best_def)

lemma best_reply_snoc:
  "best_reply rs res \<Longrightarrow> (lr_returned r \<Longrightarrow> QualityOf (lr_song r) \<le> QualityOf (lr_song res)) \<Longrightarrow> best_reply (rs @ [r]) res"
  unfolding best_reply_def by fastforce

lemma best_reply_new:
  "lr_returned r \<Longrightarrow> (\<And>x. x \<in> set rs \<Longrightarrow> lr_returned x \<Longrightarrow> QualityOf (lr_song x) < QualityOf (lr_song r)) \<Longrightarrow> best_reply (rs @ [r]) r"
  unfolding best_reply_def by (intro exI [of _ rs] exI [of _ "[]"]) simp

lemma best_reply_bound: "best_reply rs res \<Longrightarrow> x \<in> set rs \<Longrightarrow> lr_returned x \<Longrightarrow> QualityOf (lr_song x) \<le> QualityOf (lr_song res)"
  unfolding best_reply_def by fastforce

lemma race_best_retain:
  assumes "race_best rs d" "lr_returned r"
  shows "race_best (rs @ [r]) (retain (lr_song r) (lr_name r) d)"
proof (cases "haveBest d")
  case False
  then have "best_reply (rs @ [r]) r" using assms by (intro best_reply_new) (auto simp: race_best_def)
  with False show ?thesis by (auto simp: race_best_def retain_def)
next
  case True
  with assms(1) obtain res where res: "best_reply rs res" "bestSong d = lr_song res" "bestLane d = lr_name res"
    "bestQuality d = QualityOf (lr_song res)" by (auto simp: race_best_def)
  show ?thesis
  proof (cases "QualityOf (lr_song r) > QualityOf (lr_song res)")
    case gt: True
    then have "best_reply (rs @ [r]) r" using best_reply_bound [OF res(1)] assms(2) by (intro best_reply_new) (auto intro: le_less_trans)
    with True gt res show ?thesis by (auto simp: race_best_def retain_def)
  next
    case False
    then have "best_reply (rs @ [r]) res" using res(1) by (intro best_reply_snoc) auto
    with True False res show ?thesis by (auto simp: race_best_def retain_def)
  qed
qed

lemma race_best_other:
  assumes "race_best rs d" "\<not> lr_returned r" "haveBest d' = haveBest d" "bestSong d' = bestSong d" "bestLane d' = bestLane d"
    "bestQuality d' = bestQuality d"
  shows "race_best (rs @ [r]) d'"
  using assms best_reply_snoc [of rs _ r] by (fastforce simp: race_best_def)

lemma race_best_cong:
  "race_best rs d \<Longrightarrow> haveBest d' = haveBest d \<Longrightarrow> bestSong d' = bestSong d \<Longrightarrow> bestLane d' = bestLane d
    \<Longrightarrow> bestQuality d' = bestQuality d \<Longrightarrow> race_best rs d'"
  by (simp add: race_best_def)

lemma race_inv_plain:
  assumes "race_inv g n seen p" "ps_pending p \<noteq> 0" "\<not> lr_suitable g res" "ps_pending p' = ps_pending p - 1"
    "ps_consulted p' = race_consulted (seen @ [res])" "ps_held p' = ps_held p" "ps_upgrade p' = ps_upgrade p"
    "race_best (filter (\<lambda>r. \<not> lr_suitable g r) seen @ [res]) (ps_r p')"
  shows "race_inv g n (seen @ [res]) p'"
proof -
  have "\<not> lr_synced g res" using assms(3) by (simp add: lr_synced_def)
  with assms show ?thesis by (auto simp: race_inv_def find_append split: option.splits)
qed

lemma race_inv_suitable:
  assumes "race_inv g n seen p" "ps_pending p \<noteq> 0" "lr_suitable g res" "\<not> lr_synced g res" "ps_pending p' = ps_pending p - 1"
    "ps_consulted p' = race_consulted (seen @ [res])"
    "ps_held p' = (case ps_held p of None \<Rightarrow> Some (lr_song res, lr_name res) | Some h \<Rightarrow> Some h)"
    "race_best (filter (\<lambda>r. \<not> lr_suitable g r) seen) (ps_r p')"
  shows "race_inv g n (seen @ [res]) p'"
  using assms by (auto simp: race_inv_def find_append split: option.splits)

lemma race_receive:
  assumes inv: "race_inv g n seen p" and open': "ps_pending p \<noteq> 0"
  shows "case par_receive g res p of
      Inl out \<Rightarrow> lr_synced g res \<and> out = (attribute (race_consulted (seen @ [res])) (lr_name res) (lr_song res), None)
    | Inr p' \<Rightarrow> race_inv g n (seen @ [res]) p'"
proof -
  let ?u = "filter (\<lambda>r. \<not> lr_suitable g r) seen"
  have names: "ps_consulted p = race_consulted seen" and best: "race_best ?u (ps_r p)" using inv by (simp_all add: race_inv_def)
  note snoc = race_inv_plain [OF inv open', of res]
  show ?thesis
  proof (cases "lr_err res")
    case (Some e)
    then have fail: "\<not> lr_returned res" "\<not> lr_suitable g res" by (simp_all add: lr_returned_def lr_suitable_def)
    define p1 where "p1 = p\<lparr>ps_pending := ps_pending p - 1\<rparr>"
    define p' where "p' = (if lr_ran res
       then p1\<lparr>ps_r := rankErr e (ClassifyOutcome (lr_err res)) ((ps_r p)\<lparr>consulted := consulted (ps_r p) + 1\<rparr>),
               ps_consulted := ps_consulted p @ [lr_name res]\<rparr> else p1)"
    have run: "par_receive g res p = Inr p'"
      using Some by (simp add: par_receive_def Let_def lr_ran_def p'_def p1_def)
    have p': "ps_pending p' = ps_pending p - 1" "ps_held p' = ps_held p" "ps_upgrade p' = ps_upgrade p"
      "ps_consulted p' = race_consulted (seen @ [res])" "haveBest (ps_r p') = haveBest (ps_r p)" "bestSong (ps_r p') = bestSong (ps_r p)"
      "bestLane (ps_r p') = bestLane (ps_r p)" "bestQuality (ps_r p') = bestQuality (ps_r p)"
      using names by (simp_all add: p'_def p1_def race_consulted_def rankErr_def)
    have "race_best (?u @ [res]) (ps_r p')" using race_best_other [OF best fail(1) p'(5-8)] .
    from snoc [OF fail(2) p'(1,4,2,3) this] run show ?thesis by simp
  next
    case None
    then have c: "ClassifyOutcome (lr_err res) \<noteq> OutcomeUnavailable" by (simp add: ClassifyOutcome_def)
    then have ran: "race_consulted (seen @ [res]) = race_consulted seen @ [lr_name res]"
      using None by (simp add: race_consulted_def lr_ran_def)
    show ?thesis
    proof (cases "lr_suitable g res")
      case True
      then have suit: "IsSuitable (lr_song res) g" by (simp add: lr_suitable_def)
      show ?thesis
      proof (cases "lr_synced g res")
        case sync: True
        with suit None names c ran show ?thesis by (simp add: par_receive_def Let_def quality_top lr_synced_def)
      next
        case False
        with True have q: "QualityOf (lr_song res) \<noteq> QualitySynced" by (simp add: lr_synced_def)
        obtain p' where p': "par_receive g res p = Inr p'" "ps_pending p' = ps_pending p - 1"
          "ps_consulted p' = race_consulted (seen @ [res])" "ps_r p' = (ps_r p)\<lparr>consulted := consulted (ps_r p) + 1\<rparr>"
          "ps_held p' = (case ps_held p of None \<Rightarrow> Some (lr_song res, lr_name res) | Some h \<Rightarrow> Some h)"
          using None suit q names c ran by (simp add: par_receive_def Let_def quality_top)
        have "race_best ?u (ps_r p')" using best p'(4) by (intro race_best_cong [OF best]) simp_all
        from race_inv_suitable [OF inv open' True False p'(2,3,5) this] p'(1) show ?thesis by simp
      qed
    next
      case False
      then have bad: "\<not> IsSuitable (lr_song res) g" "lr_returned res" using None by (simp_all add: lr_suitable_def lr_returned_def)
      define d where "d = (ps_r p)\<lparr>consulted := consulted (ps_r p) + 1\<rparr>"
      define p' where "p' = p\<lparr>ps_pending := ps_pending p - 1, ps_r := retain (lr_song res) (lr_name res) d,
        ps_consulted := ps_consulted p @ [lr_name res]\<rparr>"
      have run: "par_receive g res p = Inr p'" using None bad c by (simp add: par_receive_def Let_def p'_def d_def)
      have "race_best ?u d" by (intro race_best_cong [OF best]) (simp_all add: d_def)
      then have "race_best (?u @ [res]) (ps_r p')" using race_best_retain [OF _ bad(2)] by (simp add: p'_def)
      then have "race_inv g n (seen @ [res]) p'" using names ran by (intro snoc [OF False]) (simp_all add: p'_def)
      with run show ?thesis by simp
    qed
  qed
qed

text \<open>What a commit of the collector looks like after the events \<open>pre\<close>.\<close>

definition race_commit :: "script_guard option \<Rightarrow> nat \<Rightarrow> par_event list \<Rightarrow> fetch_result \<Rightarrow> bool" where
  "race_commit g n pre out \<longleftrightarrow>
     (snd out = None \<longrightarrow> (\<exists>res \<in> set (received pre). race_winner g n pre res
        \<and> fst out = attribute (race_consulted (received pre)) (lr_name res) (lr_song res)))"

lemma race_held:
  assumes "race_inv g n (received pre) p" "ps_held p \<noteq> None" "last pre = UpgradeFired None \<or> length (received pre) = n"
  shows "race_commit g n pre (held_result p)"
proof -
  obtain res where res: "find (lr_suitable g) (received pre) = Some res" "ps_held p = Some (lr_song res, lr_name res)"
    using assms(1,2) unfolding race_inv_def by (cases "find (lr_suitable g) (received pre)") auto
  then have "res \<in> set (received pre)" "lr_suitable g res" by (auto simp: find_Some_iff)
  then have "list_ex (lr_suitable g) (received pre)" by (auto simp: list_ex_iff)
  with assms res \<open>res \<in> _\<close> show ?thesis
    by (auto simp: race_commit_def race_winner_def race_inv_def held_result_def Let_def)
qed

lemma race_finish:
  assumes "race_inv g n (received pre) p" "length (received pre) = n"
  shows "race_commit g n pre (par_finish n' ctx p)"
proof (cases "ctx = None \<and> ps_held p = None \<and> haveBest (ps_r p)")
  case True
  then have none: "\<not> list_ex (lr_suitable g) (received pre)" "\<not> list_ex (lr_synced g) (received pre)"
    using assms(1) by (auto simp: race_inv_def find_None_iff list_ex_iff)
  then have "filter (\<lambda>r. \<not> lr_suitable g r) (received pre) = received pre" by (simp add: filter_id_conv list_ex_iff)
  with True assms(1) obtain res where res: "best_reply (received pre) res" "bestSong (ps_r p) = lr_song res" "bestLane (ps_r p) = lr_name res"
    by (auto simp: race_inv_def race_best_def)
  then have "res \<in> set (received pre)" by (auto simp: best_reply_def)
  with res none True assms show ?thesis
    by (auto simp: race_commit_def race_winner_def Let_def par_finish_def resolve_def attribute_def race_inv_def)
next
  case False
  show ?thesis
  proof (cases "ctx = None \<and> ps_held p \<noteq> None")
    case True
    with race_held [OF assms(1)] assms(2) show ?thesis by (auto simp: par_finish_def)
  next
    case no: False
    with False show ?thesis by (auto simp: race_commit_def par_finish_def resolve_def Let_def split: option.splits if_splits)
  qed
qed

lemma race_step:
  assumes inv: "race_inv g n (received pre) p" and open': "ps_pending p \<noteq> 0"
  shows "case par_step n' g ev p of
      Inl out \<Rightarrow> race_commit g n (pre @ [ev]) out \<and> (snd out = None \<longrightarrow> (\<forall>e. ev \<noteq> CtxDone e))
    | Inr p' \<Rightarrow> race_inv g n (received (pre @ [ev])) p' \<and> ps_pending p' \<noteq> 0 \<and> (\<forall>e. ev \<noteq> CtxDone e)"
proof (cases ev)
  case (Received res c)
  note r = race_receive [OF inv open', of res]
  show ?thesis
  proof (cases "par_receive g res p")
    case (Inl out)
    then have out: "lr_synced g res" "out = (attribute (race_consulted (received pre @ [res])) (lr_name res) (lr_song res), None)"
      using r by simp_all
    have "\<not> list_ex (lr_synced g) (received pre)" using inv by (simp add: race_inv_def)
    then have "race_commit g n (pre @ [ev]) out" using out Received by (auto simp: race_commit_def race_winner_def Let_def)
    with Inl Received show ?thesis by (simp add: par_step_def)
  next
    case (Inr p')
    then have inv': "race_inv g n (received (pre @ [ev])) p'" using r Received by simp
    then have "ps_pending p' = 0 \<Longrightarrow> length (received (pre @ [ev])) = n" by (simp add: race_inv_def)
    with Inr Received inv' race_finish [OF inv'] show ?thesis by (simp add: par_step_def)
  qed
next
  case (UpgradeFired c)
  have same: "received (pre @ [ev]) = received pre" using UpgradeFired by simp
  show ?thesis
  proof (cases "ps_upgrade p \<and> c = None")
    case True
    then have held: "ps_held p \<noteq> None" using inv unfolding race_inv_def by blast
    have "race_commit g n (pre @ [ev]) (held_result p)"
      using race_held [of g n "pre @ [ev]" p] inv same True UpgradeFired held by simp
    with True UpgradeFired show ?thesis by (simp add: par_step_def)
  next
    case False
    with UpgradeFired inv open' same show ?thesis by (auto simp: par_step_def race_commit_def split: option.splits)
  qed
qed (simp add: par_step_def race_commit_def)

lemma race_run:
  "race_inv g n (received pre) p \<Longrightarrow> ps_pending p \<noteq> 0 \<Longrightarrow> \<forall>e. CtxDone e \<notin> set pre \<Longrightarrow> par_run n' g evs p = Some out \<Longrightarrow>
   \<exists>mid post. evs = mid @ post \<and> race_commit g n (pre @ mid) out \<and> (snd out = None \<longrightarrow> (\<forall>e. CtxDone e \<notin> set (pre @ mid)))"
proof (induction evs arbitrary: pre p)
  case (Cons ev evs)
  note step = race_step [OF Cons.prems(1,2), where n' = n' and ev = ev]
  show ?case
  proof (cases "par_step n' g ev p")
    case (Inl o')
    with Cons.prems(3,4) step show ?thesis by (intro exI [of _ "[ev]"] exI [of _ evs]) auto
  next
    case (Inr p')
    with step Cons.prems(3) have "race_inv g n (received (pre @ [ev])) p'" "ps_pending p' \<noteq> 0" "\<forall>e. CtxDone e \<notin> set (pre @ [ev])" by auto
    from Cons.IH [OF this] Cons.prems(4) Inr obtain mid post where "evs = mid @ post" "race_commit g n ((pre @ [ev]) @ mid) out"
      "snd out = None \<longrightarrow> (\<forall>e. CtxDone e \<notin> set ((pre @ [ev]) @ mid))" by auto
    then show ?thesis by (intro exI [of _ "ev # mid"] exI [of _ post]) simp
  qed
qed simp

text \<open>
  C12. What the parallel race commits: if every received result is one of the given lanes, a dispatch
  that ends without an error commits, before any cancellation was observed, the result of a lane,
  with that lane as winner over exactly the lanes that ran their provider until then; and the
  choice is the rule of the race: a suitable time-synced reply at its arrival, never an earlier
  one passed over; else the first suitable reply, and that only once the upgrade window has elapsed
  or all lanes have reported; else, with all lanes reported and none suitable, the first reply of
  the best quality.
\<close>

theorem parallel_commits_safely:
  assumes "ls \<noteq> []" "set (received evs) \<subseteq> lane_result_of ` set ls"
    and "fst (findParallel g ls None evs) = Some (s, None)"
  shows "\<exists>pre post. \<exists>le \<in> set ls. evs = pre @ post \<and> (\<forall>e. CtxDone e \<notin> set pre)
    \<and> lane_result_of le \<in> set (received pre) \<and> race_winner g (length ls) pre (lane_result_of le)
    \<and> s = attribute (race_consulted (received pre)) (lr_name (lane_result_of le)) (lr_song (lane_result_of le))"
proof -
  have "par_run (length ls) g evs (par_init (length ls)) = Some (s, None)" using assms(3) by (simp add: findParallel_def)
  moreover have "ps_pending (par_init (length ls)) \<noteq> 0" using assms(1) by (simp add: par_init_def)
  ultimately obtain pre post where r: "evs = pre @ post" "race_commit g (length ls) pre (s, None)" "\<forall>e. CtxDone e \<notin> set pre"
    using race_run [of g "length ls" "[]" "par_init (length ls)" "length ls" evs "(s, None)"] race_inv_init [of g "length ls"] by auto
  then obtain res where res: "res \<in> set (received pre)" "race_winner g (length ls) pre res"
    "s = attribute (race_consulted (received pre)) (lr_name res) (lr_song res)" by (auto simp: race_commit_def)
  moreover obtain le where "le \<in> set ls" "res = lane_result_of le" using assms(2) r(1) res(1) by auto
  ultimately show ?thesis using r(1,3) by blast
qed

definition reply_of :: "string \<Rightarrow> song \<Rightarrow> lane_result" where
  "reply_of n s = \<lparr>lr_song = s, lr_err = None, lr_name = n\<rparr>"

abbreviation sample_race :: "(lane \<times> lane_env) list" where
  "sample_race \<equiv> [(sample_lane ''a'', answer (Inr unsynced_song)), (sample_lane ''b'', answer (Inr synced_song))]"

lemma sample_replies: "lane_result_of (sample_lane ''a'', answer (Inr unsynced_song)) = reply_of ''a'' unsynced_song"
  "lane_result_of (sample_lane ''b'', answer (Inr synced_song)) = reply_of ''b'' synced_song"
proof -
  have "lane_result_of le = (case arm_outcome le of Inl e \<Rightarrow> \<lparr>lr_song = zero_song, lr_err = Some e, lr_name = ln_name (fst le)\<rparr>
      | Inr s \<Rightarrow> \<lparr>lr_song = s, lr_err = None, lr_name = ln_name (fst le)\<rparr>)" for le
    by (auto simp: lane_result_of_def arm_outcome_def split: prod.splits sum.splits)
  then show "lane_result_of (sample_lane ''a'', answer (Inr unsynced_song)) = reply_of ''a'' unsynced_song"
    "lane_result_of (sample_lane ''b'', answer (Inr synced_song)) = reply_of ''b'' synced_song"
    by (simp_all add: reply_of_def)
qed

theorem parallel_commits_safely_witness:
  "\<exists>pre post. \<exists>le \<in> set sample_race. map (\<lambda>le. Received (lane_result_of le) None) sample_race = pre @ post
     \<and> race_winner None 2 pre (lane_result_of le)
     \<and> attribute [''a'', ''b''] ''b'' synced_song = attribute (race_consulted (received pre)) (lr_name (lane_result_of le)) (lr_song (lane_result_of le))"
proof -
  let ?evs = "map (\<lambda>le. Received (lane_result_of le) None) sample_race"
  have run: "fst (findParallel None sample_race None ?evs) = Some (attribute [''a'', ''b''] ''b'' synced_song, None)"
    unfolding list.map sample_replies
    by (simp add: findParallel_def par_step_def par_receive_def par_init_def reply_of_def Let_def
        IsSuitable_def QualityOf_def unsynced_song_def synced_song_def zero_song_def less_quality_def
        less_eq_quality_def ClassifyOutcome_def zero_dispatch_def)
  have "set (received ?evs) \<subseteq> lane_result_of ` set sample_race" by simp
  moreover have "length sample_race = 2" by simp
  ultimately show ?thesis using parallel_commits_safely [OF _ _ run] by (metis (no_types, lifting) list.distinct(1))
qed

lemma par_run_returns:
  "0 < ps_pending p \<Longrightarrow> ps_pending p \<le> length (received evs) \<Longrightarrow> par_run n g evs p \<noteq> None"
proof (induction evs arbitrary: p)
  case (Cons ev evs)
  show ?case
  proof (cases "par_step n g ev p")
    case (Inr p')
    have "0 < ps_pending p' \<and> ps_pending p' \<le> length (received evs)"
    proof (cases ev)
      case (Received res c)
      then obtain q where q: "par_receive g res p = Inr q" "ps_pending q \<noteq> 0" "p' = q"
        using Inr by (auto simp: par_step_def split: sum.splits if_splits)
      then have "ps_pending p' = ps_pending p - 1"
        by (auto simp: par_receive_def Let_def split: option.splits if_splits)
      with q Received Cons.prems show ?thesis by auto
    next
      case (UpgradeFired c)
      then have "p' = p" using Inr by (auto simp: par_step_def split: if_splits option.splits)
      with UpgradeFired Cons.prems show ?thesis by simp
    qed (use Inr in \<open>simp add: par_step_def\<close>)
    with Cons.IH Inr show ?thesis by simp
  qed simp
qed simp

text \<open>
  C13. Parallel dispatch returns: in every execution in which each lane's result is eventually
  received, whatever else is interleaved, the collector produces an outcome; and every lane has
  been driven exactly once, each on its own breaker.
\<close>

theorem parallel_returns:
  assumes "ls \<noteq> []" "length ls \<le> length (received evs)"
  shows "\<exists>out. findParallel g ls None evs = (Some out, map arm_driven ls)"
proof -
  have "par_run (length ls) g evs (par_init (length ls)) \<noteq> None"
    using assms by (intro par_run_returns) (simp_all add: par_init_def)
  then show ?thesis by (auto simp: findParallel_def arm_driven_def case_prod_beta)
qed

theorem parallel_returns_witness:
  "\<exists>out. findParallel None [(sample_lane ''a'', answer miss_reply)] None
     [UpgradeFired None, Received (lane_result_of (sample_lane ''a'', answer miss_reply)) None]
   = (Some out, [arm_driven (sample_lane ''a'', answer miss_reply)])"
  using parallel_returns [of "[(sample_lane ''a'', answer miss_reply)]"
      "[UpgradeFired None, Received (lane_result_of (sample_lane ''a'', answer miss_reply)) None]" None] by simp

text \<open>The dispatcher's schedule always reaches an outcome: \<open>orch_FindLyrics\<close> never uses its default.\<close>

lemma received_receive [simp]: "received (map (\<lambda>r. Received r c) rs) = rs"
  by (induction rs) auto

lemma length_fold_remove1: "length xs \<le> length rs + length (fold remove1 rs xs)"
proof (induction rs arbitrary: xs)
  case (Cons r rs)
  have "length xs \<le> Suc (length (remove1 r xs))" by (simp add: length_remove1) arith
  with Cons [of "remove1 r xs"] show ?case by simp
qed simp

lemma par_schedule_returns: "ls \<noteq> [] \<Longrightarrow> fst (findParallel g ls None (par_schedule ls evs)) \<noteq> None"
  using length_fold_remove1 [of "map lane_result_of ls" "received evs"]
    par_run_returns [of "par_init (length ls)" "par_schedule ls evs" "length ls" g]
  by (simp add: findParallel_def par_schedule_def par_init_def)

section \<open>Attribution\<close>

lemma laneAttempts_one_hit:
  "distinct names \<Longrightarrow> w \<in> set names \<Longrightarrow> filter la_Hit (laneAttemptsFor names w) = [\<lparr>la_Lane = w, la_Hit = True\<rparr>]"
proof (induction names)
  case (Cons n names)
  have "w \<notin> set names \<Longrightarrow> filter la_Hit (laneAttemptsFor names w) = []"
    by (auto simp: laneAttemptsFor_def filter_empty_conv)
  with Cons show ?case by (auto simp: laneAttemptsFor_def)
qed simp

lemma laneAttempts_lanes: "map la_Lane (laneAttemptsFor names w) = names"
  by (simp add: laneAttemptsFor_def comp_def)

text \<open>
  Per-track attribution: when ordered dispatch returns a song, with distinct lane names and
  whatever cancellations might have struck, the attempts recorded for the track are exactly lanes
  that were consulted (a prefix of them, in order), and exactly one of them is a hit, the winner.
\<close>

theorem attribution_one_hit:
  assumes "distinct (map arm_name ls)" "fst (findOrdered g ls ctx_end) = (s, None)"
  shows "filter la_Hit (LaneAttempts s) = [\<lparr>la_Lane = WinningLane s, la_Hit = True\<rparr>]
    \<and> (\<exists>rest. consulted_names ls = map la_Lane (LaneAttempts s) @ rest)"
proof -
  have dist: "distinct (consulted_names xs)" if "distinct (map arm_name xs)" for xs
    using that by (rule distinct_map_filter)
  let ?stop = "\<lambda>a. le_ctx (snd a) \<noteq> None \<or> arm_suitable g a"
  show ?thesis
  proof (cases "\<exists>a \<in> set ls. ?stop a")
    case False
    then have plain: "\<forall>a \<in> set ls. le_ctx (snd a) = None \<and> \<not> arm_suitable g a" by blast
    let ?r = "fold absorb ls zero_dispatch"
    have s: "haveBest ?r" "s = attribute (consulted_names ls) (bestLane ?r) (bestSong ?r)"
      using assms(2) findOrdered_unsuitable [OF plain, of ctx_end]
      by (auto simp: resolve_def attribute_def Let_def split: if_splits option.splits)
    with absorb_all [of ls] obtain a where "a \<in> set ls" "arm_outcome a = Inr (bestSong ?r)" "bestLane ?r = arm_name a"
      by (auto simp: best_inv_def)
    then have "bestLane ?r \<in> set (consulted_names ls)" by (auto dest: song_reports)
    with s dist [OF assms(1)] show ?thesis
      by (simp add: attribute_def laneAttempts_one_hit laneAttempts_lanes)
  next
    case True
    then obtain pre a post where ls: "ls = pre @ a # post" and a: "?stop a" and pre: "\<forall>x \<in> set pre. \<not> ?stop x"
      using split_list_first_prop [of ls ?stop] by blast
    from pre have pre': "\<forall>x \<in> set pre. le_ctx (snd x) = None \<and> \<not> arm_suitable g x" by blast
    show ?thesis
    proof (cases "le_ctx (snd a)")
      case (Some e)
      then have "fst (findOrdered g ls ctx_end) = (zero_song, Some e)"
        by (cases a) (simp add: ls findOrdered_def ordered_loop_skip [OF pre'])
      with assms(2) show ?thesis by simp
    next
      case None
      with a obtain t where t: "arm_outcome a = Inr t" "IsSuitable t g"
        by (auto simp: arm_suitable_def split: sum.splits)
      then have s: "s = attribute (consulted_names pre @ [arm_name a]) (arm_name a) t"
        using assms(2) findOrdered_first [OF pre' None t] by (simp add: ls)
      have names: "consulted_names ls = (consulted_names pre @ [arm_name a]) @ consulted_names post"
        using song_reports [OF t(1)] by (simp add: ls)
      with dist [OF assms(1)] have d: "distinct (consulted_names pre @ [arm_name a])" by simp
      have "LaneAttempts s = laneAttemptsFor (consulted_names pre @ [arm_name a]) (arm_name a)" "WinningLane s = arm_name a"
        by (simp_all add: s attribute_def)
      with laneAttempts_one_hit [OF d] names show ?thesis
        by (simp only: laneAttempts_lanes) auto
    qed
  qed
qed

theorem attribution_one_hit_witness:
  "filter la_Hit (LaneAttempts (fst (fst (findOrdered None
      [(sample_lane ''a'', answer (Inr synced_song)), (sample_lane ''b'', answer (Inr synced_song))] None))))
   = [\<lparr>la_Lane = ''a'', la_Hit = True\<rparr>]"
proof -
  let ?ls = "[(sample_lane ''a'', answer (Inr synced_song)), (sample_lane ''b'', answer (Inr synced_song))]"
  have "fst (findOrdered None ?ls None) = (attribute [''a''] ''a'' synced_song, None)"
    using findOrdered_first [of "[]" None "(sample_lane ''a'', answer (Inr synced_song))" synced_song "tl ?ls" None]
    by (simp add: IsSuitable_def QualityOf_def synced_song_def less_quality_def)
  with attribution_one_hit [of ?ls None None] show ?thesis by (simp add: attribute_def)
qed

section \<open>Sentinels of the second provider\<close>

text \<open>
  C20. Only the sentinels of the first provider are classified.  An error that carries only
  sentinels of package \<open>petitlyrics\<close> (no results, rate limited, unauthorised) is ranked as a
  transport failure and leaves the breaker as the gate left it: a miss is not benign, and
  throttling never opens the circuit.
\<close>

theorem petitlyrics_signal_is_transport:
  assumes "set (err_chain e) \<subseteq> {PlUnauthorized, PlRateLimited, PlNotFound}" "le_reply env = Inl e"
    and "fst (Allow (le_allow_at env) (ln_breaker l)) \<noteq> StateOpen"
  shows "ClassifyOutcome (err_of (fst (lane_FindLyrics env l))) = OutcomeTransport
    \<and> ln_breaker (snd (lane_FindLyrics env l)) = snd (Allow (le_allow_at env) (ln_breaker l))"
proof -
  have "\<not> errors_is e s" if "s \<notin> {PlUnauthorized, PlRateLimited, PlNotFound}" for s
    using assms(1) that by (auto simp: errors_is_def)
  then have "ClassifyOutcome (Some e) = OutcomeTransport" "\<not> errors_is e MxTokenRenewalRequired"
    "\<not> is_throttle e" "\<not> IsBenignMiss e"
    by (auto simp: ClassifyOutcome_def is_throttle_def IsBenignMiss_def)
  with assms(2,3) show ?thesis
    by (auto simp: lane_FindLyrics_def classify_def Let_def case_prod_beta ClassifyOutcome_def
        IsBenignMiss_def is_throttle_def)
qed

theorem petitlyrics_signal_is_transport_witness:
  "ln_breaker (snd (lane_FindLyrics (answer (Inl (GoErr ''petitlyrics: rate limited'' [PlRateLimited])))
      (sample_lane ''p''))) = new_breaker minute hour"
  using petitlyrics_signal_is_transport [of "GoErr ''petitlyrics: rate limited'' [PlRateLimited]"
      "answer (Inl (GoErr ''petitlyrics: rate limited'' [PlRateLimited]))" "sample_lane ''p''"]
  by (simp add: answer_def sample_lane_def NewLane_def new_breaker_def Allow_def)

end
