(* ===== verification/Go_Strings.thy ===== *)
theory Go_Strings
  imports Prelude
begin

text \<open>
  The operations of Go's package \<open>strings\<close> the modelled code uses, on UTF-8 byte strings:
  \<open>TrimSpace\<close> (all Unicode white space), \<open>ToLower\<close>, \<open>ToValidUTF8\<close> with an empty
  replacement, the prefix and suffix tests, and the conversion \<open>[]rune(s)\<close>.  \<open>ToLower\<close>
  works byte by byte on an ASCII string, as Go's does; for other strings it applies the
  Unicode case tables, which are an argument.
\<close>

abbreviation byte_of :: "char \<Rightarrow> nat" where
  "byte_of \<equiv> of_char"

definition bytes :: "nat list \<Rightarrow> string" where
  "bytes ns = map char_of ns"

section \<open>Prefixes and suffixes\<close>

definition HasPrefix :: "string \<Rightarrow> string \<Rightarrow> bool" where
  "HasPrefix s p \<longleftrightarrow> take (length p) s = p"

definition HasSuffix :: "string \<Rightarrow> string \<Rightarrow> bool" where
  "HasSuffix s p \<longleftrightarrow> HasPrefix (rev s) (rev p)"

definition TrimSuffix :: "string \<Rightarrow> string \<Rightarrow> string" where
  "TrimSuffix s p = (if HasSuffix s p then take (length s - length p) s else s)"

lemma HasPrefix_Cons [simp]: "HasPrefix (c # s) (d # p) \<longleftrightarrow> c = d \<and> HasPrefix s p"
  and HasPrefix_empty [simp]: "HasPrefix s []" "\<not> HasPrefix [] (d # p)"
  by (auto simp: HasPrefix_def)

lemma HasPrefix_append: "HasPrefix s p \<longleftrightarrow> (\<exists>t. s = p @ t)"
  unfolding HasPrefix_def by (metis append_eq_conv_conj append_take_drop_id)

section \<open>White space\<close>

text \<open>The UTF-8 forms of the runes \<open>unicode.IsSpace\<close> accepts.\<close>

definition space_forms :: "string list" where
  "space_forms = map bytes
     ([[9], [10], [11], [12], [13], [32], [194, 133], [194, 160], [225, 154, 128]]
      @ map (\<lambda>k. [226, 128, k]) [128, 129, 130, 131, 132, 133, 134, 135, 136, 137, 138, 168, 169, 175]
      @ [[226, 129, 159], [227, 128, 128]])"

lemma space_forms_nonempty: "p \<in> set space_forms \<Longrightarrow> p \<noteq> []"
  by (auto simp: space_forms_def bytes_def)

definition leading_space :: "string \<Rightarrow> string option" where
  "leading_space s = find (HasPrefix s) space_forms"

function trim_left :: "string \<Rightarrow> string" where
  "trim_left s = (case leading_space s of None \<Rightarrow> s | Some p \<Rightarrow> trim_left (drop (length p) s))"
  by pat_completeness auto
termination
proof (relation "measure length", goal_cases)
  case (2 s p)
  then have "p \<in> set space_forms" and pre: "HasPrefix s p"
    by (auto simp: leading_space_def find_Some_iff)
  then have "p \<noteq> []" by (auto dest: space_forms_nonempty)
  with pre show ?case by (cases p; cases s) (auto simp: HasPrefix_def)
qed simp

declare trim_left.simps [simp del]

definition trailing_space :: "string \<Rightarrow> string option" where
  "trailing_space s = find (HasSuffix s) space_forms"

function trim_right :: "string \<Rightarrow> string" where
  "trim_right s =
     (case trailing_space s of None \<Rightarrow> s | Some p \<Rightarrow> trim_right (take (length s - length p) s))"
  by pat_completeness auto
termination
proof (relation "measure length", goal_cases)
  case (2 s p)
  then have "p \<in> set space_forms" and suf: "HasSuffix s p"
    by (auto simp: trailing_space_def find_Some_iff)
  then have "p \<noteq> []" by (auto dest: space_forms_nonempty)
  with suf show ?case by (cases s) (auto simp: HasSuffix_def HasPrefix_def)
qed simp

declare trim_right.simps [simp del]

definition TrimSpace :: "string \<Rightarrow> string" where
  "TrimSpace s = trim_right (trim_left s)"

lemma trim_left_idem [simp]: "trim_left (trim_left s) = trim_left s"
proof (induction s rule: trim_left.induct)
  case (1 s)
  then show ?case
    by (cases "leading_space s") (auto simp: trim_left.simps [of s])
qed

lemma trim_left_leading: "leading_space (trim_left s) = None"
proof (induction s rule: trim_left.induct)
  case (1 s)
  then show ?case
    by (cases "leading_space s") (auto simp: trim_left.simps [of s])
qed

lemma trim_right_trailing: "trailing_space (trim_right s) = None"
proof (induction s rule: trim_right.induct)
  case (1 s)
  then show ?case
    by (cases "trailing_space s") (auto simp: trim_right.simps [of s])
qed

lemma trim_right_id: "trailing_space s = None \<Longrightarrow> trim_right s = s"
  by (simp add: trim_right.simps)

lemma trim_left_id: "leading_space s = None \<Longrightarrow> trim_left s = s"
  by (simp add: trim_left.simps)

lemma trim_right_prefix: "\<exists>t. s = trim_right s @ t"
proof (induction s rule: trim_right.induct)
  case (1 s)
  show ?case
  proof (cases "trailing_space s")
    case None
    then show ?thesis by (simp add: trim_right.simps [of s])
  next
    case (Some p)
    with 1 obtain t where "take (length s - length p) s = trim_right (take (length s - length p) s) @ t"
      by blast
    then have "s = trim_right (take (length s - length p) s) @ t @ drop (length s - length p) s"
      by (metis append.assoc append_take_drop_id)
    with Some show ?thesis by (auto simp: trim_right.simps [of s])
  qed
qed

lemma leading_space_prefix: "leading_space (s @ t) = None \<Longrightarrow> leading_space s = None"
  by (auto simp: leading_space_def find_None_iff HasPrefix_append)

lemma TrimSpace_idem [simp]: "TrimSpace (TrimSpace s) = TrimSpace s"
proof -
  obtain t where "trim_left s = trim_right (trim_left s) @ t"
    using trim_right_prefix by blast
  then have "leading_space (trim_right (trim_left s)) = None"
    using trim_left_leading leading_space_prefix by metis
  then show ?thesis
    by (simp add: TrimSpace_def trim_left_id trim_right_id trim_right_trailing)
qed

section \<open>Case\<close>

definition is_ascii :: "string \<Rightarrow> bool" where
  "is_ascii s \<longleftrightarrow> list_all (\<lambda>c. byte_of c < 128) s"

definition lower_byte :: "char \<Rightarrow> char" where
  "lower_byte c = (if 65 \<le> byte_of c \<and> byte_of c \<le> 90 then char_of (byte_of c + 32) else c)"

definition ToLower :: "(string \<Rightarrow> string) \<Rightarrow> string \<Rightarrow> string" where
  "ToLower unicode_lower s = (if is_ascii s then map lower_byte s else unicode_lower s)"

lemma byte_lower_byte: "byte_of (lower_byte c) = (if 65 \<le> byte_of c \<and> byte_of c \<le> 90 then byte_of c + 32 else byte_of c)"
  by (simp add: lower_byte_def)

lemma lower_byte_idem [simp]: "lower_byte (lower_byte c) = lower_byte c"
  unfolding lower_byte_def [of "lower_byte c"] by (auto simp: byte_lower_byte)

lemma is_ascii_lower [simp]: "is_ascii s \<Longrightarrow> is_ascii (map lower_byte s)"
  by (auto simp: is_ascii_def list_all_iff byte_lower_byte)

section \<open>UTF-8\<close>

definition cont :: "nat \<Rightarrow> bool" where
  "cont b \<longleftrightarrow> 128 \<le> b \<and> b \<le> 191"

text \<open>\<open>decode_rune bs\<close> is \<open>utf8.DecodeRune\<close>: the rune and its length, or \<open>None\<close> for an
  invalid encoding.\<close>

fun decode_rune :: "nat list \<Rightarrow> (nat \<times> nat) option" where
  "decode_rune [] = None"
| "decode_rune (b # bs) =
     (if b < 128 then Some (b, 1)
      else case bs of
        [] \<Rightarrow> None
      | b1 # bs1 \<Rightarrow>
          if 194 \<le> b \<and> b \<le> 223 then
            (if cont b1 then Some ((b - 192) * 64 + (b1 - 128), 2) else None)
          else (case bs1 of
            [] \<Rightarrow> None
          | b2 # bs2 \<Rightarrow>
              if 224 \<le> b \<and> b \<le> 239 then
                (if cont b1 \<and> cont b2 \<and> (b = 224 \<longrightarrow> 160 \<le> b1) \<and> (b = 237 \<longrightarrow> b1 \<le> 159)
                 then Some ((b - 224) * 4096 + (b1 - 128) * 64 + (b2 - 128), 3) else None)
              else (case bs2 of
                [] \<Rightarrow> None
              | b3 # _ \<Rightarrow>
                  if 240 \<le> b \<and> b \<le> 244 \<and> cont b1 \<and> cont b2 \<and> cont b3
                     \<and> (b = 240 \<longrightarrow> 144 \<le> b1) \<and> (b = 244 \<longrightarrow> b1 \<le> 143)
                  then Some ((b - 240) * 262144 + (b1 - 128) * 4096 + (b2 - 128) * 64 + (b3 - 128), 4)
                  else None)))"

function runes_of :: "nat list \<Rightarrow> nat list" where
  "runes_of bs =
     (if bs = [] then []
      else case decode_rune bs of
        None \<Rightarrow> 65533 # runes_of (drop 1 bs)
      | Some (r, n) \<Rightarrow> r # runes_of (drop (max 1 n) bs))"
  by pat_completeness auto
termination by (relation "measure length") auto

declare runes_of.simps [simp del]

function valid_bytes :: "nat list \<Rightarrow> nat list" where
  "valid_bytes bs =
     (if bs = [] then []
      else case decode_rune bs of
        None \<Rightarrow> valid_bytes (drop 1 bs)
      | Some (r, n) \<Rightarrow> take (max 1 n) bs @ valid_bytes (drop (max 1 n) bs))"
  by pat_completeness auto
termination by (relation "measure length") auto

declare valid_bytes.simps [simp del]

definition ToValidUTF8 :: "string \<Rightarrow> string" where
  "ToValidUTF8 s = bytes (valid_bytes (map byte_of s))"

definition runes :: "string \<Rightarrow> nat list" where
  "runes s = runes_of (map byte_of s)"

lemma valid_bytes_ascii: "list_all (\<lambda>b. b < 128) bs \<Longrightarrow> valid_bytes bs = bs"
proof (induction bs)
  case Nil
  show ?case by (simp add: valid_bytes.simps)
next
  case (Cons b bs)
  then show ?case by (simp add: valid_bytes.simps [of "b # bs"])
qed

lemma ToValidUTF8_ascii: "is_ascii s \<Longrightarrow> ToValidUTF8 s = s"
proof -
  assume "is_ascii s"
  then have "valid_bytes (map byte_of s) = map byte_of s"
    by (intro valid_bytes_ascii) (simp add: is_ascii_def list_all_iff)
  then show ?thesis by (simp add: ToValidUTF8_def bytes_def map_idI)
qed

section \<open>Plain words\<close>

text \<open>A word of lower-case ASCII letters has no white space and is its own lower-case form.\<close>

definition plain :: "string \<Rightarrow> bool" where
  "plain s \<longleftrightarrow> list_all (\<lambda>c. 97 \<le> byte_of c \<and> byte_of c \<le> 122) s"

lemma space_forms_ends:
  "p \<in> set space_forms \<Longrightarrow> \<not> (97 \<le> byte_of (hd p) \<and> byte_of (hd p) \<le> 122)"
  "p \<in> set space_forms \<Longrightarrow> \<not> (97 \<le> byte_of (last p) \<and> byte_of (last p) \<le> 122)"
  by (auto simp: space_forms_def bytes_def)

lemma plain_no_space:
  assumes "plain s"
  shows "leading_space s = None" "trailing_space s = None"
proof -
  have "\<not> HasPrefix s p" if "p \<in> set space_forms" for p
    using space_forms_ends(1) [OF that] space_forms_nonempty [OF that] assms
    by (cases p; cases s) (auto simp: HasPrefix_def plain_def)
  then show "leading_space s = None" by (auto simp: leading_space_def find_None_iff)
  have "\<not> HasSuffix s p" if "p \<in> set space_forms" for p
  proof
    assume "HasSuffix s p"
    then obtain u where "rev s = rev p @ u" by (auto simp: HasSuffix_def HasPrefix_append)
    then have "rev (rev s) = rev (rev p @ u)" by (rule arg_cong)
    then obtain t where "s = t @ p" by simp
    with assms space_forms_ends(2) [OF that] space_forms_nonempty [OF that] show False
      by (cases p rule: rev_cases) (auto simp: plain_def)
  qed
  then show "trailing_space s = None" by (auto simp: trailing_space_def find_None_iff)
qed

lemma TrimSpace_plain: "plain s \<Longrightarrow> TrimSpace s = s"
  by (simp add: TrimSpace_def trim_left_id trim_right_id plain_no_space)

lemma plain_ascii: "plain s \<Longrightarrow> is_ascii s"
  by (auto simp: plain_def is_ascii_def list_all_iff)

lemma ToLower_plain: "plain s \<Longrightarrow> ToLower u s = s"
  by (simp add: ToLower_def plain_ascii) (auto simp: plain_def list_all_iff lower_byte_def intro!: map_idI)

section \<open>Printable words\<close>

text \<open>A word of printable ASCII has nothing to trim.\<close>

definition graphic :: "string \<Rightarrow> bool" where
  "graphic s \<longleftrightarrow> list_all (\<lambda>c. 33 \<le> byte_of c \<and> byte_of c \<le> 126) s"

lemma space_forms_not_graphic:
  "p \<in> set space_forms \<Longrightarrow> \<not> (33 \<le> byte_of (hd p) \<and> byte_of (hd p) \<le> 126)"
  "p \<in> set space_forms \<Longrightarrow> \<not> (33 \<le> byte_of (last p) \<and> byte_of (last p) \<le> 126)"
  by (auto simp: space_forms_def bytes_def)

lemma TrimSpace_graphic:
  assumes "graphic s"
  shows "TrimSpace s = s"
proof -
  have "\<not> HasPrefix s p" if "p \<in> set space_forms" for p
    using space_forms_not_graphic(1) [OF that] space_forms_nonempty [OF that] assms
    by (cases p; cases s) (auto simp: HasPrefix_def graphic_def)
  then have "leading_space s = None" by (auto simp: leading_space_def find_None_iff)
  moreover have "\<not> HasSuffix s p" if "p \<in> set space_forms" for p
  proof
    assume "HasSuffix s p"
    then obtain u where "rev s = rev p @ u" by (auto simp: HasSuffix_def HasPrefix_append)
    then have "s = rev u @ p" by (metis rev_append rev_rev_ident)
    with assms space_forms_not_graphic(2) [OF that] space_forms_nonempty [OF that] show False
      by (cases p rule: rev_cases) (auto simp: graphic_def)
  qed
  then have "trailing_space s = None" by (auto simp: trailing_space_def find_None_iff)
  ultimately show ?thesis by (simp add: TrimSpace_def trim_left_id trim_right_id)
qed

section \<open>Hexadecimal\<close>

text \<open>\<open>hex.EncodeToString\<close>.\<close>

definition hex_digit :: "nat \<Rightarrow> char" where
  "hex_digit n = char_of (if n < 10 then 48 + n else 87 + n)"

definition hex_encode :: "string \<Rightarrow> string" where
  "hex_encode b = concat (map (\<lambda>c. [hex_digit (byte_of c div 16), hex_digit (byte_of c mod 16)]) b)"

end
