(* ===== verification/Normalize.thy ===== *)
theory Normalize
  imports Complex_Main Go_Strings
begin

text \<open>
  \<^verbatim>\<open>internal/normalize\<close>: cache and queue keys, the artist used for matching, duration
  buckets and the metadata match score.  The Unicode transform chain of
  \<^verbatim>\<open>golang.org/x/text\<close> (NFKD, removal of the marks, NFC) and the Unicode case tables are not
  part of the repository: they are the fields of the \<open>text_lib\<close> argument.  The score is
  computed with rationals where the code uses \<open>float64\<close>, so its lemmas are about the
  formula and leave rounding aside.
\<close>

section \<open>Keys\<close>

record text_lib =
  tl_transform :: "string \<Rightarrow> string option"
  tl_lower :: "string \<Rightarrow> string"

definition NormalizeKey :: "text_lib \<Rightarrow> string \<Rightarrow> string" where
  "NormalizeKey T s =
     (let sanitized = ToValidUTF8 s;
          res = (case tl_transform T sanitized of None \<Rightarrow> sanitized | Some r \<Rightarrow> r)
      in ToLower (tl_lower T) (TrimSpace res))"

definition DurationBucket :: "int \<Rightarrow> int" where
  "DurationBucket secs = (if secs \<le> 0 then 0 else secs div 5)"

definition isGenericAlbumArtist :: "text_lib \<Rightarrow> string \<Rightarrow> bool" where
  "isGenericAlbumArtist T s \<longleftrightarrow>
     ToLower (tl_lower T) (TrimSpace s) \<in> {''various artists'', ''various'', ''va''}"

definition ResolveArtist :: "text_lib \<Rightarrow> string \<Rightarrow> string \<Rightarrow> string" where
  "ResolveArtist T albumArtist artist =
     (let trimmed = TrimSpace albumArtist
      in if trimmed \<noteq> [] \<and> \<not> isGenericAlbumArtist T trimmed then trimmed else artist)"

section \<open>Jaro-Winkler\<close>

text \<open>The window of the inner loop, the first unused equal rune in it, and the matching pass
  over the first string; \<open>m1\<close> and \<open>m2\<close> are the two \<open>[]bool\<close>.\<close>

definition match_window :: "nat \<Rightarrow> nat \<Rightarrow> nat \<Rightarrow> nat list" where
  "match_window mdist l2 i = [i - mdist ..< min l2 (i + mdist + 1)]"

fun jw_match :: "nat \<Rightarrow> nat list \<Rightarrow> nat list \<Rightarrow> nat \<Rightarrow> bool list \<Rightarrow> bool list \<times> bool list" where
  "jw_match mdist [] r2 i m2 = ([], m2)"
| "jw_match mdist (c # r1) r2 i m2 =
     (case find (\<lambda>j. \<not> m2 ! j \<and> c = r2 ! j) (match_window mdist (length r2) i) of
        None \<Rightarrow> (let (m1, m2') = jw_match mdist r1 r2 (i + 1) m2 in (False # m1, m2'))
      | Some j \<Rightarrow> (let (m1, m2') = jw_match mdist r1 r2 (i + 1) (m2[j := True]) in (True # m1, m2')))"

definition picked :: "nat list \<Rightarrow> bool list \<Rightarrow> nat list" where
  "picked r m = map fst (filter snd (zip r m))"

text \<open>The pass with the cursor \<open>k\<close> compares the matched runes of both strings in order.\<close>

definition transpositions :: "nat list \<Rightarrow> nat list \<Rightarrow> nat" where
  "transpositions xs ys = length (filter (\<lambda>(x, y). x \<noteq> y) (zip xs ys))"

fun prefix_len :: "nat \<Rightarrow> nat list \<Rightarrow> nat list \<Rightarrow> nat" where
  "prefix_len 0 _ _ = 0"
| "prefix_len (Suc n) (x # xs) (y # ys) = (if x = y then Suc (prefix_len n xs ys) else 0)"
| "prefix_len _ _ _ = 0"

definition jaro :: "nat \<Rightarrow> nat \<Rightarrow> nat \<Rightarrow> nat \<Rightarrow> rat" where
  "jaro m l1 l2 t =
     (of_nat m / of_nat l1 + of_nat m / of_nat l2 + (of_nat m - of_nat t / 2) / of_nat m) / 3"

definition jaroWinkler :: "string \<Rightarrow> string \<Rightarrow> rat" where
  "jaroWinkler s1 s2 =
     (if s1 = s2 then 1
      else if s1 = [] \<or> s2 = [] then 0
      else
        let r1 = runes s1; r2 = runes s2; l1 = length r1; l2 = length r2;
            mdist = max l1 l2 div 2 - 1;
            (m1, m2) = jw_match mdist r1 r2 0 (replicate l2 False);
            matches = length (filter (\<lambda>b. b) m1)
        in if matches = 0 then 0
           else
             let t = transpositions (picked r1 m1) (picked r2 m2);
                 j = jaro matches l1 l2 t;
                 p = prefix_len (min 4 (min l1 l2)) r1 r2
             in j + of_nat p * (1 / 10) * (1 - j))"

definition MatchConfidence :: "text_lib \<Rightarrow> string \<Rightarrow> string \<Rightarrow> rat" where
  "MatchConfidence T a b = jaroWinkler (NormalizeKey T a) (NormalizeKey T b)"

section \<open>Lemmas\<close>

lemma DurationBucket_nonneg: "0 \<le> DurationBucket n"
  by (simp add: DurationBucket_def pos_imp_zdiv_nonneg_iff)

lemma DurationBucket_mono: "m \<le> n \<Longrightarrow> DurationBucket m \<le> DurationBucket n"
  by (auto simp: DurationBucket_def zdiv_mono1 pos_imp_zdiv_nonneg_iff)

lemma ResolveArtist_cases:
  "ResolveArtist T albumArtist artist = TrimSpace albumArtist
   \<or> ResolveArtist T albumArtist artist = artist"
  by (simp add: ResolveArtist_def Let_def)

lemma find_SomeD: "find p xs = Some x \<Longrightarrow> x \<in> set xs \<and> p x"
  by (auto simp: find_Some_iff)

lemma count_list_update:
  "j < length m \<Longrightarrow> \<not> m ! j \<Longrightarrow>
   length (filter (\<lambda>b. b) (m[j := True])) = Suc (length (filter (\<lambda>b. b) m))"
proof (induction m arbitrary: j)
  case (Cons a m)
  then show ?case by (cases j) auto
qed simp

lemma jw_match_counts:
  "jw_match mdist r1 r2 i m2 = (m1, m2') \<Longrightarrow> length m2 = length r2 \<Longrightarrow>
   length m1 = length r1 \<and> length m2' = length r2
   \<and> length (filter (\<lambda>b. b) m2') = length (filter (\<lambda>b. b) m2) + length (filter (\<lambda>b. b) m1)"
proof (induction r1 arbitrary: i m2 m1 m2')
  case Nil
  then show ?case by simp
next
  case (Cons c r1)
  show ?case
  proof (cases "find (\<lambda>j. \<not> m2 ! j \<and> c = r2 ! j) (match_window mdist (length r2) i)")
    case None
    with Cons.prems obtain n1 where n1: "jw_match mdist r1 r2 (i + 1) m2 = (n1, m2')" "m1 = False # n1"
      by (auto split: prod.splits)
    from Cons.IH [OF n1(1) Cons.prems(2)] n1(2) show ?thesis by simp
  next
    case (Some j)
    with Cons.prems obtain n1
      where n1: "jw_match mdist r1 r2 (i + 1) (m2[j := True]) = (n1, m2')" "m1 = True # n1"
      by (auto split: prod.splits)
    from find_SomeD [OF Some] have "j < length m2" "\<not> m2 ! j"
      using Cons.prems(2) by (auto simp: match_window_def)
    then have "length (filter (\<lambda>b. b) (m2[j := True])) = Suc (length (filter (\<lambda>b. b) m2))"
      by (rule count_list_update)
    with Cons.IH [OF n1(1)] Cons.prems(2) n1(2) show ?thesis by simp
  qed
qed

lemma length_picked: "length m = length r \<Longrightarrow> length (picked r m) = length (filter (\<lambda>b. b) m)"
  unfolding picked_def by (induction m r rule: list_induct2) auto

lemma transpositions_le: "transpositions xs ys \<le> length xs"
  unfolding transpositions_def by (rule order_trans [OF length_filter_le]) simp

lemma prefix_len_le: "prefix_len n xs ys \<le> n"
  by (induction n xs ys rule: prefix_len.induct) auto

lemma jaro_bounds:
  assumes "0 < m" "m \<le> l1" "m \<le> l2" "t \<le> m"
  shows "0 \<le> jaro m l1 l2 t \<and> jaro m l1 l2 t \<le> 1"
proof -
  have a: "0 \<le> (of_nat m / of_nat l1 :: rat)" "(of_nat m / of_nat l1 :: rat) \<le> 1"
    and b: "0 \<le> (of_nat m / of_nat l2 :: rat)" "(of_nat m / of_nat l2 :: rat) \<le> 1"
    using assms by (simp_all add: divide_le_eq_1)
  have t: "(of_nat t :: rat) \<le> of_nat m" using assms(4) by simp
  have m: "(0::rat) < of_nat m" using assms(1) by simp
  have "0 \<le> ((of_nat m - of_nat t / 2) / of_nat m :: rat)"
    using t m by (intro divide_nonneg_pos) auto
  moreover have "((of_nat m - of_nat t / 2) / of_nat m :: rat) \<le> 1"
    using m by (simp add: divide_le_eq_1)
  ultimately show ?thesis using a b by (simp add: jaro_def)
qed

lemma winkler_bounds:
  assumes "0 \<le> (j::rat)" "j \<le> 1" "p \<le> 4"
  shows "0 \<le> j + of_nat p * (1 / 10) * (1 - j) \<and> j + of_nat p * (1 / 10) * (1 - j) \<le> 1"
proof -
  have p: "(0::rat) \<le> of_nat p * (1 / 10)" "of_nat p * (1 / 10) \<le> (1::rat)"
    using assms(3) by auto
  then have "of_nat p * (1 / 10) * (1 - j) \<le> 1 * (1 - j)"
    using assms by (intro mult_right_mono) auto
  moreover have "0 \<le> of_nat p * (1 / 10) * (1 - j)"
    using p assms by (intro mult_nonneg_nonneg) auto
  ultimately show ?thesis using assms by auto
qed

lemma jaroWinkler_bounds: "0 \<le> jaroWinkler s1 s2 \<and> jaroWinkler s1 s2 \<le> 1"
proof -
  define r1 where "r1 = runes s1"
  define r2 where "r2 = runes s2"
  obtain m1 m2 where mm:
    "jw_match (max (length r1) (length r2) div 2 - 1) r1 r2 0 (replicate (length r2) False) = (m1, m2)"
    by fastforce
  have c: "length m1 = length r1" "length m2 = length r2"
    "length (filter (\<lambda>b. b) m2) = length (filter (\<lambda>b. b) m1)"
    using jw_match_counts [OF mm] by (simp_all)
  define n where "n = length (filter (\<lambda>b. b) m1)"
  define t where "t = transpositions (picked r1 m1) (picked r2 m2)"
  have le: "n \<le> length r1" "n \<le> length r2" "t \<le> n"
    using c transpositions_le [of "picked r1 m1" "picked r2 m2"]
      length_filter_le [of "\<lambda>b. b" m1] length_filter_le [of "\<lambda>b. b" m2]
    by (simp_all add: n_def t_def length_picked)
  have p: "prefix_len (min 4 (min (length r1) (length r2))) r1 r2 \<le> 4"
    using prefix_len_le [of "min 4 (min (length r1) (length r2))" r1 r2] by linarith
  show ?thesis
  proof (cases "s1 = s2 \<or> s1 = [] \<or> s2 = [] \<or> n = 0")
    case True
    then show ?thesis
      using mm by (auto simp: jaroWinkler_def Let_def r1_def r2_def n_def)
  next
    case False
    with le have "0 \<le> jaro n (length r1) (length r2) t \<and> jaro n (length r1) (length r2) t \<le> 1"
      by (intro jaro_bounds) auto
    then show ?thesis
      using False winkler_bounds [OF _ _ p] mm
      by (auto simp: jaroWinkler_def Let_def r1_def r2_def n_def t_def)
  qed
qed

lemma MatchConfidence_bounds: "0 \<le> MatchConfidence T a b \<and> MatchConfidence T a b \<le> 1"
  by (simp add: MatchConfidence_def jaroWinkler_bounds)

lemma MatchConfidence_same_key: "NormalizeKey T a = NormalizeKey T b \<Longrightarrow> MatchConfidence T a b = 1"
  by (simp add: MatchConfidence_def jaroWinkler_def)

lemma NormalizeKey_plain:
  "plain s \<Longrightarrow> NormalizeKey \<lparr>tl_transform = Some, tl_lower = u\<rparr> s = s"
  by (simp add: NormalizeKey_def plain_ascii ToValidUTF8_ascii TrimSpace_plain ToLower_plain)

end
