(* ===== verification/Queue_State.thy ===== *)
theory Queue_State
  imports Models Normalize Backoff
begin

text \<open>
  The tables of \<^verbatim>\<open>internal/db/migrations\<close> that the durable queue of
  \<^verbatim>\<open>internal/queue/queue.go\<close> and the scan repository read and write, the \<open>DBQueue\<close> struct, the
  \<open>WorkItem\<close> a row is hydrated into, and the in-memory \<open>InputsQueue\<close>.  The \<open>CHECK\<close>
  constraints on the status columns become datatypes, nullable columns options, and the JSON
  text of \<open>output_paths\<close> is kept decoded (with a constructor for text that does not decode).
  SQLite itself is outside the repository: statements are modelled by what they do to the
  rows, and a statement that the engine rejects for a reason outside the data (a full disk,
  a lost connection) is not represented here but in the interfaces of the clients.
\<close>

section \<open>Status values and priorities\<close>

datatype wq_status = Pending | Processing | Done | Failed | Deferred

fun status_text :: "wq_status \<Rightarrow> string" where
  "status_text Pending = ''pending''"
| "status_text Processing = ''processing''"
| "status_text Done = ''done''"
| "status_text Failed = ''failed''"
| "status_text Deferred = ''deferred''"

lemma status_text_inj [simp]: "status_text s = status_text t \<longleftrightarrow> s = t"
  by (cases s; cases t) simp_all

datatype sr_status = SrPending | SrProcessing | SrDone | SrFailed

fun sr_status_text :: "sr_status \<Rightarrow> string" where
  "sr_status_text SrPending = ''pending''"
| "sr_status_text SrProcessing = ''processing''"
| "sr_status_text SrDone = ''done''"
| "sr_status_text SrFailed = ''failed''"

definition PriorityMiss :: int where "PriorityMiss = -100"
definition PriorityScan :: int where "PriorityScan = 0"
definition PriorityWebhook :: int where "PriorityWebhook = 10"

definition missLimitReachedError :: string where
  "missLimitReachedError = ''miss limit reached''"

lemmas priority_defs = PriorityMiss_def PriorityScan_def PriorityWebhook_def

section \<open>Rows\<close>

datatype paths_col = PathsEmpty | PathsJson "output_path list" | PathsBad string

record wq_row =
  q_id :: int
  q_artist :: string
  q_title :: string
  q_album :: string
  q_album_artist :: string
  q_artist_key :: string
  q_title_key :: string
  q_outdir :: string
  q_filename :: string
  q_source_path :: string
  q_output_paths :: paths_col
  q_scan_result_id :: "int option"
  q_status :: wq_status
  q_priority :: int
  q_attempts :: int
  q_miss_count :: int
  q_providers_version :: int
  q_detect_instrumental :: "bool option"
  q_next_attempt_at :: stamp
  q_last_error :: string
  q_created_at :: stamp
  q_updated_at :: stamp
  q_completed_at :: "stamp option"
  q_instrumental_result :: "int option"
  q_provider_lane :: "string option"
  q_outcome_type :: "string option"
  q_music_sum :: "rat option"
  q_vocal_peak :: "rat option"
  q_speech_mean :: "rat option"
  q_vocal_class :: "string option"
  q_detector_version :: "string option"

record sr_row =
  s_id :: int
  s_library_id :: int
  s_file_path :: string
  s_artist :: string
  s_title :: string
  s_album :: string
  s_album_artist :: string
  s_artist_key :: string
  s_title_key :: string
  s_outdir :: string
  s_filename :: string
  s_status :: sr_status
  s_created_at :: stamp

record outcome_row =
  po_lane :: string
  po_hits :: int
  po_misses :: int

record attempt_row =
  at_queue_id :: int
  at_lane :: string
  at_hit :: int
  at_attempted_at :: stamp

text \<open>\<open>links\<close> is \<open>work_queue_scan_results\<close>, pairs of a queue id and a scan result id;
  \<open>wq_seq\<close> and \<open>sr_seq\<close> are the next ids \<open>AUTOINCREMENT\<close> will hand out.\<close>

record db =
  work_queue :: "wq_row list"
  scan_results :: "sr_row list"
  links :: "(int \<times> int) list"
  provider_outcomes :: "outcome_row list"
  lane_attempts :: "attempt_row list"
  wq_seq :: int
  sr_seq :: int

definition empty_db :: db where
  "empty_db = \<lparr>work_queue = [], scan_results = [], links = [], provider_outcomes = [],
     lane_attempts = [], wq_seq = 1, sr_seq = 1\<rparr>"

section \<open>The queue object and its work items\<close>

record dbqueue =
  dq_text :: text_lib
  baseBackoff :: duration
  maxBackoff :: duration
  randomized :: bool
  providersVersion :: int

definition NewDBQueue :: "text_lib \<Rightarrow> dbqueue" where
  "NewDBQueue T = \<lparr>dq_text = T, baseBackoff = DefaultBase, maxBackoff = DefaultMax,
     randomized = True, providersVersion = 0\<rparr>"

definition SetRandomized :: "bool \<Rightarrow> dbqueue \<Rightarrow> dbqueue" where
  "SetRandomized b q = q\<lparr>randomized := b\<rparr>"

definition SetProvidersVersion :: "int \<Rightarrow> dbqueue \<Rightarrow> dbqueue" where
  "SetProvidersVersion v q = q\<lparr>providersVersion := v\<rparr>"

record work_item =
  wi_ID :: int
  wi_Inputs :: inputs
  wi_Status :: wq_status
  wi_Priority :: int
  wi_Attempts :: int
  wi_MissCount :: int
  wi_ProvidersVersion :: int
  wi_DetectInstrumental :: "bool option"
  wi_NextAttemptAt :: stamp
  wi_LastError :: string
  wi_CreatedAt :: stamp
  wi_UpdatedAt :: stamp
  wi_CompletedAt :: "stamp option"

definition formatTime :: "instant \<Rightarrow> stamp" where
  "formatTime t = t div second"

lemma formatTime_mono: "s \<le> t \<Longrightarrow> formatTime s \<le> formatTime t"
  by (simp add: formatTime_def zdiv_mono1)

definition nullableID :: "int \<Rightarrow> int option" where
  "nullableID i = (if i \<le> 0 then None else Some i)"

definition marshalOutputPaths :: "inputs \<Rightarrow> paths_col" where
  "marshalOutputPaths i =
     PathsJson (if in_OutputPaths i = []
                then [\<lparr>op_Outdir = in_Outdir i, op_Filename = in_Filename i\<rparr>]
                else in_OutputPaths i)"

definition unmarshalOutputPaths :: "paths_col \<Rightarrow> string \<Rightarrow> string \<Rightarrow> output_path list result" where
  "unmarshalOutputPaths c outdir filename =
     (case c of
        PathsEmpty \<Rightarrow> Inr [\<lparr>op_Outdir = outdir, op_Filename = filename\<rparr>]
      | PathsBad m \<Rightarrow> Inl (wrapf ''queue: unmarshal output paths'' (errorf m))
      | PathsJson ps \<Rightarrow>
          Inr (if ps = [] then [\<lparr>op_Outdir = outdir, op_Filename = filename\<rparr>] else ps))"

definition outputPathKey :: "output_path \<Rightarrow> string" where
  "outputPathKey p = op_Outdir p @ [char_of (0::nat)] @ op_Filename p"

definition scanWorkItem :: "wq_row \<Rightarrow> work_item result" where
  "scanWorkItem r =
     (case unmarshalOutputPaths (q_output_paths r) (q_outdir r) (q_filename r) of
        Inl e \<Rightarrow> Inl e
      | Inr ps \<Rightarrow> Inr
          \<lparr>wi_ID = q_id r,
           wi_Inputs =
             \<lparr>in_Track = zero_track\<lparr>ArtistName := q_artist r, TrackName := q_title r,
                AlbumName := q_album r, AlbumArtist := q_album_artist r\<rparr>,
              in_Outdir = q_outdir r, in_Filename = q_filename r,
              in_SourcePath = q_source_path r, in_OutputPaths = ps,
              in_ScanResultID = (case q_scan_result_id r of None \<Rightarrow> 0 | Some i \<Rightarrow> i),
              in_DetectInstrumental = None\<rparr>,
           wi_Status = q_status r, wi_Priority = q_priority r, wi_Attempts = q_attempts r,
           wi_MissCount = q_miss_count r, wi_ProvidersVersion = q_providers_version r,
           wi_DetectInstrumental = q_detect_instrumental r,
           wi_NextAttemptAt = q_next_attempt_at r, wi_LastError = q_last_error r,
           wi_CreatedAt = q_created_at r, wi_UpdatedAt = q_updated_at r,
           wi_CompletedAt = q_completed_at r\<rparr>)"

text \<open>A row whose \<open>output_paths\<close> decodes always hydrates.\<close>

definition paths_ok :: "wq_row \<Rightarrow> bool" where
  "paths_ok r \<longleftrightarrow> (\<forall>m. q_output_paths r \<noteq> PathsBad m)"

lemma paths_ok_code [code, simp]:
  "paths_ok r = (case q_output_paths r of PathsBad _ \<Rightarrow> False | _ \<Rightarrow> True)"
  by (auto simp: paths_ok_def split: paths_col.splits)

lemma scanWorkItem_ok:
  "paths_ok r \<Longrightarrow> \<exists>it. scanWorkItem r = Inr it \<and> wi_ID it = q_id r \<and> wi_Status it = q_status r
     \<and> wi_MissCount it = q_miss_count r \<and> wi_Attempts it = q_attempts r
     \<and> wi_Priority it = q_priority r"
  by (auto simp: scanWorkItem_def unmarshalOutputPaths_def split: paths_col.splits)

lemma scanWorkItem_Inr:
  "scanWorkItem r = Inr it \<Longrightarrow> wi_ID it = q_id r \<and> wi_Status it = q_status r
     \<and> wi_MissCount it = q_miss_count r \<and> wi_Attempts it = q_attempts r
     \<and> wi_Priority it = q_priority r \<and> wi_ProvidersVersion it = q_providers_version r"
  by (auto simp: scanWorkItem_def split: sum.splits)

section \<open>The in-memory queue\<close>

text \<open>\<open>InputsQueue\<close> is the slice it holds.\<close>

type_synonym inputs_queue = "inputs list"

definition NewInputsQueue :: inputs_queue where
  "NewInputsQueue = []"

definition iq_Empty :: "inputs_queue \<Rightarrow> bool" where
  "iq_Empty q \<longleftrightarrow> length q = 0"

definition iq_Len :: "inputs_queue \<Rightarrow> int" where
  "iq_Len q = int (length q)"

definition iq_Next :: "inputs_queue \<Rightarrow> inputs result" where
  "iq_Next q = (case q of [] \<Rightarrow> Inl (errorf ''queue is empty'') | i # _ \<Rightarrow> Inr i)"

definition iq_Pop :: "inputs_queue \<Rightarrow> inputs result \<times> inputs_queue" where
  "iq_Pop q = (case q of [] \<Rightarrow> (Inl (errorf ''queue is empty''), q) | i # q' \<Rightarrow> (Inr i, q'))"

definition iq_Push :: "inputs \<Rightarrow> inputs_queue \<Rightarrow> inputs_queue" where
  "iq_Push i q = q @ [i]"

fun iq_drain :: "nat \<Rightarrow> inputs_queue \<Rightarrow> inputs list" where
  "iq_drain 0 q = []"
| "iq_drain (Suc n) q =
     (case iq_Pop q of (Inl _, _) \<Rightarrow> [] | (Inr i, q') \<Rightarrow> i # iq_drain n q')"

lemma iq_drain_all: "iq_drain (length q) q = q"
  by (induction q) (auto simp: iq_Pop_def)

lemma iq_push_all: "fold iq_Push is q = q @ is"
  by (induction "is" arbitrary: q) (auto simp: iq_Push_def)

section \<open>Updates of the queue table\<close>

text \<open>
  Every \<open>UPDATE\<close> of \<open>work_queue\<close> fires the trigger that refreshes \<open>updated_at\<close>; the row a
  \<open>RETURNING\<close> clause shows is the one before the trigger ran.
\<close>

definition touch :: "instant \<Rightarrow> wq_row \<Rightarrow> wq_row" where
  "touch now r = r\<lparr>q_updated_at := formatTime now\<rparr>"

definition update_wq :: "instant \<Rightarrow> (wq_row \<Rightarrow> bool) \<Rightarrow> (wq_row \<Rightarrow> wq_row) \<Rightarrow> db \<Rightarrow> db" where
  "update_wq now p f d = d\<lparr>work_queue := update_where p (\<lambda>r. touch now (f r)) (work_queue d)\<rparr>"

text \<open>Deleting queue rows cascades to the junction table.\<close>

definition delete_wq :: "(wq_row \<Rightarrow> bool) \<Rightarrow> db \<Rightarrow> db" where
  "delete_wq p d =
     (let gone = map q_id (filter p (work_queue d))
      in d\<lparr>work_queue := delete_where p (work_queue d),
           links := filter (\<lambda>(w, _). w \<notin> set gone) (links d)\<rparr>)"

definition linked :: "db \<Rightarrow> int \<Rightarrow> int \<Rightarrow> bool" where
  "linked d w s \<longleftrightarrow> (w, s) \<in> set (links d)"

text \<open>\<open>set_linked d w p st\<close>: the scan results linked to queue row \<open>w\<close> and satisfying \<open>p\<close>
  take status \<open>st\<close>.\<close>

definition set_linked :: "int \<Rightarrow> (sr_row \<Rightarrow> bool) \<Rightarrow> sr_status \<Rightarrow> db \<Rightarrow> db" where
  "set_linked w p st d =
     d\<lparr>scan_results :=
         update_where (\<lambda>s. linked d w (s_id s) \<and> p s) (\<lambda>s. s\<lparr>s_status := st\<rparr>) (scan_results d)\<rparr>"

definition row_of :: "db \<Rightarrow> int \<Rightarrow> wq_row option" where
  "row_of d i = first_where (\<lambda>r. q_id r = i) (work_queue d)"

section \<open>Well-formed databases\<close>

text \<open>
  What the schema guarantees (ids below the sequence and unique, unique keys, foreign keys
  of the junction) and what the operations keep true between the columns: a row is done
  exactly when it has a completion time, a failed row has been attempted, and a deferred row
  sits either at the miss priority or at a webhook's.
\<close>

definition wf_row :: "wq_row \<Rightarrow> bool" where
  "wf_row r \<longleftrightarrow>
     (q_status r = Done \<longleftrightarrow> q_completed_at r \<noteq> None)
     \<and> 0 \<le> q_attempts r \<and> 0 \<le> q_miss_count r
     \<and> (q_status r = Failed \<longrightarrow> 0 < q_attempts r)
     \<and> (q_status r = Deferred \<longrightarrow> q_priority r = PriorityMiss \<or> PriorityWebhook \<le> q_priority r)
     \<and> paths_ok r"

definition wf_db :: "db \<Rightarrow> bool" where
  "wf_db d \<longleftrightarrow>
     distinct (map q_id (work_queue d))
     \<and> distinct (map (\<lambda>r. (q_artist_key r, q_title_key r)) (work_queue d))
     \<and> (\<forall>i \<in> q_id ` set (work_queue d). i < wq_seq d)
     \<and> distinct (map s_id (scan_results d))
     \<and> (\<forall>i \<in> s_id ` set (scan_results d). i < sr_seq d)
     \<and> (\<forall>(w, s) \<in> set (links d). w \<in> q_id ` set (work_queue d) \<and> s \<in> s_id ` set (scan_results d))
     \<and> (\<forall>r \<in> set (work_queue d). wf_row r)"

lemma wf_empty_db: "wf_db empty_db"
  by (simp add: wf_db_def empty_db_def)

lemma wf_dbD:
  assumes "wf_db d"
  shows "distinct (map q_id (work_queue d))" "distinct (map s_id (scan_results d))"
    and "r \<in> set (work_queue d) \<Longrightarrow> wf_row r" "r \<in> set (work_queue d) \<Longrightarrow> q_id r < wq_seq d"
    and "s \<in> set (scan_results d) \<Longrightarrow> s_id s < sr_seq d"
  using assms by (auto simp: wf_db_def)

lemma touch_simps [simp]:
  "q_id (touch now r) = q_id r" "q_status (touch now r) = q_status r"
  "q_artist_key (touch now r) = q_artist_key r" "q_title_key (touch now r) = q_title_key r"
  "q_attempts (touch now r) = q_attempts r" "q_miss_count (touch now r) = q_miss_count r"
  "q_priority (touch now r) = q_priority r" "q_completed_at (touch now r) = q_completed_at r"
  "q_output_paths (touch now r) = q_output_paths r" "q_last_error (touch now r) = q_last_error r"
  "q_next_attempt_at (touch now r) = q_next_attempt_at r"
  "q_providers_version (touch now r) = q_providers_version r"
  "q_detect_instrumental (touch now r) = q_detect_instrumental r"
  "q_instrumental_result (touch now r) = q_instrumental_result r"
  "q_outcome_type (touch now r) = q_outcome_type r"
  "q_provider_lane (touch now r) = q_provider_lane r"
  "q_created_at (touch now r) = q_created_at r" "q_scan_result_id (touch now r) = q_scan_result_id r"
  "wf_row (touch now r) = wf_row r"
  by (simp_all add: touch_def wf_row_def)

lemma update_wq_simps [simp]:
  "scan_results (update_wq now p f d) = scan_results d" "links (update_wq now p f d) = links d"
  "wq_seq (update_wq now p f d) = wq_seq d" "sr_seq (update_wq now p f d) = sr_seq d"
  "provider_outcomes (update_wq now p f d) = provider_outcomes d"
  "lane_attempts (update_wq now p f d) = lane_attempts d"
  "work_queue (update_wq now p f d) = update_where p (\<lambda>r. touch now (f r)) (work_queue d)"
  by (simp_all add: update_wq_def)

lemma set_linked_simps [simp]:
  "work_queue (set_linked w p st d) = work_queue d" "links (set_linked w p st d) = links d"
  "wq_seq (set_linked w p st d) = wq_seq d" "sr_seq (set_linked w p st d) = sr_seq d"
  "provider_outcomes (set_linked w p st d) = provider_outcomes d"
  "lane_attempts (set_linked w p st d) = lane_attempts d"
  by (simp_all add: set_linked_def)

lemma linked_set_linked [simp]: "linked (set_linked w p st d) = linked d"
  by (simp add: linked_def fun_eq_iff)

lemma linked_update_wq [simp]: "linked (update_wq now p f d) = linked d"
  by (simp add: linked_def fun_eq_iff)

lemma row_of_set_linked [simp]: "row_of (set_linked w p st d) i = row_of d i"
  by (simp add: row_of_def)

lemma set_linked_ids [simp]: "map s_id (scan_results (set_linked w p st d)) = map s_id (scan_results d)"
  by (auto simp: set_linked_def update_where_def)

lemma set_linked_id_set [simp]: "s_id ` set (scan_results (set_linked w p st d)) = s_id ` set (scan_results d)"
  by (metis set_linked_ids set_map)

lemma wf_set_linked: "wf_db d \<Longrightarrow> wf_db (set_linked w p st d)"
  by (simp add: wf_db_def)

text \<open>An update that keeps ids and keys and yields well-formed rows keeps the database
  well-formed; \<open>wf_update_id\<close> is the form for the statements guarded by \<open>id = ?\<close>.\<close>

lemma map_update_wq:
  "(\<And>r. r \<in> set (work_queue d) \<Longrightarrow> p r \<Longrightarrow> g (f r) = g r) \<Longrightarrow> (\<And>r. g (touch now r) = g r) \<Longrightarrow>
   map g (work_queue (update_wq now p f d)) = map g (work_queue d)"
  by (auto simp: update_where_def)

lemma wf_update_wq:
  assumes "wf_db d"
    and "\<And>r. r \<in> set (work_queue d) \<Longrightarrow> p r \<Longrightarrow>
        q_id (f r) = q_id r \<and> q_artist_key (f r) = q_artist_key r
        \<and> q_title_key (f r) = q_title_key r \<and> wf_row (f r)"
  shows "wf_db (update_wq now p f d)"
proof -
  have ids: "map q_id (work_queue (update_wq now p f d)) = map q_id (work_queue d)"
    and keys: "map (\<lambda>r. (q_artist_key r, q_title_key r)) (work_queue (update_wq now p f d))
        = map (\<lambda>r. (q_artist_key r, q_title_key r)) (work_queue d)"
    using assms(2) by (auto intro!: map_update_wq simp del: update_wq_simps)
  from ids have idset: "q_id ` set (work_queue (update_wq now p f d)) = q_id ` set (work_queue d)"
    by (metis set_map)
  have "\<forall>r \<in> set (work_queue (update_wq now p f d)). wf_row r"
    using assms by (auto simp: set_update_where wf_db_def)
  with assms(1) ids keys idset show ?thesis
    by (simp add: wf_db_def del: update_wq_simps(7))
qed

lemma wf_delete_wq: "wf_db d \<Longrightarrow> wf_db (delete_wq p d)"
  unfolding wf_db_def delete_wq_def Let_def
  by (fastforce simp: delete_where_def distinct_map_filter)

text \<open>Reading a row by its id, before and after an update.\<close>

lemma row_of_Some: "row_of d i = Some r \<Longrightarrow> r \<in> set (work_queue d) \<and> q_id r = i"
  unfolding row_of_def by (rule first_where_Some)

lemma row_of_mem: "wf_db d \<Longrightarrow> r \<in> set (work_queue d) \<Longrightarrow> row_of d (q_id r) = Some r"
  unfolding row_of_def by (rule first_where_key) (auto simp: wf_db_def)

lemma row_of_None: "row_of d i = None \<longleftrightarrow> i \<notin> q_id ` set (work_queue d)"
  by (auto simp: row_of_def first_where_None)

lemma row_of_wf: "wf_db d \<Longrightarrow> row_of d i = Some r \<Longrightarrow> wf_row r"
  by (auto dest: row_of_Some wf_dbD(3))

lemma find_map_id:
  "(\<And>r. k (h r) = k r) \<Longrightarrow> find (\<lambda>r. k r = i) (map h t) = map_option h (find (\<lambda>r. k r = i) t)"
  by (induction t) auto

lemma row_of_update_wq:
  assumes "\<And>r. p r \<Longrightarrow> q_id (f r) = q_id r"
  shows "row_of (update_wq now p f d) i
       = map_option (\<lambda>r. if p r then touch now (f r) else r) (row_of d i)"
  unfolding row_of_def first_where_def update_wq_simps update_where_def
  by (rule find_map_id) (simp add: assms)

lemma update_wq_id_unique:
  assumes "wf_db d" "row_of d i = Some r"
  shows "filter (\<lambda>x. q_id x = i \<and> p x) (work_queue d) = (if p r then [r] else [])"
proof -
  from assms have r: "r \<in> set (work_queue d)" "q_id r = i" by (auto dest: row_of_Some)
  have "distinct (map q_id t) \<Longrightarrow> r \<in> set t \<Longrightarrow> filter (\<lambda>x. q_id x = i \<and> p x) t = (if p r then [r] else [])" for t
  proof (induction t)
    case (Cons a t)
    show ?case
    proof (cases "a = r")
      case True
      with Cons.prems r(2) have "filter (\<lambda>x. q_id x = i \<and> p x) t = []"
        by (auto simp: filter_empty_conv image_iff)
      with True r(2) show ?thesis by simp
    next
      case False
      with Cons.prems r(2) have "q_id a \<noteq> i" by (auto simp: image_iff)
      with False Cons show ?thesis by simp
    qed
  qed simp
  with assms(1) r(1) show ?thesis by (simp add: wf_db_def)
qed

lemma first_where_id:
  assumes "wf_db d" "row_of d i = Some r"
  shows "first_where (\<lambda>x. q_id x = i \<and> p x) (work_queue d) = (if p r then Some r else None)"
proof -
  have "first_where P t = (case filter P t of [] \<Rightarrow> None | x # _ \<Rightarrow> Some x)" for P and t :: "wq_row list"
    by (induction t) (auto simp: first_where_def)
  then show ?thesis using update_wq_id_unique [OF assms, of p] by simp
qed

lemma first_where_no_id:
  "row_of d i = None \<Longrightarrow> first_where (\<lambda>x. q_id x = i \<and> p x) (work_queue d) = None"
  by (auto simp: row_of_None first_where_None)

lemma count_where_id:
  assumes "wf_db d"
  shows "count_where (\<lambda>x. q_id x = i \<and> p x) (work_queue d)
       = (case row_of d i of Some r \<Rightarrow> (if p r then 1 else 0) | None \<Rightarrow> 0)"
proof (cases "row_of d i")
  case None
  then have "\<forall>r \<in> set (work_queue d). q_id r \<noteq> i" by (auto simp: row_of_None)
  with None show ?thesis by (simp add: count_where_zero_iff)
next
  case (Some r)
  with assms show ?thesis by (simp add: count_where_def update_wq_id_unique)
qed

end
