(* ===== verification/Queue_Ops.thy ===== *)
theory Queue_Ops
  imports Queue_State
begin

text \<open>
  \<^verbatim>\<open>internal/queue/queue.go\<close>, the life cycle of a queue row: \<open>Enqueue\<close>, \<open>Dequeue\<close>,
  \<open>Complete\<close>, \<open>Release\<close>, \<open>Cleanup\<close>, \<open>Fail\<close>, \<open>Defer\<close>, \<open>RetireMiss\<close> and \<open>Retry\<close>.  An
  operation takes the queue object, the instant \<open>q.now()\<close> returned, its arguments and the
  database, and gives its result and the new database; a transaction that ends in an error
  gives the old one.
\<close>

section \<open>Enqueue\<close>

text \<open>The row \<open>INSERT\<close> would add (\<open>excluded\<close> in the conflict clause).\<close>

definition enqueue_row :: "dbqueue \<Rightarrow> instant \<Rightarrow> inputs \<Rightarrow> int \<Rightarrow> int \<Rightarrow> wq_row" where
  "enqueue_row q now i priority new_id =
     \<lparr>q_id = new_id,
      q_artist = ArtistName (in_Track i), q_title = TrackName (in_Track i),
      q_album = AlbumName (in_Track i), q_album_artist = AlbumArtist (in_Track i),
      q_artist_key = NormalizeKey (dq_text q) (ArtistName (in_Track i)),
      q_title_key = NormalizeKey (dq_text q) (TrackName (in_Track i)),
      q_outdir = in_Outdir i, q_filename = in_Filename i, q_source_path = in_SourcePath i,
      q_output_paths = marshalOutputPaths i,
      q_scan_result_id = nullableID (in_ScanResultID i),
      q_status = Pending, q_priority = priority, q_attempts = 0, q_miss_count = 0,
      q_providers_version = providersVersion q,
      q_detect_instrumental = in_DetectInstrumental i,
      q_next_attempt_at = formatTime now, q_last_error = [],
      q_created_at = formatTime now, q_updated_at = formatTime now, q_completed_at = None,
      q_instrumental_result = None, q_provider_lane = None, q_outcome_type = None,
      q_music_sum = None, q_vocal_peak = None, q_speech_mean = None, q_vocal_class = None,
      q_detector_version = None\<rparr>"

text \<open>The \<open>ON CONFLICT .. DO UPDATE\<close> clause: \<open>w\<close> is the stored row, \<open>e\<close> the excluded one,
  \<open>refresh\<close> the \<open>refreshFailedBackoff\<close> bind.\<close>

definition enqueue_conflict :: "bool \<Rightarrow> wq_row \<Rightarrow> wq_row \<Rightarrow> wq_row" where
  "enqueue_conflict refresh e w =
     (let keep = q_status w \<in> {Done, Processing}; st = q_status w
      in w\<lparr>q_artist := (if keep then q_artist w else q_artist e),
           q_title := (if keep then q_title w else q_title e),
           q_album := (if keep then q_album w else q_album e),
           q_album_artist := (if keep then q_album_artist w else q_album_artist e),
           q_outdir := (if keep then q_outdir w else q_outdir e),
           q_filename := (if keep then q_filename w else q_filename e),
           q_source_path := (if keep then q_source_path w else q_source_path e),
           q_output_paths := (if keep then q_output_paths w else q_output_paths e),
           q_scan_result_id :=
             (case q_scan_result_id w of Some i \<Rightarrow> Some i | None \<Rightarrow> q_scan_result_id e),
           q_priority :=
             (if q_priority e \<ge> 10 then q_priority e
              else if st = Deferred then q_priority w
              else max (q_priority w) (q_priority e)),
           q_status := (if st \<in> {Done, Processing, Failed, Deferred} then st else Pending),
           q_next_attempt_at :=
             (if keep then q_next_attempt_at w
              else if st = Failed \<and> refresh then q_next_attempt_at e
              else if st = Failed then q_next_attempt_at w
              else if st = Deferred \<and> refresh then q_next_attempt_at e
              else if st = Deferred then q_next_attempt_at w
              else q_next_attempt_at e),
           q_last_error :=
             (if st \<in> {Done, Processing, Failed, Deferred} then q_last_error w else []),
           q_completed_at := (if st = Done then q_completed_at w else None)\<rparr>)"

definition same_key :: "wq_row \<Rightarrow> wq_row \<Rightarrow> bool" where
  "same_key e w \<longleftrightarrow> q_artist_key w = q_artist_key e \<and> q_title_key w = q_title_key e"

text \<open>The upsert alone: the new tables and the row \<open>RETURNING\<close> shows.\<close>

definition upsert_wq :: "instant \<Rightarrow> bool \<Rightarrow> wq_row \<Rightarrow> db \<Rightarrow> wq_row \<times> db" where
  "upsert_wq now refresh e d =
     (case first_where (same_key e) (work_queue d) of
        Some w \<Rightarrow> (enqueue_conflict refresh e w,
                   update_wq now (same_key e) (enqueue_conflict refresh e) d)
      | None \<Rightarrow> (e, d\<lparr>work_queue := work_queue d @ [e], wq_seq := wq_seq d + 1\<rparr>))"

definition add_link :: "int \<Rightarrow> int \<Rightarrow> db \<Rightarrow> db" where
  "add_link w s d = (if (w, s) \<in> set (links d) then d else d\<lparr>links := links d @ [(w, s)]\<rparr>)"

definition fk_error :: goerr where
  "fk_error = errorf ''FOREIGN KEY constraint failed''"

text \<open>Both statements of the transaction refer to the scan result: the upsert when it stores
  the id in the row, the junction insert always.  A reference to a missing scan result is a
  foreign-key error at the first of them.\<close>

definition Enqueue :: "dbqueue \<Rightarrow> instant \<Rightarrow> inputs \<Rightarrow> int \<Rightarrow> db \<Rightarrow> work_item result \<times> db" where
  "Enqueue q now i priority d =
     (let e = enqueue_row q now i priority (wq_seq d);
          (r, d1) = upsert_wq now (priority \<ge> PriorityWebhook) e d;
          sid = in_ScanResultID i;
          known = (sid \<in> s_id ` set (scan_results d))
      in if sid > 0 \<and> \<not> known \<and> q_scan_result_id r = Some sid
         then (Inl (wrapf ''queue: enqueue'' fk_error), d)
         else case scanWorkItem r of
           Inl err \<Rightarrow> (Inl (wrapf ''queue: enqueue'' err), d)
         | Inr item \<Rightarrow>
             if sid > 0 then
               (if \<not> known then (Inl (wrapf (''queue: link scan_result '' @ itoa sid) fk_error), d)
                else (Inr item, add_link (wi_ID item) sid d1))
             else (Inr item, d1))"

section \<open>Dequeue\<close>

definition ready :: "stamp \<Rightarrow> wq_row \<Rightarrow> bool" where
  "ready t r \<longleftrightarrow> q_status r \<in> {Pending, Failed, Deferred} \<and> q_next_attempt_at r \<le> t"

text \<open>\<open>ORDER BY priority DESC, created_at ASC, id ASC\<close>, and \<open>ORDER BY priority DESC, RANDOM()\<close>
  with the random value of each row given by \<open>rnd\<close>.\<close>

definition fifo_order :: "wq_row \<Rightarrow> int \<times> int \<times> int" where
  "fifo_order r = (- q_priority r, q_created_at r, q_id r)"

definition random_order :: "(int \<Rightarrow> int) \<Rightarrow> wq_row \<Rightarrow> int \<times> int" where
  "random_order rnd r = (- q_priority r, rnd (q_id r))"

definition next_row :: "dbqueue \<Rightarrow> (int \<Rightarrow> int) \<Rightarrow> stamp \<Rightarrow> db \<Rightarrow> wq_row option" where
  "next_row q rnd t d =
     (let cands = filter (ready t) (work_queue d);
          ordered = (if randomized q then sort_key (random_order rnd) cands
                     else sort_key fifo_order cands)
      in case ordered of [] \<Rightarrow> None | r # _ \<Rightarrow> Some r)"

definition sql_no_rows :: goerr where
  "sql_no_rows = GoErr ''sql: no rows in result set'' [ErrNoRows]"

definition claim :: "wq_row \<Rightarrow> wq_row" where
  "claim r = r\<lparr>q_status := Processing\<rparr>"

text \<open>The claim is one autocommitted statement: it stands even when hydrating the returned
  row fails.\<close>

definition Dequeue :: "dbqueue \<Rightarrow> (int \<Rightarrow> int) \<Rightarrow> instant \<Rightarrow> db \<Rightarrow> work_item result \<times> db" where
  "Dequeue q rnd now d =
     (case next_row q rnd (formatTime now) d of
        None \<Rightarrow> (Inl sql_no_rows, d)
      | Some r \<Rightarrow>
          let d1 = update_wq now (\<lambda>x. q_id x = q_id r) claim d
          in case scanWorkItem (claim r) of
               Inl err \<Rightarrow> (Inl (wrapf ''queue: dequeue'' err), d1)
             | Inr item \<Rightarrow> (Inr item, d1))"

section \<open>Transitions of a claimed row\<close>

definition is_processing :: "wq_row \<Rightarrow> bool" where
  "is_processing r \<longleftrightarrow> q_status r = Processing"

definition not_done :: "sr_row \<Rightarrow> bool" where
  "not_done s \<longleftrightarrow> s_status s \<noteq> SrDone"

definition requireAffected :: "int \<Rightarrow> unit result" where
  "requireAffected n = (if n = 0 then Inl sql_no_rows else Inr ())"

definition complete_row :: "instant \<Rightarrow> wq_row \<Rightarrow> wq_row" where
  "complete_row now r =
     r\<lparr>q_status := Done, q_completed_at := Some (formatTime now), q_last_error := []\<rparr>"

definition Complete :: "instant \<Rightarrow> int \<Rightarrow> db \<Rightarrow> unit result \<times> db" where
  "Complete now i d =
     (let p = (\<lambda>r. q_id r = i \<and> is_processing r)
      in case requireAffected (count_where p (work_queue d)) of
           Inl e \<Rightarrow> (Inl e, d)
         | Inr _ \<Rightarrow> (Inr (), set_linked i not_done SrDone (update_wq now p (complete_row now) d)))"

definition release_row :: "wq_row \<Rightarrow> wq_row" where
  "release_row r = r\<lparr>q_status := Pending, q_last_error := []\<rparr>"

definition Release :: "instant \<Rightarrow> int \<Rightarrow> db \<Rightarrow> unit result \<times> db" where
  "Release now i d =
     (let p = (\<lambda>r. q_id r = i \<and> is_processing r)
      in (requireAffected (count_where p (work_queue d)), update_wq now p release_row d))"

definition Cleanup :: "dbqueue \<Rightarrow> inputs \<Rightarrow> db \<Rightarrow> int \<times> db" where
  "Cleanup q i d =
     (let p = (\<lambda>r. q_artist_key r = NormalizeKey (dq_text q) (ArtistName (in_Track i))
                 \<and> q_title_key r = NormalizeKey (dq_text q) (TrackName (in_Track i))
                 \<and> q_status r \<in> {Pending, Failed, Deferred})
      in (count_where p (work_queue d), delete_wq p d))"

definition error_text :: "goerr option \<Rightarrow> string" where
  "error_text cause = (case cause of None \<Rightarrow> [] | Some e \<Rightarrow> err_msg e)"

definition fail_row :: "int \<Rightarrow> stamp \<Rightarrow> string \<Rightarrow> wq_row \<Rightarrow> wq_row" where
  "fail_row attempts nxt err r =
     r\<lparr>q_status := Failed, q_attempts := attempts, q_next_attempt_at := nxt, q_last_error := err\<rparr>"

definition Fail :: "dbqueue \<Rightarrow> instant \<Rightarrow> int \<Rightarrow> goerr option \<Rightarrow> db \<Rightarrow> work_item result \<times> db" where
  "Fail q now i cause d =
     (let p = (\<lambda>r. q_id r = i \<and> is_processing r)
      in case first_where p (work_queue d) of
           None \<Rightarrow> (Inl sql_no_rows, d)
         | Some r \<Rightarrow>
             let n = q_attempts r + 1;
                 nxt = formatTime (now + Geometric n (baseBackoff q) (maxBackoff q));
                 f = fail_row n nxt (error_text cause)
             in case scanWorkItem (f r) of
                  Inl e \<Rightarrow> (Inl (wrapf ''queue: fail'' e), d)
                | Inr item \<Rightarrow> (Inr item, update_wq now p f d))"

definition defer_row :: "stamp \<Rightarrow> string \<Rightarrow> wq_row \<Rightarrow> wq_row" where
  "defer_row nxt err r =
     r\<lparr>q_status := Deferred, q_miss_count := q_miss_count r + 1, q_priority := -100,
       q_next_attempt_at := nxt, q_last_error := err\<rparr>"

definition Defer :: "instant \<Rightarrow> int \<Rightarrow> duration \<Rightarrow> goerr option \<Rightarrow> db \<Rightarrow> work_item result \<times> db" where
  "Defer now i retryAfter cause d =
     (let p = (\<lambda>r. q_id r = i \<and> is_processing r);
          f = defer_row (formatTime (now + retryAfter)) (error_text cause)
      in case first_where p (work_queue d) of
           None \<Rightarrow> (Inl sql_no_rows, d)
         | Some r \<Rightarrow>
             (case scanWorkItem (f r) of
                Inl e \<Rightarrow> (Inl (wrapf ''queue: defer'' e), update_wq now p f d)
              | Inr item \<Rightarrow> (Inr item, update_wq now p f d)))"

definition retire_row :: "instant \<Rightarrow> wq_row \<Rightarrow> wq_row" where
  "retire_row now r =
     r\<lparr>q_status := Done, q_completed_at := Some (formatTime now),
       q_last_error := missLimitReachedError\<rparr>"

definition RetireMiss :: "instant \<Rightarrow> int \<Rightarrow> db \<Rightarrow> work_item result \<times> db" where
  "RetireMiss now i d =
     (let p = (\<lambda>r. q_id r = i \<and> is_processing r)
      in case first_where p (work_queue d) of
           None \<Rightarrow> (Inl sql_no_rows, d)
         | Some r \<Rightarrow>
             (case scanWorkItem (retire_row now r) of
                Inl e \<Rightarrow> (Inl (wrapf ''queue: retire miss'' e), d)
              | Inr item \<Rightarrow>
                  (Inr item, set_linked i not_done SrDone (update_wq now p (retire_row now) d))))"

definition not_retryable :: goerr where
  "not_retryable = GoErr ''queue: work item is not in failed status'' [ErrNotRetryable]"

definition retry_row :: "instant \<Rightarrow> wq_row \<Rightarrow> wq_row" where
  "retry_row now r =
     r\<lparr>q_status := Pending, q_attempts := 0, q_next_attempt_at := formatTime now, q_last_error := []\<rparr>"

definition Retry :: "instant \<Rightarrow> int \<Rightarrow> db \<Rightarrow> work_item result \<times> db" where
  "Retry now i d =
     (let p = (\<lambda>r. q_id r = i \<and> q_status r = Failed)
      in case first_where p (work_queue d) of
           None \<Rightarrow>
             (if row_of d i = None then (Inl sql_no_rows, d) else (Inl not_retryable, d))
         | Some r \<Rightarrow>
             (case scanWorkItem (retry_row now r) of
                Inl e \<Rightarrow> (Inl (wrapf ''queue: retry'' e), d)
              | Inr item \<Rightarrow>
                  (Inr item, set_linked i (\<lambda>s. s_status s = SrProcessing) SrPending
                               (update_wq now p (retry_row now) d))))"

lemmas row_updates =
  claim_def complete_row_def release_row_def fail_row_def defer_row_def retire_row_def retry_row_def

end
