(* ===== verification/Queue_Life.thy ===== *)
theory Queue_Life
  imports Queue_Ops
begin

text \<open>
  What the life-cycle operations of the queue guarantee: each keeps the database well-formed,
  changes at most the row it is called for, and moves that row along the state machine
  \<open>row_step\<close>.  The properties are about deduplication, dequeue order, exclusive claims, the
  atomic write-back to the scan results, and the retry and miss cadences.
\<close>

section \<open>Well-formedness is kept\<close>

lemma wf_row_updates:
  assumes "wf_row r"
  shows "wf_row (claim r) \<or> q_status r = Done" "wf_row (complete_row now r)"
    "q_status r = Processing \<Longrightarrow> wf_row (release_row r)"
    "q_status r = Processing \<Longrightarrow> n = q_attempts r + 1 \<Longrightarrow> wf_row (fail_row n nxt err r)"
    "q_status r = Processing \<Longrightarrow> wf_row (defer_row nxt err r)"
    "wf_row (retire_row now r)"
    "q_status r = Failed \<Longrightarrow> wf_row (retry_row now r)"
  using assms by (auto simp: wf_row_def row_updates priority_defs)

lemma wf_row_claim: "wf_row r \<Longrightarrow> q_status r \<noteq> Done \<Longrightarrow> wf_row (claim r)"
  using wf_row_updates(1) by auto

lemma row_update_keys [simp]:
  "q_id (claim r) = q_id r" "q_artist_key (claim r) = q_artist_key r" "q_title_key (claim r) = q_title_key r"
  "q_id (complete_row now r) = q_id r" "q_artist_key (complete_row now r) = q_artist_key r"
  "q_title_key (complete_row now r) = q_title_key r"
  "q_id (release_row r) = q_id r" "q_artist_key (release_row r) = q_artist_key r"
  "q_title_key (release_row r) = q_title_key r"
  "q_id (fail_row n nxt err r) = q_id r" "q_artist_key (fail_row n nxt err r) = q_artist_key r"
  "q_title_key (fail_row n nxt err r) = q_title_key r"
  "q_id (defer_row nxt err r) = q_id r" "q_artist_key (defer_row nxt err r) = q_artist_key r"
  "q_title_key (defer_row nxt err r) = q_title_key r"
  "q_id (retire_row now r) = q_id r" "q_artist_key (retire_row now r) = q_artist_key r"
  "q_title_key (retire_row now r) = q_title_key r"
  "q_id (retry_row now r) = q_id r" "q_artist_key (retry_row now r) = q_artist_key r"
  "q_title_key (retry_row now r) = q_title_key r"
  by (simp_all add: row_updates)

lemma row_update_status [simp]:
  "q_status (claim r) = Processing" "q_status (complete_row now r) = Done"
  "q_status (release_row r) = Pending" "q_status (fail_row n nxt err r) = Failed"
  "q_status (defer_row nxt err r) = Deferred" "q_status (retire_row now r) = Done"
  "q_status (retry_row now r) = Pending"
  by (simp_all add: row_updates)

lemma paths_row_update [simp]:
  "q_output_paths (claim r) = q_output_paths r" "q_output_paths (retire_row now r) = q_output_paths r"
  "q_output_paths (fail_row n nxt err r) = q_output_paths r"
  "q_output_paths (defer_row nxt err r) = q_output_paths r"
  "q_output_paths (retry_row now r) = q_output_paths r"
  by (simp_all add: row_updates)

lemma enqueue_conflict_keys [simp]:
  "q_id (enqueue_conflict b e w) = q_id w"
  "q_artist_key (enqueue_conflict b e w) = q_artist_key w"
  "q_title_key (enqueue_conflict b e w) = q_title_key w"
  by (simp_all add: enqueue_conflict_def Let_def)

lemma enqueue_conflict_status [simp]: "q_status (enqueue_conflict b e w) = q_status w"
  by (cases "q_status w") (simp_all add: enqueue_conflict_def Let_def)

lemma enqueue_row_simps [simp]:
  "q_id (enqueue_row q now i pr n) = n" "q_status (enqueue_row q now i pr n) = Pending"
  "q_artist_key (enqueue_row q now i pr n) = NormalizeKey (dq_text q) (ArtistName (in_Track i))"
  "q_title_key (enqueue_row q now i pr n) = NormalizeKey (dq_text q) (TrackName (in_Track i))"
  "q_priority (enqueue_row q now i pr n) = pr"
  "q_next_attempt_at (enqueue_row q now i pr n) = formatTime now"
  "q_scan_result_id (enqueue_row q now i pr n) = nullableID (in_ScanResultID i)"
  by (simp_all add: enqueue_row_def)

lemma wf_enqueue_row: "wf_row (enqueue_row q now i pr n)"
  by (simp add: wf_row_def enqueue_row_def marshalOutputPaths_def)

lemma wf_enqueue_conflict: "wf_row e \<Longrightarrow> wf_row w \<Longrightarrow> wf_row (enqueue_conflict b e w)"
  unfolding wf_row_def
  by (cases "q_status w") (auto simp: enqueue_conflict_def Let_def priority_defs)

lemma wf_upsert:
  assumes "wf_db d" "wf_row e" "q_id e = wq_seq d" "upsert_wq now b e d = (r, d')"
  shows "wf_db d'"
proof (cases "first_where (same_key e) (work_queue d)")
  case (Some w)
  with assms(4) have "d' = update_wq now (same_key e) (enqueue_conflict b e) d"
    by (simp add: upsert_wq_def)
  then show ?thesis
    using assms(1,2) by (auto intro!: wf_update_wq wf_enqueue_conflict dest: wf_dbD(3))
next
  case None
  then have "upsert_wq now b e d = (e, d\<lparr>work_queue := work_queue d @ [e], wq_seq := wq_seq d + 1\<rparr>)"
    by (simp add: upsert_wq_def)
  moreover have "d' = snd (upsert_wq now b e d)" using assms(4) by simp
  ultimately have d': "d' = d\<lparr>work_queue := work_queue d @ [e], wq_seq := wq_seq d + 1\<rparr>"
    by (simp only: snd_conv)
  have "\<forall>w \<in> set (work_queue d). \<not> (q_artist_key w = q_artist_key e \<and> q_title_key w = q_title_key e)"
    using None by (auto simp: first_where_None same_key_def)
  moreover have "\<forall>w \<in> set (work_queue d). q_id w < wq_seq d" using assms(1) by (simp add: wf_db_def)
  ultimately show ?thesis
    using assms(1-3) unfolding wf_db_def d' by fastforce
qed

lemma upsert_frame:
  "upsert_wq now b e d = (r, d') \<Longrightarrow> scan_results d' = scan_results d \<and> links d' = links d
     \<and> sr_seq d' = sr_seq d"
  by (auto simp: upsert_wq_def split: option.splits)

lemma upsert_row_mem:
  "upsert_wq now b e d = (r, d') \<Longrightarrow> q_id r \<in> q_id ` set (work_queue d')"
  by (auto simp: upsert_wq_def set_update_where image_iff split: option.splits
      dest!: first_where_Some) (metis enqueue_conflict_keys(1) touch_simps(1))

lemma wf_add_link:
  "wf_db d \<Longrightarrow> w \<in> q_id ` set (work_queue d) \<Longrightarrow> s \<in> s_id ` set (scan_results d) \<Longrightarrow>
   wf_db (add_link w s d)"
  by (auto simp: wf_db_def add_link_def)

lemma Enqueue_cases:
  assumes "Enqueue q now i pr d = (res, d')"
  obtains (err) e where "res = Inl e" "d' = d"
  | (ok) item r d1 where "res = Inr item" "scanWorkItem r = Inr item"
      "upsert_wq now (pr \<ge> PriorityWebhook) (enqueue_row q now i pr (wq_seq d)) d = (r, d1)"
      "d' = (if in_ScanResultID i > 0 then add_link (q_id r) (in_ScanResultID i) d1 else d1)"
      "in_ScanResultID i > 0 \<longrightarrow> in_ScanResultID i \<in> s_id ` set (scan_results d)"
proof -
  obtain r d1 where u: "upsert_wq now (pr \<ge> PriorityWebhook) (enqueue_row q now i pr (wq_seq d)) d = (r, d1)"
    by fastforce
  let ?sid = "in_ScanResultID i"
  let ?known = "?sid \<in> s_id ` set (scan_results d)"
  show thesis
  proof (cases "scanWorkItem r")
    case (Inl e)
    with u assms show thesis by (auto simp: Enqueue_def Let_def split: if_splits intro: err)
  next
    case (Inr item)
    then have i: "wi_ID item = q_id r" using scanWorkItem_Inr by blast
    show thesis
    proof (cases "?sid > 0 \<and> \<not> ?known")
      case True
      with Inr u assms show thesis by (auto simp: Enqueue_def Let_def split: if_splits intro: err)
    next
      case False
      with Inr u i assms
      have "res = Inr item" "d' = (if ?sid > 0 then add_link (q_id r) ?sid d1 else d1)"
        by (auto simp: Enqueue_def Let_def split: if_splits)
      with False Inr u show thesis by (intro ok) auto
    qed
  qed
qed

lemma wf_Enqueue: "wf_db d \<Longrightarrow> Enqueue q now i pr d = (res, d') \<Longrightarrow> wf_db d'"
proof (erule Enqueue_cases)
  fix item r d1
  assume wf: "wf_db d"
    and u: "upsert_wq now (pr \<ge> PriorityWebhook) (enqueue_row q now i pr (wq_seq d)) d = (r, d1)"
    and d': "d' = (if in_ScanResultID i > 0 then add_link (q_id r) (in_ScanResultID i) d1 else d1)"
    and k: "in_ScanResultID i > 0 \<longrightarrow> in_ScanResultID i \<in> s_id ` set (scan_results d)"
  have "wf_db d1" using wf_upsert [OF wf wf_enqueue_row _ u] by simp
  with k upsert_frame [OF u] upsert_row_mem [OF u] show "wf_db d'"
    unfolding d' by (auto intro: wf_add_link)
qed simp

lemma next_row_mem:
  assumes "next_row q rnd t d = Some r"
  shows "r \<in> set (work_queue d)" "ready t r"
proof -
  let ?cands = "filter (ready t) (work_queue d)"
  let ?l = "if randomized q then sort_key (random_order rnd) ?cands else sort_key fifo_order ?cands"
  have "set ?l = set ?cands" by simp
  moreover have "r \<in> set ?l"
    using assms unfolding next_row_def Let_def by (cases ?l) (simp_all only: list.case, auto)
  ultimately have "r \<in> set ?cands" by blast
  then show "r \<in> set (work_queue d)" "ready t r" by auto
qed

lemma wf_Dequeue: "wf_db d \<Longrightarrow> Dequeue q rnd now d = (res, d') \<Longrightarrow> wf_db d'"
proof (cases "next_row q rnd (formatTime now) d")
  case (Some r)
  assume wf: "wf_db d" and "Dequeue q rnd now d = (res, d')"
  then have d': "d' = update_wq now (\<lambda>x. q_id x = q_id r) claim d"
    using Some by (auto simp: Dequeue_def Let_def split: sum.splits)
  have "x \<in> set (work_queue d) \<Longrightarrow> q_id x = q_id r \<Longrightarrow> x = r" for x
    using wf next_row_mem(1) [OF Some] by (auto simp: wf_db_def intro: distinct_key_unique)
  moreover have "q_status r \<noteq> Done" using next_row_mem(2) [OF Some] by (auto simp: ready_def)
  ultimately show "wf_db d'"
    unfolding d' using wf by (auto intro!: wf_update_wq wf_row_claim dest: wf_dbD(3))
qed (auto simp: Dequeue_def)

lemma wf_Complete: "wf_db d \<Longrightarrow> wf_db (snd (Complete now i d))"
  by (auto simp: Complete_def Let_def requireAffected_def
      intro!: wf_set_linked wf_update_wq wf_row_updates dest: wf_dbD(3))

lemma wf_Release: "wf_db d \<Longrightarrow> wf_db (snd (Release now i d))"
  by (auto simp: Release_def Let_def is_processing_def
      intro!: wf_update_wq wf_row_updates(3) dest: wf_dbD(3))

lemma wf_Cleanup: "wf_db d \<Longrightarrow> wf_db (snd (Cleanup q i d))"
  by (simp add: Cleanup_def Let_def wf_delete_wq)

lemma first_where_id_processing:
  "first_where (\<lambda>r. q_id r = i \<and> p r) (work_queue d) = Some r \<Longrightarrow> wf_db d \<Longrightarrow>
   x \<in> set (work_queue d) \<Longrightarrow> q_id x = i \<Longrightarrow> x = r"
  by (auto dest!: first_where_Some simp: wf_db_def intro: distinct_key_unique)

lemma wf_Fail: "wf_db d \<Longrightarrow> wf_db (snd (Fail q now i c d))"
  by (auto simp: Fail_def Let_def is_processing_def split: option.splits sum.splits
      intro!: wf_update_wq wf_row_updates(4)
      dest: wf_dbD(3) first_where_id_processing)

lemma wf_Defer: "wf_db d \<Longrightarrow> wf_db (snd (Defer now i t c d))"
  by (auto simp: Defer_def Let_def is_processing_def split: option.splits sum.splits
      intro!: wf_update_wq wf_row_updates(5) dest: wf_dbD(3))

lemma wf_RetireMiss: "wf_db d \<Longrightarrow> wf_db (snd (RetireMiss now i d))"
  by (auto simp: RetireMiss_def Let_def split: option.splits sum.splits
      intro!: wf_set_linked wf_update_wq wf_row_updates(6) dest: wf_dbD(3))

lemma wf_Retry: "wf_db d \<Longrightarrow> wf_db (snd (Retry now i d))"
  by (auto simp: Retry_def Let_def split: option.splits sum.splits
      intro!: wf_set_linked wf_update_wq wf_row_updates(7) dest: wf_dbD(3))

section \<open>What each operation does to the rows\<close>

text \<open>\<open>item_of r\<close> is the item a row hydrates into.\<close>

definition item_of :: "wq_row \<Rightarrow> work_item" where
  "item_of r = projr (scanWorkItem r)"

lemma scanWorkItem_item: "paths_ok r \<Longrightarrow> scanWorkItem r = Inr (item_of r)"
  using scanWorkItem_ok [of r] by (auto simp: item_of_def simp del: paths_ok_code)

lemma item_of_simps:
  assumes "paths_ok r"
  shows "wi_ID (item_of r) = q_id r" "wi_Status (item_of r) = q_status r"
    "wi_MissCount (item_of r) = q_miss_count r" "wi_Attempts (item_of r) = q_attempts r"
    "wi_Priority (item_of r) = q_priority r" "wi_ProvidersVersion (item_of r) = q_providers_version r"
  using scanWorkItem_item [OF assms] by (auto dest: scanWorkItem_Inr)

lemma wf_row_paths: "wf_row r \<Longrightarrow> paths_ok r"
  by (simp add: wf_row_def)

lemma paths_ok_updates [simp]:
  "paths_ok (fail_row n nxt err r) = paths_ok r" "paths_ok (defer_row nxt err r) = paths_ok r"
  "paths_ok (retire_row now r) = paths_ok r" "paths_ok (retry_row now r) = paths_ok r"
  "paths_ok (claim r) = paths_ok r" "paths_ok (enqueue_row q now i pr n)"
  by (simp_all add: row_updates enqueue_row_def marshalOutputPaths_def)

lemma paths_ok_conflict: "paths_ok e \<Longrightarrow> paths_ok w \<Longrightarrow> paths_ok (enqueue_conflict b e w)"
  by (simp add: enqueue_conflict_def Let_def)

lemma row_of_update_id:
  assumes "\<And>r. q_id (f r) = q_id r"
  shows "row_of (update_wq now (\<lambda>r. q_id r = i \<and> p r) f d) j
       = (if j = i then map_option (\<lambda>r. if p r then touch now (f r) else r) (row_of d i)
          else row_of d j)"
proof -
  have eq: "row_of (update_wq now (\<lambda>r. q_id r = i \<and> p r) f d) j
      = map_option (\<lambda>r. if q_id r = i \<and> p r then touch now (f r) else r) (row_of d j)"
    by (rule row_of_update_wq) (simp add: assms)
  show ?thesis unfolding eq
    by (cases "row_of d j") (auto dest: row_of_Some)
qed

lemma row_of_update_other:
  assumes "row_of d i = Some r" "\<not> p r" "\<And>r. p r \<Longrightarrow> q_id (f r) = q_id r"
  shows "row_of (update_wq now p f d) i = Some r"
  using assms by (simp add: row_of_update_wq)

lemma row_of_delete_other:
  assumes "wf_db d" "row_of d i = Some r" "\<not> p r"
  shows "row_of (delete_wq p d) i = Some r"
proof -
  have "\<forall>x \<in> set (work_queue d). q_id x = i \<longrightarrow> \<not> p x"
  proof (intro ballI impI)
    fix x assume "x \<in> set (work_queue d)" "q_id x = i"
    with assms(1) have "row_of d i = Some x" by (auto simp: row_of_mem)
    with assms show "\<not> p x" by simp
  qed
  then have "find (\<lambda>r. q_id r = i) (filter (\<lambda>r. \<not> p r) t) = find (\<lambda>r. q_id r = i) t"
    if "set t \<subseteq> set (work_queue d)" for t
    using that by (induction t) auto
  with assms(2) show ?thesis
    by (simp add: row_of_def first_where_def delete_wq_def Let_def delete_where_def)
qed

text \<open>Each operation on a claimed row, as a function of the row with that id.\<close>

definition claimed :: "db \<Rightarrow> int \<Rightarrow> wq_row option" where
  "claimed d i = (case row_of d i of Some r \<Rightarrow> if q_status r = Processing then Some r else None
                  | None \<Rightarrow> None)"

lemma claimed_Some: "claimed d i = Some r \<longleftrightarrow> row_of d i = Some r \<and> q_status r = Processing"
  by (auto simp: claimed_def split: option.splits)

lemma first_where_claimed:
  "wf_db d \<Longrightarrow> first_where (\<lambda>r. q_id r = i \<and> is_processing r) (work_queue d) = claimed d i"
  by (cases "row_of d i") (auto simp: first_where_no_id first_where_id claimed_def is_processing_def)

lemma count_where_claimed:
  "wf_db d \<Longrightarrow> count_where (\<lambda>r. q_id r = i \<and> is_processing r) (work_queue d)
     = (if claimed d i = None then 0 else 1)"
  by (cases "row_of d i") (auto simp: count_where_id claimed_def is_processing_def)

abbreviation upd_claimed :: "instant \<Rightarrow> int \<Rightarrow> (wq_row \<Rightarrow> wq_row) \<Rightarrow> db \<Rightarrow> db" where
  "upd_claimed now i f d \<equiv> update_wq now (\<lambda>r. q_id r = i \<and> is_processing r) f d"

lemma Complete_eq: "wf_db d \<Longrightarrow> Complete now i d =
    (case claimed d i of None \<Rightarrow> (Inl sql_no_rows, d)
     | Some r \<Rightarrow> (Inr (), set_linked i not_done SrDone (upd_claimed now i (complete_row now) d)))"
  by (auto simp: Complete_def Let_def count_where_claimed requireAffected_def split: option.split)

lemma upd_claimed_none:
  assumes "wf_db d" "claimed d i = None"
  shows "upd_claimed now i f d = d"
proof -
  have "\<not> (q_id r = i \<and> is_processing r)" if "r \<in> set (work_queue d)" for r
    using first_where_claimed [OF assms(1), of i] assms(2) that by (auto simp: first_where_None)
  then show ?thesis by (simp add: update_wq_def)
qed

lemma Release_eq: "wf_db d \<Longrightarrow> Release now i d =
    (case claimed d i of None \<Rightarrow> (Inl sql_no_rows, d)
     | Some r \<Rightarrow> (Inr (), upd_claimed now i release_row d))"
  by (auto simp: Release_def Let_def count_where_claimed requireAffected_def upd_claimed_none
      split: option.split)

lemma claimed_paths: "wf_db d \<Longrightarrow> claimed d i = Some r \<Longrightarrow> paths_ok r"
  by (auto simp: claimed_Some dest: row_of_wf wf_row_paths simp del: paths_ok_code)

lemma Fail_eq: "wf_db d \<Longrightarrow> Fail q now i c d =
    (case claimed d i of None \<Rightarrow> (Inl sql_no_rows, d)
     | Some r \<Rightarrow>
         let n = q_attempts r + 1;
             f = fail_row n (formatTime (now + Geometric n (baseBackoff q) (maxBackoff q))) (error_text c)
         in (Inr (item_of (f r)), upd_claimed now i f d))"
  by (auto simp: Fail_def Let_def first_where_claimed scanWorkItem_item claimed_paths
      simp del: paths_ok_code split: option.split)

lemma Defer_eq: "wf_db d \<Longrightarrow> Defer now i t c d =
    (case claimed d i of None \<Rightarrow> (Inl sql_no_rows, d)
     | Some r \<Rightarrow>
         let f = defer_row (formatTime (now + t)) (error_text c)
         in (Inr (item_of (f r)), upd_claimed now i f d))"
  by (auto simp: Defer_def Let_def first_where_claimed scanWorkItem_item claimed_paths
      simp del: paths_ok_code split: option.split)

lemma RetireMiss_eq: "wf_db d \<Longrightarrow> RetireMiss now i d =
    (case claimed d i of None \<Rightarrow> (Inl sql_no_rows, d)
     | Some r \<Rightarrow> (Inr (item_of (retire_row now r)),
                  set_linked i not_done SrDone (upd_claimed now i (retire_row now) d)))"
  by (auto simp: RetireMiss_def Let_def first_where_claimed scanWorkItem_item claimed_paths
      simp del: paths_ok_code split: option.split)

lemmas claimed_op_eqs = Complete_eq Release_eq Fail_eq Defer_eq RetireMiss_eq

lemma row_of_upd_claimed:
  assumes "\<And>r. q_id (f r) = q_id r"
  shows "row_of (upd_claimed now i f d) j
       = (if j = i then (case claimed d i of Some r \<Rightarrow> Some (touch now (f r)) | None \<Rightarrow> row_of d i)
          else row_of d j)"
  unfolding row_of_update_id [OF assms]
  by (cases "row_of d i") (auto simp: claimed_def is_processing_def)

end
