(* ===== verification/Queue_Admin.thy ===== *)
theory Queue_Admin
  imports Queue_Life
begin

text \<open>
  \<^verbatim>\<open>internal/queue/queue.go\<close>, the operations outside the life cycle: rechecks of deferred and
  retired rows, listing and counting, the outcome telemetry, the instrumental reconcile
  queries, and cancellation by library.  The row-level facts each operation promises follow
  the definitions.
\<close>

section \<open>Rechecks\<close>

text \<open>\<open>in_library\<close> is the predicate of \<open>recheckLibraryClause\<close>.\<close>

definition in_library :: "db \<Rightarrow> int option \<Rightarrow> wq_row \<Rightarrow> bool" where
  "in_library d lib r =
     (case lib of None \<Rightarrow> True
      | Some l \<Rightarrow> (\<exists>s \<in> set (scan_results d). linked d (q_id r) (s_id s) \<and> s_library_id s = l))"

definition is_deferred :: "db \<Rightarrow> int option \<Rightarrow> wq_row \<Rightarrow> bool" where
  "is_deferred d lib r \<longleftrightarrow> q_status r = Deferred \<and> in_library d lib r"

definition RecheckDeferred :: "instant \<Rightarrow> int option \<Rightarrow> db \<Rightarrow> int \<times> db" where
  "RecheckDeferred now lib d =
     (count_where (is_deferred d lib) (work_queue d),
      update_wq now (is_deferred d lib) (\<lambda>r. r\<lparr>q_next_attempt_at := formatTime now\<rparr>) d)"

definition CountRecheckDeferred :: "int option \<Rightarrow> db \<Rightarrow> int" where
  "CountRecheckDeferred lib d = count_where (is_deferred d lib) (work_queue d)"

definition is_retired :: "db \<Rightarrow> int option \<Rightarrow> wq_row \<Rightarrow> bool" where
  "is_retired d lib r \<longleftrightarrow> q_status r = Done \<and> q_last_error r = missLimitReachedError \<and> in_library d lib r"

definition revive_row :: "instant \<Rightarrow> wq_row \<Rightarrow> wq_row" where
  "revive_row now r =
     r\<lparr>q_status := Deferred, q_priority := -100, q_next_attempt_at := formatTime now,
       q_last_error := [], q_completed_at := None\<rparr>"

text \<open>The write-back touches scan results that are done and, under a library scope, belong to
  that library.\<close>

definition revivable :: "int option \<Rightarrow> sr_row \<Rightarrow> bool" where
  "revivable lib s \<longleftrightarrow> s_status s = SrDone \<and> (case lib of None \<Rightarrow> True | Some l \<Rightarrow> s_library_id s = l)"

definition RecheckRetired :: "instant \<Rightarrow> int option \<Rightarrow> db \<Rightarrow> int \<times> db" where
  "RecheckRetired now lib d =
     (let p = is_retired d lib; ids = map q_id (filter p (work_queue d))
      in if ids = [] then (0, d)
         else (count_where p (work_queue d),
               fold (\<lambda>i. set_linked i (revivable lib) SrPending) ids
                 (update_wq now p (revive_row now) d)))"

definition CountRecheckRetired :: "int option \<Rightarrow> db \<Rightarrow> int" where
  "CountRecheckRetired lib d = count_where (is_retired d lib) (work_queue d)"

section \<open>Listing and counting\<close>

fun hydrate_all :: "string \<Rightarrow> wq_row list \<Rightarrow> work_item list result" where
  "hydrate_all what [] = Inr []"
| "hydrate_all what (r # rs) =
     (case scanWorkItem r of
        Inl e \<Rightarrow> Inl (wrapf what e)
      | Inr it \<Rightarrow> (case hydrate_all what rs of Inl e \<Rightarrow> Inl e | Inr its \<Rightarrow> Inr (it # its)))"

record list_filter =
  lf_Status :: string
  lf_Limit :: int

definition List_items :: "list_filter \<Rightarrow> db \<Rightarrow> work_item list result" where
  "List_items flt d =
     hydrate_all ''queue: list scan''
       (limit_rows (lf_Limit flt)
         (sort_key fifo_order
           (filter (\<lambda>r. lf_Status flt = [] \<or> status_text (q_status r) = lf_Status flt) (work_queue d))))"

definition ClearDone :: "db \<Rightarrow> int \<times> db" where
  "ClearDone d =
     (count_where (\<lambda>r. q_status r = Done) (work_queue d), delete_wq (\<lambda>r. q_status r = Done) d)"

definition CountDone :: "db \<Rightarrow> int" where
  "CountDone d = count_where (\<lambda>r. q_status r = Done) (work_queue d)"

definition failure_reason :: "wq_row \<Rightarrow> string" where
  "failure_reason r = (if q_last_error r = [] then ''unknown'' else q_last_error r)"

text \<open>A \<open>GROUP BY\<close> query fills the returned map with the groups that have a row.\<close>

definition grouped :: "('r \<Rightarrow> 'k) \<Rightarrow> 'r list \<Rightarrow> 'k \<rightharpoonup> int" where
  "grouped g t k = (let n = count_where (\<lambda>r. g r = k) t in if n = 0 then None else Some n)"

definition CountFailuresByReason :: "db \<Rightarrow> string \<rightharpoonup> int" where
  "CountFailuresByReason d =
     grouped failure_reason (filter (\<lambda>r. q_status r = Failed) (work_queue d))"

definition CountByStatus :: "db \<Rightarrow> string \<rightharpoonup> int" where
  "CountByStatus d = grouped (\<lambda>r. status_text (q_status r)) (work_queue d)"

section \<open>Outcome telemetry\<close>

definition bump_outcome :: "string \<Rightarrow> int \<Rightarrow> int \<Rightarrow> db \<Rightarrow> db" where
  "bump_outcome lane h m d =
     (if lane = [] then d
      else if first_where (\<lambda>o'. po_lane o' = lane) (provider_outcomes d) = None
      then d\<lparr>provider_outcomes := provider_outcomes d @ [\<lparr>po_lane = lane, po_hits = h, po_misses = m\<rparr>]\<rparr>
      else d\<lparr>provider_outcomes :=
               update_where (\<lambda>o'. po_lane o' = lane)
                 (\<lambda>o'. o'\<lparr>po_hits := po_hits o' + h, po_misses := po_misses o' + m\<rparr>)
                 (provider_outcomes d)\<rparr>)"

definition RecordProviderHit :: "string \<Rightarrow> db \<Rightarrow> db" where
  "RecordProviderHit lane d = bump_outcome lane 1 0 d"

definition RecordProviderMiss :: "string \<Rightarrow> db \<Rightarrow> db" where
  "RecordProviderMiss lane d = bump_outcome lane 0 1 d"

definition upsert_attempt :: "int \<Rightarrow> stamp \<Rightarrow> lane_attempt \<Rightarrow> attempt_row list \<Rightarrow> attempt_row list" where
  "upsert_attempt qid t a rows =
     (let h = (if la_Hit a then 1 else 0); p = (\<lambda>r. at_queue_id r = qid \<and> at_lane r = la_Lane a)
      in if la_Lane a = [] then rows
         else if first_where p rows = None
         then rows @ [\<lparr>at_queue_id = qid, at_lane = la_Lane a, at_hit = h, at_attempted_at = t\<rparr>]
         else update_where p (\<lambda>r. r\<lparr>at_hit := h, at_attempted_at := t\<rparr>) rows)"

definition RecordLaneAttempts :: "instant \<Rightarrow> int \<Rightarrow> lane_attempt list \<Rightarrow> db \<Rightarrow> db" where
  "RecordLaneAttempts now qid attempts d =
     d\<lparr>lane_attempts := fold (upsert_attempt qid (formatTime now)) attempts (lane_attempts d)\<rparr>"

definition SetProviderLane :: "instant \<Rightarrow> int \<Rightarrow> string \<Rightarrow> db \<Rightarrow> db" where
  "SetProviderLane now i lane d =
     (if lane = [] then d
      else update_wq now (\<lambda>r. q_id r = i) (\<lambda>r. r\<lparr>q_provider_lane := Some lane\<rparr>) d)"

record instrumental_telemetry =
  MusicSum :: rat
  VocalPeak :: rat
  SpeechMean :: rat
  VocalClass :: string
  DetectorVersion :: string

definition SetInstrumentalResult :: "instant \<Rightarrow> int \<Rightarrow> int \<Rightarrow> instrumental_telemetry \<Rightarrow> db \<Rightarrow> db" where
  "SetInstrumentalResult now i res tel d =
     update_wq now (\<lambda>r. q_id r = i)
       (\<lambda>r. r\<lparr>q_instrumental_result := Some res, q_music_sum := Some (MusicSum tel),
              q_vocal_peak := Some (VocalPeak tel), q_speech_mean := Some (SpeechMean tel),
              q_vocal_class := Some (VocalClass tel),
              q_detector_version := Some (DetectorVersion tel)\<rparr>) d"

definition SetOutcomeType :: "instant \<Rightarrow> int \<Rightarrow> string \<Rightarrow> db \<Rightarrow> db" where
  "SetOutcomeType now i outcome d =
     update_wq now (\<lambda>r. q_id r = i) (\<lambda>r. r\<lparr>q_outcome_type := Some outcome\<rparr>) d"

definition outcome_map :: "(outcome_row \<Rightarrow> int) \<Rightarrow> db \<Rightarrow> string \<rightharpoonup> int" where
  "outcome_map f d =
     fold (\<lambda>o' m. m(po_lane o' \<mapsto> f o')) (filter (\<lambda>o'. f o' > 0) (provider_outcomes d)) Map.empty"

definition ProviderHits :: "db \<Rightarrow> string \<rightharpoonup> int" where
  "ProviderHits d = outcome_map po_hits d"

definition ProviderMisses :: "db \<Rightarrow> string \<rightharpoonup> int" where
  "ProviderMisses d = outcome_map po_misses d"

section \<open>Instrumental reconcile\<close>

definition CountInstrumental :: "db \<Rightarrow> int" where
  "CountInstrumental d = count_where (\<lambda>r. q_instrumental_result r = Some 1) (work_queue d)"

definition reconcileVocalBorderlineLo :: rat where "reconcileVocalBorderlineLo = 3 / 100"
definition reconcileVocalBorderlineHi :: rat where "reconcileVocalBorderlineHi = 5 / 100"
definition reconcileSpeechBorderlineLo :: rat where "reconcileSpeechBorderlineLo = 15 / 100"
definition reconcileSpeechBorderlineHi :: rat where "reconcileSpeechBorderlineHi = 20 / 100"

definition sql_between :: "rat \<Rightarrow> rat \<Rightarrow> rat option \<Rightarrow> bool" where
  "sql_between lo hi x = (case x of None \<Rightarrow> False | Some v \<Rightarrow> lo \<le> v \<and> v \<le> hi)"

definition instrumentalNarrowedPredicate :: "string \<Rightarrow> wq_row \<Rightarrow> bool" where
  "instrumentalNarrowedPredicate currentVersion r \<longleftrightarrow>
     sql_between reconcileVocalBorderlineLo reconcileVocalBorderlineHi (q_vocal_peak r)
     \<or> sql_between reconcileSpeechBorderlineLo reconcileSpeechBorderlineHi (q_speech_mean r)
     \<or> q_detector_version r = None \<or> q_detector_version r \<noteq> Some currentVersion
     \<or> q_music_sum r = None \<or> q_vocal_peak r = None \<or> q_speech_mean r = None
     \<or> q_vocal_class r = None"

definition flagged_done :: "wq_row \<Rightarrow> bool" where
  "flagged_done r \<longleftrightarrow> q_instrumental_result r = Some 1 \<and> q_status r = Done"

record list_instrumental_options =
  lo_LibraryID :: "int option"
  lo_Limit :: int
  lo_All :: bool
  lo_CurrentVersion :: string

definition ListInstrumental :: "list_instrumental_options \<Rightarrow> db \<Rightarrow> work_item list result" where
  "ListInstrumental opts d =
     hydrate_all ''queue: list instrumental scan''
       (limit_rows (lo_Limit opts)
         (sort_key fifo_order
           (filter (\<lambda>r. flagged_done r
                \<and> (lo_All opts \<or> instrumentalNarrowedPredicate (lo_CurrentVersion opts) r)
                \<and> in_library d (lo_LibraryID opts) r) (work_queue d))))"

definition CountInstrumentalNarrowed :: "string \<Rightarrow> int option \<Rightarrow> db \<Rightarrow> int" where
  "CountInstrumentalNarrowed v lib d =
     count_where (\<lambda>r. flagged_done r \<and> instrumentalNarrowedPredicate v r \<and> in_library d lib r)
       (work_queue d)"

definition reset_instrumental_row :: "instant \<Rightarrow> wq_row \<Rightarrow> wq_row" where
  "reset_instrumental_row now r =
     r\<lparr>q_status := Deferred, q_priority := -100, q_instrumental_result := None,
       q_outcome_type := None, q_completed_at := None, q_music_sum := None,
       q_vocal_peak := None, q_speech_mean := None, q_vocal_class := None,
       q_detector_version := None, q_last_error := [], q_next_attempt_at := formatTime now\<rparr>"

definition ResetInstrumental :: "instant \<Rightarrow> int \<Rightarrow> db \<Rightarrow> int \<times> db" where
  "ResetInstrumental now i d =
     (let p = (\<lambda>r. q_id r = i \<and> flagged_done r);
          n = count_where p (work_queue d); d1 = update_wq now p (reset_instrumental_row now) d
      in if n = 0 then (0, d1) else (n, set_linked i (\<lambda>s. s_status s = SrDone) SrPending d1))"

section \<open>Cancellation by library\<close>

definition cancellable :: "wq_row \<Rightarrow> bool" where
  "cancellable r \<longleftrightarrow> q_status r \<in> {Pending, Failed, Deferred}"

definition cancel_candidates :: "int \<Rightarrow> db \<Rightarrow> wq_row list" where
  "cancel_candidates lib d =
     sort_key q_id (filter (\<lambda>r. cancellable r \<and> in_library d (Some lib) r) (work_queue d))"

definition keepSetForRow :: "db \<Rightarrow> int \<Rightarrow> int \<Rightarrow> string list" where
  "keepSetForRow d i lib =
     map (\<lambda>s. outputPathKey \<lparr>op_Outdir = s_outdir s, op_Filename = s_filename s\<rparr>)
       (filter (\<lambda>s. linked d i (s_id s) \<and> s_library_id s \<noteq> lib) (scan_results d))"

text \<open>What one turn of the loop does with a candidate: nothing, delete it, or rewrite its
  paths.\<close>

datatype cancel_action = KeepRow | DeleteRow | RewriteRow "output_path list"

definition cancel_action_for :: "db \<Rightarrow> int \<Rightarrow> wq_row \<Rightarrow> cancel_action result" where
  "cancel_action_for d lib c =
     (let keep = keepSetForRow d (q_id c) lib;
          act = (\<lambda>paths. let flt = filter (\<lambda>p. outputPathKey p \<in> set keep) paths
                         in if flt = [] then DeleteRow
                            else if length flt = length paths then KeepRow else RewriteRow flt)
      in case q_output_paths c of
           PathsBad m \<Rightarrow> Inl (wrapf (''queue: unmarshal output_paths for row '' @ itoa (q_id c)) (errorf m))
         | PathsEmpty \<Rightarrow> Inr (act [])
         | PathsJson ps \<Rightarrow> Inr (act ps))"

definition cancel_guard :: "wq_row \<Rightarrow> wq_row \<Rightarrow> bool" where
  "cancel_guard c r \<longleftrightarrow> q_id r = q_id c \<and> cancellable r"

definition bump_if :: "bool \<Rightarrow> int \<Rightarrow> int" where
  "bump_if b n = (if b then n + 1 else n)"

fun cancel_loop :: "bool \<Rightarrow> instant \<Rightarrow> int \<Rightarrow> wq_row list \<Rightarrow> int \<times> int \<Rightarrow> db \<Rightarrow> (int \<times> int) result \<times> db" where
  "cancel_loop dry now lib [] (del, upd) d = (Inr (del, upd), d)"
| "cancel_loop dry now lib (c # cs) (del, upd) d =
     (let hit = (count_where (cancel_guard c) (work_queue d) = 1)
      in case cancel_action_for d lib c of
           Inl e \<Rightarrow> (Inl e, d)
         | Inr DeleteRow \<Rightarrow>
             if dry then cancel_loop dry now lib cs (del + 1, upd) d
             else cancel_loop dry now lib cs (bump_if hit del, upd) (delete_wq (cancel_guard c) d)
         | Inr KeepRow \<Rightarrow> cancel_loop dry now lib cs (del, upd) d
         | Inr (RewriteRow flt) \<Rightarrow>
             if dry then cancel_loop dry now lib cs (del, upd + 1) d
             else cancel_loop dry now lib cs (del, bump_if hit upd)
                    (update_wq now (cancel_guard c) (\<lambda>r. r\<lparr>q_output_paths := PathsJson flt\<rparr>) d))"

definition cancelByLibrary :: "bool \<Rightarrow> instant \<Rightarrow> int \<Rightarrow> db \<Rightarrow> (int \<times> int) result \<times> db" where
  "cancelByLibrary dry now lib d = cancel_loop dry now lib (cancel_candidates lib d) (0, 0) d"

text \<open>An error rolls the transaction back; the dry run always does.\<close>

definition CancelByLibrary :: "instant \<Rightarrow> int \<Rightarrow> db \<Rightarrow> (int \<times> int) result \<times> db" where
  "CancelByLibrary now lib d =
     (case cancelByLibrary False now lib d of (Inl e, _) \<Rightarrow> (Inl e, d) | (Inr n, d') \<Rightarrow> (Inr n, d'))"

definition CancelByLibraryTx :: "instant \<Rightarrow> int \<Rightarrow> db \<Rightarrow> (int \<times> int) result \<times> db" where
  "CancelByLibraryTx now lib d = cancelByLibrary False now lib d"

definition CountCancelByLibrary :: "instant \<Rightarrow> int \<Rightarrow> db \<Rightarrow> (int \<times> int) result" where
  "CountCancelByLibrary now lib d = fst (cancelByLibrary True now lib d)"

section \<open>Well-formedness is kept\<close>

lemma wf_row_fields [simp]:
  "wf_row (r\<lparr>q_next_attempt_at := x\<rparr>) = wf_row r"
  "wf_row (r\<lparr>q_provider_lane := l\<rparr>) = wf_row r"
  "wf_row (r\<lparr>q_outcome_type := l\<rparr>) = wf_row r"
  "wf_row (r\<lparr>q_instrumental_result := v, q_music_sum := a, q_vocal_peak := b, q_speech_mean := c,
      q_vocal_class := vc, q_detector_version := dv\<rparr>) = wf_row r"
  "wf_row r \<Longrightarrow> wf_row (r\<lparr>q_output_paths := PathsJson ps\<rparr>)"
  by (simp_all add: wf_row_def)

lemma wf_reset_instrumental_row: "wf_row r \<Longrightarrow> wf_row (reset_instrumental_row now r)"
  by (auto simp: wf_row_def reset_instrumental_row_def priority_defs)

lemma wf_revive_row: "wf_row r \<Longrightarrow> wf_row (revive_row now r)"
  by (auto simp: wf_row_def revive_row_def priority_defs)

lemma revive_row_simps [simp]:
  "q_id (revive_row now r) = q_id r" "q_artist_key (revive_row now r) = q_artist_key r"
  "q_title_key (revive_row now r) = q_title_key r" "q_status (revive_row now r) = Deferred"
  "q_miss_count (revive_row now r) = q_miss_count r"
  "q_attempts (revive_row now r) = q_attempts r"
  by (simp_all add: revive_row_def)

lemma reset_instrumental_row_simps [simp]:
  "q_id (reset_instrumental_row now r) = q_id r"
  "q_artist_key (reset_instrumental_row now r) = q_artist_key r"
  "q_title_key (reset_instrumental_row now r) = q_title_key r"
  "q_status (reset_instrumental_row now r) = Deferred"
  by (simp_all add: reset_instrumental_row_def)

lemma fold_set_linked_simps [simp]:
  "work_queue (fold (\<lambda>i. set_linked i p st) is d) = work_queue d"
  "links (fold (\<lambda>i. set_linked i p st) is d) = links d"
  "wq_seq (fold (\<lambda>i. set_linked i p st) is d) = wq_seq d"
  by (induction "is" arbitrary: d) simp_all

lemma wf_fold_set_linked: "wf_db d \<Longrightarrow> wf_db (fold (\<lambda>i. set_linked i p st) is d)"
  by (induction "is" arbitrary: d) (simp_all add: wf_set_linked)

lemma wf_RecheckDeferred: "wf_db d \<Longrightarrow> wf_db (snd (RecheckDeferred now lib d))"
  unfolding RecheckDeferred_def snd_conv
  by (rule wf_update_wq) (auto dest: wf_dbD(3))

lemma wf_RecheckRetired: "wf_db d \<Longrightarrow> wf_db (snd (RecheckRetired now lib d))"
  by (auto simp: RecheckRetired_def Let_def
      intro!: wf_fold_set_linked wf_update_wq wf_revive_row dest: wf_dbD(3))

lemma wf_ClearDone: "wf_db d \<Longrightarrow> wf_db (snd (ClearDone d))"
  by (simp add: ClearDone_def wf_delete_wq)

lemma wf_bump_outcome: "wf_db d \<Longrightarrow> wf_db (bump_outcome lane h m d)"
  by (simp add: bump_outcome_def wf_db_def)

lemma wf_RecordLaneAttempts: "wf_db d \<Longrightarrow> wf_db (RecordLaneAttempts now i as d)"
  by (simp add: RecordLaneAttempts_def wf_db_def)

lemma wf_SetProviderLane: "wf_db d \<Longrightarrow> wf_db (SetProviderLane now i lane d)"
  by (auto simp: SetProviderLane_def intro!: wf_update_wq dest: wf_dbD(3))

lemma wf_SetInstrumentalResult: "wf_db d \<Longrightarrow> wf_db (SetInstrumentalResult now i x tel d)"
  by (auto simp: SetInstrumentalResult_def intro!: wf_update_wq dest: wf_dbD(3))

lemma wf_SetOutcomeType: "wf_db d \<Longrightarrow> wf_db (SetOutcomeType now i x d)"
  by (auto simp: SetOutcomeType_def intro!: wf_update_wq dest: wf_dbD(3))

lemma wf_ResetInstrumental: "wf_db d \<Longrightarrow> wf_db (snd (ResetInstrumental now i d))"
  by (auto simp: ResetInstrumental_def Let_def
      intro!: wf_set_linked wf_update_wq wf_reset_instrumental_row dest: wf_dbD(3))

lemma wf_cancel_loop: "wf_db d \<Longrightarrow> wf_db (snd (cancel_loop dry now lib cs n d))"
proof (induction cs arbitrary: dry n d)
  case Nil
  then show ?case by (cases n) simp
next
  case (Cons c cs)
  have rw: "wf_db (update_wq now (cancel_guard c) (\<lambda>r. r\<lparr>q_output_paths := PathsJson ps\<rparr>) d)" for ps
    using Cons.prems by (auto intro!: wf_update_wq dest: wf_dbD(3))
  show ?case
    using Cons.prems
    by (cases n) (auto simp: Let_def intro!: Cons.IH rw wf_delete_wq split: sum.split cancel_action.split)
qed

lemma wf_CancelByLibrary: "wf_db d \<Longrightarrow> wf_db (snd (CancelByLibrary now lib d))"
  using wf_cancel_loop [of d False now lib "cancel_candidates lib d" "(0, 0)"]
  by (auto simp: CancelByLibrary_def cancelByLibrary_def split: prod.splits sum.splits)

section \<open>What cancellation does to each row\<close>

text \<open>The loop reads the tables while it changes them.  \<open>cancel_sync d0 d cs\<close> says that the
  candidates still to come look in \<open>d\<close> as they did in \<open>d0\<close> when they were selected.\<close>

definition cancel_sync :: "db \<Rightarrow> db \<Rightarrow> wq_row list \<Rightarrow> bool" where
  "cancel_sync d0 d cs \<longleftrightarrow>
     wf_db d \<and> scan_results d = scan_results d0 \<and> distinct (map q_id cs)
     \<and> (\<forall>c \<in> set cs. row_of d (q_id c) = Some c \<and> cancellable c
          \<and> linked d (q_id c) = linked d0 (q_id c))"

lemma row_of_delete_wq:
  assumes "wf_db d" "r \<in> set (work_queue d)" "p r"
  shows "row_of (delete_wq p d) (q_id r) = None"
proof -
  have "x \<in> set (work_queue d) \<Longrightarrow> q_id x = q_id r \<Longrightarrow> x = r" for x
    using assms by (auto simp: wf_db_def intro: distinct_key_unique)
  with assms(3) show ?thesis by (auto simp: row_of_None delete_wq_def Let_def)
qed

lemma row_of_delete_wq_other:
  assumes "\<And>r. r \<in> set (work_queue d) \<Longrightarrow> q_id r = i \<Longrightarrow> \<not> p r"
  shows "row_of (delete_wq p d) i = row_of d i"
proof -
  have "(\<forall>r \<in> set t. q_id r = i \<longrightarrow> \<not> p r) \<Longrightarrow>
      find (\<lambda>r. q_id r = i) (filter (\<lambda>r. \<not> p r) t) = find (\<lambda>r. q_id r = i) t" for t
    by (induction t) auto
  with assms show ?thesis
    by (simp add: row_of_def first_where_def delete_wq_def Let_def delete_where_def)
qed

lemma delete_guard_simps:
  assumes "wf_db d" "row_of d (q_id c) = Some c" "cancellable c"
  shows "row_of (delete_wq (cancel_guard c) d) i = (if i = q_id c then None else row_of d i)"
    and "scan_results (delete_wq (cancel_guard c) d) = scan_results d"
    and "w \<noteq> q_id c \<Longrightarrow> linked (delete_wq (cancel_guard c) d) w = linked d w"
proof -
  show "row_of (delete_wq (cancel_guard c) d) i = (if i = q_id c then None else row_of d i)"
  proof (cases "i = q_id c")
    case True
    moreover have "c \<in> set (work_queue d)" "cancel_guard c c"
      using assms by (auto simp: cancel_guard_def dest!: row_of_Some)
    ultimately show ?thesis
      using row_of_delete_wq [OF assms(1)] by auto
  next
    case False
    then show ?thesis by (simp add: row_of_delete_wq_other cancel_guard_def)
  qed
  show "scan_results (delete_wq (cancel_guard c) d) = scan_results d"
    by (simp add: delete_wq_def Let_def)
  show "w \<noteq> q_id c \<Longrightarrow> linked (delete_wq (cancel_guard c) d) w = linked d w"
    by (auto simp: linked_def fun_eq_iff delete_wq_def Let_def cancel_guard_def)
qed

lemma rewrite_guard_row:
  assumes c: "row_of d (q_id c) = Some c" "cancellable c" and f: "\<And>r. q_id (f r) = q_id r"
  shows "row_of (update_wq now (cancel_guard c) f d) i
       = (if i = q_id c then Some (touch now (f c)) else row_of d i)"
proof -
  have eq: "row_of (update_wq now (cancel_guard c) f d) i
      = map_option (\<lambda>r. if cancel_guard c r then touch now (f r) else r) (row_of d i)"
    by (rule row_of_update_wq) (simp add: f)
  show ?thesis
  proof (cases "i = q_id c")
    case True
    with c show ?thesis unfolding eq by (simp add: cancel_guard_def)
  next
    case False
    then have "row_of d i = Some r \<Longrightarrow> \<not> cancel_guard c r" for r
      by (auto simp: cancel_guard_def dest: row_of_Some)
    with False show ?thesis by (cases "row_of d i") (simp_all add: eq)
  qed
qed

lemma cancel_hit:
  assumes "wf_db d" "row_of d (q_id c) = Some c" "cancellable c"
  shows "count_where (cancel_guard c) (work_queue d) = 1"
  using count_where_id [OF assms(1), of "q_id c" cancellable] assms(2,3)
  by (simp add: cancel_guard_def [abs_def])

lemma cancel_action_sync:
  "cancel_sync d0 d (c # cs) \<Longrightarrow> cancel_action_for d lib c = cancel_action_for d0 lib c"
  by (simp add: cancel_sync_def cancel_action_for_def keepSetForRow_def)

lemma cancel_syncD:
  assumes "cancel_sync d0 d cs"
  shows "wf_db d" "scan_results d = scan_results d0" "distinct (map q_id cs)"
    and "x \<in> set cs \<Longrightarrow> row_of d (q_id x) = Some x" "x \<in> set cs \<Longrightarrow> cancellable x"
    and "x \<in> set cs \<Longrightarrow> linked d (q_id x) = linked d0 (q_id x)"
  using assms unfolding cancel_sync_def by blast+

lemma cancel_sync_intro:
  assumes "cancel_sync d0 d (c # cs)" "wf_db e" "scan_results e = scan_results d"
    and same: "\<And>i. i \<noteq> q_id c \<Longrightarrow> row_of e i = row_of d i \<and> linked e i = linked d i"
  shows "cancel_sync d0 e cs"
  unfolding cancel_sync_def
proof (intro conjI ballI)
  fix x assume x: "x \<in> set cs"
  with cancel_syncD(3) [OF assms(1)] have ne: "q_id x \<noteq> q_id c" by (auto simp: image_iff)
  from x have "x \<in> set (c # cs)" by simp
  note xs = cancel_syncD(4-6) [OF assms(1) this]
  with same [OF ne] show "row_of e (q_id x) = Some x" "cancellable x" "linked e (q_id x) = linked d0 (q_id x)"
    by (simp_all only:)
next
  show "wf_db e" by (rule assms(2))
  show "scan_results e = scan_results d0" using assms(3) cancel_syncD(2) [OF assms(1)] by (rule trans)
  show "distinct (map q_id cs)" using cancel_syncD(3) [OF assms(1)] by simp
qed

lemma cancel_sync_step:
  assumes "cancel_sync d0 d (c # cs)"
  shows "cancel_sync d0 d cs" "cancel_sync d0 (delete_wq (cancel_guard c) d) cs"
    "cancel_sync d0 (update_wq now (cancel_guard c) (\<lambda>r. r\<lparr>q_output_paths := PathsJson ps\<rparr>) d) cs"
proof -
  from assms have c: "wf_db d" "row_of d (q_id c) = Some c" "cancellable c"
    by (auto simp: cancel_sync_def)
  show "cancel_sync d0 d cs" using assms by (simp add: cancel_sync_def)
  show "cancel_sync d0 (delete_wq (cancel_guard c) d) cs"
    by (rule cancel_sync_intro [OF assms]) (simp_all add: wf_delete_wq c delete_guard_simps [OF c])
  have "wf_db (update_wq now (cancel_guard c) (\<lambda>r. r\<lparr>q_output_paths := PathsJson ps\<rparr>) d)"
    using c(1) by (intro wf_update_wq) (auto dest: wf_dbD(3))
  then show "cancel_sync d0 (update_wq now (cancel_guard c) (\<lambda>r. r\<lparr>q_output_paths := PathsJson ps\<rparr>) d) cs"
    by (rule cancel_sync_intro [OF assms]) (simp_all add: rewrite_guard_row [OF c(2,3)])
qed

lemma cancel_loop_dry_agrees:
  "cancel_sync d0 d cs \<Longrightarrow> cancel_sync d0 e cs \<Longrightarrow>
   fst (cancel_loop False now lib cs n d) = fst (cancel_loop True now' lib cs n e)"
proof (induction cs arbitrary: n d e)
  case Nil
  then show ?case by (cases n) simp
next
  case (Cons c cs)
  from Cons.prems have hit: "count_where (cancel_guard c) (work_queue d) = 1"
    by (auto simp: cancel_sync_def intro!: cancel_hit)
  note st = cancel_sync_step [OF Cons.prems(1)] and st' = cancel_sync_step(1) [OF Cons.prems(2)]
  show ?case
    using cancel_action_sync [OF Cons.prems(1)] cancel_action_sync [OF Cons.prems(2)] hit
    by (cases n) (auto simp: Let_def bump_if_def intro!: Cons.IH st st'
        split: sum.split cancel_action.split)
qed

lemma cancel_candidates_sync: "wf_db d \<Longrightarrow> cancel_sync d d (cancel_candidates lib d)"
  by (auto simp: cancel_sync_def cancel_candidates_def row_of_mem distinct_map
      intro: inj_on_subset dest!: wf_dbD(1))

text \<open>The row a candidate leaves behind, and the same for an arbitrary row.\<close>

definition after_action :: "instant \<Rightarrow> cancel_action \<Rightarrow> wq_row \<Rightarrow> wq_row option" where
  "after_action now a r =
     (case a of KeepRow \<Rightarrow> Some r | DeleteRow \<Rightarrow> None
      | RewriteRow ps \<Rightarrow> Some (touch now (r\<lparr>q_output_paths := PathsJson ps\<rparr>)))"

definition action_of :: "db \<Rightarrow> int \<Rightarrow> wq_row \<Rightarrow> cancel_action" where
  "action_of d lib c = (case cancel_action_for d lib c of Inr a \<Rightarrow> a | Inl _ \<Rightarrow> KeepRow)"

lemma cancel_action_ok: "wf_row c \<Longrightarrow> cancel_action_for d lib c = Inr (action_of d lib c)"
  by (auto simp: cancel_action_for_def action_of_def wf_row_def Let_def split: paths_col.splits)

lemma cancel_loop_rows:
  assumes "cancel_sync d0 d cs"
  shows "\<exists>m d'. cancel_loop False now lib cs n d = (Inr m, d')
       \<and> (\<forall>c \<in> set cs. row_of d' (q_id c) = after_action now (action_of d0 lib c) c)
       \<and> (\<forall>i. i \<notin> q_id ` set cs \<longrightarrow> row_of d' i = row_of d i)"
  using assms
proof (induction cs arbitrary: n d)
  case Nil
  then show ?case by (cases n) simp
next
  case (Cons c cs)
  note sync = cancel_syncD [OF Cons.prems] and st = cancel_sync_step [OF Cons.prems]
  have c: "wf_db d" "row_of d (q_id c) = Some c" "cancellable c" using sync by auto
  have fresh: "q_id c \<notin> q_id ` set cs" using sync(3) by simp
  have act: "cancel_action_for d lib c = Inr (action_of d0 lib c)"
    using cancel_action_sync [OF Cons.prems, of lib] cancel_action_ok [OF row_of_wf [OF c(1,2)]]
    by (metis action_of_def sum.simps(6))
  define e where "e = (case action_of d0 lib c of KeepRow \<Rightarrow> d
      | DeleteRow \<Rightarrow> delete_wq (cancel_guard c) d
      | RewriteRow ps \<Rightarrow> update_wq now (cancel_guard c) (\<lambda>r. r\<lparr>q_output_paths := PathsJson ps\<rparr>) d)"
  have e: "cancel_sync d0 e cs" "row_of e (q_id c) = after_action now (action_of d0 lib c) c"
    "\<And>i. i \<noteq> q_id c \<Longrightarrow> row_of e i = row_of d i"
    by (auto simp: e_def after_action_def st c delete_guard_simps [OF c] rewrite_guard_row [OF c(2,3)]
        split: cancel_action.split)
  obtain n' where loop: "cancel_loop False now lib (c # cs) n d = cancel_loop False now lib cs n' e"
    by (cases n; cases "action_of d0 lib c") (simp_all add: Let_def act e_def)
  from Cons.IH [OF e(1), of n'] obtain m d' where
    d': "cancel_loop False now lib cs n' e = (Inr m, d')"
      "\<forall>c \<in> set cs. row_of d' (q_id c) = after_action now (action_of d0 lib c) c"
      "\<forall>i. i \<notin> q_id ` set cs \<longrightarrow> row_of d' i = row_of e i" by blast
  with fresh e loop show ?case by (intro exI [of _ m] exI [of _ d']) auto
qed

lemma cancel_candidates_set:
  "set (cancel_candidates lib d) = {r \<in> set (work_queue d). cancellable r \<and> in_library d (Some lib) r}"
  by (auto simp: cancel_candidates_def)

lemma CancelByLibrary_rows:
  assumes "wf_db d"
  obtains n d' where "CancelByLibrary now lib d = (Inr n, d')" "CountCancelByLibrary now' lib d = Inr n"
    and "\<And>r. r \<in> set (work_queue d) \<Longrightarrow> row_of d' (q_id r) =
          (if cancellable r \<and> in_library d (Some lib) r
           then after_action now (action_of d lib r) r else Some r)"
proof -
  let ?cs = "cancel_candidates lib d"
  note sync = cancel_candidates_sync [OF assms, of lib]
  from cancel_loop_rows [OF sync, of now lib "(0, 0)"] obtain n d' where
    run: "cancel_loop False now lib ?cs (0, 0) d = (Inr n, d')"
    and hits: "\<forall>c \<in> set ?cs. row_of d' (q_id c) = after_action now (action_of d lib c) c"
    and rest: "\<forall>i. i \<notin> q_id ` set ?cs \<longrightarrow> row_of d' i = row_of d i" by blast
  have dry: "CountCancelByLibrary now' lib d = Inr n"
    using cancel_loop_dry_agrees [OF sync sync, of now lib "(0, 0)" now'] run
    by (simp add: CountCancelByLibrary_def cancelByLibrary_def)
  have "row_of d' (q_id r) = (if cancellable r \<and> in_library d (Some lib) r
           then after_action now (action_of d lib r) r else Some r)"
    if r: "r \<in> set (work_queue d)" for r
  proof (cases "r \<in> set ?cs")
    case True
    with hits show ?thesis by (simp add: cancel_candidates_set)
  next
    case False
    have "q_id r \<notin> q_id ` set ?cs"
    proof
      assume "q_id r \<in> q_id ` set ?cs"
      then obtain c where "c \<in> set ?cs" "q_id c = q_id r" by auto
      moreover from this have "c = r"
        using r assms by (auto simp: cancel_candidates_set wf_db_def intro: distinct_key_unique)
      ultimately show False using False by simp
    qed
    with rest r assms False show ?thesis by (auto simp: cancel_candidates_set row_of_mem)
  qed
  with run dry that show thesis by (simp add: CancelByLibrary_def cancelByLibrary_def)
qed

end
