(* ===== verification/Cache.thy ===== *)
theory Cache
  imports Normalize
begin

text \<open>
  \<^verbatim>\<open>internal/cache/cache.go\<close>: the lyrics cache over the table \<open>lyrics_cache\<close>, whose key is the
  normalised artist and title and the duration bucket.  The repository is its rows and the two
  process-lifetime counters; the stored text is any type \<open>'v\<close>.
\<close>

record 'v cache_row =
  lc_artist :: string
  lc_title :: string
  lc_bucket :: int
  lc_lyrics :: 'v

record 'v cache_repo =
  cr_text :: text_lib
  cr_rows :: "'v cache_row list"
  cr_hits :: int
  cr_lookups :: int

definition NewCache :: "text_lib \<Rightarrow> 'v cache_row list \<Rightarrow> 'v cache_repo" where
  "NewCache T rows = \<lparr>cr_text = T, cr_rows = rows, cr_hits = 0, cr_lookups = 0\<rparr>"

definition cache_key :: "'v cache_row \<Rightarrow> string \<times> string \<times> int" where
  "cache_key r = (lc_artist r, lc_title r, lc_bucket r)"

definition find_cached :: "string \<times> string \<times> int \<Rightarrow> 'v cache_repo \<Rightarrow> 'v option" where
  "find_cached k r = map_option lc_lyrics (first_where (\<lambda>x. cache_key x = k) (cr_rows r))"

definition no_rows :: goerr where
  "no_rows = GoErr ''sql: no rows in result set'' [ErrNoRows]"

definition Lookup :: "string \<Rightarrow> string \<Rightarrow> int \<Rightarrow> 'v cache_repo \<Rightarrow> 'v result \<times> 'v cache_repo" where
  "Lookup artist title bucket r =
     (let r1 = r\<lparr>cr_lookups := cr_lookups r + 1\<rparr>;
          a = NormalizeKey (cr_text r) artist; t = NormalizeKey (cr_text r) title
      in case find_cached (a, t, bucket) r1 of
           Some v \<Rightarrow> (Inr v, r1\<lparr>cr_hits := cr_hits r1 + 1\<rparr>)
         | None \<Rightarrow>
             if bucket = 0 then (Inl no_rows, r1)
             else case find_cached (a, t, 0) r1 of
                    None \<Rightarrow> (Inl no_rows, r1)
                  | Some v \<Rightarrow> (Inr v, r1\<lparr>cr_hits := cr_hits r1 + 1\<rparr>))"

definition CacheStats :: "'v cache_repo \<Rightarrow> int \<times> int" where
  "CacheStats r = (cr_hits r, cr_lookups r)"

definition Store :: "string \<Rightarrow> string \<Rightarrow> int \<Rightarrow> 'v \<Rightarrow> 'v cache_repo \<Rightarrow> unit result \<times> 'v cache_repo" where
  "Store artist title bucket v r =
     (let a = NormalizeKey (cr_text r) artist; t = NormalizeKey (cr_text r) title; k = (a, t, bucket)
      in (Inr (),
          if find_cached k r = None
          then r\<lparr>cr_rows := cr_rows r @ [\<lparr>lc_artist = a, lc_title = t, lc_bucket = bucket, lc_lyrics = v\<rparr>]\<rparr>
          else r\<lparr>cr_rows := update_where (\<lambda>x. cache_key x = k) (\<lambda>x. x\<lparr>lc_lyrics := v\<rparr>) (cr_rows r)\<rparr>))"

section \<open>Lemmas\<close>

definition wf_cache :: "'v cache_repo \<Rightarrow> bool" where
  "wf_cache r \<longleftrightarrow> distinct (map cache_key (cr_rows r)) \<and> 0 \<le> cr_hits r \<and> cr_hits r \<le> cr_lookups r"

lemma find_cached_None: "find_cached k r = None \<longleftrightarrow> k \<notin> cache_key ` set (cr_rows r)"
  by (auto simp: find_cached_def first_where_None)

lemma find_cached_counters [simp]:
  "find_cached k (r\<lparr>cr_lookups := x\<rparr>) = find_cached k r" "find_cached k (r\<lparr>cr_hits := x\<rparr>) = find_cached k r"
  by (simp_all add: find_cached_def)

lemma find_update_key:
  "find (\<lambda>x. cache_key x = k) (update_where (\<lambda>x. cache_key x = j) (\<lambda>x. x\<lparr>lc_lyrics := v\<rparr>) t)
   = map_option (\<lambda>x. if cache_key x = j then x\<lparr>lc_lyrics := v\<rparr> else x) (find (\<lambda>x. cache_key x = k) t)"
  by (induction t) (auto simp: update_where_def cache_key_def)

lemma find_Some_pred: "find p t = Some x \<Longrightarrow> p x"
  by (auto simp: find_Some_iff)

lemma find_cached_Store:
  "find_cached k (snd (Store artist title bucket v r))
   = (if k = (NormalizeKey (cr_text r) artist, NormalizeKey (cr_text r) title, bucket) then Some v
      else find_cached k r)"
proof -
  let ?j = "(NormalizeKey (cr_text r) artist, NormalizeKey (cr_text r) title, bucket)"
  show ?thesis
  proof (cases "find_cached ?j r")
    case None
    then show ?thesis
      by (auto simp: Store_def Let_def find_cached_def first_where_def find_append cache_key_def
          split: option.split)
  next
    case (Some u)
    then have "find_cached k (snd (Store artist title bucket v r))
        = map_option lc_lyrics (map_option (\<lambda>x. if cache_key x = ?j then x\<lparr>lc_lyrics := v\<rparr> else x)
            (find (\<lambda>x. cache_key x = k) (cr_rows r)))"
      by (auto simp: Store_def Let_def find_cached_def first_where_def find_update_key)
    also have "\<dots> = (if k = ?j then Some v else find_cached k r)"
      using Some by (cases "find (\<lambda>x. cache_key x = k) (cr_rows r)")
        (auto simp: find_cached_def first_where_def dest: find_Some_pred)
    finally show ?thesis .
  qed
qed

lemma cr_text_Store [simp]: "cr_text (snd (Store artist title bucket v r)) = cr_text r"
  by (simp add: Store_def Let_def)

lemma Lookup_value:
  "fst (Lookup artist title bucket r) =
    (let a = NormalizeKey (cr_text r) artist; t = NormalizeKey (cr_text r) title
     in case find_cached (a, t, bucket) r of
          Some v \<Rightarrow> Inr v
        | None \<Rightarrow> (case find_cached (a, t, 0) r of Some v \<Rightarrow> Inr v | None \<Rightarrow> Inl no_rows))"
  by (auto simp: Lookup_def Let_def split: option.split)

lemma Lookup_frame:
  "find_cached k (snd (Lookup artist title bucket r)) = find_cached k r"
  "cr_text (snd (Lookup artist title bucket r)) = cr_text r"
  by (auto simp: Lookup_def Let_def split: option.split)

lemma wf_Lookup: "wf_cache r \<Longrightarrow> wf_cache (snd (Lookup artist title bucket r))"
  by (auto simp: Lookup_def Let_def wf_cache_def split: option.split)

lemma wf_Store: "wf_cache r \<Longrightarrow> wf_cache (snd (Store artist title bucket v r))"
proof -
  have "map cache_key (update_where (\<lambda>x. cache_key x = k) (\<lambda>x. x\<lparr>lc_lyrics := v\<rparr>) t) = map cache_key t" for k t
    by (auto simp: update_where_def cache_key_def)
  then show "wf_cache r \<Longrightarrow> wf_cache (snd (Store artist title bucket v r))"
    by (auto simp: Store_def Let_def wf_cache_def find_cached_None) (auto simp: cache_key_def)
qed

section \<open>Property\<close>

text \<open>
  The cache returns what was stored: after a store, a lookup of any artist and title with the
  same normalised keys finds the new lyrics under the same duration bucket, and under any other
  bucket that has no entry of its own when the store was to the unknown-duration bucket; the
  answer for every other key is what it was.
\<close>

theorem cache_lookup_after_store:
  assumes "NormalizeKey (cr_text r) a = NormalizeKey (cr_text r) artist"
    and "NormalizeKey (cr_text r) t = NormalizeKey (cr_text r) title"
  shows "let r' = snd (Store artist title bucket v r) in
      fst (Lookup a t bucket r') = Inr v
      \<and> (bucket = 0 \<and> find_cached (NormalizeKey (cr_text r) a, NormalizeKey (cr_text r) t, b) r = None
           \<longrightarrow> fst (Lookup a t b r') = Inr v)
      \<and> (b \<noteq> bucket \<and> bucket \<noteq> 0 \<longrightarrow> fst (Lookup a t b r') = fst (Lookup a t b r))
      \<and> (\<forall>a' t' b'. (NormalizeKey (cr_text r) a', NormalizeKey (cr_text r) t')
            \<noteq> (NormalizeKey (cr_text r) artist, NormalizeKey (cr_text r) title)
           \<longrightarrow> fst (Lookup a' t' b' r') = fst (Lookup a' t' b' r))"
  using assms by (auto simp: Let_def Lookup_value find_cached_Store split: option.split)

theorem cache_lookup_after_store_witness:
  "fst (Lookup ''abba'' ''sos'' 7 (snd (Store ''abba'' ''sos'' 0 (1::nat)
      (NewCache \<lparr>tl_transform = Some, tl_lower = id\<rparr> [])))) = Inr 1"
  using cache_lookup_after_store [of "NewCache \<lparr>tl_transform = Some, tl_lower = id\<rparr> []" "''abba''" "''abba''"
      "''sos''" "''sos''" 0 "1::nat" 7]
  by (simp add: Let_def NewCache_def find_cached_None)

end
