(* ===== verification/Go_Json.thy ===== *)
theory Go_Json
  imports Go_Strings
begin

text \<open>
  The round trip of a Go string through \<^verbatim>\<open>encoding/json\<close>: what \<open>json.Unmarshal\<close> reads back of a
  string \<open>json.Marshal\<close> wrote.  Valid UTF-8 comes back as it was; each byte that is not part of a
  valid encoding comes back as U+FFFD.
\<close>

function json_bytes :: "nat list \<Rightarrow> nat list" where
  "json_bytes bs =
     (if bs = [] then []
      else case decode_rune bs of
        None \<Rightarrow> [239, 191, 189] @ json_bytes (drop 1 bs)
      | Some (_, n) \<Rightarrow> take (max 1 n) bs @ json_bytes (drop (max 1 n) bs))"
  by pat_completeness auto
termination by (relation "measure length") auto

declare json_bytes.simps [simp del]

definition json_text :: "string \<Rightarrow> string" where
  "json_text s = bytes (json_bytes (map byte_of s))"

lemma json_bytes_Nil [simp]: "json_bytes [] = []" and valid_bytes_Nil [simp]: "valid_bytes [] = []"
  by (simp_all add: json_bytes.simps valid_bytes.simps)

lemma valid_bytes_shorter: "length (valid_bytes bs) \<le> length bs"
proof (induction bs rule: valid_bytes.induct)
  case (1 bs)
  show ?case
  proof (cases "bs = [] \<or> decode_rune bs = None")
    case True
    with 1(1) show ?thesis by (cases "bs = []") (auto simp: valid_bytes.simps [of bs])
  next
    case False
    then obtain r n where "decode_rune bs = Some (r, n)" "bs \<noteq> []" by auto
    with 1(2) [of "(r, n)" r n] show ?thesis by (simp add: valid_bytes.simps [of bs])
  qed
qed

lemma valid_bytes_set: "set (valid_bytes bs) \<subseteq> set bs"
proof (induction bs rule: valid_bytes.induct)
  case (1 bs)
  show ?case
  proof (cases "bs = [] \<or> decode_rune bs = None")
    case True
    with 1(1) show ?thesis
      by (cases "bs = []") (auto simp: valid_bytes.simps [of bs] dest: in_set_dropD)
  next
    case False
    then obtain r n where "decode_rune bs = Some (r, n)" "bs \<noteq> []" by auto
    with 1(2) [of "(r, n)" r n] show ?thesis
      by (auto simp: valid_bytes.simps [of bs] dest: in_set_takeD in_set_dropD)
  qed
qed

lemma json_bytes_valid: "valid_bytes bs = bs \<Longrightarrow> json_bytes bs = bs"
proof (induction bs rule: json_bytes.induct)
  case (1 bs)
  show ?case
  proof (cases "bs = [] \<or> decode_rune bs = None")
    case True
    have "bs = []"
    proof (rule ccontr)
      assume ne: "bs \<noteq> []"
      with True "1.prems" have "valid_bytes (drop 1 bs) = bs" by (simp add: valid_bytes.simps [of bs])
      with valid_bytes_shorter [of "drop 1 bs"] ne show False by (cases bs) auto
    qed
    then show ?thesis by simp
  next
    case False
    then obtain r n where d: "decode_rune bs = Some (r, n)" "bs \<noteq> []" by auto
    then have "take (max 1 n) bs @ valid_bytes (drop (max 1 n) bs) = bs"
      using "1.prems" by (simp add: valid_bytes.simps [of bs])
    then have "valid_bytes (drop (max 1 n) bs) = drop (max 1 n) bs"
      by (metis append_take_drop_id same_append_eq)
    with "1.IH"(2) [OF d(2,1) refl] d show ?thesis by (simp add: json_bytes.simps [of bs])
  qed
qed

lemma json_text_valid: "ToValidUTF8 s = s \<Longrightarrow> json_text s = s"
proof -
  assume v: "ToValidUTF8 s = s"
  have byte: "list_all (\<lambda>b. b < 256) ns \<Longrightarrow> map byte_of (bytes ns) = ns" for ns
    by (induction ns) (simp_all add: bytes_def)
  have "list_all (\<lambda>b. b < 256) (valid_bytes (map byte_of s))"
    using valid_bytes_set [of "map byte_of s"] by (auto simp: list_all_iff)
  from byte [OF this] v have "valid_bytes (map byte_of s) = map byte_of s"
    by (simp add: ToValidUTF8_def)
  then show "json_text s = s" by (simp add: json_text_def json_bytes_valid bytes_def map_idI)
qed

lemma json_text_ascii: "is_ascii s \<Longrightarrow> json_text s = s"
  by (rule json_text_valid [OF ToValidUTF8_ascii])

lemma json_bytes_nonempty: "bs \<noteq> [] \<Longrightarrow> json_bytes bs \<noteq> []"
  by (cases "decode_rune bs") (auto simp: json_bytes.simps [of bs])

lemma json_text_Nil [simp]: "json_text s = [] \<longleftrightarrow> s = []"
  using json_bytes_nonempty [of "map byte_of s"] by (auto simp: json_text_def bytes_def)

end
