(* ===== verification/Worker.thy ===== *)
theory Worker
  imports Orchestrator Queue_Admin Cache Go_Json
begin

text \<open>
  \<^verbatim>\<open>internal/worker/worker.go\<close>: the consumer that claims one queue row, resolves its lyrics from
  the cache or the orchestrator, verifies, screens, stores and writes them, and settles the row.
  Its collaborators are interfaces in the code (\<open>Queue\<close>, \<open>Cache\<close>, \<open>Writer\<close>, \<open>Verifier\<close>, \<open>Detector\<close>,
  \<open>ProviderRecorder\<close>, the context and the clock); here they are the functions of a \<open>deps\<close> record
  over a world \<open>'w\<close> that they read and change.  The lanes of the worker and of its orchestrator are
  the same objects in the code; they live in the orchestrator here.
\<close>

section \<open>Collaborators\<close>

record det_result =
  dr_Instrumental :: bool
  dr_Confidence :: rat
  dr_VocalConfidence :: rat
  dr_SpeechConfidence :: rat
  dr_WinningVocalClass :: string
  dr_Version :: string

definition zero_det :: det_result where
  "zero_det = \<lparr>dr_Instrumental = False, dr_Confidence = 0, dr_VocalConfidence = 0,
     dr_SpeechConfidence = 0, dr_WinningVocalClass = [], dr_Version = []\<rparr>"

record ver_result =
  vr_Accepted :: bool
  vr_Similarity :: rat

text \<open>Cached text is kept with the song it decodes to, if it decodes to one.\<close>

datatype cached = Cached (cached_text: string) (cached_song: "song option")

record 'w queue_iface =
  qi_Dequeue :: "'w \<Rightarrow> work_item result \<times> 'w"
  qi_Complete :: "int \<Rightarrow> 'w \<Rightarrow> unit result \<times> 'w"
  qi_Fail :: "int \<Rightarrow> goerr \<Rightarrow> 'w \<Rightarrow> work_item result \<times> 'w"
  qi_Defer :: "int \<Rightarrow> duration \<Rightarrow> goerr \<Rightarrow> 'w \<Rightarrow> work_item result \<times> 'w"
  qi_Release :: "int \<Rightarrow> 'w \<Rightarrow> unit result \<times> 'w"
  qi_RetireMiss :: "int \<Rightarrow> 'w \<Rightarrow> work_item result \<times> 'w"
  qi_SetInstrumentalResult :: "int \<Rightarrow> int \<Rightarrow> instrumental_telemetry \<Rightarrow> 'w \<Rightarrow> unit result \<times> 'w"
  qi_SetOutcomeType :: "int \<Rightarrow> string \<Rightarrow> 'w \<Rightarrow> unit result \<times> 'w"
  qi_SetProviderLane :: "int \<Rightarrow> string \<Rightarrow> 'w \<Rightarrow> unit result \<times> 'w"

record 'w recorder =
  rc_RecordProviderHit :: "string \<Rightarrow> 'w \<Rightarrow> unit result \<times> 'w"
  rc_RecordProviderMiss :: "string \<Rightarrow> 'w \<Rightarrow> unit result \<times> 'w"
  rc_RecordLaneAttempts :: "int \<Rightarrow> lane_attempt list \<Rightarrow> 'w \<Rightarrow> unit result \<times> 'w"

text \<open>\<open>dp_dispatch\<close> is the environment of one dispatch (what the providers answer); \<open>dp_json\<close> is
  the text \<open>encoding/json\<close> produces for a song; \<open>dp_ctx\<close> is \<open>ctx.Err()\<close>.\<close>

record 'w deps =
  dp_text :: text_lib
  dp_json :: "song \<Rightarrow> string"
  dp_similarity :: "rat \<Rightarrow> string"
  dp_ctx :: "'w \<Rightarrow> goerr option"
  dp_now :: "'w \<Rightarrow> instant"
  dp_queue :: "'w queue_iface"
  dp_lookup :: "string \<Rightarrow> string \<Rightarrow> int \<Rightarrow> 'w \<Rightarrow> cached result \<times> 'w"
  dp_store :: "string \<Rightarrow> string \<Rightarrow> int \<Rightarrow> cached \<Rightarrow> 'w \<Rightarrow> unit result \<times> 'w"
  dp_dispatch :: "track \<Rightarrow> 'w \<Rightarrow> dispatch_env \<times> 'w"
  dp_WriteLRC :: "song \<Rightarrow> string \<Rightarrow> string \<Rightarrow> 'w \<Rightarrow> unit result \<times> 'w"
  dp_verifier :: "(string \<Rightarrow> song \<Rightarrow> 'w \<Rightarrow> ver_result result \<times> 'w) option"
  dp_detector :: "(string \<Rightarrow> 'w \<Rightarrow> det_result result \<times> 'w) option"
  dp_recorder :: "'w recorder option"

section \<open>The worker\<close>

record worker =
  w_orch :: orchestrator
  w_verifyBelowConfidence :: rat
  w_detectInstrumentalDefault :: bool
  w_scriptGuard :: "script_guard option"
  w_consecutiveFailures :: int
  w_lastFailID :: int
  w_lastFailArtist :: string
  w_lastFailTrack :: string
  w_baseBackoff :: duration
  w_maxBackoff :: duration
  w_circuitBackoffBase :: duration
  w_circuitOpenDuration :: duration
  w_missBackoffBase :: duration
  w_missBackoffCap :: duration
  w_maxMissAttempts :: int
  w_providersVersion :: int
  w_mode :: string
  w_raceWait :: duration

definition defaultCircuitOpenDuration :: duration where "defaultCircuitOpenDuration = 30 * minute"
definition defaultCircuitBackoffBase :: duration where "defaultCircuitBackoffBase = 60 * second"

text \<open>The primary provider is given by its name and whether it paces adaptively.\<close>

definition NewWorker :: "bool \<Rightarrow> worker" where
  "NewWorker adaptive =
     (let lane = NewLane ''musixmatch'' adaptive
            (new_breaker defaultCircuitBackoffBase defaultCircuitOpenDuration)
      in \<lparr>w_orch = \<lparr>or_lanes = [lane], or_guard = None, or_mode = ModeOrdered,
                      or_raceWait = DefaultRaceWait\<rparr>,
          w_verifyBelowConfidence = 85 / 100, w_detectInstrumentalDefault = False,
          w_scriptGuard = None, w_consecutiveFailures = 0, w_lastFailID = 0,
          w_lastFailArtist = [], w_lastFailTrack = [], w_baseBackoff = DefaultBase,
          w_maxBackoff = DefaultMax, w_circuitBackoffBase = defaultCircuitBackoffBase,
          w_circuitOpenDuration = defaultCircuitOpenDuration,
          w_missBackoffBase = DefaultMissBase, w_missBackoffCap = DefaultMissCap,
          w_maxMissAttempts = 0, w_providersVersion = 0, w_mode = ModeOrdered,
          w_raceWait = DefaultRaceWait\<rparr>)"

definition rebuildOrchestrator :: "lane list \<Rightarrow> worker \<Rightarrow> goerr option \<times> worker" where
  "rebuildOrchestrator lanes wk =
     (case NewOrchestrator (w_mode wk) (map Some lanes) of
        Inl e \<Rightarrow> (Some e, wk)
      | Inr o1 \<Rightarrow>
          let o2 = SetRaceWait (w_raceWait wk) o1;
              o3 = (if length lanes > 1 \<and> w_scriptGuard wk \<noteq> None
                    then SetGuard (w_scriptGuard wk) o2 else o2)
          in (None, wk\<lparr>w_orch := o3\<rparr>))"

abbreviation w_lanes :: "worker \<Rightarrow> lane list" where
  "w_lanes wk \<equiv> or_lanes (w_orch wk)"

definition SetProvidersMode :: "string \<Rightarrow> worker \<Rightarrow> worker" where
  "SetProvidersMode mode wk =
     (let m = (if mode = [] then ModeOrdered else mode)
      in case rebuildOrchestrator (w_lanes wk) (wk\<lparr>w_mode := m\<rparr>) of
           (Some _, _) \<Rightarrow> wk
         | (None, wk') \<Rightarrow> wk')"

definition WorkerSetRaceWait :: "duration \<Rightarrow> worker \<Rightarrow> worker" where
  "WorkerSetRaceWait t wk =
     (if t \<le> 0 then wk else snd (rebuildOrchestrator (w_lanes wk) (wk\<lparr>w_raceWait := t\<rparr>)))"

definition map_breakers :: "(breaker \<Rightarrow> breaker) \<Rightarrow> worker \<Rightarrow> worker" where
  "map_breakers f wk =
     wk\<lparr>w_orch := (w_orch wk)\<lparr>or_lanes :=
          map (\<lambda>l. l\<lparr>ln_breaker := f (ln_breaker l)\<rparr>) (w_lanes wk)\<rparr>\<rparr>"

definition SetCircuitOpenDuration :: "duration \<Rightarrow> worker \<Rightarrow> worker" where
  "SetCircuitOpenDuration t wk =
     (if t \<le> 0 then wk
      else map_breakers (SetOpenDuration t) (wk\<lparr>w_circuitOpenDuration := t\<rparr>))"

text \<open>A provider is its name and whether it paces adaptively; a nil one is \<open>None\<close>.\<close>

definition SetFallbackProviders :: "(string \<times> bool) option list \<Rightarrow> worker \<Rightarrow> worker" where
  "SetFallbackProviders provs wk =
     (let fresh = map (\<lambda>(n, a). NewLane n a (new_breaker (w_circuitBackoffBase wk) (w_circuitOpenDuration wk)))
                    (map the (filter (\<lambda>p. p \<noteq> None) provs))
      in snd (rebuildOrchestrator (take 1 (w_lanes wk) @ fresh) wk))"

definition WorkerSetProvidersVersion :: "int \<Rightarrow> worker \<Rightarrow> worker" where
  "WorkerSetProvidersVersion v wk = wk\<lparr>w_providersVersion := v\<rparr>"

definition SetMissBackoff :: "duration \<Rightarrow> duration \<Rightarrow> worker \<Rightarrow> worker" where
  "SetMissBackoff base cap wk =
     (let wk1 = (if base > 0 then wk\<lparr>w_missBackoffBase := base\<rparr> else wk)
      in if cap > 0 then wk1\<lparr>w_missBackoffCap := cap\<rparr> else wk1)"

definition SetCircuitBackoff :: "duration \<Rightarrow> duration \<Rightarrow> worker \<Rightarrow> worker" where
  "SetCircuitBackoff base cap wk =
     (if base \<le> 0 \<and> cap \<le> 0 then wk
      else
        let wk1 = (if base > 0 then wk\<lparr>w_circuitBackoffBase := base\<rparr> else wk);
            wk2 = (if cap > 0 then wk1\<lparr>w_circuitOpenDuration := cap\<rparr> else wk1)
        in map_breakers (SetBackoff (w_circuitBackoffBase wk2) (w_circuitOpenDuration wk2)) wk2)"

definition SetMaxMissAttempts :: "int \<Rightarrow> worker \<Rightarrow> worker" where
  "SetMaxMissAttempts n wk = wk\<lparr>w_maxMissAttempts := (if n < 0 then 0 else n)\<rparr>"

definition EnableVerification :: "rat \<Rightarrow> worker \<Rightarrow> worker" where
  "EnableVerification below wk =
     (if below > 0 \<and> below \<le> 1 then wk\<lparr>w_verifyBelowConfidence := below\<rparr> else wk)"

definition SetInstrumentalDetectionDefault :: "bool \<Rightarrow> worker \<Rightarrow> worker" where
  "SetInstrumentalDetectionDefault b wk = wk\<lparr>w_detectInstrumentalDefault := b\<rparr>"

definition EnableGuard :: "script_guard option \<Rightarrow> worker \<Rightarrow> worker" where
  "EnableGuard g wk = snd (rebuildOrchestrator (w_lanes wk) (wk\<lparr>w_scriptGuard := g\<rparr>))"

text \<open>The gate asks the lanes in order and stops at the first that is not open; asking drives the
  breakers it reaches.\<close>

fun open_lanes :: "instant \<Rightarrow> lane list \<Rightarrow> bool \<times> lane list" where
  "open_lanes t [] = (True, [])"
| "open_lanes t (l # ls) =
     (let (st, b) = Allow t (ln_breaker l); l' = l\<lparr>ln_breaker := b\<rparr>
      in if st \<noteq> StateOpen then (False, l' # ls)
         else (let (all, ls') = open_lanes t ls in (all, l' # ls')))"

definition allLanesUnavailable :: "instant \<Rightarrow> worker \<Rightarrow> bool \<times> worker" where
  "allLanesUnavailable t wk =
     (let (all, ls) = open_lanes t (w_lanes wk) in (all, wk\<lparr>w_orch := (w_orch wk)\<lparr>or_lanes := ls\<rparr>\<rparr>))"

section \<open>Small steps\<close>

text \<open>Non-fatal calls: their error is logged only.\<close>

definition recordHit :: "'w deps \<Rightarrow> int \<Rightarrow> string \<Rightarrow> 'w \<Rightarrow> 'w" where
  "recordHit D i lane w =
     (if lane = [] then w
      else let w1 = (case dp_recorder D of None \<Rightarrow> w | Some rc \<Rightarrow> snd (rc_RecordProviderHit rc lane w))
           in snd (qi_SetProviderLane (dp_queue D) i lane w1))"

definition recordMisses :: "'w deps \<Rightarrow> worker \<Rightarrow> 'w \<Rightarrow> 'w" where
  "recordMisses D wk w =
     (case dp_recorder D of None \<Rightarrow> w
      | Some rc \<Rightarrow> fold (\<lambda>n w. snd (rc_RecordProviderMiss rc n w)) (LaneNames (w_orch wk)) w)"

definition recordLaneAttempts :: "'w deps \<Rightarrow> int \<Rightarrow> lane_attempt list \<Rightarrow> 'w \<Rightarrow> 'w" where
  "recordLaneAttempts D i attempts w =
     (case dp_recorder D of None \<Rightarrow> w
      | Some rc \<Rightarrow> if attempts = [] then w else snd (rc_RecordLaneAttempts rc i attempts w))"

definition guardReject :: "worker \<Rightarrow> song \<Rightarrow> bool" where
  "guardReject wk s =
     (case w_scriptGuard wk of None \<Rightarrow> False
      | Some g \<Rightarrow> if \<not> sg_Enabled g then False else \<not> fst (sg_Accept g s))"

definition outcomeTypeFromSong :: "song \<Rightarrow> string" where
  "outcomeTypeFromSong s =
     (if Instrumental (Track s) = 1 then ''instrumental''
      else if length (Subtitles s) > 0 then ''synced''
      else if LyricsBody s \<noteq> [] then ''unsynced'' else [])"

definition outputPaths :: "inputs \<Rightarrow> output_path list" where
  "outputPaths i =
     (if length (in_OutputPaths i) > 0 then in_OutputPaths i
      else [\<lparr>op_Outdir = in_Outdir i, op_Filename = in_Filename i\<rparr>])"

text \<open>\<open>encodeSong\<close> drops the three fields tagged \<open>json:"-"\<close> and passes every text of the song through
  the encoder; \<open>decodeSong\<close> pairs cached lyrics with the live file's identity.\<close>

definition json_track :: "track \<Rightarrow> track" where
  "json_track t = t\<lparr>TrackName := json_text (TrackName t), ArtistName := json_text (ArtistName t),
     AlbumName := json_text (AlbumName t), AlbumArtist := json_text (AlbumArtist t),
     ISRC := json_text (ISRC t), SpotifyID := json_text (SpotifyID t),
     RecordingMBID := json_text (RecordingMBID t)\<rparr>"

definition json_line :: "lrc_line \<Rightarrow> lrc_line" where
  "json_line l = l\<lparr>Text := json_text (Text l)\<rparr>"

definition stored_song :: "song \<Rightarrow> song" where
  "stored_song s = \<lparr>Track = json_track (Track s), LyricsBody = json_text (LyricsBody s),
     Subtitles = map json_line (Subtitles s),
     TranslationSubtitles = map json_line (TranslationSubtitles s),
     RomanizationSubtitles = map json_line (RomanizationSubtitles s),
     WinningLane = [], LaneAttempts = [], FetchedAt = None\<rparr>"

definition encodeSong :: "'w deps \<Rightarrow> song \<Rightarrow> cached" where
  "encodeSong D s = Cached (dp_json D s) (Some (stored_song s))"

definition decodeSong :: "cached \<Rightarrow> track \<Rightarrow> song" where
  "decodeSong c fallback =
     (case cached_song c of
        Some s \<Rightarrow>
          if ArtistName (Track s) \<noteq> [] \<or> TrackName (Track s) \<noteq> []
          then s\<lparr>Track := (Track s)\<lparr>ArtistName := ArtistName fallback, TrackName := TrackName fallback,
                                    AlbumName := AlbumName fallback\<rparr>\<rparr>
          else zero_song\<lparr>Track := fallback, LyricsBody := cached_text c\<rparr>
      | None \<Rightarrow> zero_song\<lparr>Track := fallback, LyricsBody := cached_text c\<rparr>)"

definition Confidence :: "text_lib \<Rightarrow> track \<Rightarrow> track \<Rightarrow> rat" where
  "Confidence T want got =
     (MatchConfidence T (ArtistName want) (ArtistName got)
      + MatchConfidence T (TrackName want) (TrackName got)) / 2"

definition errQueueEmpty :: goerr where
  "errQueueEmpty = GoErr ''worker queue empty'' [WorkerQueueEmpty]"

text \<open>\<open>song\<close> and \<open>store\<close>: the worker's state changes through its lanes, the world through the calls.\<close>

definition w_song :: "'w deps \<Rightarrow> track \<Rightarrow> bool \<Rightarrow> worker \<Rightarrow> 'w \<Rightarrow> ((song \<times> bool) \<times> goerr option) \<times> worker \<times> 'w" where
  "w_song D t bypass wk w =
     (let (cached, w1) = (if bypass then (Inl no_rows, w)
                          else dp_lookup D (ArtistName t) (TrackName t) (DurationBucket (TrackLength t)) w)
      in case cached of
           Inr c \<Rightarrow> (((decodeSong c t, True), None), wk, w1)
         | Inl e \<Rightarrow>
             if \<not> bypass \<and> \<not> errors_is e ErrNoRows
             then (((zero_song, False), Some (wrapf ''worker: lookup cache'' e)), wk, w1)
             else
               let (env, w2) = dp_dispatch D t w1; ((s, err), o') = orch_FindLyrics env (w_orch wk)
               in (((s, False), err), wk\<lparr>w_orch := o'\<rparr>, w2))"

definition w_store :: "'w deps \<Rightarrow> track \<Rightarrow> song \<Rightarrow> 'w \<Rightarrow> unit result \<times> 'w" where
  "w_store D t s w =
     (case dp_store D (ArtistName t) (TrackName t) (DurationBucket (TrackLength t)) (encodeSong D s) w of
        (Inl e, w1) \<Rightarrow> (Inl (wrapf ''worker: store cache'' e), w1)
      | (Inr _, w1) \<Rightarrow> (Inr (), w1))"

definition w_verify :: "'w deps \<Rightarrow> worker \<Rightarrow> work_item \<Rightarrow> song \<Rightarrow> rat \<Rightarrow> 'w \<Rightarrow> goerr option \<times> 'w" where
  "w_verify D wk item s confidence w =
     (case dp_verifier D of
        None \<Rightarrow> (None, w)
      | Some v \<Rightarrow>
          if in_SourcePath (wi_Inputs item) = [] \<or> confidence \<ge> w_verifyBelowConfidence wk then (None, w)
          else case v (in_SourcePath (wi_Inputs item)) s w of
                 (Inl e, w1) \<Rightarrow> (Some (wrapf ''worker: verify lyrics'' e), w1)
               | (Inr res, w1) \<Rightarrow>
                   (if vr_Accepted res then None
                    else Some (errorf (''worker: verification rejected lyrics: similarity ''
                                       @ dp_similarity D (vr_Similarity res))), w1))"

definition detectInstrumental :: "'w deps \<Rightarrow> worker \<Rightarrow> work_item \<Rightarrow> 'w \<Rightarrow> (det_result \<times> bool \<times> goerr option) \<times> 'w" where
  "detectInstrumental D wk item w =
     (let detect = (case wi_DetectInstrumental item of None \<Rightarrow> w_detectInstrumentalDefault wk | Some b \<Rightarrow> b)
      in if \<not> detect then ((zero_det, False, None), w)
         else case dp_detector D of
                None \<Rightarrow> ((zero_det, False, None), w)
              | Some f \<Rightarrow>
                  if TrimSpace (in_SourcePath (wi_Inputs item)) = [] then ((zero_det, False, None), w)
                  else case f (in_SourcePath (wi_Inputs item)) w of
                         (Inl e, w1) \<Rightarrow> ((zero_det, False, Some e), w1)
                       | (Inr res, w1) \<Rightarrow> ((res, True, None), w1))"

definition telemetry_of :: "det_result \<Rightarrow> instrumental_telemetry" where
  "telemetry_of r =
     \<lparr>MusicSum = dr_Confidence r, VocalPeak = dr_VocalConfidence r, SpeechMean = dr_SpeechConfidence r,
      VocalClass = dr_WinningVocalClass r, DetectorVersion = dr_Version r\<rparr>"

definition item_error :: "string \<Rightarrow> int \<Rightarrow> string \<Rightarrow> goerr \<Rightarrow> goerr" where
  "item_error what i suffix e = wrapf (''worker: '' @ what @ itoa i @ suffix) e"

definition w_fail :: "'w deps \<Rightarrow> work_item \<Rightarrow> goerr \<Rightarrow> worker \<Rightarrow> 'w \<Rightarrow> goerr option \<times> worker \<times> 'w" where
  "w_fail D item cause wk w =
     (let wk1 = wk\<lparr>w_consecutiveFailures := w_consecutiveFailures wk + 1,
                   w_lastFailID := wi_ID item,
                   w_lastFailArtist := ArtistName (in_Track (wi_Inputs item)),
                   w_lastFailTrack := TrackName (in_Track (wi_Inputs item))\<rparr>
      in case qi_Fail (dp_queue D) (wi_ID item) cause w of
           (Inl e, w1) \<Rightarrow> (Some (item_error ''fail item '' (wi_ID item) ('' after '' @ err_msg cause) e), wk1, w1)
         | (Inr _, w1) \<Rightarrow> (None, wk1, w1))"

definition releaseAfterThrottle :: "'w deps \<Rightarrow> work_item \<Rightarrow> worker \<Rightarrow> 'w \<Rightarrow> goerr option \<times> worker \<times> 'w" where
  "releaseAfterThrottle D item wk w =
     (let wk1 = wk\<lparr>w_consecutiveFailures := 0, w_lastFailID := 0, w_lastFailArtist := [],
                   w_lastFailTrack := []\<rparr>
      in case qi_Release (dp_queue D) (wi_ID item) w of
           (Inl e, w1) \<Rightarrow> (Some (item_error ''release item '' (wi_ID item) '' after circuit open'' e), wk1, w1)
         | (Inr _, w1) \<Rightarrow> (None, wk1, w1))"

definition requeueDeferred :: "'w deps \<Rightarrow> worker \<Rightarrow> work_item \<Rightarrow> goerr \<Rightarrow> 'w \<Rightarrow> goerr option \<times> 'w" where
  "requeueDeferred D wk item cause w =
     (let n = wi_MissCount item + 1; after = '' after '' @ err_msg cause
      in if w_maxMissAttempts wk > 0 \<and> n \<ge> w_maxMissAttempts wk then
           (case qi_RetireMiss (dp_queue D) (wi_ID item) w of
              (Inl e, w1) \<Rightarrow>
                (if errors_is e ErrNoRows then None
                 else Some (item_error ''retire miss item '' (wi_ID item) after e), w1)
            | (Inr _, w1) \<Rightarrow> (None, w1))
         else
           (case qi_Defer (dp_queue D) (wi_ID item)
                   (MissCooldown n (w_missBackoffBase wk) (w_missBackoffCap wk)) cause w of
              (Inl e, w1) \<Rightarrow>
                (if errors_is e ErrNoRows then None
                 else Some (item_error ''requeue item '' (wi_ID item) after e), w1)
            | (Inr _, w1) \<Rightarrow> (None, w1)))"

text \<open>The loop over the output paths stops at the first failed write.\<close>

fun write_all :: "'w deps \<Rightarrow> song \<Rightarrow> output_path list \<Rightarrow> 'w \<Rightarrow> (output_path \<times> goerr) option \<times> 'w" where
  "write_all D s [] w = (None, w)"
| "write_all D s (p # ps) w =
     (case dp_WriteLRC D s (op_Filename p) (op_Outdir p) w of
        (Inl e, w1) \<Rightarrow> (Some (p, e), w1)
      | (Inr _, w1) \<Rightarrow> write_all D s ps w1)"

definition write_error :: "string \<Rightarrow> work_item \<Rightarrow> output_path \<Rightarrow> goerr \<Rightarrow> goerr" where
  "write_error what item p e =
     item_error what (wi_ID item) ('' output '' @ op_Outdir p @ ''/'' @ op_Filename p) e"

text \<open>Both success paths end like this: complete the row, or mark it failed and surface that.
  \<open>kind\<close> is \<open>"instrumental "\<close> or empty.\<close>

definition complete_item :: "'w deps \<Rightarrow> string \<Rightarrow> work_item \<Rightarrow> worker \<Rightarrow> 'w \<Rightarrow> goerr option \<times> worker \<times> 'w" where
  "complete_item D kind item wk w =
     (let what = ''complete '' @ kind @ ''item ''
      in case qi_Complete (dp_queue D) (wi_ID item) w of
           (Inr _, w1) \<Rightarrow> (None, wk\<lparr>w_consecutiveFailures := 0\<rparr>, w1)
         | (Inl e, w1) \<Rightarrow>
             let cause = item_error what (wi_ID item) [] e;
                 wk1 = wk\<lparr>w_consecutiveFailures := w_consecutiveFailures wk + 1\<rparr>
             in case qi_Fail (dp_queue D) (wi_ID item) cause w1 of
                  (Inl e2, w2) \<Rightarrow>
                    (Some (item_error what (wi_ID item) '' and mark failed'' (errors_join cause e2)), wk1, w2)
                | (Inr _, w2) \<Rightarrow> (Some (item_error what (wi_ID item) '' (marked failed)'' cause), wk1, w2))"

section \<open>RunOnce\<close>

definition settle_miss :: "'w deps \<Rightarrow> work_item \<Rightarrow> goerr \<Rightarrow> worker \<Rightarrow> 'w \<Rightarrow> goerr option \<times> worker \<times> 'w" where
  "settle_miss D item cause wk w =
     (case requeueDeferred D wk item cause w of
        (Some e, w1) \<Rightarrow> (Some e, wk, w1)
      | (None, w1) \<Rightarrow> (None, wk\<lparr>w_consecutiveFailures := 0\<rparr>, w1))"

definition instrumental_song :: "track \<Rightarrow> song" where
  "instrumental_song t =
     zero_song\<lparr>Track := zero_track\<lparr>ArtistName := ArtistName t, TrackName := TrackName t,
                                   AlbumName := AlbumName t, Instrumental := 1\<rparr>\<rparr>"

text \<open>The detector confirmed an instrumental: write the marker and complete.\<close>

definition write_instrumental :: "'w deps \<Rightarrow> work_item \<Rightarrow> track \<Rightarrow> det_result \<Rightarrow> goerr \<Rightarrow> worker \<Rightarrow> 'w
    \<Rightarrow> goerr option \<times> worker \<times> 'w" where
  "write_instrumental D item t det cause wk w =
     (let s = instrumental_song t;
          (_, w1) = dp_store D (ArtistName t) (TrackName t) (DurationBucket (TrackLength t)) (encodeSong D s) w
      in case write_all D s (outputPaths (wi_Inputs item)) w1 of
           (Some _, w2) \<Rightarrow> settle_miss D item cause wk w2
         | (None, w2) \<Rightarrow>
             let (_, w3) = qi_SetInstrumentalResult (dp_queue D) (wi_ID item) 1 (telemetry_of det) w2;
                 (_, w4) = qi_SetOutcomeType (dp_queue D) (wi_ID item) ''instrumental'' w3
             in complete_item D ''instrumental '' item wk w4)"

definition handle_miss :: "'w deps \<Rightarrow> work_item \<Rightarrow> track \<Rightarrow> song \<Rightarrow> goerr \<Rightarrow> worker \<Rightarrow> 'w
    \<Rightarrow> goerr option \<times> worker \<times> 'w" where
  "handle_miss D item t s cause wk w =
     (let w1 = recordMisses D wk w;
          w2 = recordLaneAttempts D (wi_ID item) (LaneAttempts s) w1;
          ((det, ran, det_err), w3) = detectInstrumental D wk item w2
      in if dr_Instrumental det then write_instrumental D item t det cause wk w3
         else
           let w4 = (if det_err = None \<and> ran
                     then snd (qi_SetInstrumentalResult (dp_queue D) (wi_ID item) 0 (telemetry_of det) w3)
                     else w3)
           in settle_miss D item cause wk w4)"

text \<open>The steps of the success branch after a provider fetch: \<open>Inr\<close> goes on to the writing,
  \<open>Inl\<close> has settled the row.\<close>

definition vet_fetched :: "'w deps \<Rightarrow> work_item \<Rightarrow> track \<Rightarrow> song \<Rightarrow> rat \<Rightarrow> worker \<Rightarrow> 'w
    \<Rightarrow> (goerr option \<times> worker \<times> 'w) + 'w" where
  "vet_fetched D item t s confidence wk w =
     (let w1 = recordHit D (wi_ID item) (WinningLane s) w;
          w2 = recordLaneAttempts D (wi_ID item) (LaneAttempts s) w1
      in case w_verify D wk item s confidence w2 of
           (Some e, w3) \<Rightarrow> Inl (w_fail D item e wk w3)
         | (None, w3) \<Rightarrow>
             if guardReject wk s then
               (case qi_Complete (dp_queue D) (wi_ID item) w3 of
                  (Inl e, w4) \<Rightarrow>
                    Inl (w_fail D item (item_error ''complete guard-rejected item '' (wi_ID item) [] e) wk w4)
                | (Inr _, w4) \<Rightarrow> Inl (None, wk\<lparr>w_consecutiveFailures := 0\<rparr>, w4))
             else
               (case w_store D t s w3 of
                  (Inl e, w4) \<Rightarrow> Inl (w_fail D item e wk w4)
                | (Inr _, w4) \<Rightarrow> Inr w4))"

definition write_and_complete :: "'w deps \<Rightarrow> work_item \<Rightarrow> song \<Rightarrow> worker \<Rightarrow> 'w \<Rightarrow> goerr option \<times> worker \<times> 'w" where
  "write_and_complete D item s wk w =
     (case write_all D s (outputPaths (wi_Inputs item)) w of
        (Some (p, e), w1) \<Rightarrow> w_fail D item (write_error ''write item '' item p e) wk w1
      | (None, w1) \<Rightarrow>
          let w2 = (if outcomeTypeFromSong s \<noteq> []
                    then snd (qi_SetOutcomeType (dp_queue D) (wi_ID item) (outcomeTypeFromSong s) w1) else w1)
          in complete_item D [] item wk w2)"

definition handle_song :: "'w deps \<Rightarrow> work_item \<Rightarrow> track \<Rightarrow> song \<Rightarrow> bool \<Rightarrow> worker \<Rightarrow> 'w
    \<Rightarrow> goerr option \<times> worker \<times> 'w" where
  "handle_song D item t s cacheHit wk w =
     (let confidence = Confidence (dp_text D) (in_Track (wi_Inputs item)) (Track s)
      in if cacheHit then write_and_complete D item s wk w
         else
           let s1 = s\<lparr>FetchedAt := Some (dp_now D w)\<rparr>
           in case vet_fetched D item t s1 confidence wk w of
                Inl done \<Rightarrow> done
              | Inr w1 \<Rightarrow> write_and_complete D item s1 wk w1)"

definition handle_error :: "'w deps \<Rightarrow> work_item \<Rightarrow> track \<Rightarrow> song \<Rightarrow> goerr \<Rightarrow> worker \<Rightarrow> 'w
    \<Rightarrow> goerr option \<times> worker \<times> 'w" where
  "handle_error D item t s e wk w =
     (case ClassifyOutcome (Some e) of
        OutcomeUnavailable \<Rightarrow>
          (case qi_Release (dp_queue D) (wi_ID item) w of
             (Inl re, w1) \<Rightarrow> (Some (item_error ''release item '' (wi_ID item) '' after lanes unavailable'' re), wk, w1)
           | (Inr _, w1) \<Rightarrow> (Some errQueueEmpty, wk, w1))
      | OutcomeAuthRateLimit \<Rightarrow>
          (case releaseAfterThrottle D item wk w of
             (Some re, wk1, w1) \<Rightarrow> (Some re, wk1, w1)
           | (None, wk1, w1) \<Rightarrow> (Some errQueueEmpty, wk1, w1))
      | _ \<Rightarrow> if IsBenignMiss e then handle_miss D item t s e wk w else w_fail D item e wk w)"

definition resolved_track :: "'w deps \<Rightarrow> work_item \<Rightarrow> track" where
  "resolved_track D item =
     (let t = in_Track (wi_Inputs item)
      in t\<lparr>ArtistName := ResolveArtist (dp_text D) (AlbumArtist t) (ArtistName t)\<rparr>)"

definition bypassCache :: "worker \<Rightarrow> work_item \<Rightarrow> bool" where
  "bypassCache wk item \<longleftrightarrow> w_providersVersion wk \<noteq> 0 \<and> wi_ProvidersVersion item \<noteq> w_providersVersion wk"

definition process_item :: "'w deps \<Rightarrow> work_item \<Rightarrow> worker \<Rightarrow> 'w \<Rightarrow> goerr option \<times> worker \<times> 'w" where
  "process_item D item wk w =
     (let t = resolved_track D item;
          (((s, hit), err), wk1, w1) = w_song D t (bypassCache wk item) wk w
      in case err of
           Some e \<Rightarrow> handle_error D item t s e wk1 w1
         | None \<Rightarrow> handle_song D item t s hit wk1 w1)"

definition RunOnce :: "'w deps \<Rightarrow> worker \<Rightarrow> 'w \<Rightarrow> goerr option \<times> worker \<times> 'w" where
  "RunOnce D wk w =
     (case dp_ctx D w of
        Some e \<Rightarrow> (Some e, wk, w)
      | None \<Rightarrow>
          let (idle, wk1) = allLanesUnavailable (dp_now D w) wk
          in if idle then (Some errQueueEmpty, wk1, w)
             else case qi_Dequeue (dp_queue D) w of
                    (Inl e, w1) \<Rightarrow>
                      (Some (if errors_is e ErrNoRows then errQueueEmpty else wrapf ''worker: dequeue'' e), wk1, w1)
                  | (Inr item, w1) \<Rightarrow> process_item D item wk1 w1)"

section \<open>The run loop\<close>

text \<open>\<open>run\<close> may go on for ever, so it is a partial function: \<open>None\<close> means it does not return.
  \<open>sleep\<close> is the back-off wait and \<open>pause\<close> the optional wait between items.\<close>

record 'w run_env =
  re_sleep :: "duration \<Rightarrow> 'w \<Rightarrow> 'w"
  re_pause :: "('w \<Rightarrow> goerr option \<times> 'w) option"

definition cancel_error :: "goerr \<Rightarrow> bool" where
  "cancel_error e \<longleftrightarrow> errors_is e CtxCanceled \<or> errors_is e CtxDeadlineExceeded"

datatype 'a turn = Return 'a | Continue

text \<open>One turn of the loop: whether it returns (and what), and the new worker and world.\<close>

definition run_turn :: "'w deps \<Rightarrow> 'w run_env \<Rightarrow> worker \<Rightarrow> 'w \<Rightarrow> goerr option turn \<times> worker \<times> 'w" where
  "run_turn D R wk w =
     (let w0 = (if w_consecutiveFailures wk > 0
                then re_sleep R (Geometric (w_consecutiveFailures wk) (w_baseBackoff wk) (w_maxBackoff wk)) w
                else w)
      in if w_consecutiveFailures wk > 0 \<and> dp_ctx D w0 \<noteq> None then (Return None, wk, w0)
         else
           let (err, wk1, w1) = RunOnce D wk w0
           in case err of
                Some e \<Rightarrow>
                  (if errors_is e WorkerQueueEmpty then (Return None, wk1, w1)
                   else if dp_ctx D w1 \<noteq> None \<and> cancel_error e then (Return None, wk1, w1)
                   else (Return (Some e), wk1, w1))
              | None \<Rightarrow>
                  if dp_ctx D w1 \<noteq> None then (Return None, wk1, w1)
                  else if w_consecutiveFailures wk1 > 0 then (Continue, wk1, w1)
                  else case re_pause R of
                         None \<Rightarrow> (Continue, wk1, w1)
                       | Some p \<Rightarrow>
                           (case p w1 of
                              (None, w2) \<Rightarrow> (Continue, wk1, w2)
                            | (Some e, w2) \<Rightarrow> (Return (if cancel_error e then None else Some e), wk1, w2)))"

partial_function (option) run :: "'w deps \<Rightarrow> 'w run_env \<Rightarrow> worker \<Rightarrow> 'w \<Rightarrow> (goerr option \<times> worker \<times> 'w) option" where
  "run D R wk w =
     (case run_turn D R wk w of
        (Return r, wk1, w1) \<Rightarrow> Some (r, wk1, w1)
      | (Continue, wk1, w1) \<Rightarrow> run D R wk1 w1)"

definition Run :: "'w deps \<Rightarrow> (duration \<Rightarrow> 'w \<Rightarrow> 'w) \<Rightarrow> worker \<Rightarrow> 'w \<Rightarrow> (goerr option \<times> worker \<times> 'w) option" where
  "Run D sleep wk w = run D \<lparr>re_sleep = sleep, re_pause = None\<rparr> wk w"

text \<open>\<open>timer\<close> waits for the interval or the context, and answers \<open>ctx.Err()\<close> in the second case.\<close>

definition RunPaced :: "'w deps \<Rightarrow> (duration \<Rightarrow> 'w \<Rightarrow> 'w) \<Rightarrow> (duration \<Rightarrow> 'w \<Rightarrow> goerr option \<times> 'w) \<Rightarrow> duration
    \<Rightarrow> worker \<Rightarrow> 'w \<Rightarrow> (goerr option \<times> worker \<times> 'w) option" where
  "RunPaced D sleep timer interval wk w =
     run D \<lparr>re_sleep = sleep,
             re_pause = Some (\<lambda>w. if interval \<le> 0 then (None, w) else timer interval w)\<rparr> wk w"

end
