(* ===== verification/Worker_Contract.thy ===== *)
theory Worker_Contract
  imports Worker
begin

text \<open>
  The interface between the worker and its collaborators, as locales: \<open>claim_queue\<close> states what
  the queue promises about the status column (with an observer \<open>st\<close> and an invariant \<open>ok\<close>),
  \<open>worker_service\<close> adds that the other collaborators leave it alone, and \<open>healthy_service\<close> that
  operations on a claimed row succeed.  The client lemmas about the worker are proved once here;
  \<open>Service\<close> interprets the locales on the modelled queue and cache.
\<close>

type_synonym 'w status_view = "'w \<Rightarrow> int \<Rightarrow> wq_status option"

definition quiet :: "('w \<Rightarrow> bool) \<Rightarrow> 'w status_view \<Rightarrow> 'w \<Rightarrow> 'w \<Rightarrow> bool" where
  "quiet ok st w w' \<longleftrightarrow> (ok w \<longrightarrow> ok w' \<and> st w' = st w)"

text \<open>An operation that moves row \<open>i\<close> to a status: it succeeds and does, or fails, changes
  nothing, and says \<open>sql.ErrNoRows\<close> only of a row that was not processing.\<close>

definition moves :: "('w \<Rightarrow> bool) \<Rightarrow> 'w status_view \<Rightarrow> int \<Rightarrow> wq_status \<Rightarrow> 'w \<Rightarrow> 'a result \<times> 'w \<Rightarrow> bool" where
  "moves ok st i s w out \<longleftrightarrow>
     (ok w \<longrightarrow> ok (snd out)
        \<and> (case fst out of
             Inl e \<Rightarrow> st (snd out) = st w \<and> \<not> errors_is e WorkerQueueEmpty
                      \<and> (errors_is e ErrNoRows \<longrightarrow> st w i \<noteq> Some Processing)
           | Inr _ \<Rightarrow> st (snd out) = (st w)(i := Some s)))"

definition settled :: "('w \<Rightarrow> bool) \<Rightarrow> 'w status_view \<Rightarrow> int \<Rightarrow> 'w \<Rightarrow> goerr option \<times> worker \<times> 'w \<Rightarrow> bool" where
  "settled ok st i w out \<longleftrightarrow>
     (case out of (err, wk', w') \<Rightarrow>
        ok w' \<and> (\<forall>j. j \<noteq> i \<longrightarrow> st w' j = st w j)
        \<and> (st w' i = Some Processing \<longrightarrow> (\<exists>e. err = Some e \<and> \<not> errors_is e WorkerQueueEmpty)))"

text \<open>The outcomes of an item when the queue works: what is returned, where the row ends and
  what becomes of the failure counter.\<close>

definition concluded :: "'w status_view \<Rightarrow> int \<Rightarrow> worker \<Rightarrow> goerr option \<times> worker \<times> 'w \<Rightarrow> bool" where
  "concluded st i wk out \<longleftrightarrow>
     (case out of (err, wk', w') \<Rightarrow>
        (err = Some errQueueEmpty \<and> st w' i = Some Pending)
        \<or> (err = None \<and> st w' i \<in> {Some Done, Some Deferred} \<and> w_consecutiveFailures wk' = 0)
        \<or> (err = None \<and> st w' i = Some Failed
             \<and> w_consecutiveFailures wk' = w_consecutiveFailures wk + 1))"

lemma errors_is_item_error [simp]: "errors_is (item_error what i suffix e) s = errors_is e s"
  by (simp add: item_error_def)

lemma quiet_refl: "quiet ok st w w"
  by (simp add: quiet_def)

lemma quiet_trans: "quiet ok st w w1 \<Longrightarrow> quiet ok st w1 w2 \<Longrightarrow> quiet ok st w w2"
  by (auto simp: quiet_def)

lemma settled_quiet: "ok w \<Longrightarrow> quiet ok st w w1 \<Longrightarrow> (ok w1 \<Longrightarrow> settled ok st i w1 out) \<Longrightarrow> settled ok st i w out"
  by (auto simp: quiet_def settled_def split: prod.splits)

section \<open>The queue\<close>

locale claim_queue =
  fixes Q :: "'w queue_iface"
    and st :: "'w \<Rightarrow> int \<Rightarrow> wq_status option"
    and ok :: "'w \<Rightarrow> bool"
  assumes dequeue_err: "ok w \<Longrightarrow> qi_Dequeue Q w = (Inl e, w') \<Longrightarrow>
        ok w' \<and> st w' = st w \<and> \<not> errors_is e WorkerQueueEmpty"
    and dequeue_ok: "ok w \<Longrightarrow> qi_Dequeue Q w = (Inr it, w') \<Longrightarrow>
        ok w' \<and> st w (wi_ID it) \<noteq> Some Processing \<and> st w' = (st w)(wi_ID it := Some Processing)"
    and complete: "moves ok st i Done w (qi_Complete Q i w)"
    and fail: "moves ok st i Failed w (qi_Fail Q i cause w)"
    and defer_item: "moves ok st i Deferred w (qi_Defer Q i t cause w)"
    and release: "moves ok st i Pending w (qi_Release Q i w)"
    and retire: "moves ok st i Done w (qi_RetireMiss Q i w)"
    and set_instrumental: "quiet ok st w (snd (qi_SetInstrumentalResult Q i x tel w))"
    and set_outcome: "quiet ok st w (snd (qi_SetOutcomeType Q i s w))"
    and set_lane: "quiet ok st w (snd (qi_SetProviderLane Q i s w))"

section \<open>The whole environment\<close>

locale worker_service = claim_queue "dp_queue D" st ok
  for D :: "'w deps" and st :: "'w \<Rightarrow> int \<Rightarrow> wq_status option" and ok :: "'w \<Rightarrow> bool" +
  assumes lookup: "quiet ok st w (snd (dp_lookup D a t b w))"
    and store: "quiet ok st w (snd (dp_store D a t b c w))"
    and dispatch: "quiet ok st w (snd (dp_dispatch D tr w))"
    and write_lrc: "quiet ok st w (snd (dp_WriteLRC D s f dir w))"
    and verifier: "dp_verifier D = Some v \<Longrightarrow> quiet ok st w (snd (v p s w))"
    and detector: "dp_detector D = Some dt \<Longrightarrow> quiet ok st w (snd (dt p w))"
    and record_hit: "dp_recorder D = Some rc \<Longrightarrow> quiet ok st w (snd (rc_RecordProviderHit rc n w))"
    and record_miss: "dp_recorder D = Some rc \<Longrightarrow> quiet ok st w (snd (rc_RecordProviderMiss rc n w))"
    and record_attempts: "dp_recorder D = Some rc \<Longrightarrow> quiet ok st w (snd (rc_RecordLaneAttempts rc i as w))"

context worker_service begin

lemma quiet_recordHit: "quiet ok st w (recordHit D i lane w)"
  by (auto simp: recordHit_def Let_def quiet_refl split: option.split
      intro: set_lane quiet_trans [OF record_hit set_lane])

lemma quiet_recordMisses: "quiet ok st w (recordMisses D wk w)"
proof (cases "dp_recorder D")
  case (Some rc)
  have "quiet ok st w (fold (\<lambda>n w. snd (rc_RecordProviderMiss rc n w)) ns w)" for ns
    by (induction ns arbitrary: w) (auto intro: quiet_refl quiet_trans [OF record_miss [OF Some]])
  with Some show ?thesis by (simp add: recordMisses_def)
qed (simp add: recordMisses_def quiet_refl)

lemma quiet_recordLaneAttempts: "quiet ok st w (recordLaneAttempts D i as w)"
  by (auto simp: recordLaneAttempts_def quiet_refl split: option.split intro: record_attempts)

lemma quiet_verify: "quiet ok st w (snd (w_verify D wk item s c w))"
proof (cases "dp_verifier D")
  case (Some v)
  then show ?thesis using verifier [OF Some, of w "in_SourcePath (wi_Inputs item)" s]
    by (auto simp: w_verify_def quiet_refl split: prod.split sum.split)
qed (simp add: w_verify_def quiet_refl)

lemma quiet_detect: "quiet ok st w (snd (detectInstrumental D wk item w))"
proof (cases "dp_detector D")
  case (Some f)
  then show ?thesis using detector [OF Some, of w "in_SourcePath (wi_Inputs item)"]
    by (auto simp: detectInstrumental_def Let_def quiet_refl split: prod.split sum.split option.split)
qed (simp add: detectInstrumental_def Let_def quiet_refl split: option.split)

lemma quiet_store: "quiet ok st w (snd (w_store D t s w))"
  using store [of w "ArtistName t" "TrackName t" "DurationBucket (TrackLength t)" "encodeSong D s"]
  by (auto simp: w_store_def split: prod.split sum.split)

lemma quiet_write_all: "quiet ok st w (snd (write_all D s ps w))"
proof (induction ps arbitrary: w)
  case (Cons p ps)
  with write_lrc [of w s "op_Filename p" "op_Outdir p"] show ?case
    by (auto split: prod.split sum.split intro: quiet_trans)
qed (simp add: quiet_refl)

lemma quiet_song: "quiet ok st w (snd (snd (w_song D t b wk w)))"
proof -
  obtain c w1 where c: "(if b then (Inl no_rows, w)
      else dp_lookup D (ArtistName t) (TrackName t) (DurationBucket (TrackLength t)) w) = (c, w1)"
    by fastforce
  obtain env w2 where d: "dp_dispatch D t w1 = (env, w2)" by fastforce
  obtain s err o' where f: "orch_FindLyrics env (w_orch wk) = ((s, err), o')"
    by (metis prod.collapse)
  have q1: "quiet ok st w w1"
    using c lookup [of w "ArtistName t" "TrackName t" "DurationBucket (TrackLength t)"]
    by (cases b) (auto simp: quiet_refl)
  have q2: "quiet ok st w w2" using quiet_trans [OF q1 dispatch [of w1 t]] by (simp add: d)
  from q1 q2 show ?thesis unfolding w_song_def c by (simp add: d f split: sum.split)
qed

lemma via:
  "ok w \<Longrightarrow> quiet ok st w w1 \<Longrightarrow> (ok w1 \<Longrightarrow> settled ok st i w1 out) \<Longrightarrow> settled ok st i w out"
  by (rule settled_quiet)

lemmas quiet_steps =
  quiet_recordHit quiet_recordMisses quiet_recordLaneAttempts quiet_verify quiet_detect quiet_store
  quiet_write_all quiet_song set_instrumental set_outcome set_lane

text \<open>The settling calls.\<close>

lemma settled_fail: "ok w \<Longrightarrow> settled ok st (wi_ID item) w (w_fail D item cause wk w)"
  using fail [of "wi_ID item" w cause]
  by (auto simp: w_fail_def Let_def settled_def moves_def split: prod.split sum.splits)

lemma settled_release_throttle:
  assumes "ok w"
  shows "case releaseAfterThrottle D item wk w of
      (Some e, wk', w') \<Rightarrow> settled ok st (wi_ID item) w (Some e, wk', w')
    | (None, wk', w') \<Rightarrow> ok w' \<and> st w' = (st w)(wi_ID item := Some Pending)"
  using assms release [of "wi_ID item" w]
  by (auto simp: releaseAfterThrottle_def Let_def settled_def moves_def split: prod.split sum.splits)

text \<open>What an operation on the claimed row settles, whatever is reported of it.\<close>

lemma settled_moves:
  assumes "ok w" "moves ok st i s w (r, w1)" "s \<noteq> Processing"
    and "\<And>e. r = Inl e \<Longrightarrow> \<not> errors_is e ErrNoRows \<Longrightarrow> err = Some (f e) \<and> errors_is (f e) = errors_is e"
  shows "settled ok st i w (err, wk', w1)"
  using assms by (cases r) (auto simp: moves_def settled_def)

lemma settled_requeue:
  assumes w: "ok w"
  shows "settled ok st (wi_ID item) w
    (fst (requeueDeferred D wk item cause w), wk', snd (requeueDeferred D wk item cause w))"
proof -
  let ?i = "wi_ID item" and ?n = "wi_MissCount item + 1"
  let ?t = "MissCooldown ?n (w_missBackoffBase wk) (w_missBackoffCap wk)"
  obtain r1 w1 where r1: "qi_RetireMiss (dp_queue D) ?i w = (r1, w1)" by fastforce
  obtain r2 w2 where r2: "qi_Defer (dp_queue D) ?i ?t cause w = (r2, w2)" by fastforce
  let ?f1 = "item_error ''retire miss item '' ?i ('' after '' @ err_msg cause)"
  let ?f2 = "item_error ''requeue item '' ?i ('' after '' @ err_msg cause)"
  let ?out = "\<lambda>f r. case r of Inl e \<Rightarrow> (if errors_is e ErrNoRows then None else Some (f e)) | Inr _ \<Rightarrow> None"
  have s1: "settled ok st ?i w (?out ?f1 r1, wk', w1)"
    using retire [of ?i w] by (intro settled_moves [OF w, where f = ?f1]) (auto simp: r1 fun_eq_iff)
  have s2: "settled ok st ?i w (?out ?f2 r2, wk', w2)"
    using defer_item [of ?i w ?t cause] by (intro settled_moves [OF w, where f = ?f2]) (auto simp: r2 fun_eq_iff)
  have "requeueDeferred D wk item cause w =
      (if w_maxMissAttempts wk > 0 \<and> ?n \<ge> w_maxMissAttempts wk then (?out ?f1 r1, w1) else (?out ?f2 r2, w2))"
    unfolding requeueDeferred_def Let_def r1 r2 prod.case by (cases r1; cases r2) simp_all
  with s1 s2 show ?thesis by simp
qed

lemma settled_miss:
  assumes "ok w"
  shows "settled ok st (wi_ID item) w (settle_miss D item cause wk w)"
proof -
  obtain x w1 where x: "requeueDeferred D wk item cause w = (x, w1)" by fastforce
  then show ?thesis
    using settled_requeue [OF assms, of item wk cause] by (cases x) (simp_all add: settle_miss_def)
qed

lemma settled_complete:
  assumes w: "ok w"
  shows "settled ok st (wi_ID item) w (complete_item D kind item wk w)"
proof -
  obtain r w1 where c: "qi_Complete (dp_queue D) (wi_ID item) w = (r, w1)" by fastforce
  note cm = complete [of "wi_ID item" w, unfolded c]
  show ?thesis
  proof (cases r)
    case (Inr u)
    with w cm c show ?thesis by (simp add: complete_item_def Let_def settled_def moves_def)
  next
    case (Inl e)
    define what where "what = ''complete '' @ kind @ ''item ''"
    define cause where "cause = item_error what (wi_ID item) [] e"
    obtain r2 w2 where f: "qi_Fail (dp_queue D) (wi_ID item) cause w1 = (r2, w2)" by fastforce
    note fl = fail [of "wi_ID item" w1 cause, unfolded f]
    have "complete_item D kind item wk w =
        (Some (case r2 of Inl e2 \<Rightarrow> item_error what (wi_ID item) '' and mark failed'' (errors_join cause e2)
                | Inr _ \<Rightarrow> item_error what (wi_ID item) '' (marked failed)'' cause),
         wk\<lparr>w_consecutiveFailures := w_consecutiveFailures wk + 1\<rparr>, w2)"
      unfolding complete_item_def Let_def c Inl prod.case sum.case what_def [symmetric]
        cause_def [symmetric] f by (cases r2) simp_all
    moreover have "\<not> errors_is cause WorkerQueueEmpty" using w cm Inl by (simp add: cause_def moves_def)
    ultimately show ?thesis
      using w cm fl Inl by (cases r2) (auto simp: settled_def moves_def)
  qed
qed

text \<open>The branches of an item.\<close>

lemma settled_write_instrumental:
  assumes w: "ok w"
  shows "settled ok st (wi_ID item) w (write_instrumental D item t det cause wk w)"
proof -
  let ?s = "instrumental_song t"
  obtain r1 w1 where s1: "dp_store D (ArtistName t) (TrackName t) (DurationBucket (TrackLength t)) (encodeSong D ?s) w = (r1, w1)"
    by fastforce
  obtain r2 w2 where s2: "write_all D ?s (outputPaths (wi_Inputs item)) w1 = (r2, w2)" by fastforce
  have q1: "quiet ok st w w1" using store [of w] s1 by (metis snd_conv)
  have q2: "quiet ok st w w2" using quiet_trans [OF q1] quiet_write_all [of w1 ?s] s2 by (metis snd_conv)
  obtain r3 w3 where s3: "qi_SetInstrumentalResult (dp_queue D) (wi_ID item) 1 (telemetry_of det) w2 = (r3, w3)" by fastforce
  obtain r4 w4 where s4: "qi_SetOutcomeType (dp_queue D) (wi_ID item) ''instrumental'' w3 = (r4, w4)" by fastforce
  have q3: "quiet ok st w w3" using quiet_trans [OF q2] set_instrumental [of w2] s3 by (metis snd_conv)
  have q4: "quiet ok st w w4" using quiet_trans [OF q3] set_outcome [of w3] s4 by (metis snd_conv)
  show ?thesis
  proof (cases r2)
    case None
    then have "write_instrumental D item t det cause wk w = complete_item D ''instrumental '' item wk w4"
      by (simp add: write_instrumental_def Let_def s1 s2 s3 s4)
    then show ?thesis using via [OF w q4] settled_complete by simp
  next
    case (Some x)
    then have "write_instrumental D item t det cause wk w = settle_miss D item cause wk w2"
      by (simp add: write_instrumental_def Let_def s1 s2)
    then show ?thesis using via [OF w q2] settled_miss by simp
  qed
qed

text \<open>What a benign miss leads to: writing the marker or requeueing, from a quiet successor.\<close>

lemma handle_miss_cases:
  obtains (marker) w1 det where "quiet ok st w w1"
      "handle_miss D item t s cause wk w = write_instrumental D item t det cause wk w1"
  | (requeue) w1 where "quiet ok st w w1" "handle_miss D item t s cause wk w = settle_miss D item cause wk w1"
proof -
  let ?w2 = "recordLaneAttempts D (wi_ID item) (LaneAttempts s) (recordMisses D wk w)"
  obtain det ran e w3 where d: "detectInstrumental D wk item ?w2 = ((det, ran, e), w3)"
    by (metis prod.collapse)
  have q2: "quiet ok st w ?w2" using quiet_trans [OF quiet_recordMisses quiet_recordLaneAttempts] .
  have q3: "quiet ok st w w3" using quiet_trans [OF q2] quiet_detect [of ?w2 wk item] d by (metis snd_conv)
  have q4: "quiet ok st w (snd (qi_SetInstrumentalResult (dp_queue D) (wi_ID item) 0 (telemetry_of det) w3))"
    using quiet_trans [OF q3 set_instrumental] .
  show thesis
  proof (cases "dr_Instrumental det")
    case True
    then show thesis using marker [OF q3] by (simp add: handle_miss_def Let_def d)
  next
    case False
    then show thesis using requeue [OF q3] requeue [OF q4]
      by (cases "e = None \<and> ran") (simp_all add: handle_miss_def Let_def d)
  qed
qed

lemma settled_handle_miss: "ok w \<Longrightarrow> settled ok st (wi_ID item) w (handle_miss D item t s cause wk w)"
  by (cases rule: handle_miss_cases [of w item t s cause wk])
     (auto intro: via settled_write_instrumental settled_miss)

lemma settled_handle_error:
  assumes "ok w"
  shows "settled ok st (wi_ID item) w (handle_error D item t s e wk w)"
proof (cases "ClassifyOutcome (Some e)")
  case OutcomeUnavailable
  with assms release [of "wi_ID item" w] show ?thesis
    by (auto simp: handle_error_def settled_def moves_def errQueueEmpty_def split: prod.splits sum.splits)
next
  case OutcomeAuthRateLimit
  with settled_release_throttle [OF assms, of item wk] show ?thesis
    by (auto simp: handle_error_def settled_def split: prod.splits option.splits)
qed (use assms in \<open>auto simp: handle_error_def intro: settled_handle_miss settled_fail\<close>)

lemma vet_cases:
  obtains (rejected) w1 r w2 where "quiet ok st w w1" "qi_Complete (dp_queue D) (wi_ID item) w1 = (r, w2)"
      "vet_fetched D item t s c wk w = Inl (case r of
         Inl e \<Rightarrow> w_fail D item (item_error ''complete guard-rejected item '' (wi_ID item) [] e) wk w2
       | Inr _ \<Rightarrow> (None, wk\<lparr>w_consecutiveFailures := 0\<rparr>, w2))"
  | (failed) w1 e where "quiet ok st w w1" "vet_fetched D item t s c wk w = Inl (w_fail D item e wk w1)"
  | (accepted) w1 where "quiet ok st w w1" "vet_fetched D item t s c wk w = Inr w1"
proof -
  let ?w2 = "recordLaneAttempts D (wi_ID item) (LaneAttempts s) (recordHit D (wi_ID item) (WinningLane s) w)"
  have q2: "quiet ok st w ?w2" using quiet_trans [OF quiet_recordHit quiet_recordLaneAttempts] .
  obtain v w3 where v: "w_verify D wk item s c ?w2 = (v, w3)" by fastforce
  have q3: "quiet ok st w w3" using quiet_trans [OF q2] quiet_verify [of ?w2 wk item s c] v by (metis snd_conv)
  obtain r w4 where r: "qi_Complete (dp_queue D) (wi_ID item) w3 = (r, w4)" by fastforce
  obtain x w5 where x: "w_store D t s w3 = (x, w5)" by fastforce
  have q5: "quiet ok st w w5" using quiet_trans [OF q3] quiet_store [of w3 t s] x by (metis snd_conv)
  show thesis
  proof (cases v)
    case (Some e)
    then show thesis using failed [OF q3] by (simp add: vet_fetched_def Let_def v)
  next
    case None
    then show thesis
      using rejected [OF q3 r] failed [OF q5] accepted [OF q5]
      by (cases "guardReject wk s"; cases r; cases x) (simp_all add: vet_fetched_def Let_def v r x)
  qed
qed

lemma settled_write_and_complete:
  assumes w: "ok w"
  shows "settled ok st (wi_ID item) w (write_and_complete D item s wk w)"
proof -
  obtain r w1 where r: "write_all D s (outputPaths (wi_Inputs item)) w = (r, w1)" by fastforce
  have q1: "quiet ok st w w1" using quiet_write_all [of w s] r by (metis snd_conv)
  have q2: "quiet ok st w (snd (qi_SetOutcomeType (dp_queue D) (wi_ID item) (outcomeTypeFromSong s) w1))"
    using quiet_trans [OF q1 set_outcome] .
  show ?thesis
    using via [OF w q1 settled_complete] via [OF w q2 settled_complete] via [OF w q1 settled_fail]
    by (cases r) (simp_all add: write_and_complete_def Let_def r split: prod.split)
qed

lemma settled_handle_song:
  assumes w: "ok w"
  shows "settled ok st (wi_ID item) w (handle_song D item t s hit wk w)"
proof (cases hit)
  case True
  then show ?thesis using settled_write_and_complete [OF w] by (simp add: handle_song_def)
next
  case False
  let ?s = "s\<lparr>FetchedAt := Some (dp_now D w)\<rparr>"
    and ?c = "Confidence (dp_text D) (in_Track (wi_Inputs item)) (Track s)"
  show ?thesis
  proof (cases rule: vet_cases [of w item t ?s ?c wk])
    case (rejected w1 r w2)
    have "settled ok st (wi_ID item) w1 (case r of
         Inl e \<Rightarrow> w_fail D item (item_error ''complete guard-rejected item '' (wi_ID item) [] e) wk w2
       | Inr _ \<Rightarrow> (None, wk\<lparr>w_consecutiveFailures := 0\<rparr>, w2))" if "ok w1"
    proof (cases r)
      case (Inl e)
      with complete [of "wi_ID item" w1] rejected(2) that have "quiet ok st w1 w2"
        by (auto simp: moves_def quiet_def)
      with Inl via [OF that] settled_fail show ?thesis by simp
    next
      case (Inr u)
      with complete [of "wi_ID item" w1] rejected(2) that show ?thesis by (auto simp: moves_def settled_def)
    qed
    with rejected(1,3) False via [OF w] show ?thesis by (simp add: handle_song_def Let_def)
  next
    case (failed w1 e)
    with False via [OF w failed(1)] settled_fail show ?thesis by (simp add: handle_song_def Let_def)
  next
    case (accepted w1)
    with False via [OF w accepted(1)] settled_write_and_complete show ?thesis
      by (simp add: handle_song_def Let_def)
  qed
qed

lemma settled_process_item:
  assumes w: "ok w"
  shows "settled ok st (wi_ID item) w (process_item D item wk w)"
proof -
  let ?t = "resolved_track D item" and ?b = "bypassCache wk item"
  obtain s hit err wk1 w1 where f: "w_song D ?t ?b wk w = (((s, hit), err), wk1, w1)"
    by (metis prod.collapse)
  have q: "quiet ok st w w1" using quiet_song [of w ?t ?b wk] f by simp
  show ?thesis
    using via [OF w q] settled_handle_error settled_handle_song
    by (cases err) (simp_all add: process_item_def Let_def f)
qed

text \<open>A claimed row is never orphaned in silence: \<open>RunOnce\<close> touches at most the row it claimed,
  and when that row is still processing afterwards it says so with an error other than
  "queue empty".\<close>

lemma RunOnce_settles:
  assumes w: "ok w" and run: "RunOnce D wk w = (err, wk', w')"
  shows "ok w' \<and> (st w' = st w \<or>
    (\<exists>i. st w i \<noteq> Some Processing \<and> (\<forall>j. j \<noteq> i \<longrightarrow> st w' j = st w j)
       \<and> (st w' i = Some Processing \<longrightarrow> (\<exists>e. err = Some e \<and> \<not> errors_is e WorkerQueueEmpty))))"
proof (cases "dp_ctx D w")
  case (Some e)
  with w run show ?thesis by (auto simp: RunOnce_def)
next
  case None
  obtain idle wk1 where g: "allLanesUnavailable (dp_now D w) wk = (idle, wk1)" by fastforce
  obtain r w1 where d: "qi_Dequeue (dp_queue D) w = (r, w1)" by fastforce
  show ?thesis
  proof (cases idle)
    case True
    with None g w run show ?thesis by (auto simp: RunOnce_def)
  next
    case False
    show ?thesis
    proof (cases r)
      case (Inl e)
      with None g False d run dequeue_err [OF w, of e w1] show ?thesis by (auto simp: RunOnce_def)
    next
      case (Inr item)
      note dq = dequeue_ok [OF w d [unfolded Inr]]
      from None g False d run Inr have "process_item D item wk1 w1 = (err, wk', w')"
        by (simp add: RunOnce_def)
      with settled_process_item [of w1 item wk1] dq show ?thesis
        by (intro conjI disjI2 exI [of _ "wi_ID item"]) (auto simp: settled_def)
    qed
  qed
qed

end

section \<open>When the queue works\<close>

locale healthy_service = worker_service +
  assumes live_complete: "ok w \<Longrightarrow> st w i = Some Processing \<Longrightarrow> \<exists>w'. qi_Complete (dp_queue D) i w = (Inr (), w')"
    and live_fail: "ok w \<Longrightarrow> st w i = Some Processing \<Longrightarrow> \<exists>it w'. qi_Fail (dp_queue D) i cause w = (Inr it, w')"
    and live_defer: "ok w \<Longrightarrow> st w i = Some Processing \<Longrightarrow> \<exists>it w'. qi_Defer (dp_queue D) i t cause w = (Inr it, w')"
    and live_release: "ok w \<Longrightarrow> st w i = Some Processing \<Longrightarrow> \<exists>w'. qi_Release (dp_queue D) i w = (Inr (), w')"
    and live_retire: "ok w \<Longrightarrow> st w i = Some Processing \<Longrightarrow> \<exists>it w'. qi_RetireMiss (dp_queue D) i w = (Inr it, w')"

context healthy_service begin

lemma concluded_via:
  assumes "ok w" "st w i = Some Processing" "quiet ok st w w1"
    and "ok w1 \<Longrightarrow> st w1 i = Some Processing \<Longrightarrow> concluded st i wk out"
  shows "concluded st i wk out"
  using assms by (simp add: quiet_def)

lemma concluded_fail:
  assumes "ok w" "st w (wi_ID item) = Some Processing"
  shows "concluded st (wi_ID item) wk (w_fail D item cause wk w)"
proof -
  obtain it w1 where f: "qi_Fail (dp_queue D) (wi_ID item) cause w = (Inr it, w1)"
    using live_fail [OF assms] by blast
  with fail [of "wi_ID item" w cause] assms(1) have "st w1 (wi_ID item) = Some Failed" by (simp add: moves_def)
  with f show ?thesis by (simp add: w_fail_def Let_def concluded_def)
qed

lemma concluded_complete:
  assumes "ok w" "st w (wi_ID item) = Some Processing"
  shows "concluded st (wi_ID item) wk (complete_item D kind item wk w)"
proof -
  obtain w1 where c: "qi_Complete (dp_queue D) (wi_ID item) w = (Inr (), w1)"
    using live_complete [OF assms] by blast
  with complete [of "wi_ID item" w] assms(1) have "st w1 (wi_ID item) = Some Done" by (simp add: moves_def)
  with c show ?thesis by (simp add: complete_item_def Let_def concluded_def)
qed

lemma concluded_miss:
  assumes "ok w" "st w (wi_ID item) = Some Processing"
  shows "concluded st (wi_ID item) wk (settle_miss D item cause wk w)"
proof -
  let ?i = "wi_ID item" and ?n = "wi_MissCount item + 1"
  let ?t = "MissCooldown ?n (w_missBackoffBase wk) (w_missBackoffCap wk)"
  obtain it1 w1 where r: "qi_RetireMiss (dp_queue D) ?i w = (Inr it1, w1)" using live_retire [OF assms] by blast
  obtain it2 w2 where d: "qi_Defer (dp_queue D) ?i ?t cause w = (Inr it2, w2)" using live_defer [OF assms] by blast
  have "st w1 ?i = Some Done" using retire [of ?i w] assms(1) r by (simp add: moves_def)
  moreover have "st w2 ?i = Some Deferred" using defer_item [of ?i w ?t cause] assms(1) d by (simp add: moves_def)
  ultimately show ?thesis
    by (simp add: settle_miss_def requeueDeferred_def Let_def r d concluded_def)
qed

lemma concluded_write_instrumental:
  assumes w: "ok w" and p: "st w (wi_ID item) = Some Processing"
  shows "concluded st (wi_ID item) wk (write_instrumental D item t det cause wk w)"
proof -
  let ?s = "instrumental_song t"
  obtain r1 w1 where s1: "dp_store D (ArtistName t) (TrackName t) (DurationBucket (TrackLength t)) (encodeSong D ?s) w = (r1, w1)"
    by fastforce
  obtain r2 w2 where s2: "write_all D ?s (outputPaths (wi_Inputs item)) w1 = (r2, w2)" by fastforce
  have q1: "quiet ok st w w1" using store [of w] s1 by (metis snd_conv)
  have q2: "quiet ok st w w2" using quiet_trans [OF q1] quiet_write_all [of w1 ?s] s2 by (metis snd_conv)
  obtain r3 w3 where s3: "qi_SetInstrumentalResult (dp_queue D) (wi_ID item) 1 (telemetry_of det) w2 = (r3, w3)" by fastforce
  obtain r4 w4 where s4: "qi_SetOutcomeType (dp_queue D) (wi_ID item) ''instrumental'' w3 = (r4, w4)" by fastforce
  have q3: "quiet ok st w w3" using quiet_trans [OF q2] set_instrumental [of w2] s3 by (metis snd_conv)
  have q4: "quiet ok st w w4" using quiet_trans [OF q3] set_outcome [of w3] s4 by (metis snd_conv)
  show ?thesis
    using concluded_via [OF w p q4 concluded_complete] concluded_via [OF w p q2 concluded_miss]
    by (cases r2) (simp_all add: write_instrumental_def Let_def s1 s2 s3 s4)
qed

lemma concluded_handle_miss:
  "ok w \<Longrightarrow> st w (wi_ID item) = Some Processing \<Longrightarrow>
   concluded st (wi_ID item) wk (handle_miss D item t s cause wk w)"
  by (cases rule: handle_miss_cases [of w item t s cause wk])
     (auto intro: concluded_via concluded_write_instrumental concluded_miss)

lemma concluded_handle_error:
  assumes "ok w" "st w (wi_ID item) = Some Processing"
  shows "concluded st (wi_ID item) wk (handle_error D item t s e wk w)"
proof -
  obtain w1 where r: "qi_Release (dp_queue D) (wi_ID item) w = (Inr (), w1)" using live_release [OF assms] by blast
  then have "st w1 (wi_ID item) = Some Pending" using release [of "wi_ID item" w] assms(1) by (simp add: moves_def)
  then show ?thesis
    using concluded_handle_miss [OF assms] concluded_fail [OF assms]
    by (cases "ClassifyOutcome (Some e)")
       (simp_all add: handle_error_def releaseAfterThrottle_def Let_def r concluded_def)
qed

lemma concluded_write_and_complete:
  assumes w: "ok w" and p: "st w (wi_ID item) = Some Processing"
  shows "concluded st (wi_ID item) wk (write_and_complete D item s wk w)"
proof -
  obtain r w1 where r: "write_all D s (outputPaths (wi_Inputs item)) w = (r, w1)" by fastforce
  have q1: "quiet ok st w w1" using quiet_write_all [of w s] r by (metis snd_conv)
  have q2: "quiet ok st w (snd (qi_SetOutcomeType (dp_queue D) (wi_ID item) (outcomeTypeFromSong s) w1))"
    using quiet_trans [OF q1 set_outcome] .
  show ?thesis
    using concluded_via [OF w p q1 concluded_complete] concluded_via [OF w p q2 concluded_complete]
      concluded_via [OF w p q1 concluded_fail]
    by (cases r) (simp_all add: write_and_complete_def Let_def r split: prod.split)
qed

lemma concluded_handle_song:
  assumes w: "ok w" and p: "st w (wi_ID item) = Some Processing"
  shows "concluded st (wi_ID item) wk (handle_song D item t s hit wk w)"
proof (cases hit)
  case True
  then show ?thesis using concluded_write_and_complete [OF w p] by (simp add: handle_song_def)
next
  case False
  let ?s = "s\<lparr>FetchedAt := Some (dp_now D w)\<rparr>"
    and ?c = "Confidence (dp_text D) (in_Track (wi_Inputs item)) (Track s)"
  show ?thesis
  proof (cases rule: vet_cases [of w item t ?s ?c wk])
    case (rejected w1 r w2)
    have w1: "ok w1" "st w1 (wi_ID item) = Some Processing" using rejected(1) w p by (simp_all add: quiet_def)
    with live_complete [OF w1] rejected(2) have "r = Inr ()" by auto
    with complete [of "wi_ID item" w1] rejected w1 False show ?thesis
      by (simp add: handle_song_def Let_def concluded_def moves_def)
  next
    case (failed w1 e)
    with False concluded_via [OF w p failed(1) concluded_fail] show ?thesis by (simp add: handle_song_def Let_def)
  next
    case (accepted w1)
    with False concluded_via [OF w p accepted(1) concluded_write_and_complete] show ?thesis
      by (simp add: handle_song_def Let_def)
  qed
qed

lemma w_song_failures: "w_consecutiveFailures (fst (snd (w_song D t b wk w))) = w_consecutiveFailures wk"
  by (simp add: w_song_def Let_def split: prod.splits sum.splits)

lemma concluded_failures:
  "w_consecutiveFailures wk1 = w_consecutiveFailures wk \<Longrightarrow> concluded st i wk1 out \<Longrightarrow> concluded st i wk out"
  by (auto simp: concluded_def split: prod.splits)

lemma concluded_process_item:
  assumes w: "ok w" and p: "st w (wi_ID item) = Some Processing"
  shows "concluded st (wi_ID item) wk (process_item D item wk w)"
proof -
  let ?t = "resolved_track D item" and ?b = "bypassCache wk item"
  obtain s hit err wk1 w1 where f: "w_song D ?t ?b wk w = (((s, hit), err), wk1, w1)"
    by (metis prod.collapse)
  have q: "quiet ok st w w1" using quiet_song [of w ?t ?b wk] f by simp
  have "w_consecutiveFailures wk1 = w_consecutiveFailures wk" using w_song_failures [of ?t ?b wk w] f by simp
  then show ?thesis
    using concluded_via [OF w p q concluded_handle_error] concluded_via [OF w p q concluded_handle_song]
    by (cases err) (auto simp: process_item_def Let_def f intro: concluded_failures)
qed

lemma gate_failures: "w_consecutiveFailures (snd (allLanesUnavailable t wk)) = w_consecutiveFailures wk"
  by (simp add: allLanesUnavailable_def split: prod.split)

lemma RunOnce_concludes:
  assumes w: "ok w" and run: "RunOnce D wk w = (err, wk', w')"
  shows "(err \<noteq> None \<and> st w' = st w) \<or>
    (\<exists>i. st w i \<noteq> Some Processing \<and> (\<forall>j. j \<noteq> i \<longrightarrow> st w' j = st w j) \<and> concluded st i wk (err, wk', w'))"
proof (cases "dp_ctx D w")
  case (Some e)
  with w run show ?thesis by (auto simp: RunOnce_def)
next
  case None
  obtain idle wk1 where g: "allLanesUnavailable (dp_now D w) wk = (idle, wk1)" by fastforce
  obtain r w1 where d: "qi_Dequeue (dp_queue D) w = (r, w1)" by fastforce
  show ?thesis
  proof (cases "idle \<or> (\<exists>e. r = Inl e)")
    case True
    with None g w run d dequeue_err [OF w, of _ w1] show ?thesis
      by (cases idle) (auto simp: RunOnce_def)
  next
    case False
    then obtain item where Inr: "r = Inr item" "\<not> idle" by (cases r) auto
    note dq = dequeue_ok [OF w d [unfolded Inr]]
    from None g d run Inr have out: "process_item D item wk1 w1 = (err, wk', w')" by (simp add: RunOnce_def)
    have p: "st w1 (wi_ID item) = Some Processing" using dq by simp
    have "concluded st (wi_ID item) wk (err, wk', w')"
      using concluded_process_item [of w1 item wk1] dq p out gate_failures [of "dp_now D w" wk]
      by (intro concluded_failures [of wk1 wk]) (simp_all add: g)
    moreover have "\<forall>j. j \<noteq> wi_ID item \<longrightarrow> st w' j = st w j"
      using settled_process_item [of w1 item wk1] dq out by (simp add: settled_def)
    ultimately show ?thesis using dq by blast
  qed
qed

end

end
