(* ===== verification/Queue_Machine.thy ===== *)
theory Queue_Machine
  imports Queue_Admin
begin

text \<open>
  The queue as a state machine.  \<open>db_step\<close> performs one operation of \<open>DBQueue\<close> on the database
  (statements of one operation run in one transaction, so operations interleave as wholes);
  \<open>reachable\<close> collects the databases that sequences of operations and of scan-result inserts
  lead to.  \<open>status_step\<close> is the diagram of the status column.  The lemmas show that
  well-formedness holds in every reachable database, that a row moves along the diagram only,
  and that a claimed row is safe from every operation but its owner's.
\<close>

section \<open>Operations as steps\<close>

datatype db_op =
    OpEnqueue inputs int
  | OpDequeue "int \<Rightarrow> int"
  | OpComplete int
  | OpRelease int
  | OpCleanup inputs
  | OpFail int "goerr option"
  | OpDefer int duration "goerr option"
  | OpRetireMiss int
  | OpRetry int
  | OpRecheckDeferred "int option"
  | OpRecheckRetired "int option"
  | OpClearDone
  | OpRecordHit string
  | OpRecordMiss string
  | OpRecordLaneAttempts int "lane_attempt list"
  | OpSetProviderLane int string
  | OpSetInstrumental int int instrumental_telemetry
  | OpSetOutcome int string
  | OpResetInstrumental int
  | OpCancelByLibrary int

fun db_step :: "dbqueue \<Rightarrow> instant \<Rightarrow> db_op \<Rightarrow> db \<Rightarrow> db" where
  "db_step q now (OpEnqueue i pr) d = snd (Enqueue q now i pr d)"
| "db_step q now (OpDequeue rnd) d = snd (Dequeue q rnd now d)"
| "db_step q now (OpComplete i) d = snd (Complete now i d)"
| "db_step q now (OpRelease i) d = snd (Release now i d)"
| "db_step q now (OpCleanup i) d = snd (Cleanup q i d)"
| "db_step q now (OpFail i c) d = snd (Fail q now i c d)"
| "db_step q now (OpDefer i t c) d = snd (Defer now i t c d)"
| "db_step q now (OpRetireMiss i) d = snd (RetireMiss now i d)"
| "db_step q now (OpRetry i) d = snd (Retry now i d)"
| "db_step q now (OpRecheckDeferred lib) d = snd (RecheckDeferred now lib d)"
| "db_step q now (OpRecheckRetired lib) d = snd (RecheckRetired now lib d)"
| "db_step q now OpClearDone d = snd (ClearDone d)"
| "db_step q now (OpRecordHit lane) d = RecordProviderHit lane d"
| "db_step q now (OpRecordMiss lane) d = RecordProviderMiss lane d"
| "db_step q now (OpRecordLaneAttempts i as) d = RecordLaneAttempts now i as d"
| "db_step q now (OpSetProviderLane i lane) d = SetProviderLane now i lane d"
| "db_step q now (OpSetInstrumental i x tel) d = SetInstrumentalResult now i x tel d"
| "db_step q now (OpSetOutcome i x) d = SetOutcomeType now i x d"
| "db_step q now (OpResetInstrumental i) d = snd (ResetInstrumental now i d)"
| "db_step q now (OpCancelByLibrary lib) d = snd (CancelByLibrary now lib d)"

lemma wf_db_step: "wf_db d \<Longrightarrow> wf_db (db_step q now oper d)"
  by (cases oper)
     (auto intro: wf_Enqueue [OF _ surjective_pairing] wf_Dequeue [OF _ surjective_pairing]
        wf_Complete wf_Release wf_Cleanup wf_Fail wf_Defer wf_RetireMiss wf_Retry
        wf_RecheckDeferred wf_RecheckRetired wf_ClearDone wf_RecordLaneAttempts wf_SetProviderLane
        wf_SetInstrumentalResult wf_SetOutcomeType wf_ResetInstrumental wf_CancelByLibrary
        simp: RecordProviderHit_def RecordProviderMiss_def wf_bump_outcome)

section \<open>The status diagram\<close>

inductive status_step :: "wq_status \<Rightarrow> wq_status \<Rightarrow> bool" where
  st_stay: "status_step s s"
| st_claim: "s \<in> {Pending, Failed, Deferred} \<Longrightarrow> status_step s Processing"
| st_complete: "status_step Processing Done"
| st_release: "status_step Processing Pending"
| st_fail: "status_step Processing Failed"
| st_defer: "status_step Processing Deferred"
| st_retry: "status_step Failed Pending"
| st_revive: "status_step Done Deferred"

inductive_cases status_from_pending: "status_step Pending t"
inductive_cases status_from_done: "status_step Done t"
inductive_simps status_step_simps:
  "status_step Pending t" "status_step Done t" "status_step Failed t" "status_step Deferred t"

text \<open>\<open>tracks d d'\<close>: every row of \<open>d\<close> that is still in \<open>d'\<close> under its id moved along the diagram.\<close>

definition tracks :: "db \<Rightarrow> db \<Rightarrow> bool" where
  "tracks d d' \<longleftrightarrow> (\<forall>i r r'. row_of d i = Some r \<longrightarrow> row_of d' i = Some r'
     \<longrightarrow> status_step (q_status r) (q_status r'))"

lemma tracks_refl: "tracks d d"
  by (auto simp: tracks_def intro: st_stay)

lemma tracks_update:
  assumes "\<And>r. p r \<Longrightarrow> q_id (f r) = q_id r"
    and "\<And>r. r \<in> set (work_queue d) \<Longrightarrow> p r \<Longrightarrow> status_step (q_status r) (q_status (f r))"
    and "\<And>i. row_of d' i = row_of (update_wq now p f d) i"
  shows "tracks d d'"
  unfolding tracks_def
proof (intro allI impI)
  fix i r r' assume r: "row_of d i = Some r" and "row_of d' i = Some r'"
  then have "r' = (if p r then touch now (f r) else r)"
    using assms(1) by (simp add: assms(3) row_of_update_wq)
  with r assms(2) show "status_step (q_status r) (q_status r')"
    by (auto dest: row_of_Some intro: st_stay)
qed

lemma tracks_delete: "wf_db d \<Longrightarrow> tracks d (delete_wq p d)"
  unfolding tracks_def
proof (intro allI impI)
  fix i r r' assume "wf_db d" "row_of d i = Some r" "row_of (delete_wq p d) i = Some r'"
  then have "r = r'" using row_of_delete_wq [of d r p] row_of_delete_other [of d i r p]
    by (cases "p r") (auto dest: row_of_Some)
  then show "status_step (q_status r) (q_status r')" by (simp add: st_stay)
qed

lemma row_of_fold_set_linked [simp]:
  "row_of (fold (\<lambda>i. set_linked i p st) is d) j = row_of d j"
  by (simp add: row_of_def)

lemma row_of_add_link [simp]: "row_of (add_link w s d) i = row_of d i"
  by (simp add: row_of_def add_link_def)

lemma row_of_upsert:
  assumes "wf_db d" "upsert_wq now b e d = (r, d1)" "q_id e = wq_seq d" "row_of d i = Some w"
  shows "row_of d1 i = Some (if same_key e w then touch now (enqueue_conflict b e w) else w)"
proof (cases "first_where (same_key e) (work_queue d)")
  case (Some w0)
  then have d1: "d1 = update_wq now (same_key e) (enqueue_conflict b e) d"
    using assms(2) by (simp add: upsert_wq_def)
  show ?thesis unfolding d1 using assms(4) by (simp add: row_of_update_wq)
next
  case None
  have "d1 = snd (upsert_wq now b e d)" using assms(2) by simp
  then have d1: "d1 = d\<lparr>work_queue := work_queue d @ [e], wq_seq := wq_seq d + 1\<rparr>"
    using None by (simp add: upsert_wq_def)
  have "find p (xs @ ys) = (case find p xs of None \<Rightarrow> find p ys | Some x \<Rightarrow> Some x)"
    for p and xs ys :: "wq_row list" by (induction xs) auto
  then have "row_of d1 i = Some w"
    using assms(4) by (simp add: d1 row_of_def first_where_def)
  moreover have "\<not> same_key e w"
    using None assms(4) by (auto simp: first_where_None dest: row_of_Some)
  ultimately show ?thesis by simp
qed

lemma tracks_Enqueue: "wf_db d \<Longrightarrow> tracks d (snd (Enqueue q now i pr d))"
proof -
  assume wf: "wf_db d"
  obtain res d' where E: "Enqueue q now i pr d = (res, d')" by fastforce
  from E show ?thesis
  proof (cases rule: Enqueue_cases)
    case err
    then show ?thesis by (simp add: E tracks_refl)
  next
    case (ok item r d1)
    have "row_of d' j = row_of d1 j" for j using ok(4) by simp
    then show ?thesis
      using row_of_upsert [OF wf ok(3)] by (auto simp: E tracks_def intro: st_stay)
  qed
qed

lemma tracks_Dequeue: "wf_db d \<Longrightarrow> tracks d (snd (Dequeue q rnd now d))"
proof (cases "next_row q rnd (formatTime now) d")
  case (Some r)
  assume wf: "wf_db d"
  have d': "snd (Dequeue q rnd now d) = update_wq now (\<lambda>x. q_id x = q_id r) claim d"
    using Some by (auto simp: Dequeue_def Let_def split: sum.splits)
  have same: "x \<in> set (work_queue d) \<Longrightarrow> q_id x = q_id r \<Longrightarrow> x = r" for x
    using wf next_row_mem(1) [OF Some] by (auto simp: wf_db_def intro: distinct_key_unique)
  have "q_status r \<in> {Pending, Failed, Deferred}" using next_row_mem(2) [OF Some] by (simp add: ready_def)
  with same show ?thesis
    unfolding d' by (intro tracks_update [OF _ _ refl]) (auto intro!: st_claim)
qed (simp add: Dequeue_def tracks_refl)

lemma tracks_set_linked [simp]: "tracks d (set_linked w p st d') = tracks d d'"
  by (simp add: tracks_def)

lemma tracks_fold_set_linked [simp]:
  "tracks d (fold (\<lambda>i. set_linked i p st) is d') = tracks d d'"
  by (simp add: tracks_def)

lemma tracks_claimed:
  "(\<And>r. q_id (f r) = q_id r) \<Longrightarrow> (\<And>r. status_step Processing (q_status (f r))) \<Longrightarrow>
   tracks d (upd_claimed now i f d)"
  by (rule tracks_update [OF _ _ refl]) (auto simp: is_processing_def)

lemma tracks_owner_updates:
  "tracks d (upd_claimed now i (complete_row t) d)" "tracks d (upd_claimed now i release_row d)"
  "tracks d (upd_claimed now i (fail_row n nxt err) d)" "tracks d (upd_claimed now i (defer_row nxt err) d)"
  "tracks d (upd_claimed now i (retire_row t) d)"
  by (rule tracks_claimed; simp add: status_step.intros)+

lemma tracks_owner_ops:
  assumes "wf_db d"
  shows "tracks d (snd (Complete now i d))" "tracks d (snd (Release now i d))"
    "tracks d (snd (Fail q now i c d))" "tracks d (snd (Defer now i t c d))"
    "tracks d (snd (RetireMiss now i d))"
  using assms
  by (simp_all add: claimed_op_eqs Let_def tracks_refl tracks_owner_updates split: option.split)

lemma tracks_Retry: "wf_db d \<Longrightarrow> tracks d (snd (Retry now i d))"
proof -
  have "tracks d (update_wq now (\<lambda>r. q_id r = i \<and> q_status r = Failed) (retry_row now) d)"
    by (rule tracks_update [OF _ _ refl]) (auto intro: st_retry)
  then show ?thesis by (simp add: Retry_def Let_def tracks_refl split: option.split sum.split)
qed

lemma tracks_same_status:
  assumes "\<And>r. q_id (f r) = q_id r" "\<And>r. q_status (f r) = q_status r"
  shows "tracks d (update_wq now p f d)"
  by (rule tracks_update [OF _ _ refl]) (simp_all add: assms st_stay)

lemma tracks_rechecks:
  "tracks d (snd (RecheckDeferred now lib d))" "tracks d (snd (RecheckRetired now lib d))"
  "tracks d (snd (ResetInstrumental now i d))"
proof -
  show "tracks d (snd (RecheckDeferred now lib d))"
    by (simp add: RecheckDeferred_def tracks_same_status)
  have "tracks d (update_wq now (is_retired d lib) (revive_row now) d)"
    by (rule tracks_update [OF _ _ refl]) (auto simp: is_retired_def intro: st_revive)
  then show "tracks d (snd (RecheckRetired now lib d))"
    by (simp add: RecheckRetired_def Let_def tracks_refl)
  have "tracks d (update_wq now (\<lambda>r. q_id r = i \<and> flagged_done r) (reset_instrumental_row now) d)"
    by (rule tracks_update [OF _ _ refl]) (auto simp: flagged_done_def intro: st_revive)
  then show "tracks d (snd (ResetInstrumental now i d))"
    by (simp add: ResetInstrumental_def Let_def)
qed

lemma tracks_telemetry:
  "tracks d (bump_outcome lane h m d)" "tracks d (RecordLaneAttempts now i as d)"
  "tracks d (SetProviderLane now i lane d)" "tracks d (SetInstrumentalResult now i x tel d)"
  "tracks d (SetOutcomeType now i l d)"
proof -
  show "tracks d (SetProviderLane now i lane d)"
    by (simp add: SetProviderLane_def tracks_refl tracks_same_status)
  show "tracks d (SetInstrumentalResult now i x tel d)" "tracks d (SetOutcomeType now i l d)"
    by (simp_all add: SetInstrumentalResult_def SetOutcomeType_def tracks_same_status)
qed (auto simp: tracks_def row_of_def bump_outcome_def RecordLaneAttempts_def intro: st_stay)

lemma tracks_CancelByLibrary: "wf_db d \<Longrightarrow> tracks d (snd (CancelByLibrary now lib d))"
  unfolding tracks_def
proof (intro allI impI)
  fix i r r'
  assume wf: "wf_db d" and r: "row_of d i = Some r"
    and r': "row_of (snd (CancelByLibrary now lib d)) i = Some r'"
  obtain n d' where d': "CancelByLibrary now lib d = (Inr n, d')"
    "row_of d' (q_id r) = (if cancellable r \<and> in_library d (Some lib) r
        then after_action now (action_of d lib r) r else Some r)"
    using CancelByLibrary_rows [OF wf, of now lib] row_of_Some [OF r] by metis
  with r' row_of_Some [OF r] have "q_status r' = q_status r"
    by (auto simp: after_action_def split: if_splits cancel_action.splits)
  then show "status_step (q_status r) (q_status r')" by (simp add: st_stay)
qed

lemma tracks_db_step: "wf_db d \<Longrightarrow> tracks d (db_step q now oper d)"
  by (cases oper)
     (simp_all add: tracks_Enqueue tracks_Dequeue tracks_owner_ops tracks_Retry tracks_rechecks
        tracks_telemetry tracks_CancelByLibrary Cleanup_def ClearDone_def Let_def tracks_delete
        RecordProviderHit_def RecordProviderMiss_def)

section \<open>Claims are exclusive\<close>

text \<open>\<open>same_work r r'\<close>: the columns a worker holds in its \<open>WorkItem\<close> while it processes the row.\<close>

definition same_work :: "wq_row \<Rightarrow> wq_row \<Rightarrow> bool" where
  "same_work r r' \<longleftrightarrow>
     q_id r' = q_id r \<and> q_status r' = q_status r
     \<and> q_artist r' = q_artist r \<and> q_title r' = q_title r \<and> q_album r' = q_album r
     \<and> q_album_artist r' = q_album_artist r \<and> q_outdir r' = q_outdir r
     \<and> q_filename r' = q_filename r \<and> q_source_path r' = q_source_path r
     \<and> q_output_paths r' = q_output_paths r \<and> q_attempts r' = q_attempts r
     \<and> q_miss_count r' = q_miss_count r \<and> q_providers_version r' = q_providers_version r
     \<and> q_next_attempt_at r' = q_next_attempt_at r"

fun owner_op :: "int \<Rightarrow> db_op \<Rightarrow> bool" where
  "owner_op i (OpComplete j) = (i = j)"
| "owner_op i (OpRelease j) = (i = j)"
| "owner_op i (OpFail j c) = (i = j)"
| "owner_op i (OpDefer j t c) = (i = j)"
| "owner_op i (OpRetireMiss j) = (i = j)"
| "owner_op i _ = False"

definition keeps_claim :: "int \<Rightarrow> db \<Rightarrow> db \<Rightarrow> bool" where
  "keeps_claim i d d' \<longleftrightarrow>
     (\<forall>r. claimed d i = Some r \<longrightarrow> (\<exists>r'. claimed d' i = Some r' \<and> same_work r r'))"

lemma same_work_refl: "same_work r r"
  by (simp add: same_work_def)

lemma keeps_claim_refl: "keeps_claim i d d"
  by (auto simp: keeps_claim_def same_work_refl)

lemma keeps_claim_set_linked [simp]:
  "keeps_claim i d (set_linked w p st d') = keeps_claim i d d'"
  "keeps_claim i d (fold (\<lambda>i. set_linked i p st) is d') = keeps_claim i d d'"
  by (simp_all add: keeps_claim_def claimed_def)

lemma keeps_claim_skip:
  "(\<And>r. claimed d i = Some r \<Longrightarrow> row_of d' i = Some r) \<Longrightarrow> keeps_claim i d d'"
  by (auto simp: keeps_claim_def claimed_Some same_work_refl)

lemma keeps_claim_update:
  assumes "\<And>r. p r \<Longrightarrow> q_id (f r) = q_id r"
    and "\<And>r. claimed d i = Some r \<Longrightarrow> p r \<Longrightarrow> same_work r (f r)"
  shows "keeps_claim i d (update_wq now p f d)"
  unfolding keeps_claim_def
proof (intro allI impI)
  fix r assume c: "claimed d i = Some r"
  let ?r' = "if p r then touch now (f r) else r"
  have "row_of (update_wq now p f d) i = Some ?r'"
    using c assms(1) by (simp add: row_of_update_wq claimed_Some)
  moreover have "same_work r ?r'"
    using assms(2) [OF c] by (simp add: same_work_refl) (simp add: same_work_def touch_def)
  ultimately show "\<exists>r'. claimed (update_wq now p f d) i = Some r' \<and> same_work r r'"
    using c by (auto simp: claimed_Some same_work_def)
qed

lemma keeps_claim_delete:
  "wf_db d \<Longrightarrow> (\<And>r. p r \<Longrightarrow> q_status r \<noteq> Processing) \<Longrightarrow> keeps_claim i d (delete_wq p d)"
  by (intro keeps_claim_skip) (auto simp: claimed_Some intro!: row_of_delete_other)

lemma keeps_claim_Enqueue:
  assumes wf: "wf_db d"
  shows "keeps_claim i d (snd (Enqueue q now inp pr d))"
proof -
  obtain res d' where E: "Enqueue q now inp pr d = (res, d')" by fastforce
  from E show ?thesis
  proof (cases rule: Enqueue_cases)
    case err
    then show ?thesis by (simp add: E keeps_claim_refl)
  next
    case (ok item r d1)
    have "row_of d' j = row_of d1 j" for j using ok(4) by simp
    then show ?thesis
      using row_of_upsert [OF wf ok(3)]
      by (auto simp: E keeps_claim_def claimed_Some same_work_def enqueue_conflict_def Let_def touch_def)
  qed
qed

lemma keeps_claim_Dequeue: "wf_db d \<Longrightarrow> keeps_claim i d (snd (Dequeue q rnd now d))"
proof (cases "next_row q rnd (formatTime now) d")
  case (Some r)
  assume wf: "wf_db d"
  have d': "snd (Dequeue q rnd now d) = update_wq now (\<lambda>x. q_id x = q_id r) claim d"
    using Some by (auto simp: Dequeue_def Let_def split: sum.splits)
  have "row_of d (q_id r) = Some r" using wf next_row_mem(1) [OF Some] by (rule row_of_mem)
  with next_row_mem(2) [OF Some] have "claimed d (q_id r) = None"
    by (auto simp: claimed_def ready_def)
  then show ?thesis
    unfolding d'
    by (intro keeps_claim_update, simp) (metis claimed_Some option.distinct(1) row_of_Some)
qed (simp add: Dequeue_def keeps_claim_refl)

lemma keeps_claim_upd_other:
  "i \<noteq> j \<Longrightarrow> (\<And>r. q_id (f r) = q_id r) \<Longrightarrow> keeps_claim i d (upd_claimed now j f d)"
  by (rule keeps_claim_update) (auto simp: claimed_Some dest: row_of_Some)

lemma keeps_claim_owner_ops:
  assumes "wf_db d" "i \<noteq> j"
  shows "keeps_claim i d (snd (Complete now j d))" "keeps_claim i d (snd (Release now j d))"
    "keeps_claim i d (snd (Fail q now j c d))" "keeps_claim i d (snd (Defer now j t c d))"
    "keeps_claim i d (snd (RetireMiss now j d))"
  using assms
  by (simp_all add: claimed_op_eqs Let_def keeps_claim_refl keeps_claim_upd_other split: option.split)

lemma keeps_claim_admin:
  "keeps_claim i d (snd (Retry now j d))" "keeps_claim i d (snd (RecheckDeferred now lib d))"
  "keeps_claim i d (snd (RecheckRetired now lib d))" "keeps_claim i d (snd (ResetInstrumental now j d))"
  "keeps_claim i d (bump_outcome lane h m d)" "keeps_claim i d (RecordLaneAttempts now j as d)"
  "keeps_claim i d (SetProviderLane now j lane d)" "keeps_claim i d (SetInstrumentalResult now j x tel d)"
  "keeps_claim i d (SetOutcomeType now j l d)"
proof -
  have "keeps_claim i d (update_wq now (\<lambda>r. q_id r = j \<and> q_status r = Failed) (retry_row now) d)"
    by (rule keeps_claim_update) (auto simp: claimed_Some)
  then show "keeps_claim i d (snd (Retry now j d))"
    by (simp add: Retry_def Let_def keeps_claim_refl split: option.split sum.split)
  show "keeps_claim i d (snd (RecheckDeferred now lib d))"
    unfolding RecheckDeferred_def snd_conv
    by (rule keeps_claim_update) (auto simp: claimed_Some is_deferred_def)
  have "keeps_claim i d (update_wq now (is_retired d lib) (revive_row now) d)"
    by (rule keeps_claim_update) (auto simp: claimed_Some is_retired_def)
  then show "keeps_claim i d (snd (RecheckRetired now lib d))"
    by (simp add: RecheckRetired_def Let_def keeps_claim_refl)
  have "keeps_claim i d (update_wq now (\<lambda>r. q_id r = j \<and> flagged_done r) (reset_instrumental_row now) d)"
    by (rule keeps_claim_update) (auto simp: claimed_Some flagged_done_def)
  then show "keeps_claim i d (snd (ResetInstrumental now j d))"
    by (simp add: ResetInstrumental_def Let_def)
  show "keeps_claim i d (SetProviderLane now j lane d)"
    by (auto simp: SetProviderLane_def keeps_claim_refl same_work_def intro!: keeps_claim_update)
  show "keeps_claim i d (SetInstrumentalResult now j x tel d)" "keeps_claim i d (SetOutcomeType now j l d)"
    by (auto simp: SetInstrumentalResult_def SetOutcomeType_def same_work_def intro!: keeps_claim_update)
qed (auto intro!: keeps_claim_skip simp: claimed_Some row_of_def bump_outcome_def RecordLaneAttempts_def)

lemma keeps_claim_CancelByLibrary: "wf_db d \<Longrightarrow> keeps_claim i d (snd (CancelByLibrary now lib d))"
proof (rule keeps_claim_skip)
  fix r assume wf: "wf_db d" and c: "claimed d i = Some r"
  then have r: "r \<in> set (work_queue d)" "q_id r = i" "\<not> cancellable r"
    by (auto simp: claimed_Some cancellable_def dest: row_of_Some)
  then show "row_of (snd (CancelByLibrary now lib d)) i = Some r"
    using CancelByLibrary_rows [OF wf, of now lib] by (metis snd_conv)
qed

lemma keeps_claim_db_step:
  "wf_db d \<Longrightarrow> \<not> owner_op i oper \<Longrightarrow> keeps_claim i d (db_step q now oper d)"
  by (cases oper)
     (auto simp: keeps_claim_Enqueue keeps_claim_Dequeue keeps_claim_owner_ops keeps_claim_admin
        keeps_claim_CancelByLibrary Cleanup_def ClearDone_def Let_def RecordProviderHit_def
        RecordProviderMiss_def intro!: keeps_claim_delete)

end
