(* ===== verification/Queue_Props.thy ===== *)
theory Queue_Props
  imports Queue_Machine
begin

text \<open>
  The properties of the durable queue: one row per track, the order and exclusivity of claims,
  the transitions of a claimed row with their write-back, the retry and miss cadences, rechecks,
  and cancellation by library.  They are short steps over the row-level equations of
  \<open>Queue_Life\<close>, \<open>Queue_Admin\<close> and \<open>Queue_Machine\<close>.
\<close>

definition db_run :: "dbqueue \<Rightarrow> (instant \<times> db_op) list \<Rightarrow> db \<Rightarrow> db" where
  "db_run q ops d = fold (\<lambda>(now, oper) d. db_step q now oper d) ops d"

lemma db_run_simps [simp]:
  "db_run q [] d = d" "db_run q ((now, oper) # ops) d = db_run q ops (db_step q now oper d)"
  "db_run q (ops @ [(now, oper)]) d = db_step q now oper (db_run q ops d)"
  by (simp_all add: db_run_def)

lemma wf_db_run: "wf_db d \<Longrightarrow> wf_db (db_run q ops d)"
  by (induction ops arbitrary: d) (auto simp: wf_db_step)

section \<open>A sample database\<close>

text \<open>One row of each status, two scan results linked to the claimed row.\<close>

definition sample_row :: "int \<Rightarrow> string \<Rightarrow> wq_status \<Rightarrow> wq_row" where
  "sample_row i key st =
     \<lparr>q_id = i, q_artist = key, q_title = ''t'', q_album = [], q_album_artist = [],
      q_artist_key = key, q_title_key = ''t'', q_outdir = ''/m'', q_filename = key @ ''.lrc'',
      q_source_path = [], q_output_paths = PathsJson [\<lparr>op_Outdir = ''/m'', op_Filename = key @ ''.lrc''\<rparr>],
      q_scan_result_id = None, q_status = st,
      q_priority = (if st = Deferred then -100 else 0), q_attempts = (if st = Failed then 1 else 0),
      q_miss_count = 0, q_providers_version = 0, q_detect_instrumental = None,
      q_next_attempt_at = 0, q_last_error = [], q_created_at = 0, q_updated_at = 0,
      q_completed_at = (if st = Done then Some 0 else None), q_instrumental_result = None,
      q_provider_lane = None, q_outcome_type = None, q_music_sum = None, q_vocal_peak = None,
      q_speech_mean = None, q_vocal_class = None, q_detector_version = None\<rparr>"

definition sample_scan :: "int \<Rightarrow> int \<Rightarrow> sr_status \<Rightarrow> sr_row" where
  "sample_scan i lib st =
     \<lparr>s_id = i, s_library_id = lib, s_file_path = [], s_artist = [], s_title = [], s_album = [],
      s_album_artist = [], s_artist_key = [], s_title_key = [], s_outdir = ''/m'',
      s_filename = ''p.lrc'', s_status = st, s_created_at = 0\<rparr>"

definition sample_db :: db where
  "sample_db =
     \<lparr>work_queue = [sample_row 1 ''p'' Pending, sample_row 2 ''c'' Processing, sample_row 3 ''d'' Done,
        sample_row 4 ''f'' Failed, sample_row 5 ''m'' Deferred],
      scan_results = [sample_scan 1 7 SrProcessing, sample_scan 2 8 SrProcessing],
      links = [(2, 1), (2, 2), (1, 1)], provider_outcomes = [], lane_attempts = [],
      wq_seq = 6, sr_seq = 3\<rparr>"

definition sample_queue :: dbqueue where
  "sample_queue = NewDBQueue \<lparr>tl_transform = Some, tl_lower = id\<rparr>"

lemma sample_row_simps [simp]:
  "q_id (sample_row i k st) = i" "q_status (sample_row i k st) = st"
  "q_artist_key (sample_row i k st) = k" "q_title_key (sample_row i k st) = ''t''"
  "q_miss_count (sample_row i k st) = 0" "q_next_attempt_at (sample_row i k st) = 0"
  "q_priority (sample_row i k st) = (if st = Deferred then -100 else 0)"
  "q_attempts (sample_row i k st) = (if st = Failed then 1 else 0)"
  "wf_row (sample_row i k st)"
  by (simp_all add: sample_row_def wf_row_def priority_defs)

lemma sample_scan_simps [simp]:
  "s_id (sample_scan i l st) = i" "s_library_id (sample_scan i l st) = l"
  "s_status (sample_scan i l st) = st"
  by (simp_all add: sample_scan_def)

lemma wf_sample_db: "wf_db sample_db"
  by (simp add: sample_db_def wf_db_def)

lemma sample_claimed: "claimed sample_db 2 = Some (sample_row 2 ''c'' Processing)"
  by (simp add: claimed_def row_of_def first_where_def sample_db_def)

section \<open>Invariants of runs\<close>

text \<open>
  C1. Every operation of the queue keeps the database well-formed (unique ids and track keys,
  valid links, done rows and only those completed, deferred rows at the miss priority or a
  webhook's), and moves each row it does not delete along the status diagram: only a ready row
  is claimed, only a claimed row completes, fails or is deferred, only a failed row is retried,
  and a done row changes status only by being revived as deferred.
\<close>

theorem queue_runs_keep_invariants:
  assumes "wf_db d"
  shows "wf_db (db_run q ops d)
    \<and> (\<forall>now oper i r r'. row_of (db_run q ops d) i = Some r
         \<and> row_of (db_run q (ops @ [(now, oper)]) d) i = Some r'
         \<longrightarrow> status_step (q_status r) (q_status r'))"
  using tracks_db_step [OF wf_db_run [OF assms, of q ops]] wf_db_run [OF assms]
  by (auto simp: tracks_def)

theorem queue_runs_keep_invariants_witness:
  "wf_db (db_run sample_queue [(5 * second, OpComplete 2), (6 * second, OpClearDone)] sample_db)"
  using queue_runs_keep_invariants [OF wf_sample_db] by blast

text \<open>
  C2. A claim is exclusive: once a row is processing, no sequence of other operations (enqueues
  of the same track, dequeues, retries, rechecks, cancellations, clean-ups, telemetry) takes it
  away, deletes it or changes the columns its worker holds, and no dequeue hands it out again,
  until its owner completes, releases, fails, defers or retires it.
\<close>

theorem claim_exclusive:
  assumes "wf_db d" "claimed d i = Some r" "\<forall>(now, oper) \<in> set ops. \<not> owner_op i oper"
  shows "(\<exists>r'. claimed (db_run q ops d) i = Some r' \<and> same_work r r')
    \<and> (\<forall>rnd now it d'. Dequeue q rnd now (db_run q ops d) = (Inr it, d') \<longrightarrow> wi_ID it \<noteq> i)"
proof -
  have kept: "\<exists>r'. claimed (db_run q ops d) i = Some r' \<and> same_work r r'"
    using assms
  proof (induction ops arbitrary: d r)
    case Nil
    then show ?case by (simp add: same_work_refl)
  next
    case (Cons x ops)
    obtain now oper where x: "x = (now, oper)" by fastforce
    with Cons.prems obtain s where s: "claimed (db_step q now oper d) i = Some s" "same_work r s"
      using keeps_claim_db_step [of d i oper q now] by (auto simp: keeps_claim_def)
    with Cons.IH [OF wf_db_step [OF Cons.prems(1)] s(1)] Cons.prems(3) x show ?case
      by (fastforce simp: same_work_def)
  qed
  moreover have "wi_ID it \<noteq> i" if "Dequeue q rnd now (db_run q ops d) = (Inr it, d')" for rnd now it d'
  proof -
    let ?d = "db_run q ops d"
    from that obtain x where x: "next_row q rnd (formatTime now) ?d = Some x" "scanWorkItem (claim x) = Inr it"
      by (auto simp: Dequeue_def Let_def split: option.splits sum.splits)
    then have id: "wi_ID it = q_id x" by (auto dest: scanWorkItem_Inr)
    have "row_of ?d (q_id x) = Some x"
      using row_of_mem [OF wf_db_run [OF assms(1)] next_row_mem(1) [OF x(1)]] .
    with next_row_mem(2) [OF x(1)] kept id show ?thesis
      by (auto simp: claimed_Some ready_def same_work_def)
  qed
  ultimately show ?thesis by blast
qed

theorem claim_exclusive_witness:
  "\<exists>r'. claimed (db_run sample_queue [(second, OpDequeue id), (second, OpCancelByLibrary 7)] sample_db) 2 = Some r'
     \<and> same_work (sample_row 2 ''c'' Processing) r'"
  using claim_exclusive [OF wf_sample_db sample_claimed,
      of "[(second, OpDequeue id), (second, OpCancelByLibrary 7)]" sample_queue] by simp

section \<open>Dequeue order\<close>

lemma hd_sort_key_min: "sort_key f xs = r # rs \<Longrightarrow> x \<in> set xs \<Longrightarrow> f r \<le> f x"
proof -
  assume e: "sort_key f xs = r # rs" and x: "x \<in> set xs"
  have "sorted (map f (r # rs))" using sorted_sort_key [of f xs] by (simp add: e)
  moreover have "x \<in> set (r # rs)" using x set_sort [of f xs] by (simp add: e)
  ultimately show "f r \<le> f x" by auto
qed

lemma sort_key_empty [simp]: "sort_key f xs = [] \<longleftrightarrow> xs = []"
  by (metis length_sort length_0_conv)

lemma next_row_None: "next_row q rnd t d = None \<longleftrightarrow> (\<forall>r \<in> set (work_queue d). \<not> ready t r)"
proof -
  have "(case l of [] \<Rightarrow> None | r # _ \<Rightarrow> Some r) = None \<longleftrightarrow> l = []" for l :: "wq_row list"
    by (cases l) auto
  then show ?thesis by (simp add: next_row_def Let_def filter_empty_conv)
qed

lemma next_row_best:
  assumes "next_row q rnd t d = Some r" "x \<in> set (work_queue d)" "ready t x"
  shows "q_priority x \<le> q_priority r"
    and "\<not> randomized q \<Longrightarrow> q_priority x = q_priority r \<Longrightarrow> (q_created_at r, q_id r) \<le> (q_created_at x, q_id x)"
proof -
  let ?c = "filter (ready t) (work_queue d)"
  have x: "x \<in> set ?c" using assms by simp
  show "q_priority x \<le> q_priority r"
  proof (cases "randomized q")
    case True
    with assms(1) obtain rs where "sort_key (random_order rnd) ?c = r # rs"
      by (auto simp: next_row_def Let_def split: list.splits)
    from hd_sort_key_min [OF this x] show ?thesis by (auto simp: random_order_def)
  next
    case False
    with assms(1) obtain rs where "sort_key fifo_order ?c = r # rs"
      by (auto simp: next_row_def Let_def split: list.splits)
    from hd_sort_key_min [OF this x] show ?thesis by (auto simp: fifo_order_def)
  qed
  assume "\<not> randomized q" "q_priority x = q_priority r"
  with assms(1) obtain rs where "sort_key fifo_order ?c = r # rs"
    by (auto simp: next_row_def Let_def split: list.splits)
  from hd_sort_key_min [OF this x] \<open>q_priority x = q_priority r\<close>
  show "(q_created_at r, q_id r) \<le> (q_created_at x, q_id x)" by (auto simp: fifo_order_def)
qed

text \<open>The claim, for a well-formed database.\<close>

lemma Dequeue_eq:
  assumes "wf_db d"
  shows "Dequeue q rnd now d =
    (case next_row q rnd (formatTime now) d of None \<Rightarrow> (Inl sql_no_rows, d)
     | Some r \<Rightarrow> (Inr (item_of (claim r)), update_wq now (\<lambda>x. q_id x = q_id r) claim d))"
proof (cases "next_row q rnd (formatTime now) d")
  case (Some r)
  have "wf_row r" using wf_dbD(3) [OF assms next_row_mem(1) [OF Some]] .
  then have "paths_ok (claim r)" using wf_row_paths paths_ok_updates(5) by blast
  with Some show ?thesis by (simp add: Dequeue_def Let_def scanWorkItem_item del: paths_ok_code)
qed (simp add: Dequeue_def)

lemma row_of_claim:
  "wf_db d \<Longrightarrow> r \<in> set (work_queue d) \<Longrightarrow>
   row_of (update_wq now (\<lambda>x. q_id x = q_id r) claim d) i
     = (if i = q_id r then Some (touch now (claim r)) else row_of d i)"
  using row_of_update_id [of claim now "q_id r" "\<lambda>_. True" d i] by (simp add: row_of_mem)

text \<open>
  C8. \<open>Dequeue\<close> claims the right row: it answers \<open>sql.ErrNoRows\<close>, changing nothing, exactly
  when no pending, failed or deferred row has reached its \<open>next_attempt_at\<close>; otherwise it hands
  out a ready row of the highest priority among the ready ones (the oldest of them when
  dequeuing is not randomised), marks that row processing, and leaves every other row as it is.
\<close>

theorem dequeue_selects:
  assumes "wf_db d"
  shows "case Dequeue q rnd now d of
      (Inl e, d') \<Rightarrow> e = sql_no_rows \<and> d' = d \<and> (\<forall>x \<in> set (work_queue d). \<not> ready (formatTime now) x)
    | (Inr it, d') \<Rightarrow> (\<exists>r \<in> set (work_queue d). ready (formatTime now) r \<and> it = item_of (claim r)
        \<and> (\<forall>x \<in> set (work_queue d). ready (formatTime now) x \<longrightarrow> q_priority x \<le> q_priority r
             \<and> (\<not> randomized q \<and> q_priority x = q_priority r
                  \<longrightarrow> (q_created_at r, q_id r) \<le> (q_created_at x, q_id x)))
        \<and> (\<forall>i. row_of d' i = (if i = q_id r then Some (touch now (claim r)) else row_of d i)))"
proof (cases "next_row q rnd (formatTime now) d")
  case None
  then show ?thesis using next_row_None [of q rnd "formatTime now" d]
    by (simp add: Dequeue_eq [OF assms])
next
  case (Some r)
  note mem = next_row_mem [OF Some] and best = next_row_best [OF Some]
  show ?thesis
    using mem best by (auto simp: Dequeue_eq [OF assms] Some row_of_claim [OF assms mem(1)])
qed

theorem dequeue_selects_witness:
  "case Dequeue sample_queue id second sample_db of
      (Inl e, d') \<Rightarrow> e = sql_no_rows \<and> d' = sample_db \<and> (\<forall>x \<in> set (work_queue sample_db). \<not> ready 1 x)
    | (Inr it, d') \<Rightarrow> (\<exists>r \<in> set (work_queue sample_db). ready 1 r \<and> it = item_of (claim r))"
  using dequeue_selects [OF wf_sample_db, where q = sample_queue and rnd = id and now = second]
  by (auto simp: formatTime_def split: prod.splits sum.splits)

text \<open>Dequeuing over and over at one instant; the ids handed out, in order.\<close>

fun drain :: "dbqueue \<Rightarrow> (int \<Rightarrow> int) \<Rightarrow> instant \<Rightarrow> nat \<Rightarrow> db \<Rightarrow> int list \<times> db" where
  "drain q rnd now 0 d = ([], d)"
| "drain q rnd now (Suc n) d =
     (case Dequeue q rnd now d of
        (Inl _, d') \<Rightarrow> ([], d')
      | (Inr it, d') \<Rightarrow> (let (is, d'') = drain q rnd now n d' in (wi_ID it # is, d'')))"

definition ready_ids :: "instant \<Rightarrow> db \<Rightarrow> int set" where
  "ready_ids now d = q_id ` {r \<in> set (work_queue d). ready (formatTime now) r}"

lemma ready_ids_code: "ready_ids now d = set (map q_id (filter (ready (formatTime now)) (work_queue d)))"
  by (auto simp: ready_ids_def)

lemma not_ready_claim: "\<not> ready t (touch now (claim x))"
  by (simp add: ready_def)

lemma ready_ids_claim:
  assumes "wf_db d" "next_row q rnd (formatTime now) d = Some r"
  shows "ready_ids now (update_wq now (\<lambda>x. q_id x = q_id r) claim d) = ready_ids now d - {q_id r}"
  using not_ready_claim [of "formatTime now" now]
  by (auto simp: ready_ids_def set_update_where image_iff)

text \<open>
  C9. Every ready row is handed out exactly once: dequeuing as many times as there are ready rows
  returns their ids without repetition and without omission, whatever random order is in force,
  and the next dequeue then finds nothing.
\<close>

theorem dequeue_drains:
  assumes "wf_db d" "card (ready_ids now d) = n"
  shows "distinct (fst (drain q rnd now n d)) \<and> set (fst (drain q rnd now n d)) = ready_ids now d
    \<and> fst (Dequeue q rnd now (snd (drain q rnd now n d))) = Inl sql_no_rows"
  using assms
proof (induction n arbitrary: d)
  case 0
  then have "ready_ids now d = {}" by (simp add: ready_ids_def)
  moreover from this have "next_row q rnd (formatTime now) d = None"
    by (auto simp: ready_ids_def next_row_None)
  ultimately show ?case using 0 by (simp add: Dequeue_def)
next
  case (Suc n)
  then have "ready_ids now d \<noteq> {}" by (metis card.empty nat.distinct(1))
  then have "next_row q rnd (formatTime now) d \<noteq> None"
    by (auto simp: ready_ids_def next_row_None)
  then obtain r where r: "next_row q rnd (formatTime now) d = Some r" by blast
  let ?d = "update_wq now (\<lambda>x. q_id x = q_id r) claim d"
  note mem = next_row_mem [OF r]
  have it: "Dequeue q rnd now d = (Inr (item_of (claim r)), ?d)"
    by (simp add: Dequeue_eq [OF Suc.prems(1)] r)
  have "paths_ok (claim r)"
    using wf_row_paths [OF wf_dbD(3) [OF Suc.prems(1) mem(1)]] paths_ok_updates(5) by blast
  then have id: "wi_ID (item_of (claim r)) = q_id r" by (simp add: item_of_simps(1) del: paths_ok_code)
  have "wf_db ?d" using wf_Dequeue [OF Suc.prems(1) it] .
  moreover have ids: "ready_ids now ?d = ready_ids now d - {q_id r}"
    using ready_ids_claim [OF Suc.prems(1) r] .
  moreover have r_in: "q_id r \<in> ready_ids now d" using mem by (auto simp: ready_ids_def)
  ultimately have rest: "distinct (fst (drain q rnd now n ?d)) \<and> set (fst (drain q rnd now n ?d)) = ready_ids now ?d
      \<and> fst (Dequeue q rnd now (snd (drain q rnd now n ?d))) = Inl sql_no_rows"
    using Suc.IH Suc.prems(2) by (simp add: ready_ids_def)
  have "drain q rnd now (Suc n) d = (q_id r # fst (drain q rnd now n ?d), snd (drain q rnd now n ?d))"
    by (simp add: it id Let_def case_prod_beta)
  with rest r_in show ?case unfolding ids by (simp add: insert_absorb)
qed

theorem dequeue_drains_witness:
  "set (fst (drain sample_queue id second 3 sample_db)) = {1, 4, 5}"
proof -
  have "ready_ids second sample_db = {1, 4, 5}"
    by (auto simp: ready_ids_code ready_def sample_db_def formatTime_def)
  with dequeue_drains [OF wf_sample_db, where q = sample_queue and rnd = id and now = second and n = 3] show ?thesis by simp
qed

section \<open>Enqueue\<close>

definition track_key :: "dbqueue \<Rightarrow> inputs \<Rightarrow> string \<times> string" where
  "track_key q i = (NormalizeKey (dq_text q) (ArtistName (in_Track i)),
                    NormalizeKey (dq_text q) (TrackName (in_Track i)))"

abbreviation row_key :: "wq_row \<Rightarrow> string \<times> string" where
  "row_key r \<equiv> (q_artist_key r, q_title_key r)"

definition key_row :: "dbqueue \<Rightarrow> inputs \<Rightarrow> db \<Rightarrow> wq_row option" where
  "key_row q i d = first_where (\<lambda>w. row_key w = track_key q i) (work_queue d)"

lemma key_row_same_key:
  "first_where (same_key (enqueue_row q now i pr n)) (work_queue d) = key_row q i d"
  unfolding key_row_def by (rule arg_cong [where f = "\<lambda>p. first_where p _"])
    (auto simp: same_key_def track_key_def fun_eq_iff)

text \<open>The row and the database an accepted enqueue leaves.\<close>

definition enqueued :: "dbqueue \<Rightarrow> instant \<Rightarrow> inputs \<Rightarrow> int \<Rightarrow> db \<Rightarrow> wq_row" where
  "enqueued q now i pr d =
     (let e = enqueue_row q now i pr (wq_seq d)
      in case key_row q i d of
           Some w \<Rightarrow> touch now (enqueue_conflict (pr \<ge> PriorityWebhook) e w) | None \<Rightarrow> e)"

lemma paths_ok_item_touch: "scanWorkItem r = Inr it \<Longrightarrow> wi_ID it = q_id r"
  by (auto dest: scanWorkItem_Inr)

lemma Enqueue_ok:
  assumes wf: "wf_db d" and sid: "in_ScanResultID i > 0 \<longrightarrow> in_ScanResultID i \<in> s_id ` set (scan_results d)"
  obtains it d' where "Enqueue q now i pr d = (Inr it, d')" "wi_ID it = q_id (enqueued q now i pr d)"
    "\<And>j. row_of d' j = (if j = q_id (enqueued q now i pr d) then Some (enqueued q now i pr d) else row_of d j)"
    "in_ScanResultID i > 0 \<longrightarrow> linked d' (wi_ID it) (in_ScanResultID i)"
    "length (work_queue d') = length (work_queue d) + (if key_row q i d = None then 1 else 0)"
proof -
  let ?e = "enqueue_row q now i pr (wq_seq d)" and ?b = "pr \<ge> PriorityWebhook"
  obtain r d1 where u: "upsert_wq now ?b ?e d = (r, d1)" by fastforce
  have ok: "paths_ok r"
  proof (cases "key_row q i d")
    case None
    then have "r = ?e" using u by (simp add: upsert_wq_def key_row_same_key)
    then show ?thesis by (simp only: paths_ok_updates)
  next
    case (Some w)
    then have "r = enqueue_conflict ?b ?e w" using u by (simp add: upsert_wq_def key_row_same_key)
    moreover have "wf_row w" using Some wf by (auto simp: key_row_def dest: first_where_Some wf_dbD(3))
    ultimately show ?thesis using paths_ok_conflict wf_row_paths by (simp only: paths_ok_updates)
  qed
  let ?d' = "if in_ScanResultID i > 0 then add_link (q_id r) (in_ScanResultID i) d1 else d1"
  have E: "Enqueue q now i pr d = (Inr (item_of r), ?d')"
    using u sid scanWorkItem_item [OF ok] item_of_simps(1) [OF ok]
    by (auto simp: Enqueue_def Let_def)
  have id: "q_id r = q_id (enqueued q now i pr d)"
    using u by (auto simp: upsert_wq_def key_row_same_key enqueued_def Let_def split: option.splits)
  have rows: "row_of d1 j = (if j = q_id (enqueued q now i pr d) then Some (enqueued q now i pr d) else row_of d j)" for j
  proof (cases "key_row q i d")
    case None
    then have "d1 = snd (d1, d\<lparr>work_queue := work_queue d @ [?e], wq_seq := wq_seq d + 1\<rparr>)"
      using u by (auto simp: upsert_wq_def key_row_same_key)
    then have d1: "d1 = d\<lparr>work_queue := work_queue d @ [?e], wq_seq := wq_seq d + 1\<rparr>" by simp
    have fresh: "row_of d (wq_seq d) = None" using wf by (auto simp: row_of_None wf_db_def)
    have "find p (xs @ [y]) = (case find p xs of None \<Rightarrow> if p y then Some y else None | Some x \<Rightarrow> Some x)"
      for p and xs :: "wq_row list" and y by (induction xs) auto
    then show ?thesis using fresh None
      by (auto simp: d1 row_of_def first_where_def enqueued_def Let_def split: option.splits)
  next
    case (Some w)
    then have w: "w \<in> set (work_queue d)" "row_key w = track_key q i"
      by (auto simp: key_row_def dest!: first_where_Some)
    then have sk: "same_key ?e w" by (simp add: same_key_def track_key_def)
    have only: "same_key ?e x \<Longrightarrow> row_of d k = Some x \<Longrightarrow> x = w" for x k
      using w wf by (auto simp: same_key_def track_key_def wf_db_def dest!: row_of_Some
          intro: distinct_key_unique [of row_key])
    have eq: "row_of d1 j = (case row_of d j of None \<Rightarrow> None
        | Some x \<Rightarrow> Some (if same_key ?e x then touch now (enqueue_conflict ?b ?e x) else x))"
      using u Some by (auto simp: upsert_wq_def key_row_same_key row_of_update_wq split: option.split)
    have enq: "enqueued q now i pr d = touch now (enqueue_conflict ?b ?e w)"
      using Some by (simp add: enqueued_def Let_def)
    show ?thesis
    proof (cases "j = q_id w")
      case True
      with sk row_of_mem [OF wf w(1)] show ?thesis unfolding eq enq by simp
    next
      case False
      have "\<not> same_key ?e x" if "row_of d j = Some x" for x
        using only [OF _ that] row_of_Some [OF that] False by auto
      with False show ?thesis unfolding eq enq by (cases "row_of d j") simp_all
    qed
  qed
  have len: "length (work_queue d1) = length (work_queue d) + (if key_row q i d = None then 1 else 0)"
    using u by (auto simp: upsert_wq_def key_row_same_key split: option.splits)
  show thesis
  proof (rule that [OF E])
    show "wi_ID (item_of r) = q_id (enqueued q now i pr d)" using id item_of_simps(1) [OF ok] by simp
    show "in_ScanResultID i > 0 \<longrightarrow> linked ?d' (wi_ID (item_of r)) (in_ScanResultID i)"
      using item_of_simps(1) [OF ok] by (simp add: linked_def add_link_def)
    show "length (work_queue ?d') = length (work_queue d) + (if key_row q i d = None then 1 else 0)"
      using len by (simp add: add_link_def)
    show "row_of ?d' j = (if j = q_id (enqueued q now i pr d) then Some (enqueued q now i pr d) else row_of d j)" for j
      using rows [of j] by (cases "in_ScanResultID i > 0") (simp_all only: if_True if_False row_of_add_link)
  qed
qed

lemma row_key_enqueued: "row_key (enqueued q now i pr d) = track_key q i"
  by (auto simp: enqueued_def Let_def track_key_def key_row_def dest: first_where_Some split: option.split)

text \<open>
  C17. One row per track: an enqueue whose scan result exists succeeds, and afterwards exactly one
  row carries the normalised artist and title of the item, namely the one whose id it returns;
  the table grows only when no row carried that key, every other row is untouched, and the scan
  result is linked to the row.
\<close>

theorem enqueue_one_row_per_track:
  assumes "wf_db d" "in_ScanResultID i > 0 \<longrightarrow> in_ScanResultID i \<in> s_id ` set (scan_results d)"
  shows "\<exists>it r d'. Enqueue q now i pr d = (Inr it, d')
    \<and> row_of d' (wi_ID it) = Some r \<and> row_key r = track_key q i
    \<and> (\<forall>x \<in> set (work_queue d'). row_key x = track_key q i \<longrightarrow> x = r)
    \<and> (\<forall>j. j \<noteq> wi_ID it \<longrightarrow> row_of d' j = row_of d j)
    \<and> length (work_queue d') = length (work_queue d) + (if key_row q i d = None then 1 else 0)
    \<and> (in_ScanResultID i > 0 \<longrightarrow> linked d' (wi_ID it) (in_ScanResultID i))"
proof -
  obtain it d' where E: "Enqueue q now i pr d = (Inr it, d')" "wi_ID it = q_id (enqueued q now i pr d)"
    "\<And>j. row_of d' j = (if j = q_id (enqueued q now i pr d) then Some (enqueued q now i pr d) else row_of d j)"
    "in_ScanResultID i > 0 \<longrightarrow> linked d' (wi_ID it) (in_ScanResultID i)"
    "length (work_queue d') = length (work_queue d) + (if key_row q i d = None then 1 else 0)"
    using Enqueue_ok [OF assms] by metis
  have wf': "wf_db d'" using wf_Enqueue [OF assms(1) E(1)] .
  let ?r = "enqueued q now i pr d"
  have r: "row_of d' (wi_ID it) = Some ?r" using E(2,3) by simp
  have "x = ?r" if "x \<in> set (work_queue d')" "row_key x = track_key q i" for x
    using that wf' row_of_Some [OF r] row_key_enqueued [of q now i pr d]
    by (intro distinct_key_unique [of row_key "work_queue d'"]) (auto simp: wf_db_def)
  with E r row_key_enqueued show ?thesis
    by (intro exI [of _ it] exI [of _ ?r] exI [of _ d']) auto
qed

theorem enqueue_one_row_per_track_witness:
  "\<exists>it r d'. Enqueue sample_queue second (zero_inputs\<lparr>in_ScanResultID := 1\<rparr>) 10 sample_db = (Inr it, d')
    \<and> row_of d' (wi_ID it) = Some r \<and> linked d' (wi_ID it) 1"
proof -
  have "\<exists>it r d'. Enqueue sample_queue second (zero_inputs\<lparr>in_ScanResultID := 1\<rparr>) 10 sample_db = (Inr it, d')
      \<and> row_of d' (wi_ID it) = Some r
      \<and> (in_ScanResultID (zero_inputs\<lparr>in_ScanResultID := 1\<rparr>) > 0
          \<longrightarrow> linked d' (wi_ID it) (in_ScanResultID (zero_inputs\<lparr>in_ScanResultID := 1\<rparr>)))"
    using enqueue_one_row_per_track [OF wf_sample_db, of "zero_inputs\<lparr>in_ScanResultID := 1\<rparr>" sample_queue second 10]
    by (fastforce simp: sample_db_def)
  then show ?thesis by simp
qed

text \<open>
  What a duplicate enqueue may change.  The stored row keeps its status, attempts and miss
  count; a done or processing row keeps its content, schedule and completion; a deferred row
  under a scan enqueue keeps its cooldown and its low priority, a failed one its backoff, while
  a webhook enqueue makes both ready at once at the webhook's priority; and the priority of a
  row that is not deferred never drops under a scan enqueue.
\<close>

theorem enqueue_duplicate_policy:
  assumes "key_row q i d = Some w"
  shows "let r = enqueued q now i pr d in
      q_status r = q_status w \<and> q_attempts r = q_attempts w \<and> q_miss_count r = q_miss_count w
      \<and> (q_status w \<in> {Done, Processing} \<longrightarrow>
           q_artist r = q_artist w \<and> q_title r = q_title w \<and> q_outdir r = q_outdir w
           \<and> q_filename r = q_filename w \<and> q_source_path r = q_source_path w
           \<and> q_output_paths r = q_output_paths w \<and> q_next_attempt_at r = q_next_attempt_at w
           \<and> (wf_row w \<longrightarrow> q_completed_at r = q_completed_at w))
      \<and> (q_status w \<in> {Failed, Deferred} \<and> pr < PriorityWebhook \<longrightarrow>
           q_next_attempt_at r = q_next_attempt_at w)
      \<and> (q_status w = Deferred \<and> pr < PriorityWebhook \<longrightarrow> q_priority r = q_priority w)
      \<and> (q_status w \<noteq> Deferred \<and> pr < PriorityWebhook \<longrightarrow> q_priority w \<le> q_priority r)
      \<and> (pr \<ge> PriorityWebhook \<longrightarrow> q_priority r = pr
           \<and> (q_status w \<notin> {Done, Processing} \<longrightarrow> ready (formatTime now) r))"
  using assms
  by (cases "q_status w")
     (auto simp: enqueued_def Let_def enqueue_conflict_def priority_defs ready_def touch_def wf_row_def)

theorem enqueue_duplicate_policy_witness:
  "let r = enqueued (SetRandomized False sample_queue) second
        (zero_inputs\<lparr>in_Track := zero_track\<lparr>ArtistName := ''m'', TrackName := ''t''\<rparr>\<rparr>) 0
        (sample_db\<lparr>work_queue := [sample_row 5 ''m'' Deferred]\<rparr>)
   in q_status r = Deferred \<and> q_priority r = -100 \<and> q_next_attempt_at r = 0"
proof -
  let ?i = "zero_inputs\<lparr>in_Track := zero_track\<lparr>ArtistName := ''m'', TrackName := ''t''\<rparr>\<rparr>"
  let ?q = "SetRandomized False sample_queue" and ?d = "sample_db\<lparr>work_queue := [sample_row 5 ''m'' Deferred]\<rparr>"
  have "key_row ?q ?i ?d = Some (sample_row 5 ''m'' Deferred)"
    by (simp add: key_row_def track_key_def first_where_def sample_queue_def SetRandomized_def NewDBQueue_def
        NormalizeKey_plain plain_def zero_inputs_def zero_track_def)
  from enqueue_duplicate_policy [OF this, of second 0] show ?thesis
    by (simp add: Let_def priority_defs)
qed

section \<open>Transitions of a claimed row\<close>

text \<open>The scan results after a write-back.\<close>

lemma set_linked_map:
  "scan_results (set_linked w p st d)
     = map (\<lambda>s. if linked d w (s_id s) \<and> p s then s\<lparr>s_status := st\<rparr> else s) (scan_results d)"
  by (simp add: set_linked_def update_where_def)

lemma fold_set_linked_map:
  assumes "\<And>s. p (s\<lparr>s_status := st\<rparr>) \<Longrightarrow> s\<lparr>s_status := st\<rparr> = s"
  shows "scan_results (fold (\<lambda>i. set_linked i p st) is d)
     = map (\<lambda>s. if (\<exists>i \<in> set is. linked d i (s_id s)) \<and> p s then s\<lparr>s_status := st\<rparr> else s) (scan_results d)"
proof (induction "is" arbitrary: d)
  case (Cons i "is")
  have st: "(s\<lparr>s_status := st\<rparr>)\<lparr>s_status := st\<rparr> = s\<lparr>s_status := st\<rparr>" for s :: sr_row by simp
  show ?case
    using assms by (auto simp: Cons.IH set_linked_map st)
qed simp

text \<open>
  Completion is an atomic write-back: on a claimed row it succeeds, the row becomes done with
  its completion time and no error, every scan result linked to it (not only the one first
  recorded in the row) becomes done, and all other rows and scan results stay as they are; on a
  row that is not processing it answers \<open>sql.ErrNoRows\<close> and changes nothing.
\<close>

theorem complete_writes_back:
  assumes "wf_db d"
  shows "case claimed d i of
      None \<Rightarrow> Complete now i d = (Inl sql_no_rows, d)
    | Some r \<Rightarrow> (\<exists>d'. Complete now i d = (Inr (), d')
        \<and> row_of d' i = Some (touch now (r\<lparr>q_status := Done, q_completed_at := Some (formatTime now),
                                    q_last_error := []\<rparr>))
        \<and> (\<forall>j. j \<noteq> i \<longrightarrow> row_of d' j = row_of d j)
        \<and> scan_results d' = map (\<lambda>s. if linked d i (s_id s) then s\<lparr>s_status := SrDone\<rparr> else s)
                               (scan_results d))"
proof (cases "claimed d i")
  case (Some r)
  have "s_status s = SrDone \<Longrightarrow> s\<lparr>s_status := SrDone\<rparr> = s" for s :: sr_row by simp
  then show ?thesis
    by (auto simp: Complete_eq [OF assms] Some row_of_upd_claimed set_linked_map not_done_def
        complete_row_def)
qed (simp add: Complete_eq [OF assms])

theorem complete_writes_back_witness:
  "\<exists>d'. Complete second 2 sample_db = (Inr (), d')
     \<and> scan_results d' = [sample_scan 1 7 SrDone, sample_scan 2 8 SrDone]"
proof -
  from complete_writes_back [OF wf_sample_db, where i = 2 and now = second] obtain d' where
    d': "Complete second 2 sample_db = (Inr (), d')"
    "scan_results d' = map (\<lambda>s. if linked sample_db 2 (s_id s) then s\<lparr>s_status := SrDone\<rparr> else s)
        (scan_results sample_db)"
    by (auto simp: sample_claimed)
  then show ?thesis by (simp add: linked_def) (simp add: sample_db_def sample_scan_def)
qed

text \<open>
  Retirement is reversible.  \<open>RetireMiss\<close> ends a claimed row as done with the miss-limit
  marker and marks all its linked scan results done; a later \<open>RecheckRetired\<close> over all
  libraries brings that row back as deferred behind fresh work, ready at once, with its miss
  count and providers version intact, and every one of those scan results is pending again.
\<close>

theorem retire_then_recheck:
  assumes "wf_db d" "claimed d i = Some r"
  shows "let d1 = snd (RetireMiss now i d); d2 = snd (RecheckRetired now' None d1) in
      (\<exists>r1. row_of d1 i = Some r1 \<and> q_status r1 = Done \<and> q_last_error r1 = missLimitReachedError)
      \<and> (\<forall>s \<in> set (scan_results d1). linked d i (s_id s) \<longrightarrow> s_status s = SrDone)
      \<and> (\<exists>r2. row_of d2 i = Some r2 \<and> q_status r2 = Deferred \<and> q_priority r2 = PriorityMiss
           \<and> ready (formatTime now') r2 \<and> q_last_error r2 = [] \<and> q_completed_at r2 = None
           \<and> q_miss_count r2 = q_miss_count r \<and> q_providers_version r2 = q_providers_version r)
      \<and> (\<forall>s \<in> set (scan_results d2). linked d i (s_id s) \<longrightarrow> s_status s = SrPending)"
proof -
  let ?u = "upd_claimed now i (retire_row now) d"
  let ?d1 = "set_linked i not_done SrDone ?u"
  let ?p = "is_retired ?d1 None"
  let ?r1 = "touch now (retire_row now r)"
  have d1: "snd (RetireMiss now i d) = ?d1"
    by (simp add: RetireMiss_eq [OF assms(1)] assms(2))
  have wf1: "wf_db ?d1" using wf_RetireMiss [OF assms(1), of now i] by (simp only: d1)
  have r1: "row_of ?d1 i = Some ?r1" by (simp add: row_of_upd_claimed assms(2) row_updates)
  have p1: "?p ?r1" by (simp add: is_retired_def in_library_def row_updates)
  have id1: "i = q_id ?r1" "?r1 \<in> set (work_queue ?d1)" using row_of_Some [OF r1] by auto
  let ?ids = "map q_id (filter ?p (work_queue ?d1))"
  have i_in: "i \<in> set ?ids" using map_filter_mem [of ?r1 "work_queue ?d1" ?p q_id] id1 p1 by metis
  let ?d2 = "fold (\<lambda>i. set_linked i (revivable None) SrPending) ?ids (update_wq now' ?p (revive_row now') ?d1)"
  have d2: "snd (RecheckRetired now' None ?d1) = ?d2"
    using i_in unfolding RecheckRetired_def Let_def by (cases "?ids = []") (simp_all only: list.set empty_iff snd_conv if_False)
  have "row_of (update_wq now' ?p (revive_row now') ?d1) i
      = map_option (\<lambda>r. if ?p r then touch now' (revive_row now' r) else r) (row_of ?d1 i)"
    by (rule row_of_update_wq) simp
  then have row2: "row_of ?d2 i = Some (touch now' (revive_row now' ?r1))"
    unfolding row_of_fold_set_linked r1 by (simp only: option.map p1 if_True)
  have done1: "s_status s = SrDone" if "s \<in> set (scan_results ?d1)" "linked d i (s_id s)" for s
    using that by (auto simp: set_linked_map not_done_def)
  have "scan_results ?d2 = map (\<lambda>s. if (\<exists>j \<in> set ?ids. linked ?d1 j (s_id s)) \<and> revivable None s
          then s\<lparr>s_status := SrPending\<rparr> else s) (scan_results ?d1)"
    by (subst fold_set_linked_map) (auto simp: revivable_def)
  moreover have "linked d i (s_id s) \<Longrightarrow> \<exists>j \<in> set ?ids. linked ?d1 j (s_id s)" for s :: sr_row
    using i_in by (intro bexI [of _ i]) simp_all
  ultimately have "s_status s = SrPending" if "s \<in> set (scan_results ?d2)" "linked d i (s_id s)" for s
    using that done1 by (auto simp: revivable_def split: if_splits)
  then show ?thesis
    unfolding d1 Let_def d2 row2 r1 using done1
    by (simp add: ready_def revive_row_def touch_def retire_row_def priority_defs)
qed

theorem retire_then_recheck_witness:
  "\<exists>r2. row_of (snd (RecheckRetired (2 * second) None (snd (RetireMiss second 2 sample_db)))) 2 = Some r2
     \<and> q_status r2 = Deferred"
  using retire_then_recheck [OF wf_sample_db sample_claimed, of second "2 * second"]
  by (auto simp: Let_def)

section \<open>Cadences\<close>

text \<open>
  C18. The failure cadence: the n-th failure of a claimed row leaves it failed, sets its attempts
  to n, and makes it ready again no earlier than min(base * 2^(n-1), max) later (to the second),
  a delay that is positive and never exceeds the cap; priority and miss count are untouched and
  the error is recorded.
\<close>

theorem fail_cadence:
  assumes "wf_db d" "claimed d i = Some r"
    and "0 < baseBackoff q" "0 < maxBackoff q" "maxBackoff q \<le> max_int64"
  shows "\<exists>it d' r'. Fail q now i c d = (Inr it, d') \<and> wi_ID it = i \<and> row_of d' i = Some r'
    \<and> q_status r' = Failed \<and> q_attempts r' = q_attempts r + 1 \<and> q_last_error r' = error_text c
    \<and> q_priority r' = q_priority r \<and> q_miss_count r' = q_miss_count r
    \<and> (let delay = min (maxBackoff q) (baseBackoff q * 2 ^ nat (q_attempts r))
       in 0 < delay \<and> (\<forall>t. ready (formatTime t) r' \<longleftrightarrow> formatTime (now + delay) \<le> formatTime t))
    \<and> (\<forall>j. j \<noteq> i \<longrightarrow> row_of d' j = row_of d j)"
proof -
  let ?delay = "min (maxBackoff q) (baseBackoff q * 2 ^ nat (q_attempts r))"
  let ?f = "fail_row (q_attempts r + 1) (formatTime (now + ?delay)) (error_text c)"
  have delay: "Geometric (q_attempts r + 1) (baseBackoff q) (maxBackoff q) = ?delay"
    using assms(3-5) by (simp add: Geometric_closed)
  have pos: "0 < ?delay" using assms(3,4) by simp
  have "paths_ok (?f r)" using claimed_paths [OF assms(1,2)] by (simp only: paths_ok_updates)
  then have "wi_ID (item_of (?f r)) = i"
    using assms(2) by (auto simp: item_of_simps claimed_Some dest: row_of_Some simp del: paths_ok_code)
  moreover have "Fail q now i c d = (Inr (item_of (?f r)), upd_claimed now i ?f d)"
    by (simp add: Fail_eq [OF assms(1)] assms(2) delay Let_def)
  moreover have "row_of (upd_claimed now i ?f d) i = Some (touch now (?f r))"
    by (simp add: row_of_upd_claimed assms(2))
  moreover have "\<forall>j. j \<noteq> i \<longrightarrow> row_of (upd_claimed now i ?f d) j = row_of d j"
    by (simp add: row_of_upd_claimed)
  ultimately show ?thesis
    using pos by (intro exI [of _ "item_of (?f r)"] exI [of _ "upd_claimed now i ?f d"]
        exI [of _ "touch now (?f r)"]) (simp add: Let_def ready_def fail_row_def touch_def)
qed

theorem fail_cadence_witness:
  "\<exists>it d' r'. Fail sample_queue second 2 None sample_db = (Inr it, d') \<and> row_of d' 2 = Some r'
     \<and> q_status r' = Failed \<and> ready (formatTime (61 * second)) r'"
proof -
  have q: "0 < baseBackoff sample_queue" "0 < maxBackoff sample_queue" "maxBackoff sample_queue \<le> max_int64"
    by (simp_all add: sample_queue_def NewDBQueue_def DefaultBase_def DefaultMax_def)
  have "min (maxBackoff sample_queue) (baseBackoff sample_queue * 2 ^ nat 0) = minute"
    by (simp add: sample_queue_def NewDBQueue_def DefaultBase_def DefaultMax_def)
  then obtain it d' r' where "Fail sample_queue second 2 None sample_db = (Inr it, d')"
    "row_of d' 2 = Some r'" "q_status r' = Failed"
    "\<forall>t. ready (formatTime t) r' \<longleftrightarrow> formatTime (second + minute) \<le> formatTime t"
    using fail_cadence [OF wf_sample_db sample_claimed q, of second None]
    unfolding Let_def sample_row_simps by (auto simp del: min_less_iff_conj)
  moreover have "formatTime (second + minute) \<le> formatTime (61 * second)" by (simp add: formatTime_def)
  ultimately show ?thesis by blast
qed

text \<open>
  The miss cadence: deferring a claimed row never spends its failure budget (attempts are
  unchanged), counts one miss, drops it to the miss priority and hides it for the whole cooldown;
  and the next dequeue does not hand it out while any ready row of a higher priority exists.
\<close>

theorem defer_sinks:
  assumes "wf_db d" "claimed d i = Some r"
  shows "\<exists>it d' r'. Defer now i cooldown c d = (Inr it, d') \<and> row_of d' i = Some r'
    \<and> q_status r' = Deferred \<and> q_attempts r' = q_attempts r \<and> q_miss_count r' = q_miss_count r + 1
    \<and> wi_MissCount it = q_miss_count r + 1 \<and> q_priority r' = PriorityMiss
    \<and> (\<forall>t. ready (formatTime t) r' \<longleftrightarrow> formatTime (now + cooldown) \<le> formatTime t)
    \<and> (\<forall>rnd t it2 d2. Dequeue q rnd t d' = (Inr it2, d2) \<and> wi_ID it2 = i
         \<longrightarrow> (\<forall>x \<in> set (work_queue d'). ready (formatTime t) x \<longrightarrow> q_priority x \<le> PriorityMiss))"
proof -
  let ?f = "defer_row (formatTime (now + cooldown)) (error_text c)"
  let ?d = "upd_claimed now i ?f d"
  have D: "Defer now i cooldown c d = (Inr (item_of (?f r)), ?d)"
    by (simp add: Defer_eq [OF assms(1)] assms(2) Let_def)
  have row: "row_of ?d i = Some (touch now (?f r))" by (simp add: row_of_upd_claimed assms(2))
  have wf': "wf_db ?d" using wf_Defer [OF assms(1), of now i cooldown c] by (simp only: D snd_conv)
  have "paths_ok (?f r)" using claimed_paths [OF assms(1,2)] by (simp only: paths_ok_updates)
  then have it: "wi_MissCount (item_of (?f r)) = q_miss_count r + 1"
    by (simp add: item_of_simps defer_row_def del: paths_ok_code)
  have sink: "q_priority x \<le> PriorityMiss"
    if deq: "Dequeue q rnd t ?d = (Inr it2, d2)" "wi_ID it2 = i" and x: "x \<in> set (work_queue ?d)"
      "ready (formatTime t) x" for rnd t it2 d2 x
  proof -
    from deq(1) obtain y where y: "next_row q rnd (formatTime t) ?d = Some y" "it2 = item_of (claim y)"
      by (auto simp: Dequeue_eq [OF wf'] split: option.splits)
    have "paths_ok (claim y)"
      using wf_row_paths [OF wf_dbD(3) [OF wf' next_row_mem(1) [OF y(1)]]] paths_ok_updates(5) by blast
    with deq(2) y(2) have "q_id y = i" by (simp add: item_of_simps del: paths_ok_code)
    with row_of_mem [OF wf' next_row_mem(1) [OF y(1)]] row have "y = touch now (?f r)" by simp
    then have "q_priority y = PriorityMiss" by (simp add: defer_row_def priority_defs)
    with next_row_best(1) [OF y(1) x] show ?thesis by simp
  qed
  define r' where "r' = touch now (?f r)"
  have "q_status r' = Deferred" "q_attempts r' = q_attempts r" "q_miss_count r' = q_miss_count r + 1"
    "q_priority r' = PriorityMiss"
    "\<And>t. ready (formatTime t) r' \<longleftrightarrow> formatTime (now + cooldown) \<le> formatTime t"
    by (simp_all add: r'_def defer_row_def ready_def priority_defs)
  with D row it sink show ?thesis
    unfolding r'_def [symmetric]
    by (intro exI [of _ "item_of (?f r)"] exI [of _ ?d] exI [of _ r']) blast
qed

theorem defer_sinks_witness:
  "\<exists>it d' r'. Defer second 2 hour None sample_db = (Inr it, d') \<and> row_of d' 2 = Some r' \<and> q_priority r' = -100"
  using defer_sinks [OF wf_sample_db sample_claimed, of second hour None] unfolding priority_defs by blast

section \<open>Cancellation\<close>

definition paths_of :: "wq_row \<Rightarrow> output_path list" where
  "paths_of r = (case q_output_paths r of PathsJson ps \<Rightarrow> ps | _ \<Rightarrow> [])"

definition kept_paths :: "db \<Rightarrow> int \<Rightarrow> wq_row \<Rightarrow> output_path list" where
  "kept_paths d lib r = filter (\<lambda>p. outputPathKey p \<in> set (keepSetForRow d (q_id r) lib)) (paths_of r)"

lemma filter_same_length: "length (filter p xs) = length xs \<Longrightarrow> filter p xs = xs"
  by (metis filter_True length_filter_less less_irrefl)

lemma after_action_paths:
  assumes "wf_row r"
  shows "if kept_paths d lib r = [] then after_action now (action_of d lib r) r = None
    else \<exists>r'. after_action now (action_of d lib r) r = Some r' \<and> paths_of r' = kept_paths d lib r
           \<and> q_status r' = q_status r \<and> row_key r' = row_key r"
  using assms filter_same_length [of "\<lambda>p. outputPathKey p \<in> set (keepSetForRow d (q_id r) lib)" "paths_of r"]
  by (auto simp: after_action_def action_of_def cancel_action_for_def kept_paths_def paths_of_def
      wf_row_def Let_def split: paths_col.splits)

text \<open>
  Cancelling a library: the operation cannot fail on a well-formed database, the dry run
  predicts its two counts exactly, rows that are processing or done or not linked to the library
  stay as they are, and every other row of the library keeps exactly the output paths that a scan
  result of another library still plans, or is deleted when there is none.
\<close>

theorem cancel_by_library:
  assumes "wf_db d"
  shows "\<exists>n d'. CancelByLibrary now lib d = (Inr n, d') \<and> CountCancelByLibrary now' lib d = Inr n
    \<and> (\<forall>r \<in> set (work_queue d).
         if cancellable r \<and> in_library d (Some lib) r
         then (if kept_paths d lib r = [] then row_of d' (q_id r) = None
               else \<exists>r'. row_of d' (q_id r) = Some r' \<and> paths_of r' = kept_paths d lib r
                      \<and> q_status r' = q_status r \<and> row_key r' = row_key r)
         else row_of d' (q_id r) = Some r)"
proof -
  obtain n d' where n: "CancelByLibrary now lib d = (Inr n, d')" "CountCancelByLibrary now' lib d = Inr n"
    and rows: "\<And>r. r \<in> set (work_queue d) \<Longrightarrow> row_of d' (q_id r) =
          (if cancellable r \<and> in_library d (Some lib) r
           then after_action now (action_of d lib r) r else Some r)"
    using CancelByLibrary_rows [OF assms, of now lib now'] by metis
  have "if cancellable r \<and> in_library d (Some lib) r
         then (if kept_paths d lib r = [] then row_of d' (q_id r) = None
               else \<exists>r'. row_of d' (q_id r) = Some r' \<and> paths_of r' = kept_paths d lib r
                      \<and> q_status r' = q_status r \<and> row_key r' = row_key r)
         else row_of d' (q_id r) = Some r" if r: "r \<in> set (work_queue d)" for r
    unfolding rows [OF r] using after_action_paths [OF wf_dbD(3) [OF assms r], of d lib now]
    by (cases "cancellable r \<and> in_library d (Some lib) r") (simp_all only: if_True if_False simp_thms)
  with n show ?thesis by blast
qed

theorem cancel_by_library_witness:
  "\<exists>n d'. CancelByLibrary second 7 sample_db = (Inr n, d') \<and> row_of d' 1 = None
     \<and> row_of d' 2 = Some (sample_row 2 ''c'' Processing)"
proof -
  let ?p = "sample_row 1 ''p'' Pending" and ?c = "sample_row 2 ''c'' Processing"
  have "?p \<in> set (work_queue sample_db)" "cancellable ?p" "in_library sample_db (Some 7) ?p"
    "kept_paths sample_db 7 ?p = []" "?c \<in> set (work_queue sample_db)" "\<not> cancellable ?c"
    by (simp_all add: sample_db_def cancellable_def in_library_def linked_def kept_paths_def
        keepSetForRow_def)
  with cancel_by_library [OF wf_sample_db, of second 7 second] show ?thesis
    by (metis sample_row_simps(1))
qed

end
