(* ===== verification/Service.thy ===== *)
theory Service
  imports Worker_Contract Queue_Props
begin

text \<open>
  The worker on the modelled queue and cache.  \<open>system\<close> is the state the process shares: the
  database, the lyrics cache, the lyric files written, and the rest of the world \<open>'x\<close>
  (clock, network, audio), about which \<open>outside\<close> says how it answers.  \<open>ox_fault\<close> is asked
  before every statement batch: an answer is a database error that undoes the batch.
  \<open>service_deps\<close> wires \<^verbatim>\<open>DBQueue\<close> and \<^verbatim>\<open>CacheRepo\<close> to the worker as \<^verbatim>\<open>internal/app\<close> does, and the
  locales of \<open>Worker_Contract\<close> are interpreted on it.
\<close>

section \<open>The system\<close>

record 'x system =
  sys_db :: db
  sys_cache :: "cached cache_repo"
  sys_written :: "(output_path \<times> song) list"
  sys_x :: 'x

record 'x outside =
  ox_ctx :: "'x \<Rightarrow> goerr option"
  ox_now :: "'x \<Rightarrow> instant"
  ox_random :: "'x \<Rightarrow> int \<Rightarrow> int"
  ox_fault :: "'x \<Rightarrow> string option \<times> 'x"
  ox_dispatch :: "track \<Rightarrow> 'x \<Rightarrow> dispatch_env \<times> 'x"
  ox_write :: "song \<Rightarrow> string \<Rightarrow> string \<Rightarrow> 'x \<Rightarrow> string option \<times> 'x"
  ox_verify :: "(string \<Rightarrow> song \<Rightarrow> 'x \<Rightarrow> ver_result result \<times> 'x) option"
  ox_detect :: "(string \<Rightarrow> 'x \<Rightarrow> det_result result \<times> 'x) option"
  ox_json :: "song \<Rightarrow> string"
  ox_similarity :: "rat \<Rightarrow> string"

definition reliable :: "'x outside \<Rightarrow> 'x outside" where
  "reliable E = E\<lparr>ox_fault := \<lambda>x. (None, x)\<rparr>"

definition sys_call :: "'x outside \<Rightarrow> ('x \<Rightarrow> 'x system \<Rightarrow> 'a result \<times> 'x system) \<Rightarrow> 'x system \<Rightarrow> 'a result \<times> 'x system" where
  "sys_call E f s =
     (case ox_fault E (sys_x s) of
        (Some m, x) \<Rightarrow> (Inl (errorf m), s\<lparr>sys_x := x\<rparr>)
      | (None, x) \<Rightarrow> f x (s\<lparr>sys_x := x\<rparr>))"

definition db_call :: "'x outside \<Rightarrow> (instant \<Rightarrow> db \<Rightarrow> 'a result \<times> db) \<Rightarrow> 'x system \<Rightarrow> 'a result \<times> 'x system" where
  "db_call E f =
     sys_call E (\<lambda>x s. case f (ox_now E x) (sys_db s) of (r, d) \<Rightarrow> (r, s\<lparr>sys_db := d\<rparr>))"

definition db_set :: "'x outside \<Rightarrow> (instant \<Rightarrow> db \<Rightarrow> db) \<Rightarrow> 'x system \<Rightarrow> unit result \<times> 'x system" where
  "db_set E f = db_call E (\<lambda>t d. (Inr (), f t d))"

definition cache_call :: "'x outside \<Rightarrow> (cached cache_repo \<Rightarrow> 'a result \<times> cached cache_repo) \<Rightarrow> 'x system
    \<Rightarrow> 'a result \<times> 'x system" where
  "cache_call E f = sys_call E (\<lambda>x s. case f (sys_cache s) of (r, c) \<Rightarrow> (r, s\<lparr>sys_cache := c\<rparr>))"

definition db_queue :: "dbqueue \<Rightarrow> 'x outside \<Rightarrow> 'x system queue_iface" where
  "db_queue q E =
     \<lparr>qi_Dequeue = (\<lambda>s. db_call E (\<lambda>t. Dequeue q (ox_random E (sys_x s)) t) s),
      qi_Complete = (\<lambda>i. db_call E (\<lambda>t. Complete t i)),
      qi_Fail = (\<lambda>i c. db_call E (\<lambda>t. Fail q t i (Some c))),
      qi_Defer = (\<lambda>i w c. db_call E (\<lambda>t. Defer t i w (Some c))),
      qi_Release = (\<lambda>i. db_call E (\<lambda>t. Release t i)),
      qi_RetireMiss = (\<lambda>i. db_call E (\<lambda>t. RetireMiss t i)),
      qi_SetInstrumentalResult = (\<lambda>i x tel. db_set E (\<lambda>t. SetInstrumentalResult t i x tel)),
      qi_SetOutcomeType = (\<lambda>i o'. db_set E (\<lambda>t. SetOutcomeType t i o')),
      qi_SetProviderLane = (\<lambda>i l. db_set E (\<lambda>t. SetProviderLane t i l))\<rparr>"

definition db_recorder :: "'x outside \<Rightarrow> 'x system recorder" where
  "db_recorder E =
     \<lparr>rc_RecordProviderHit = (\<lambda>n. db_set E (\<lambda>t. RecordProviderHit n)),
      rc_RecordProviderMiss = (\<lambda>n. db_set E (\<lambda>t. RecordProviderMiss n)),
      rc_RecordLaneAttempts = (\<lambda>i as. db_set E (\<lambda>t. RecordLaneAttempts t i as))\<rparr>"

definition on_x :: "('x \<Rightarrow> 'a \<times> 'x) \<Rightarrow> 'x system \<Rightarrow> 'a \<times> 'x system" where
  "on_x f s = (case f (sys_x s) of (a, x) \<Rightarrow> (a, s\<lparr>sys_x := x\<rparr>))"

definition sys_write :: "'x outside \<Rightarrow> song \<Rightarrow> string \<Rightarrow> string \<Rightarrow> 'x system \<Rightarrow> unit result \<times> 'x system" where
  "sys_write E song f dir s =
     (case ox_write E song f dir (sys_x s) of
        (Some m, x) \<Rightarrow> (Inl (errorf m), s\<lparr>sys_x := x\<rparr>)
      | (None, x) \<Rightarrow>
          (Inr (), s\<lparr>sys_x := x,
                     sys_written := sys_written s @ [(\<lparr>op_Outdir = dir, op_Filename = f\<rparr>, song)]\<rparr>))"

definition service_deps :: "dbqueue \<Rightarrow> 'x outside \<Rightarrow> 'x system deps" where
  "service_deps q E =
     \<lparr>dp_text = dq_text q, dp_json = ox_json E, dp_similarity = ox_similarity E,
      dp_ctx = (\<lambda>s. ox_ctx E (sys_x s)), dp_now = (\<lambda>s. ox_now E (sys_x s)),
      dp_queue = db_queue q E,
      dp_lookup = (\<lambda>a t b. cache_call E (Lookup a t b)),
      dp_store = (\<lambda>a t b c. cache_call E (Store a t b c)),
      dp_dispatch = (\<lambda>t. on_x (ox_dispatch E t)),
      dp_WriteLRC = sys_write E,
      dp_verifier = map_option (\<lambda>v p sg. on_x (v p sg)) (ox_verify E),
      dp_detector = map_option (\<lambda>dt p. on_x (dt p)) (ox_detect E),
      dp_recorder = Some (db_recorder E)\<rparr>"

text \<open>The observer of \<open>Worker_Contract\<close> and the invariant.\<close>

definition db_status :: "db \<Rightarrow> int \<Rightarrow> wq_status option" where
  "db_status d i = map_option q_status (row_of d i)"

definition sys_status :: "'x system \<Rightarrow> int \<Rightarrow> wq_status option" where
  "sys_status s = db_status (sys_db s)"

definition sys_ok :: "'x system \<Rightarrow> bool" where
  "sys_ok s \<longleftrightarrow> wf_db (sys_db s)"

section \<open>The queue keeps the contract\<close>

lemma db_status_claimed: "claimed d i = None \<longleftrightarrow> db_status d i \<noteq> Some Processing"
  by (auto simp: claimed_def db_status_def split: option.splits)

lemma db_status_set_linked [simp]: "db_status (set_linked w p st d) = db_status d"
  by (simp add: db_status_def fun_eq_iff)

lemma db_status_upd_claimed:
  assumes "\<And>r. q_id (f r) = q_id r" "\<And>r. q_status (f r) = s" "claimed d i = Some r"
  shows "db_status (upd_claimed now i f d) = (db_status d)(i := Some s)"
  using assms by (simp add: db_status_def fun_eq_iff row_of_upd_claimed)

lemma db_status_update_same:
  assumes "\<And>r. q_id (f r) = q_id r" "\<And>r. q_status (f r) = q_status r"
  shows "db_status (update_wq now p f d) = db_status d"
proof
  fix i show "db_status (update_wq now p f d) i = db_status d i"
    unfolding db_status_def row_of_update_wq [of p f, OF assms(1)]
    by (cases "row_of d i") (simp_all add: assms)
qed

text \<open>\<open>db_moves s i f\<close>: the database form of \<open>moves\<close>.\<close>

definition db_moves :: "wq_status \<Rightarrow> int \<Rightarrow> db \<Rightarrow> 'a result \<times> db \<Rightarrow> bool" where
  "db_moves s i d out \<longleftrightarrow>
     (if claimed d i = None then out = (Inl sql_no_rows, d)
      else (\<exists>a d'. out = (Inr a, d') \<and> wf_db d' \<and> db_status d' = (db_status d)(i := Some s)))"

lemma db_moves_ops:
  assumes "wf_db d"
  shows "db_moves Done i d (Complete t i d)" "db_moves Pending i d (Release t i d)"
    "db_moves Failed i d (Fail q t i c d)" "db_moves Deferred i d (Defer t i w c d)"
    "db_moves Done i d (RetireMiss t i d)"
  using wf_Complete [OF assms, of t i] wf_Release [OF assms, of t i] wf_Fail [OF assms, of q t i c]
    wf_Defer [OF assms, of t i w c] wf_RetireMiss [OF assms, of t i]
  by (auto simp: db_moves_def claimed_op_eqs [OF assms] Let_def db_status_upd_claimed split: option.splits)

lemma moves_db_call:
  assumes "\<And>t d. wf_db d \<Longrightarrow> db_moves st i d (f t d)"
  shows "moves sys_ok sys_status i st s (db_call E f s)"
proof -
  obtain m x where m: "ox_fault E (sys_x s) = (m, x)" by fastforce
  obtain r d where f: "f (ox_now E x) (sys_db s) = (r, d)" by fastforce
  have c: "db_call E f s = (case m of Some m \<Rightarrow> (Inl (errorf m), s\<lparr>sys_x := x\<rparr>)
       | None \<Rightarrow> (r, s\<lparr>sys_x := x, sys_db := d\<rparr>))"
    by (simp add: db_call_def sys_call_def m f split: option.split)
  have "db_moves st i (sys_db s) (r, d)" if "sys_ok s"
    using assms [of "sys_db s" "ox_now E x"] that by (simp add: f sys_ok_def)
  then show ?thesis
    unfolding c by (cases m) (auto simp: moves_def sys_ok_def sys_status_def db_moves_def errorf_def
      sql_no_rows_def errors_is_def db_status_claimed split: if_splits)
qed

lemma quiet_db_set:
  assumes "\<And>t d. wf_db d \<Longrightarrow> wf_db (f t d) \<and> db_status (f t d) = db_status d"
  shows "quiet sys_ok sys_status s (snd (db_set E f s))"
  using assms by (auto simp: quiet_def db_set_def db_call_def sys_call_def sys_ok_def sys_status_def
      split: prod.splits option.splits)

lemma db_status_telemetry:
  "db_status (SetInstrumentalResult t i x tel d) = db_status d"
  "db_status (SetOutcomeType t i o' d) = db_status d"
  "db_status (SetProviderLane t i l d) = db_status d"
  "db_status (bump_outcome l h m d) = db_status d"
  "db_status (RecordLaneAttempts t i as d) = db_status d"
  by (simp_all add: SetInstrumentalResult_def SetOutcomeType_def SetProviderLane_def
      db_status_update_same)
    (auto simp: db_status_def row_of_def bump_outcome_def RecordLaneAttempts_def fun_eq_iff)

lemma db_status_dequeue:
  assumes "wf_db d"
  shows "case Dequeue q rnd t d of
      (Inl e, d') \<Rightarrow> e = sql_no_rows \<and> d' = d
    | (Inr it, d') \<Rightarrow> wf_db d' \<and> db_status d (wi_ID it) \<noteq> Some Processing
        \<and> db_status d' = (db_status d)(wi_ID it := Some Processing)"
proof (cases "next_row q rnd (formatTime t) d")
  case None
  then show ?thesis by (simp add: Dequeue_eq [OF assms])
next
  case (Some r)
  note mem = next_row_mem [OF Some]
  have "paths_ok (claim r)"
    using wf_row_paths [OF wf_dbD(3) [OF assms mem(1)]] paths_ok_updates(5) by blast
  then have id: "wi_ID (item_of (claim r)) = q_id r" by (simp add: item_of_simps(1) del: paths_ok_code)
  have D: "Dequeue q rnd t d = (Inr (item_of (claim r)), update_wq t (\<lambda>x. q_id x = q_id r) claim d)"
    by (simp add: Dequeue_eq [OF assms] Some)
  have "wf_db (update_wq t (\<lambda>x. q_id x = q_id r) claim d)" using wf_Dequeue [OF assms D] .
  moreover have "db_status (update_wq t (\<lambda>x. q_id x = q_id r) claim d)
      = (db_status d)(q_id r := Some Processing)"
    by (auto simp: db_status_def fun_eq_iff row_of_claim [OF assms mem(1)] claim_def)
  moreover have "db_status d (q_id r) \<noteq> Some Processing"
    using mem by (auto simp: db_status_def row_of_mem [OF assms] ready_def)
  ultimately show ?thesis by (simp add: D id)
qed

lemma errors_is_simps [simp]:
  "errors_is (errorf m) x = False" "errors_is sql_no_rows x = (x = ErrNoRows)"
  by (auto simp: errors_is_def errorf_def sql_no_rows_def)

interpretation dbq: claim_queue "db_queue q E" sys_status sys_ok
  for q and E :: "'x outside"
proof
  fix s s' :: "'x system" and e it
  assume ok: "sys_ok s"
  obtain m x where m: "ox_fault E (sys_x s) = (m, x)" by fastforce
  note dq = db_status_dequeue [of "sys_db s" q "ox_random E (sys_x s)" "ox_now E x"]
  show "qi_Dequeue (db_queue q E) s = (Inl e, s') \<Longrightarrow>
      sys_ok s' \<and> sys_status s' = sys_status s \<and> \<not> errors_is e WorkerQueueEmpty"
    using ok dq by (cases m) (auto simp: db_queue_def db_call_def sys_call_def m sys_ok_def sys_status_def
      split: prod.splits sum.splits)
  show "qi_Dequeue (db_queue q E) s = (Inr it, s') \<Longrightarrow>
      sys_ok s' \<and> sys_status s (wi_ID it) \<noteq> Some Processing
      \<and> sys_status s' = (sys_status s)(wi_ID it := Some Processing)"
    using ok dq by (cases m) (auto simp: db_queue_def db_call_def sys_call_def m sys_ok_def sys_status_def
      split: prod.splits sum.splits)
qed (auto simp: db_queue_def moves_db_call db_moves_ops db_status_telemetry wf_SetInstrumentalResult
       wf_SetOutcomeType wf_SetProviderLane intro!: quiet_db_set)

lemma quiet_same_db: "sys_db s' = sys_db s \<Longrightarrow> quiet sys_ok sys_status s s'"
  by (simp add: quiet_def sys_ok_def sys_status_def)

lemma cache_call_db: "sys_db (snd (cache_call E f s)) = sys_db s"
  by (auto simp: cache_call_def sys_call_def split: prod.split option.split)

lemma on_x_db: "sys_db (snd (on_x f s)) = sys_db s"
  by (simp add: on_x_def split: prod.split)

lemma sys_write_db: "sys_db (snd (sys_write E song f dir s)) = sys_db s"
  by (simp add: sys_write_def split: prod.split option.split)

lemma service_deps_simps [simp]:
  "dp_queue (service_deps q E) = db_queue q E" "dp_ctx (service_deps q E) s = ox_ctx E (sys_x s)"
  "dp_now (service_deps q E) s = ox_now E (sys_x s)" "dp_text (service_deps q E) = dq_text q"
  "dp_lookup (service_deps q E) a t b = cache_call E (Lookup a t b)"
  "dp_store (service_deps q E) a t b c = cache_call E (Store a t b c)"
  "dp_dispatch (service_deps q E) tr = on_x (ox_dispatch E tr)"
  "dp_WriteLRC (service_deps q E) = sys_write E"
  "dp_recorder (service_deps q E) = Some (db_recorder E)"
  by (simp_all add: service_deps_def)

interpretation svc: worker_service "service_deps q E" sys_status sys_ok
  for q and E :: "'x outside"
proof (intro worker_service.intro worker_service_axioms.intro)
  show "claim_queue (dp_queue (service_deps q E)) sys_status sys_ok"
    unfolding service_deps_simps by (rule dbq.claim_queue_axioms)
qed (auto simp: service_deps_def db_recorder_def cache_call_db on_x_db sys_write_db
       RecordProviderHit_def RecordProviderMiss_def db_status_telemetry wf_bump_outcome
       wf_RecordLaneAttempts quiet_same_db
     intro!: quiet_db_set)

lemma reliable_fault [simp]: "ox_fault (reliable E) x = (None, x)"
  by (simp add: reliable_def)

lemma live_db_call:
  assumes "\<And>t d. wf_db d \<Longrightarrow> db_moves st i d (f t d)" "sys_ok s" "sys_status s i = Some Processing"
  shows "\<exists>a s'. db_call (reliable E) f s = (Inr a, s')"
proof -
  have "db_moves st i (sys_db s) (f (ox_now (reliable E) (sys_x s)) (sys_db s))"
    using assms by (simp add: sys_ok_def)
  with assms(3) show ?thesis
    by (auto simp: db_call_def sys_call_def db_moves_def db_status_claimed sys_status_def)
qed

interpretation hsvc: healthy_service "service_deps q (reliable E)" sys_status sys_ok
  for q and E :: "'x outside"
proof
  fix s :: "'x system" and i cause t
  assume ok: "sys_ok s" "sys_status s i = Some Processing"
  note live = live_db_call [OF _ ok, where E = E]
  show "\<exists>s'. qi_Complete (dp_queue (service_deps q (reliable E))) i s = (Inr (), s')"
    using live [of Done "\<lambda>t. Complete t i"] by (auto simp: db_queue_def db_moves_ops)
  show "\<exists>it s'. qi_Fail (dp_queue (service_deps q (reliable E))) i cause s = (Inr it, s')"
    using live [of Failed "\<lambda>t. Fail q t i (Some cause)"] by (auto simp: db_queue_def db_moves_ops)
  show "\<exists>it s'. qi_Defer (dp_queue (service_deps q (reliable E))) i t cause s = (Inr it, s')"
    using live [of Deferred "\<lambda>n. Defer n i t (Some cause)"] by (auto simp: db_queue_def db_moves_ops)
  show "\<exists>s'. qi_Release (dp_queue (service_deps q (reliable E))) i s = (Inr (), s')"
    using live [of Pending "\<lambda>t. Release t i"] by (auto simp: db_queue_def db_moves_ops)
  show "\<exists>it s'. qi_RetireMiss (dp_queue (service_deps q (reliable E))) i s = (Inr it, s')"
    using live [of Done "\<lambda>t. RetireMiss t i"] by (auto simp: db_queue_def db_moves_ops)
qed

end
