(* ===== verification/Retry.thy ===== *)
theory Retry
  imports Backoff
begin

text \<open>
  \<^verbatim>\<open>internal/db/retry.go\<close>: the retry helper for \<open>SQLITE_BUSY\<close>.  \<open>fn\<close> is the attempted
  transaction, \<open>wait\<close> sleeps for a delay or answers the error of the cancelled context, and
  \<open>busy\<close> is \<open>IsSQLiteBusy\<close>, which asks the driver's error type.
\<close>

definition retryBaseDelay :: duration where "retryBaseDelay = 100000000"
definition retryMaxDelay :: duration where "retryMaxDelay = 2 * second"

text \<open>\<open>n\<close> attempts are left; \<open>attempt\<close> is the loop variable.\<close>

fun retry_loop :: "(goerr \<Rightarrow> bool) \<Rightarrow> (duration \<Rightarrow> 'w \<Rightarrow> goerr option \<times> 'w) \<Rightarrow> ('w \<Rightarrow> goerr option \<times> 'w)
    \<Rightarrow> nat \<Rightarrow> int \<Rightarrow> 'w \<Rightarrow> goerr option \<times> 'w" where
  "retry_loop busy wait fn 0 attempt w = (None, w)"
| "retry_loop busy wait fn (Suc n) attempt w =
     (case fn w of
        (None, w1) \<Rightarrow> (None, w1)
      | (Some e, w1) \<Rightarrow>
          if \<not> busy e then (Some e, w1)
          else if n = 0 then (Some e, w1)
          else case wait (Geometric (attempt + 1) retryBaseDelay retryMaxDelay) w1 of
                 (Some ce, w2) \<Rightarrow> (Some ce, w2)
               | (None, w2) \<Rightarrow> retry_loop busy wait fn n (attempt + 1) w2)"

definition RetryOnBusy :: "(goerr \<Rightarrow> bool) \<Rightarrow> (duration \<Rightarrow> 'w \<Rightarrow> goerr option \<times> 'w) \<Rightarrow> int
    \<Rightarrow> ('w \<Rightarrow> goerr option \<times> 'w) \<Rightarrow> 'w \<Rightarrow> goerr option \<times> 'w" where
  "RetryOnBusy busy wait maxAttempts fn w =
     retry_loop busy wait fn (nat (if maxAttempts < 1 then 1 else maxAttempts)) 0 w"

section \<open>Lemmas\<close>

text \<open>An invariant of the attempt and of the wait is one of the whole.\<close>

lemma retry_loop_inv:
  assumes "\<And>w. I w \<Longrightarrow> I (snd (fn w))" "\<And>t w. I w \<Longrightarrow> I (snd (wait t w))"
  shows "I w \<Longrightarrow> I (snd (retry_loop busy wait fn n k w))"
proof (induction n arbitrary: k w)
  case (Suc n)
  obtain r w1 where f: "fn w = (r, w1)" by fastforce
  obtain c w2 where g: "wait (Geometric (k + 1) retryBaseDelay retryMaxDelay) w1 = (c, w2)" by fastforce
  have "I w1" using assms(1) [OF Suc.prems] by (simp add: f)
  moreover from this have "I w2" using assms(2) [of w1 "Geometric (k + 1) retryBaseDelay retryMaxDelay"] by (simp add: g)
  ultimately show ?case using Suc.IH by (simp add: f g split: option.split)
qed simp

lemma RetryOnBusy_inv:
  "(\<And>w. I w \<Longrightarrow> I (snd (fn w))) \<Longrightarrow> (\<And>t w. I w \<Longrightarrow> I (snd (wait t w))) \<Longrightarrow> I w \<Longrightarrow>
   I (snd (RetryOnBusy busy wait m fn w))"
  unfolding RetryOnBusy_def by (rule retry_loop_inv)

text \<open>What the last attempt gave: it succeeded, or the error is its own or the wait's.\<close>

lemma retry_loop_success:
  "retry_loop busy wait fn (Suc n) k w = (None, w') \<Longrightarrow> \<exists>w0. fn w0 = (None, w')"
proof (induction n arbitrary: k w)
  case 0
  then show ?case by (auto split: prod.splits option.splits if_splits)
next
  case (Suc n)
  obtain r w1 where f: "fn w = (r, w1)" by fastforce
  show ?case
  proof (cases r)
    case None
    with Suc.prems f show ?thesis by auto
  next
    case (Some e)
    with Suc.prems f show ?thesis
      by (auto simp del: retry_loop.simps simp: retry_loop.simps(2) [of _ _ _ "Suc n"]
          split: if_splits prod.splits option.splits intro: Suc.IH)
  qed
qed

lemma RetryOnBusy_success: "RetryOnBusy busy wait m fn w = (None, w') \<Longrightarrow> \<exists>w0. fn w0 = (None, w')"
proof -
  obtain n where "nat (if m < 1 then 1 else m) = Suc n" by (cases "nat (if m < 1 then 1 else m)") (auto split: if_splits)
  then show "RetryOnBusy busy wait m fn w = (None, w') \<Longrightarrow> ?thesis"
    unfolding RetryOnBusy_def by (simp del: retry_loop.simps) (rule retry_loop_success)
qed

section \<open>Counting attempts and delays\<close>

text \<open>The world with the number of attempts made and the delays slept.\<close>

definition counted :: "('w \<Rightarrow> goerr option \<times> 'w) \<Rightarrow> nat \<times> duration list \<times> 'w \<Rightarrow> goerr option \<times> nat \<times> duration list \<times> 'w" where
  "counted fn = (\<lambda>(k, ws, w). case fn w of (r, w') \<Rightarrow> (r, Suc k, ws, w'))"

definition timed :: "(duration \<Rightarrow> 'w \<Rightarrow> goerr option \<times> 'w) \<Rightarrow> duration \<Rightarrow> nat \<times> duration list \<times> 'w
    \<Rightarrow> goerr option \<times> nat \<times> duration list \<times> 'w" where
  "timed wait t = (\<lambda>(k, ws, w). case wait t w of (r, w') \<Rightarrow> (r, k, ws @ [t], w'))"

lemma counted_app: "counted fn (k, ws, w) = (case fn w of (r, w') \<Rightarrow> (r, Suc k, ws, w'))"
  by (simp add: counted_def)

lemma timed_app: "timed wait t (k, ws, w) = (case wait t w of (r, w') \<Rightarrow> (r, k, ws @ [t], w'))"
  by (simp add: timed_def)

definition retry_delays :: "nat \<Rightarrow> duration list" where
  "retry_delays n = map (\<lambda>i. Geometric (int i + 1) retryBaseDelay retryMaxDelay) [0 ..< n]"

lemma retry_delays_Suc: "retry_delays (Suc n) = retry_delays n @ [Geometric (int n + 1) retryBaseDelay retryMaxDelay]"
  by (simp add: retry_delays_def)

lemma retry_delay_range: "retryBaseDelay \<le> Geometric k retryBaseDelay retryMaxDelay
    \<and> Geometric k retryBaseDelay retryMaxDelay \<le> retryMaxDelay"
  using Geometric_bounds [of retryBaseDelay retryMaxDelay k] by (simp add: retryBaseDelay_def retryMaxDelay_def)

lemma retry_loop_counts:
  "retry_loop busy (timed wait) (counted fn) n (int a) (a, retry_delays a, w) = (r, k, ws, w') \<Longrightarrow> n > 0 \<Longrightarrow>
   a < k \<and> k \<le> a + n \<and> (ws = retry_delays (k - 1) \<or> (ws = retry_delays k \<and> k < a + n \<and> r \<noteq> None))"
proof (induction n arbitrary: a w)
  case (Suc n)
  obtain r1 w1 where f: "fn w = (r1, w1)" by fastforce
  obtain c w2 where g: "wait (Geometric (int a + 1) retryBaseDelay retryMaxDelay) w1 = (c, w2)" by fastforce
  show ?case
  proof (cases "\<exists>e. r1 = Some e \<and> busy e \<and> n > 0 \<and> c = None")
    case True
    with Suc.prems(1) f g have "retry_loop busy (timed wait) (counted fn) n (int (Suc a)) (Suc a, retry_delays (Suc a), w2)
        = (r, k, ws, w')"
      by (auto simp: counted_app timed_app retry_delays_Suc add.commute)
    from Suc.IH [OF this] True show ?thesis by auto
  next
    case False
    with Suc.prems(1) f g show ?thesis
      by (cases r1; cases c) (auto simp: counted_app timed_app retry_delays_Suc split: if_splits)
  qed
qed simp

text \<open>
  Retrying a busy database is bounded: the transaction is attempted at least once and at most
  \<open>maxAttempts\<close> times (once for a limit below one), the \<open>i\<close>-th delay is the geometric back-off of
  \<open>i\<close>, so every delay lies between 100 milliseconds and two seconds, and there is at most one
  delay per attempt, none after a success.
\<close>

theorem retry_is_bounded:
  assumes "RetryOnBusy busy (timed wait) maxAttempts (counted fn) (0, [], w) = (r, k, ws, w')"
  shows "1 \<le> k \<and> int k \<le> max 1 maxAttempts \<and> length ws \<le> k \<and> (r = None \<longrightarrow> length ws = k - 1)
    \<and> ws = retry_delays (length ws) \<and> (\<forall>t \<in> set ws. 100000000 \<le> t \<and> t \<le> 2 * second)"
proof -
  let ?n = "nat (if maxAttempts < 1 then 1 else maxAttempts)"
  have "retry_loop busy (timed wait) (counted fn) ?n (int 0) (0, retry_delays 0, w) = (r, k, ws, w')"
    using assms by (simp add: RetryOnBusy_def retry_delays_def)
  from retry_loop_counts [OF this] have
    c: "0 < k" "k \<le> ?n" "ws = retry_delays (k - 1) \<or> (ws = retry_delays k \<and> r \<noteq> None)" by (auto split: if_splits)
  have len: "length (retry_delays m) = m" for m by (simp add: retry_delays_def)
  have "\<forall>t \<in> set (retry_delays m). 100000000 \<le> t \<and> t \<le> 2 * second" for m
    using retry_delay_range by (auto simp: retry_delays_def retryBaseDelay_def retryMaxDelay_def)
  with c len show ?thesis by (auto split: if_splits)
qed

theorem retry_is_bounded_witness:
  "let (r, k, ws, w') = RetryOnBusy (\<lambda>_. True) (timed (\<lambda>t w. (None, w))) 5 (counted (\<lambda>w. (Some (errorf ''busy''), w + 1))) (0, [], 0 :: int)
   in k \<le> 5 \<and> length ws \<le> k"
proof -
  let ?R = "RetryOnBusy (\<lambda>_. True) (timed (\<lambda>t w. (None, w))) 5 (counted (\<lambda>w. (Some (errorf ''busy''), w + 1))) (0, [], 0 :: int)"
  obtain r k ws w' where R: "?R = (r, k, ws, w')" by (metis prod.collapse)
  show ?thesis using retry_is_bounded [OF R] by (simp add: R)
qed

end
