(* ===== verification/Scan_Repo.thy ===== *)
theory Scan_Repo
  imports Queue_Machine Retry
begin

text \<open>
  \<^verbatim>\<open>internal/scan/repository.go\<close>: the \<open>scan_results\<close> table.  The foreign key to \<open>libraries\<close> is
  checked against the list of known library ids, which is an argument.  The lemmas show what a
  rescan keeps: ids, paths and, unless forced, the status the queue recorded.
\<close>

section \<open>Rows and results\<close>

text \<open>The \<open>CHECK\<close> on the status column.\<close>

definition sr_status_of :: "string \<Rightarrow> sr_status option" where
  "sr_status_of s =
     (if s = ''pending'' then Some SrPending else if s = ''processing'' then Some SrProcessing
      else if s = ''done'' then Some SrDone else if s = ''failed'' then Some SrFailed else None)"

lemma sr_status_of_text [simp]: "sr_status_of (sr_status_text s) = Some s"
  by (cases s) (simp_all add: sr_status_of_def)

lemma sr_status_of_Some: "sr_status_of s = Some st \<longleftrightarrow> s = sr_status_text st"
  by (cases st) (auto simp: sr_status_of_def)

definition scan_result_of :: "sr_row \<Rightarrow> scan_result" where
  "scan_result_of r =
     \<lparr>res_ID = s_id r, res_LibraryID = s_library_id r, res_FilePath = s_file_path r,
      res_Track = zero_track\<lparr>ArtistName := s_artist r, TrackName := s_title r, AlbumName := s_album r,
                             AlbumArtist := s_album_artist r\<rparr>,
      res_Outdir = s_outdir r, res_Filename = s_filename r, res_Status = sr_status_text (s_status r),
      res_CreatedAt = Some (s_created_at r), res_UpdatedAt = None\<rparr>"

definition scanResultRows :: "sr_row list \<Rightarrow> scan_result list" where
  "scanResultRows rs = map scan_result_of rs"

section \<open>Upsert\<close>

definition UpsertBatchSize :: nat where "UpsertBatchSize = 500"
definition upsertMaxAttempts :: int where "upsertMaxAttempts = 5"

definition scan_key :: "int \<Rightarrow> string \<Rightarrow> sr_row \<Rightarrow> bool" where
  "scan_key lib path r \<longleftrightarrow> s_library_id r = lib \<and> s_file_path r = path"

definition upsert_row :: "text_lib \<Rightarrow> scan_result \<Rightarrow> sr_row \<Rightarrow> sr_row" where
  "upsert_row T res r =
     r\<lparr>s_artist := ArtistName (res_Track res), s_title := TrackName (res_Track res),
       s_album := AlbumName (res_Track res), s_album_artist := AlbumArtist (res_Track res),
       s_artist_key := NormalizeKey T (ArtistName (res_Track res)),
       s_title_key := NormalizeKey T (TrackName (res_Track res)),
       s_outdir := res_Outdir res, s_filename := res_Filename res\<rparr>"

definition new_scan_row :: "text_lib \<Rightarrow> int \<Rightarrow> int \<Rightarrow> instant \<Rightarrow> sr_status \<Rightarrow> scan_result \<Rightarrow> sr_row" where
  "new_scan_row T new_id lib now st res =
     upsert_row T res
       \<lparr>s_id = new_id, s_library_id = lib, s_file_path = res_FilePath res, s_artist = [], s_title = [],
        s_album = [], s_album_artist = [], s_artist_key = [], s_title_key = [], s_outdir = [],
        s_filename = [], s_status = st, s_created_at = formatTime now\<rparr>"

text \<open>One execution of the prepared statement.\<close>

definition upsert_one :: "text_lib \<Rightarrow> int list \<Rightarrow> instant \<Rightarrow> int \<Rightarrow> bool \<Rightarrow> scan_result \<Rightarrow> db \<Rightarrow> goerr option \<times> db" where
  "upsert_one T libs now lib force res d =
     (case sr_status_of (if res_Status res = [] then ''pending'' else res_Status res) of
        None \<Rightarrow> (Some (errorf ''CHECK constraint failed: scan_results''), d)
      | Some st \<Rightarrow>
          if lib \<notin> set libs then (Some (errorf ''FOREIGN KEY constraint failed''), d)
          else if first_where (scan_key lib (res_FilePath res)) (scan_results d) = None
          then (None, d\<lparr>scan_results := scan_results d @ [new_scan_row T (sr_seq d) lib now st res],
                        sr_seq := sr_seq d + 1\<rparr>)
          else (None, d\<lparr>scan_results :=
                  update_where (scan_key lib (res_FilePath res))
                    (\<lambda>r. let r1 = upsert_row T res r in if force then r1\<lparr>s_status := st\<rparr> else r1)
                    (scan_results d)\<rparr>))"

text \<open>The batch runs in a transaction of the caller, which rolls back on an error.\<close>

fun upsertBatch :: "text_lib \<Rightarrow> int list \<Rightarrow> instant \<Rightarrow> int \<Rightarrow> bool \<Rightarrow> scan_result list \<Rightarrow> db \<Rightarrow> goerr option \<times> db" where
  "upsertBatch T libs now lib force [] d = (None, d)"
| "upsertBatch T libs now lib force (res # rs) d =
     (case upsert_one T libs now lib force res d of
        (Some e, d1) \<Rightarrow> (Some (wrapf (''scan: upsert '' @ res_FilePath res) e), d1)
      | (None, d1) \<Rightarrow> upsertBatch T libs now lib force rs d1)"

function batches :: "nat \<Rightarrow> 'a list \<Rightarrow> 'a list list" where
  "batches n xs = (if n = 0 \<or> xs = [] then [] else take n xs # batches n (drop n xs))"
  by pat_completeness auto
termination by (relation "measure (\<lambda>(n, xs). length xs)") auto

declare batches.simps [simp del]

lemma concat_batches: "n > 0 \<Longrightarrow> concat (batches n xs) = xs"
  by (induction n xs rule: batches.induct) (simp add: batches.simps)

text \<open>The environment of the repository: the context, the error of a transaction that fails to
  begin, run or commit (asked once per attempt), the driver's busy test and the wait.\<close>

record 'x scan_env =
  sc_ctx :: "'x \<Rightarrow> goerr option"
  sc_now :: "'x \<Rightarrow> instant"
  sc_begin :: "'x \<Rightarrow> goerr option \<times> 'x"
  sc_busy :: "goerr \<Rightarrow> bool"
  sc_wait :: "duration \<Rightarrow> 'x \<Rightarrow> goerr option \<times> 'x"

definition upsert_attempt_tx :: "text_lib \<Rightarrow> 'x scan_env \<Rightarrow> int list \<Rightarrow> int \<Rightarrow> bool \<Rightarrow> scan_result list
    \<Rightarrow> db \<times> 'x \<Rightarrow> goerr option \<times> db \<times> 'x" where
  "upsert_attempt_tx T E libs lib force batch = (\<lambda>(d, x).
     case sc_begin E x of
       (Some e, x1) \<Rightarrow> (Some e, d, x1)
     | (None, x1) \<Rightarrow>
         (case upsertBatch T libs (sc_now E x1) lib force batch d of
            (Some e, _) \<Rightarrow> (Some e, d, x1)
          | (None, d1) \<Rightarrow> (None, d1, x1)))"

definition wait_db :: "'x scan_env \<Rightarrow> duration \<Rightarrow> db \<times> 'x \<Rightarrow> goerr option \<times> db \<times> 'x" where
  "wait_db E t = (\<lambda>(d, x). case sc_wait E t x of (r, x1) \<Rightarrow> (r, d, x1))"

text \<open>The loop returns an error that ends it and the number of failed batches.\<close>

fun upsert_loop :: "text_lib \<Rightarrow> 'x scan_env \<Rightarrow> int list \<Rightarrow> int \<Rightarrow> bool \<Rightarrow> scan_result list list \<Rightarrow> int
    \<Rightarrow> db \<times> 'x \<Rightarrow> (goerr option \<times> int) \<times> db \<times> 'x" where
  "upsert_loop T E libs lib force [] failed s = ((None, failed), s)"
| "upsert_loop T E libs lib force (b # bs) failed s =
     (case sc_ctx E (snd s) of
        Some e \<Rightarrow> ((Some (wrapf ''scan: upsert canceled'' e), failed), s)
      | None \<Rightarrow>
          (case RetryOnBusy (sc_busy E) (wait_db E) upsertMaxAttempts (upsert_attempt_tx T E libs lib force b) s of
             (None, s1) \<Rightarrow> upsert_loop T E libs lib force bs failed s1
           | (Some e, s1) \<Rightarrow>
               (case sc_ctx E (snd s1) of
                  Some ce \<Rightarrow> ((Some (wrapf ''scan: upsert canceled'' ce), failed), s1)
                | None \<Rightarrow> upsert_loop T E libs lib force bs (failed + 1) s1)))"

definition Upsert :: "text_lib \<Rightarrow> 'x scan_env \<Rightarrow> int list \<Rightarrow> int \<Rightarrow> scan_result list \<Rightarrow> bool
    \<Rightarrow> db \<times> 'x \<Rightarrow> goerr option \<times> db \<times> 'x" where
  "Upsert T E libs lib results force s =
     (if results = [] then (None, s)
      else
        let bs = batches UpsertBatchSize results
        in case upsert_loop T E libs lib force bs 0 s of
             ((Some e, _), s1) \<Rightarrow> (Some e, s1)
           | ((None, failed), s1) \<Rightarrow>
               (if failed > 0
                then Some (errorf (''scan: '' @ itoa failed @ '' of '' @ itoa (int (length bs)) @ '' upsert batches failed''))
                else None, s1))"

section \<open>Reading\<close>

definition ListByLibrary :: "int \<Rightarrow> db \<Rightarrow> scan_result list" where
  "ListByLibrary lib d =
     scanResultRows (sort_key s_id (filter (\<lambda>r. s_library_id r = lib) (scan_results d)))"

definition ListPendingByLibrary :: "int \<Rightarrow> db \<Rightarrow> scan_result list" where
  "ListPendingByLibrary lib d =
     scanResultRows (sort_key s_id
       (filter (\<lambda>r. s_library_id r = lib \<and> s_status r = SrPending) (scan_results d)))"

record scan_filter =
  sf_LibraryID :: "int option"
  sf_Status :: string
  sf_Limit :: int

definition List_scans :: "scan_filter \<Rightarrow> db \<Rightarrow> scan_result list" where
  "List_scans flt d =
     scanResultRows (limit_rows (sf_Limit flt) (sort_key s_id
       (filter (\<lambda>r. (case sf_LibraryID flt of None \<Rightarrow> True | Some l \<Rightarrow> s_library_id r = l)
            \<and> (sf_Status flt = [] \<or> sr_status_text (s_status r) = sf_Status flt)) (scan_results d))))"

definition FindByTrack :: "text_lib \<Rightarrow> string \<Rightarrow> string \<Rightarrow> db \<Rightarrow> scan_result list" where
  "FindByTrack T artist title d =
     (let ak = NormalizeKey T artist; tk = NormalizeKey T title
      in if ak = [] \<or> tk = [] then []
         else scanResultRows (sort_key (\<lambda>r. (if s_status r = SrDone then 1 else 0 :: int, s_id r))
                (filter (\<lambda>r. s_artist_key r = ak \<and> s_title_key r = tk) (scan_results d))))"

definition ListDeferred :: "scan_filter \<Rightarrow> db \<Rightarrow> scan_result list" where
  "ListDeferred flt d =
     scanResultRows (limit_rows (sf_Limit flt) (sort_key s_id
       (filter (\<lambda>r. (\<exists>w \<in> set (work_queue d). q_status w = Deferred \<and> linked d (q_id w) (s_id r))
            \<and> (case sf_LibraryID flt of None \<Rightarrow> True | Some l \<Rightarrow> s_library_id r = l)) (scan_results d))))"

definition CountByLibrary :: "int \<Rightarrow> db \<Rightarrow> int" where
  "CountByLibrary lib d = count_where (\<lambda>r. s_library_id r = lib) (scan_results d)"

section \<open>Deleting and marking\<close>

text \<open>Deleting a scan result cascades to the junction table and clears \<open>work_queue.scan_result_id\<close>,
  an \<open>UPDATE\<close> that fires the timestamp trigger.\<close>

definition delete_scans :: "instant \<Rightarrow> (sr_row \<Rightarrow> bool) \<Rightarrow> db \<Rightarrow> db" where
  "delete_scans now p d =
     (let gone = map s_id (filter p (scan_results d));
          d1 = update_wq now (\<lambda>w. case q_scan_result_id w of None \<Rightarrow> False | Some i \<Rightarrow> i \<in> set gone)
                 (\<lambda>w. w\<lparr>q_scan_result_id := None\<rparr>) d
      in d1\<lparr>scan_results := delete_where p (scan_results d),
            links := filter (\<lambda>(_, s). s \<notin> set gone) (links d)\<rparr>)"

definition ClearByLibrary :: "instant \<Rightarrow> int \<Rightarrow> db \<Rightarrow> int \<times> db" where
  "ClearByLibrary now lib d = (CountByLibrary lib d, delete_scans now (\<lambda>r. s_library_id r = lib) d)"

definition ClearByLibraryTx :: "instant \<Rightarrow> int \<Rightarrow> db \<Rightarrow> int \<times> db" where
  "ClearByLibraryTx now lib d = ClearByLibrary now lib d"

fun set_each :: "int list \<Rightarrow> sr_status \<Rightarrow> db \<Rightarrow> db option" where
  "set_each [] st d = Some d"
| "set_each (i # is) st d =
     (if count_where (\<lambda>r. s_id r = i) (scan_results d) = 0 then None
      else set_each is st
             (d\<lparr>scan_results := update_where (\<lambda>r. s_id r = i) (\<lambda>r. r\<lparr>s_status := st\<rparr>) (scan_results d)\<rparr>))"

definition SetStatus :: "int list \<Rightarrow> string \<Rightarrow> db \<Rightarrow> unit result \<times> db" where
  "SetStatus ids status d =
     (if ids = [] then (Inr (), d)
      else case sr_status_of status of
             None \<Rightarrow> (Inl (errorf (''scan: unsupported status \"'' @ status @ ''\"'')), d)
           | Some st \<Rightarrow> (case set_each ids st d of None \<Rightarrow> (Inl sql_no_rows, d) | Some d1 \<Rightarrow> (Inr (), d1)))"

section \<open>What a rescan keeps\<close>

definition wf_scans :: "db \<Rightarrow> bool" where
  "wf_scans d \<longleftrightarrow> wf_db d \<and> distinct (map (\<lambda>r. (s_library_id r, s_file_path r)) (scan_results d))"

text \<open>\<open>same_file\<close>: an existing row after a rescan of library \<open>lib\<close>.\<close>

definition same_file :: "int \<Rightarrow> bool \<Rightarrow> sr_row \<Rightarrow> sr_row \<Rightarrow> bool" where
  "same_file lib force r r' \<longleftrightarrow>
     s_id r' = s_id r \<and> s_library_id r' = s_library_id r \<and> s_file_path r' = s_file_path r
     \<and> s_created_at r' = s_created_at r
     \<and> (s_library_id r \<noteq> lib \<longrightarrow> r' = r) \<and> (\<not> force \<longrightarrow> s_status r' = s_status r)"

definition rescan_keeps :: "int \<Rightarrow> bool \<Rightarrow> db \<Rightarrow> db \<Rightarrow> bool" where
  "rescan_keeps lib force d d' \<longleftrightarrow>
     work_queue d' = work_queue d \<and> links d' = links d
     \<and> (\<exists>f new. scan_results d' = map f (scan_results d) @ new
          \<and> (\<forall>r \<in> set (scan_results d). same_file lib force r (f r))
          \<and> (\<forall>r \<in> set new. s_library_id r = lib))"

lemma same_file_refl: "same_file lib force r r"
  by (simp add: same_file_def)

lemma same_file_trans: "same_file lib force r s \<Longrightarrow> same_file lib force s t \<Longrightarrow> same_file lib force r t"
  by (auto simp: same_file_def)

lemma rescan_refl: "rescan_keeps lib force d d"
  unfolding rescan_keeps_def
  by (intro conjI exI [of _ id] exI [of _ "[]"]) (simp_all add: same_file_refl)

lemma rescan_trans:
  assumes "rescan_keeps lib force d d1" "rescan_keeps lib force d1 d2"
  shows "rescan_keeps lib force d d2"
proof -
  from assms obtain f new g new' where
    f: "scan_results d1 = map f (scan_results d) @ new" "\<forall>r \<in> set (scan_results d). same_file lib force r (f r)"
      "\<forall>r \<in> set new. s_library_id r = lib"
    and g: "scan_results d2 = map g (scan_results d1) @ new'" "\<forall>r \<in> set (scan_results d1). same_file lib force r (g r)"
      "\<forall>r \<in> set new'. s_library_id r = lib"
    unfolding rescan_keeps_def by blast
  have rows: "scan_results d2 = map (g \<circ> f) (scan_results d) @ (map g new @ new')" using f g by simp
  have same: "\<forall>r \<in> set (scan_results d). same_file lib force r ((g \<circ> f) r)"
    using same_file_trans f g by auto
  have lib: "\<forall>r \<in> set (map g new @ new'). s_library_id r = lib"
    using f g by (auto simp: same_file_def)
  have frame: "work_queue d2 = work_queue d" "links d2 = links d"
    using assms by (simp_all add: rescan_keeps_def)
  show ?thesis unfolding rescan_keeps_def
    by (intro conjI frame exI [of _ "g \<circ> f"] exI [of _ "map g new @ new'"] rows same lib)
qed

lemma upsert_row_simps [simp]:
  "s_id (upsert_row T res r) = s_id r" "s_library_id (upsert_row T res r) = s_library_id r"
  "s_file_path (upsert_row T res r) = s_file_path r" "s_status (upsert_row T res r) = s_status r"
  "s_created_at (upsert_row T res r) = s_created_at r"
  by (simp_all add: upsert_row_def)

lemma new_scan_row_simps [simp]:
  "s_id (new_scan_row T n lib now st res) = n" "s_library_id (new_scan_row T n lib now st res) = lib"
  "s_file_path (new_scan_row T n lib now st res) = res_FilePath res"
  "s_status (new_scan_row T n lib now st res) = st"
  by (simp_all add: new_scan_row_def)

text \<open>The three outcomes of the prepared statement.\<close>

definition conflict_row :: "text_lib \<Rightarrow> int \<Rightarrow> bool \<Rightarrow> sr_status \<Rightarrow> scan_result \<Rightarrow> sr_row \<Rightarrow> sr_row" where
  "conflict_row T lib force st res r =
     (if scan_key lib (res_FilePath res) r
      then (let r1 = upsert_row T res r in if force then r1\<lparr>s_status := st\<rparr> else r1) else r)"

lemma conflict_same: "same_file lib force r (conflict_row T lib force st res r)"
proof (cases "scan_key lib (res_FilePath res) r")
  case True
  then have "s_library_id r = lib" by (simp add: scan_key_def)
  with True show ?thesis by (cases force) (simp_all add: conflict_row_def same_file_def)
qed (simp add: conflict_row_def same_file_refl)

lemma upsert_one_cases:
  assumes "upsert_one T libs now lib force res d = (e, d')"
  obtains (err) err where "e = Some err" "d' = d"
  | (new) st where "e = None" "first_where (scan_key lib (res_FilePath res)) (scan_results d) = None"
      "d' = d\<lparr>scan_results := scan_results d @ [new_scan_row T (sr_seq d) lib now st res], sr_seq := sr_seq d + 1\<rparr>"
  | (old) st where "e = None" "first_where (scan_key lib (res_FilePath res)) (scan_results d) \<noteq> None"
      "d' = d\<lparr>scan_results := map (conflict_row T lib force st res) (scan_results d)\<rparr>"
proof -
  have m: "update_where (scan_key lib (res_FilePath res))
      (\<lambda>r. let r1 = upsert_row T res r in if force then r1\<lparr>s_status := st\<rparr> else r1) t
    = map (conflict_row T lib force st res) t" for st t
    by (simp add: update_where_def conflict_row_def)
  note u = assms [unfolded upsert_one_def m]
  show thesis
  proof (cases "sr_status_of (if res_Status res = [] then ''pending'' else res_Status res)")
    case None
    with u show thesis by (intro err [of "errorf ''CHECK constraint failed: scan_results''"]) simp_all
  next
    case (Some st)
    show thesis
    proof (cases "lib \<in> set libs")
      case False
      with u Some show thesis by (intro err [of "errorf ''FOREIGN KEY constraint failed''"]) simp_all
    next
      case True
      show thesis
      proof (cases "first_where (scan_key lib (res_FilePath res)) (scan_results d)")
        case None
        with u Some True show thesis by (intro new [of st]) simp_all
      next
        case (Some r)
        with u \<open>sr_status_of _ = Some st\<close> True show thesis by (intro old [of st]) simp_all
      qed
    qed
  qed
qed

lemma upsert_one_keeps: "upsert_one T libs now lib force res d = (e, d') \<Longrightarrow> rescan_keeps lib force d d'"
proof (erule upsert_one_cases)
  fix st assume "d' = d\<lparr>scan_results := scan_results d @ [new_scan_row T (sr_seq d) lib now st res], sr_seq := sr_seq d + 1\<rparr>"
  then show "rescan_keeps lib force d d'" unfolding rescan_keeps_def
    by (intro conjI exI [of _ id] exI [of _ "[new_scan_row T (sr_seq d) lib now st res]"])
       (simp_all add: same_file_refl)
next
  fix st assume "d' = d\<lparr>scan_results := map (conflict_row T lib force st res) (scan_results d)\<rparr>"
  then show "rescan_keeps lib force d d'" unfolding rescan_keeps_def
    by (intro conjI exI [of _ "conflict_row T lib force st res"] exI [of _ "[]"]) (simp_all add: conflict_same)
qed (simp add: rescan_refl)

lemma upsert_one_wf: "wf_scans d \<Longrightarrow> upsert_one T libs now lib force res d = (e, d') \<Longrightarrow> wf_scans d'"
proof (erule upsert_one_cases)
  fix st assume wf: "wf_scans d" and none: "first_where (scan_key lib (res_FilePath res)) (scan_results d) = None"
    and d': "d' = d\<lparr>scan_results := scan_results d @ [new_scan_row T (sr_seq d) lib now st res], sr_seq := sr_seq d + 1\<rparr>"
  have "\<forall>r \<in> set (scan_results d). \<not> (s_library_id r = lib \<and> s_file_path r = res_FilePath res)"
    using none by (auto simp: first_where_None scan_key_def)
  then have "distinct (map (\<lambda>r. (s_library_id r, s_file_path r)) (scan_results d'))"
    using wf by (auto simp: d' wf_scans_def)
  moreover have ids: "\<forall>r \<in> set (scan_results d). s_id r < sr_seq d" using wf by (simp add: wf_scans_def wf_db_def)
  then have "distinct (map s_id (scan_results d'))" using wf by (auto simp: d' wf_scans_def wf_db_def)
  moreover have "\<forall>i \<in> s_id ` set (scan_results d'). i < sr_seq d'" using ids by (auto simp: d')
  moreover have "\<forall>(w, s) \<in> set (links d'). w \<in> q_id ` set (work_queue d') \<and> s \<in> s_id ` set (scan_results d')"
    using wf by (auto simp: d' wf_scans_def wf_db_def)
  moreover have "work_queue d' = work_queue d" "wq_seq d' = wq_seq d" by (simp_all add: d')
  ultimately show "wf_scans d'" using wf by (simp add: wf_scans_def wf_db_def)
next
  fix st assume wf: "wf_scans d"
    and d': "d' = d\<lparr>scan_results := map (conflict_row T lib force st res) (scan_results d)\<rparr>"
  have keep: "s_id (conflict_row T lib force st res r) = s_id r"
    "s_library_id (conflict_row T lib force st res r) = s_library_id r"
    "s_file_path (conflict_row T lib force st res r) = s_file_path r" for r
    using conflict_same [of lib force r T st res] by (simp_all add: same_file_def)
  have "map s_id (scan_results d') = map s_id (scan_results d)"
    "map (\<lambda>r. (s_library_id r, s_file_path r)) (scan_results d') = map (\<lambda>r. (s_library_id r, s_file_path r)) (scan_results d)"
    by (simp_all add: d' keep)
  moreover from this(1) have "s_id ` set (scan_results d') = s_id ` set (scan_results d)" by (metis set_map)
  moreover have "work_queue d' = work_queue d" "links d' = links d" "wq_seq d' = wq_seq d" "sr_seq d' = sr_seq d"
    by (simp_all add: d')
  ultimately show "wf_scans d'" using wf by (simp add: wf_scans_def wf_db_def)
qed simp

lemma upsert_one_stored:
  "upsert_one T libs now lib force res d = (None, d') \<Longrightarrow> \<exists>r \<in> set (scan_results d'). scan_key lib (res_FilePath res) r"
proof (erule upsert_one_cases)
  fix st assume some: "first_where (scan_key lib (res_FilePath res)) (scan_results d) \<noteq> None"
    and d': "d' = d\<lparr>scan_results := map (conflict_row T lib force st res) (scan_results d)\<rparr>"
  from some obtain r where "r \<in> set (scan_results d)" "scan_key lib (res_FilePath res) r"
    by (auto simp: first_where_None)
  then show "\<exists>r \<in> set (scan_results d'). scan_key lib (res_FilePath res) r"
    using conflict_same [of lib force r T st res]
    by (intro bexI [of _ "conflict_row T lib force st res r"]) (auto simp: d' scan_key_def same_file_def)
qed (auto simp: scan_key_def)

lemma rescan_keeps_stored:
  "rescan_keeps lib force d d' \<Longrightarrow> \<exists>r \<in> set (scan_results d). scan_key l p r \<Longrightarrow> \<exists>r \<in> set (scan_results d'). scan_key l p r"
proof -
  assume "rescan_keeps lib force d d'" "\<exists>r \<in> set (scan_results d). scan_key l p r"
  then obtain f new r where "scan_results d' = map f (scan_results d) @ new" "r \<in> set (scan_results d)"
    "scan_key l p r" "same_file lib force r (f r)" unfolding rescan_keeps_def by blast
  then show "\<exists>r \<in> set (scan_results d'). scan_key l p r"
    by (intro bexI [of _ "f r"]) (auto simp: scan_key_def same_file_def)
qed

lemma upsertBatch_keeps:
  "upsertBatch T libs now lib force rs d = (e, d') \<Longrightarrow>
   rescan_keeps lib force d d' \<and> (wf_scans d \<longrightarrow> wf_scans d')
   \<and> (e = None \<longrightarrow> (\<forall>res \<in> set rs. \<exists>r \<in> set (scan_results d'). scan_key lib (res_FilePath res) r))"
proof (induction rs arbitrary: d)
  case (Cons res rs)
  obtain e1 d1 where u: "upsert_one T libs now lib force res d = (e1, d1)" by fastforce
  note k1 = upsert_one_keeps [OF u] and w1 = upsert_one_wf [OF _ u]
  show ?case
  proof (cases e1)
    case (Some x)
    with Cons.prems u k1 w1 show ?thesis by auto
  next
    case None
    with Cons.prems u have rest: "upsertBatch T libs now lib force rs d1 = (e, d')" by simp
    note IH = Cons.IH [OF rest] and st = upsert_one_stored [OF u [unfolded None]]
    have "\<exists>r \<in> set (scan_results d'). scan_key lib (res_FilePath res) r"
      using rescan_keeps_stored [of lib force d1 d'] IH st by blast
    with IH k1 w1 rescan_trans show ?thesis by auto
  qed
qed (simp add: rescan_refl)

text \<open>Through the retries and the batches: \<open>rescan_ok\<close> is what every attempt and wait keeps.\<close>

definition rescan_ok :: "int \<Rightarrow> bool \<Rightarrow> db \<Rightarrow> db \<times> 'x \<Rightarrow> bool" where
  "rescan_ok lib force d s \<longleftrightarrow> wf_scans (fst s) \<and> rescan_keeps lib force d (fst s)"

definition stored :: "int \<Rightarrow> scan_result list \<Rightarrow> db \<Rightarrow> bool" where
  "stored lib rs d \<longleftrightarrow> (\<forall>res \<in> set rs. \<exists>r \<in> set (scan_results d). scan_key lib (res_FilePath res) r)"

lemma rescan_attempt:
  "rescan_ok lib force d s \<Longrightarrow> rescan_ok lib force d (snd (upsert_attempt_tx T E libs lib force b s))"
proof -
  assume ok: "rescan_ok lib force d s"
  obtain d0 x where s: "s = (d0, x)" by (cases s)
  obtain m x1 where m: "sc_begin E x = (m, x1)" by fastforce
  obtain e d1 where u: "upsertBatch T libs (sc_now E x1) lib force b d0 = (e, d1)" by fastforce
  have ok0: "wf_scans d0" "rescan_keeps lib force d d0" using ok by (simp_all add: rescan_ok_def s)
  have "wf_scans d1 \<and> rescan_keeps lib force d d1"
    using upsertBatch_keeps [OF u] ok0(1) rescan_trans [OF ok0(2)] by blast
  with ok0 show ?thesis by (cases m; cases e) (simp_all add: upsert_attempt_tx_def s m u rescan_ok_def)
qed

lemma rescan_wait: "rescan_ok lib force d s \<Longrightarrow> rescan_ok lib force d (snd (wait_db E t s))"
  by (auto simp: wait_db_def rescan_ok_def split: prod.splits)

lemma attempt_stores: "upsert_attempt_tx T E libs lib force b s = (None, s') \<Longrightarrow> stored lib b (fst s')"
  using upsertBatch_keeps by (fastforce simp: upsert_attempt_tx_def stored_def split: prod.splits option.splits)

lemma stored_keeps: "stored lib b d \<Longrightarrow> rescan_keeps lib force d d' \<Longrightarrow> stored lib b d'"
  using rescan_keeps_stored by (fastforce simp: stored_def)

lemma upsert_loop_keeps:
  assumes "rescan_ok lib force d s" "upsert_loop T E libs lib force bs failed s = ((e, failed'), s')"
  shows "rescan_ok lib force d s' \<and> failed \<le> failed'
    \<and> (e = None \<and> failed' = failed \<longrightarrow> stored lib (concat bs) (fst s')) \<and> rescan_keeps lib force (fst s) (fst s')"
  using assms
proof (induction bs arbitrary: failed s)
  case Nil
  then show ?case by (auto simp: stored_def rescan_refl)
next
  case (Cons b bs)
  let ?R = "RetryOnBusy (sc_busy E) (wait_db E) upsertMaxAttempts (upsert_attempt_tx T E libs lib force b)"
  obtain r s1 where r: "?R s = (r, s1)" by (metis prod.collapse)
  have "rescan_ok lib force d0 (snd (?R s))" if "rescan_ok lib force d0 s" for d0
    using that by (intro RetryOnBusy_inv [where I = "rescan_ok lib force d0"] rescan_attempt rescan_wait)
  then have inv: "rescan_ok lib force d0 s \<Longrightarrow> rescan_ok lib force d0 s1" for d0 by (simp add: r)
  have k1: "rescan_ok lib force d s1" using inv Cons.prems(1) by blast
  have k0: "rescan_keeps lib force (fst s) (fst s1)"
    using inv [of "fst s"] Cons.prems(1) by (simp add: rescan_ok_def rescan_refl)
  show ?case
  proof (cases "sc_ctx E (snd s)")
    case (Some ce)
    with Cons.prems show ?thesis by (auto simp: rescan_refl)
  next
    case ctx: None
    show ?thesis
    proof (cases r)
      case None
      with Cons.prems r ctx have rest: "upsert_loop T E libs lib force bs failed s1 = ((e, failed'), s')" by simp
      note IH = Cons.IH [OF k1 rest]
      have "stored lib b (fst s1)" using RetryOnBusy_success [OF r [unfolded None]] attempt_stores by blast
      then have "stored lib b (fst s')" using IH stored_keeps by blast
      moreover have "rescan_keeps lib force (fst s) (fst s')" using IH k0 rescan_trans by blast
      moreover have "stored lib (concat (b # bs)) x = (stored lib b x \<and> stored lib (concat bs) x)" for x
        by (auto simp: stored_def)
      ultimately show ?thesis using IH by simp
    next
      case (Some x)
      show ?thesis
      proof (cases "sc_ctx E (snd s1)")
        case (Some ce)
        with Cons.prems r ctx \<open>r = Some x\<close> k1 k0 show ?thesis by auto
      next
        case None
        with Cons.prems r ctx \<open>r = Some x\<close>
        have rest: "upsert_loop T E libs lib force bs (failed + 1) s1 = ((e, failed'), s')" by simp
        have "rescan_keeps lib force (fst s) (fst s')" using Cons.IH [OF k1 rest] k0 rescan_trans by blast
        with Cons.IH [OF k1 rest] show ?thesis by simp
      qed
    qed
  qed
qed

lemma Upsert_keeps:
  assumes "wf_scans (fst s)" and "Upsert T E libs lib results force s = (e, s')"
  shows "rescan_ok lib force (fst s) s' \<and> (e = None \<longrightarrow> stored lib results (fst s'))"
proof -
  have ok: "rescan_ok lib force (fst s) s" using assms(1) by (simp add: rescan_ok_def rescan_refl)
  show ?thesis
  proof (cases "results = []")
    case True
    with assms(2) ok show ?thesis by (auto simp: Upsert_def stored_def)
  next
    case False
    obtain e1 failed s1 where l: "upsert_loop T E libs lib force (batches UpsertBatchSize results) 0 s = ((e1, failed), s1)"
      by (metis prod.collapse)
    have "concat (batches UpsertBatchSize results) = results" by (simp add: concat_batches UpsertBatchSize_def)
    with upsert_loop_keeps [OF ok l] assms(2) False l show ?thesis
      by (cases e1) (auto simp: Upsert_def Let_def split: if_splits)
  qed
qed

text \<open>
  C22. A rescan never loses work: whatever transactions fail, time out or are cancelled on the way,
  \<open>Upsert\<close> keeps the scan table well formed with one row per file, leaves the queue, its links and the
  rows of other libraries as they are, and keeps id, path, creation time and, unless it is a forced
  rescan, the status of every row; and when it returns no error, every result has its row.
\<close>

theorem rescan_preserves:
  assumes "wf_scans (fst s)" and "Upsert T E libs lib results force s = (e, s')"
  shows "wf_scans (fst s') \<and> work_queue (fst s') = work_queue (fst s) \<and> links (fst s') = links (fst s)
    \<and> (\<forall>r \<in> set (scan_results (fst s)). \<exists>r' \<in> set (scan_results (fst s')). same_file lib force r r')
    \<and> (\<forall>r' \<in> set (scan_results (fst s')). s_library_id r' \<noteq> lib \<longrightarrow> r' \<in> set (scan_results (fst s)))
    \<and> (e = None \<longrightarrow> (\<forall>res \<in> set results. \<exists>r \<in> set (scan_results (fst s')). scan_key lib (res_FilePath res) r))"
proof -
  from Upsert_keeps [OF assms] obtain f new where "wf_scans (fst s')" "work_queue (fst s') = work_queue (fst s)" "links (fst s') = links (fst s)"
    "scan_results (fst s') = map f (scan_results (fst s)) @ new"
    "\<forall>r \<in> set (scan_results (fst s)). same_file lib force r (f r)" "\<forall>r \<in> set new. s_library_id r = lib"
    "e = None \<longrightarrow> stored lib results (fst s')" unfolding rescan_ok_def rescan_keeps_def by blast
  then show ?thesis by (auto simp: stored_def same_file_def)
qed

text \<open>Two libraries' results and an environment without faults.\<close>

definition sample_scan_env :: "unit scan_env" where
  "sample_scan_env = \<lparr>sc_ctx = (\<lambda>_. None), sc_now = (\<lambda>_. second), sc_begin = (\<lambda>x. (None, x)),
     sc_busy = (\<lambda>_. True), sc_wait = (\<lambda>_ x. (None, x))\<rparr>"

definition sample_result :: "string \<Rightarrow> scan_result" where
  "sample_result p = \<lparr>res_ID = 0, res_LibraryID = 7, res_FilePath = p, res_Track = zero_track, res_Outdir = [],
     res_Filename = [], res_Status = [], res_CreatedAt = None, res_UpdatedAt = None\<rparr>"

theorem rescan_preserves_witness:
  "wf_scans (fst (snd (Upsert \<lparr>tl_transform = Some, tl_lower = id\<rparr> sample_scan_env [7] 7
      [sample_result ''/m/a.mp3'', sample_result ''/m/b.mp3''] False (empty_db, ()))))"
proof -
  let ?s = "(empty_db, ())" and ?T = "\<lparr>tl_transform = Some, tl_lower = id\<rparr>"
  obtain e s' where u: "Upsert ?T sample_scan_env [7] 7 [sample_result ''/m/a.mp3'', sample_result ''/m/b.mp3''] False ?s = (e, s')"
    by (metis prod.collapse)
  have "wf_scans (fst ?s)" using wf_empty_db by (simp add: wf_scans_def empty_db_def)
  from rescan_preserves [OF this u] show ?thesis by (simp add: u)
qed

section \<open>Invariants of the upsert\<close>

text \<open>What one statement keeps, \<open>Upsert\<close> keeps.\<close>

lemma upsertBatch_inv:
  assumes "\<And>res d. res \<in> set rs \<Longrightarrow> I d \<Longrightarrow> I (snd (upsert_one T libs now lib force res d))"
  shows "I d \<Longrightarrow> I (snd (upsertBatch T libs now lib force rs d))"
  using assms
proof (induction rs arbitrary: d)
  case (Cons res rs)
  obtain e d1 where u: "upsert_one T libs now lib force res d = (e, d1)" by fastforce
  have "I d1" using Cons.prems(1) Cons.prems(2) [of res d] by (simp add: u)
  with Cons u show ?case by (cases e) simp_all
qed simp

lemma upsert_attempt_inv:
  assumes "\<And>now res d. res \<in> set rs \<Longrightarrow> I d \<Longrightarrow> I (snd (upsert_one T libs now lib force res d))" "I (fst s)"
  shows "I (fst (snd (upsert_attempt_tx T E libs lib force rs s)))"
proof -
  obtain d x where s: "s = (d, x)" by fastforce
  obtain m x1 where m: "sc_begin E x = (m, x1)" by fastforce
  obtain e d1 where b: "upsertBatch T libs (sc_now E x1) lib force rs d = (e, d1)" by fastforce
  have "I d1" using upsertBatch_inv [of rs I, OF assms(1)] assms(2) b s by (metis fst_conv snd_conv)
  with assms(2) s m b show ?thesis by (cases m; cases e) (simp_all add: upsert_attempt_tx_def)
qed

lemma upsert_loop_inv:
  assumes "\<And>now res d. res \<in> set (concat bs) \<Longrightarrow> I d \<Longrightarrow> I (snd (upsert_one T libs now lib force res d))" "I (fst s)"
  shows "I (fst (snd (upsert_loop T E libs lib force bs failed s)))"
  using assms
proof (induction bs arbitrary: failed s)
  case (Cons b bs)
  let ?R = "RetryOnBusy (sc_busy E) (wait_db E) upsertMaxAttempts (upsert_attempt_tx T E libs lib force b)"
  obtain r s1 where r: "?R s = (r, s1)" by (metis prod.collapse)
  have stmt: "res \<in> set b \<Longrightarrow> I d \<Longrightarrow> I (snd (upsert_one T libs now lib force res d))" for now res d
    using Cons.prems(1) by simp
  have one: "I (fst s) \<Longrightarrow> I (fst (snd (upsert_attempt_tx T E libs lib force b s)))" for s
    by (rule upsert_attempt_inv [where I = I, OF stmt])
  have wait: "I (fst s) \<Longrightarrow> I (fst (snd (wait_db E t s)))" for t s
    by (cases s) (auto simp: wait_db_def split: prod.split)
  have "I (fst (snd (?R s)))" by (rule RetryOnBusy_inv [where I = "\<lambda>s. I (fst s)", OF one wait Cons.prems(2)])
  then have "I (fst s1)" by (simp add: r)
  moreover have "I (fst (snd (upsert_loop T E libs lib force bs f s1)))" if "I (fst s1)" for f
    using Cons.IH [OF _ that] Cons.prems(1) by simp
  moreover have "upsert_loop T E libs lib force (b # bs) failed s =
      (case sc_ctx E (snd s) of Some e \<Rightarrow> ((Some (wrapf ''scan: upsert canceled'' e), failed), s)
       | None \<Rightarrow> (case r of None \<Rightarrow> upsert_loop T E libs lib force bs failed s1
           | Some _ \<Rightarrow> (case sc_ctx E (snd s1) of
                Some ce \<Rightarrow> ((Some (wrapf ''scan: upsert canceled'' ce), failed), s1)
              | None \<Rightarrow> upsert_loop T E libs lib force bs (failed + 1) s1)))"
    using r by (simp split: option.split)
  ultimately show ?case using Cons.prems(2)
    by (cases r; cases "sc_ctx E (snd s)"; cases "sc_ctx E (snd s1)") simp_all
qed simp

lemma Upsert_inv:
  assumes "\<And>now res d. res \<in> set results \<Longrightarrow> I d \<Longrightarrow> I (snd (upsert_one T libs now lib force res d))" "I (fst s)"
  shows "I (fst (snd (Upsert T E libs lib results force s)))"
proof -
  let ?bs = "batches UpsertBatchSize results"
  obtain e f s1 where l: "upsert_loop T E libs lib force ?bs 0 s = ((e, f), s1)" by (metis prod.collapse)
  have "concat ?bs = results" by (simp add: concat_batches UpsertBatchSize_def)
  then have "I (fst s1)" using upsert_loop_inv [of ?bs I T libs lib force s E 0] assms l by simp
  with assms(2) l show ?thesis by (cases e) (simp_all add: Upsert_def Let_def)
qed

end
