(* ===== verification/Go_Paths.thy ===== *)
theory Go_Paths
  imports Go_Strings
begin

text \<open>
  The lexical path operations of Go's package \<open>path/filepath\<close> (Unix) the code uses, and
  \<^verbatim>\<open>internal/pathutil/pathutil.go\<close> over them.  A cleaned path is its rootedness and its list of
  components; the lemmas show that cleaning reaches a normal form and that containment is the
  prefix order of components.
\<close>

section \<open>Splitting and joining\<close>

abbreviation slash :: char where "slash \<equiv> CHR ''/''"

fun split_on :: "char \<Rightarrow> string \<Rightarrow> string list" where
  "split_on c [] = [[]]"
| "split_on c (x # xs) =
     (if x = c then [] # split_on c xs
      else case split_on c xs of [] \<Rightarrow> [[x]] | y # ys \<Rightarrow> (x # y) # ys)"

fun join_with :: "char \<Rightarrow> string list \<Rightarrow> string" where
  "join_with c [] = []"
| "join_with c [x] = x"
| "join_with c (x # y # ys) = x @ c # join_with c (y # ys)"

lemma split_on_nonempty [simp]: "split_on c s \<noteq> []"
  by (cases s) (auto split: list.splits)

lemma split_on_free: "c \<notin> set x \<Longrightarrow> split_on c x = [x]"
  by (induction x) auto

lemma split_on_append: "c \<notin> set x \<Longrightarrow> split_on c (x @ c # s) = x # split_on c s"
  by (induction x) auto

lemma split_join: "xs \<noteq> [] \<Longrightarrow> \<forall>x \<in> set xs. c \<notin> set x \<Longrightarrow> split_on c (join_with c xs) = xs"
  by (induction xs rule: join_with.induct) (auto simp: split_on_free split_on_append)

lemma split_on_comps: "x \<in> set (split_on c s) \<Longrightarrow> c \<notin> set x"
proof (induction s arbitrary: x)
  case (Cons a s)
  then show ?case
    by (cases "split_on c s") (auto split: if_splits)
qed simp

lemma join_split: "join_with c (split_on c s) = s"
proof (induction s)
  case (Cons a s)
  show ?case
  proof (cases "split_on c s")
    case Nil
    then show ?thesis using split_on_nonempty by blast
  next
    case (Cons y ys)
    with Cons.IH show ?thesis by (cases ys) auto
  qed
qed simp

section \<open>filepath\<close>

definition rooted :: "string \<Rightarrow> bool" where
  "rooted p \<longleftrightarrow> HasPrefix p ''/''"

text \<open>The loop of \<open>Clean\<close> over the elements, with the output so far reversed.\<close>

fun clean_loop :: "bool \<Rightarrow> string list \<Rightarrow> string list \<Rightarrow> string list" where
  "clean_loop r out [] = rev out"
| "clean_loop r out (c # cs) =
     (if c = [] \<or> c = ''.'' then clean_loop r out cs
      else if c = ''..'' then
        (case out of
           [] \<Rightarrow> clean_loop r (if r then [] else [c]) cs
         | t # ts \<Rightarrow> clean_loop r (if t = ''..'' then c # out else ts) cs)
      else clean_loop r (c # out) cs)"

definition comps :: "string \<Rightarrow> string list" where
  "comps p = clean_loop (rooted p) [] (split_on slash p)"

definition of_comps :: "bool \<Rightarrow> string list \<Rightarrow> string" where
  "of_comps r cs = (if r then slash # join_with slash cs else if cs = [] then ''.'' else join_with slash cs)"

definition Clean :: "string \<Rightarrow> string" where
  "Clean p = of_comps (rooted p) (comps p)"

definition after_last :: "char \<Rightarrow> string \<Rightarrow> string" where
  "after_last c s = rev (takeWhile (\<lambda>x. x \<noteq> c) (rev s))"

definition upto_last :: "char \<Rightarrow> string \<Rightarrow> string" where
  "upto_last c s = rev (dropWhile (\<lambda>x. x \<noteq> c) (rev s))"

definition Dir :: "string \<Rightarrow> string" where
  "Dir p = Clean (upto_last slash p)"

definition Base :: "string \<Rightarrow> string" where
  "Base p =
     (if p = [] then ''.''
      else let q = rev (dropWhile (\<lambda>x. x = slash) (rev p)); b = after_last slash q
           in if b = [] then ''/'' else b)"

definition Ext :: "string \<Rightarrow> string" where
  "Ext p = (let b = after_last slash p
            in if CHR ''.'' \<in> set b then CHR ''.'' # after_last CHR ''.'' b else [])"

definition IsAbs :: "string \<Rightarrow> bool" where
  "IsAbs p \<longleftrightarrow> rooted p"

definition Join :: "string \<Rightarrow> string \<Rightarrow> string" where
  "Join a b =
     (if a = [] \<and> b = [] then [] else if a = [] then Clean b else if b = [] then Clean a
      else Clean (a @ slash # b))"

text \<open>\<open>Rel\<close> of cleaned paths, as components: the common prefix is dropped, what is left of the
  base becomes \<open>..\<close>.\<close>

fun strip_common :: "string list \<Rightarrow> string list \<Rightarrow> string list \<times> string list" where
  "strip_common (x # xs) (y # ys) = (if x = y then strip_common xs ys else (x # xs, y # ys))"
| "strip_common xs ys = (xs, ys)"

definition Rel :: "string \<Rightarrow> string \<Rightarrow> string list option" where
  "Rel base targ =
     (if Clean targ = Clean base then Some [''.'']
      else if rooted base \<noteq> rooted targ then None
      else
        let (b, t) = strip_common (comps base) (if Clean targ = ''.'' then [''.''] else comps targ)
        in if b \<noteq> [] \<and> hd b = ''..'' then None else Some (replicate (length b) ''..'' @ t))"

section \<open>pathutil\<close>

definition relWithin :: "string \<Rightarrow> string \<Rightarrow> string list option" where
  "relWithin root p =
     (case Rel root p of
        None \<Rightarrow> None
      | Some rel \<Rightarrow> if rel \<noteq> [] \<and> hd rel = ''..'' then None else Some rel)"

definition WithinRoot :: "string \<Rightarrow> string \<Rightarrow> bool" where
  "WithinRoot root p \<longleftrightarrow>
     (if root = [] \<or> p = [] then False else relWithin (Clean root) (Clean p) \<noteq> None)"

text \<open>\<open>resolve\<close> is \<open>filepath.EvalSymlinks\<close> on the file system of the moment.\<close>

definition ResolveWithinRoot :: "(string \<Rightarrow> string option) \<Rightarrow> string \<Rightarrow> string \<Rightarrow> string option" where
  "ResolveWithinRoot resolve root p =
     (if root = [] \<or> p = [] then None
      else case relWithin (Clean root) (Clean p) of
             None \<Rightarrow> None
           | Some rel \<Rightarrow>
               (case resolve (Clean root) of
                  None \<Rightarrow> None
                | Some rr \<Rightarrow>
                    (case resolve (Join rr (join_with slash rel)) of
                       None \<Rightarrow> None
                     | Some res \<Rightarrow> if relWithin rr res = None then None else Some res)))"

section \<open>Normal forms\<close>

definition comp_ok :: "string \<Rightarrow> bool" where
  "comp_ok c \<longleftrightarrow> c \<noteq> [] \<and> c \<noteq> ''.'' \<and> slash \<notin> set c"

text \<open>In normal form the \<open>..\<close> elements come first, and a rooted path has none.\<close>

definition nf :: "bool \<Rightarrow> string list \<Rightarrow> bool" where
  "nf r cs \<longleftrightarrow> (\<forall>c \<in> set cs. comp_ok c)
     \<and> (\<exists>n rest. cs = replicate n ''..'' @ rest \<and> ''..'' \<notin> set rest \<and> (r \<longrightarrow> n = 0))"

lemma nf_snoc: "nf r (cs @ [c]) \<longleftrightarrow> nf r cs \<and> comp_ok c \<and> (c = ''..'' \<longrightarrow> \<not> r \<and> (\<forall>x \<in> set cs. x = ''..''))"
proof (cases "c = ''..''")
  case True
  have "nf r (cs @ [''..'']) \<Longrightarrow> \<not> r \<and> (\<forall>x \<in> set cs. x = ''..'') \<and> nf r cs"
  proof -
    assume nf: "nf r (cs @ [''..''])"
    then obtain n rest where e: "cs @ [''..''] = replicate n ''..'' @ rest" "''..'' \<notin> set rest" "r \<longrightarrow> n = 0"
      by (auto simp: nf_def)
    then have "rest = []" by (cases rest rule: rev_cases) auto
    with e have "cs @ [''..''] = replicate n ''..''" by simp
    then obtain m where m: "n = Suc m" by (cases n) auto
    then have "cs = replicate m ''..''"
      using \<open>cs @ _ = replicate n _\<close> by (simp add: replicate_append_same [symmetric])
    with e(3) m nf show ?thesis by (auto simp: nf_def intro!: exI [of _ m] exI [of _ "[]"])
  qed
  moreover have "nf r (cs @ [''..''])" if "nf r cs" "\<not> r" "\<forall>x \<in> set cs. x = ''..''"
  proof -
    have "cs = replicate (length cs) ''..''" using that(3) by (simp add: replicate_length_same)
    then have "cs @ [''..''] = replicate (Suc (length cs)) ''..'' @ []"
      by (metis append_Nil2 replicate_Suc replicate_append_same)
    with that show ?thesis unfolding nf_def
      by (intro conjI exI [of _ "Suc (length cs)"] exI [of _ "[]"]) (auto simp: nf_def comp_ok_def)
  qed
  ultimately show ?thesis using True by (auto simp: comp_ok_def)
next
  case False
  have "nf r (cs @ [c]) \<Longrightarrow> nf r cs \<and> comp_ok c"
  proof -
    assume nf: "nf r (cs @ [c])"
    then obtain n rest where e: "cs @ [c] = replicate n ''..'' @ rest" "''..'' \<notin> set rest" "r \<longrightarrow> n = 0"
      by (auto simp: nf_def)
    have "rest \<noteq> []" using e(1) False by (metis append_Nil2 in_set_conv_decomp in_set_replicate)
    then obtain rest' where "rest = rest' @ [c]" using e(1) by (metis append_butlast_last_id last_appendR last_snoc)
    with e nf show ?thesis unfolding nf_def by auto
  qed
  moreover have "nf r (cs @ [c])" if "nf r cs" "comp_ok c"
    using that False unfolding nf_def by (fastforce intro: exI [of _ "_ @ [c]"])
  ultimately show ?thesis using False by auto
qed

lemma nf_nil [simp]: "nf r []"
  by (auto simp: nf_def)

lemma nf_dots: "nf False [''..'']"
  unfolding nf_def by (intro conjI exI [of _ 1] exI [of _ "[]"]) (auto simp: comp_ok_def)

lemma nf_clean_loop:
  "nf r (rev out) \<Longrightarrow> \<forall>c \<in> set cs. slash \<notin> set c \<Longrightarrow> nf r (clean_loop r out cs)"
proof (induction r out cs rule: clean_loop.induct)
  case (2 r out c cs)
  show ?case
  proof (cases "c = [] \<or> c = ''.''")
    case True
    with 2 show ?thesis by auto
  next
    case keep: False
    show ?thesis
    proof (cases "c = ''..''")
      case False
      with keep 2 show ?thesis by (auto simp: nf_snoc comp_ok_def)
    next
      case True
      show ?thesis
      proof (cases out)
        case Nil
        then show ?thesis
          using 2 True nf_dots by auto
      next
        case (Cons t ts)
        then have ts: "nf r (rev ts)" "t = ''..'' \<Longrightarrow> \<not> r \<and> (\<forall>x \<in> set ts. x = ''..'')"
          using "2.prems"(1) by (auto simp: nf_snoc)
        then have "t = ''..'' \<Longrightarrow> nf r ((rev ts @ [t]) @ [''..''])"
          using "2.prems"(1) Cons unfolding nf_snoc by (auto simp: comp_ok_def)
        with ts Cons 2 True show ?thesis by auto
      qed
    qed
  qed
qed simp

lemma nf_comps: "nf (rooted p) (comps p)"
  unfolding comps_def by (rule nf_clean_loop) (auto dest: split_on_comps)

lemma nf_prefix: "nf r (xs @ ys) \<Longrightarrow> nf r xs"
  by (induction ys rule: rev_induct) (auto simp: nf_snoc simp flip: append_assoc)

lemma clean_loop_nf: "nf r (rev out @ cs) \<Longrightarrow> clean_loop r out cs = rev out @ cs"
proof (induction cs arbitrary: out)
  case (Cons c cs)
  have "nf r ((rev out @ [c]) @ cs)" using Cons.prems by simp
  then have c: "comp_ok c" "c = ''..'' \<Longrightarrow> \<not> r \<and> (\<forall>x \<in> set out. x = ''..'')"
    using nf_prefix nf_snoc [of r "rev out" c] by (auto dest!: nf_prefix)
  have rec: "clean_loop r (c # out) cs = rev out @ c # cs" using Cons.IH [of "c # out"] Cons.prems by simp
  show ?case
  proof (cases "c = ''..''")
    case True
    with c rec show ?thesis by (cases out) (auto simp: comp_ok_def)
  next
    case False
    with c rec show ?thesis by (auto simp: comp_ok_def)
  qed
qed simp

lemma nf_head: "nf r (c # cs) \<Longrightarrow> comp_ok c"
  by (auto simp: nf_def)

lemma comps_of_comps:
  assumes "nf r cs"
  shows "comps (of_comps r cs) = cs" "rooted (of_comps r cs) = r"
proof -
  have free: "\<forall>c \<in> set cs. slash \<notin> set c" using assms by (auto simp: nf_def comp_ok_def)
  show root: "rooted (of_comps r cs) = r"
  proof (cases cs)
    case (Cons x xs)
    with assms have "x \<noteq> []" "slash \<notin> set x" by (auto dest!: nf_head simp: comp_ok_def)
    then show ?thesis using Cons by (cases x; cases xs) (auto simp: of_comps_def rooted_def)
  qed (simp add: of_comps_def rooted_def)
  have sp: "split_on slash (join_with slash cs) = (if cs = [] then [[]] else cs)"
    using free by (simp add: split_join)
  show "comps (of_comps r cs) = cs"
  proof (cases r)
    case True
    with root sp clean_loop_nf [of True "[]" cs] assms show ?thesis
      by (auto simp: comps_def of_comps_def)
  next
    case False
    with root sp clean_loop_nf [of False "[]" cs] assms show ?thesis
      by (auto simp: comps_def of_comps_def)
  qed
qed

lemma comps_Clean [simp]: "comps (Clean p) = comps p" "rooted (Clean p) = rooted p"
  unfolding Clean_def using comps_of_comps [OF nf_comps] by simp_all

lemma Clean_idem [simp]: "Clean (Clean p) = Clean p"
proof -
  have "Clean (Clean p) = of_comps (rooted (Clean p)) (comps (Clean p))" by (rule Clean_def)
  also have "\<dots> = Clean p" unfolding comps_Clean by (rule Clean_def [symmetric])
  finally show ?thesis .
qed

lemma Clean_eq: "Clean p = Clean q \<longleftrightarrow> rooted p = rooted q \<and> comps p = comps q"
proof
  assume "Clean p = Clean q"
  then have "rooted (Clean p) = rooted (Clean q)" "comps (Clean p) = comps (Clean q)" by (rule arg_cong)+
  then show "rooted p = rooted q \<and> comps p = comps q" unfolding comps_Clean ..
next
  assume "rooted p = rooted q \<and> comps p = comps q"
  then show "Clean p = Clean q" unfolding Clean_def by simp
qed

lemma Clean_nonempty [simp]: "Clean p \<noteq> []"
proof (cases "comps p")
  case (Cons x xs)
  then have "x \<noteq> []" using nf_comps [of p] by (auto dest!: nf_head simp: comp_ok_def)
  then show ?thesis using Cons by (cases xs) (auto simp: Clean_def of_comps_def)
qed (simp add: Clean_def of_comps_def)

lemma Clean_dot: "Clean p = ''.'' \<longleftrightarrow> \<not> rooted p \<and> comps p = []"
proof -
  have "rooted ''.'' = False" "comps ''.'' = []" by (simp_all add: rooted_def comps_def)
  moreover have "Clean ''.'' = ''.''" by (simp add: Clean_def of_comps_def rooted_def comps_def)
  ultimately show ?thesis using Clean_eq [of p "''.''"] by simp
qed

section \<open>The directory of a path\<close>

lemma join_with_snoc: "join_with c (xs @ [x]) = (if xs = [] then x else join_with c xs @ c # x)"
  by (induction xs rule: join_with.induct) auto

lemma upto_last_simps:
  "c \<notin> set x \<Longrightarrow> upto_last c x = []" "c \<notin> set x \<Longrightarrow> upto_last c (s @ c # x) = s @ [c]"
proof -
  assume free: "c \<notin> set x"
  have drop: "dropWhile (\<lambda>y. y \<noteq> c) (rev x @ t) = dropWhile (\<lambda>y. y \<noteq> c) t" for t
    using free by (intro dropWhile_append2) auto
  show "upto_last c x = []" using drop [of "[]"] by (simp add: upto_last_def)
  show "upto_last c (s @ c # x) = s @ [c]" using drop [of "c # rev s"] by (simp add: upto_last_def)
qed

lemma split_on_snoc: "split_on c (s @ [c]) = split_on c s @ [[]]"
  by (induction s) (auto split: list.splits)

lemma clean_loop_end: "clean_loop r out (cs @ [[]]) = clean_loop r out cs"
  by (induction r out cs rule: clean_loop.induct) (auto split: list.splits)

lemma comps_slash: "x \<noteq> [] \<Longrightarrow> comps (x @ [slash]) = comps x \<and> rooted (x @ [slash]) = rooted x"
proof -
  assume "x \<noteq> []"
  then have "rooted (x @ [slash]) = rooted x" by (cases x) (simp_all add: rooted_def)
  then show ?thesis by (simp add: comps_def split_on_snoc clean_loop_end)
qed

lemma comps_Dir:
  assumes "Clean p = p" "comps p \<noteq> []"
  shows "comps (Dir p) = butlast (comps p)" "rooted (Dir p) = rooted p"
proof -
  define r where "r = rooted p"
  obtain init c where cs: "comps p = init @ [c]" using assms(2) by (metis append_butlast_last_id)
  with nf_comps [of p] have nf: "nf r init" and free: "slash \<notin> set c" by (auto simp: r_def nf_snoc comp_ok_def)
  have p: "p = of_comps r (init @ [c])" using assms(1) cs by (simp add: Clean_def r_def)
  have "comps (upto_last slash p) = init \<and> rooted (upto_last slash p) = r"
  proof (cases "init = []")
    case True
    then have "upto_last slash p = (if r then [slash] else [])"
      using free upto_last_simps(2) [of slash c "[]"] by (subst p) (simp add: of_comps_def upto_last_simps(1))
    with True show ?thesis by (auto simp: comps_def rooted_def)
  next
    case False
    then have "p = of_comps r init @ slash # c" by (subst p) (simp add: of_comps_def join_with_snoc)
    then have "upto_last slash p = of_comps r init @ [slash]" using free by (metis upto_last_simps(2))
    moreover have "of_comps r init \<noteq> []"
      using False nf by (cases init; cases "tl init") (auto simp: of_comps_def comp_ok_def dest!: nf_head)
    ultimately show ?thesis using comps_of_comps [OF nf] comps_slash by simp
  qed
  then show "comps (Dir p) = butlast (comps p)" "rooted (Dir p) = rooted p" by (simp_all add: Dir_def cs r_def)
qed

section \<open>Containment\<close>

lemma strip_common_prefix:
  "strip_common xs ys = (a, b) \<Longrightarrow> \<exists>pre. xs = pre @ a \<and> ys = pre @ b \<and> (a = [] \<or> b = [] \<or> hd a \<noteq> hd b)"
proof (induction xs ys rule: strip_common.induct)
  case (1 x xs y ys)
  show ?case
  proof (cases "x = y")
    case True
    with 1 obtain pre where "xs = pre @ a" "ys = pre @ b" "a = [] \<or> b = [] \<or> hd a \<noteq> hd b" by auto
    with True show ?thesis by (intro exI [of _ "x # pre"]) simp
  next
    case False
    with 1 show ?thesis by (intro exI [of _ "[]"]) auto
  qed
qed auto

lemma strip_common_append: "strip_common xs (xs @ ys) = ([], ys)"
  by (induction xs) auto

lemma relWithin_iff:
  "relWithin root p \<noteq> None \<longleftrightarrow> rooted root = rooted p
     \<and> (\<exists>rest. comps p = comps root @ rest \<and> (rest = [] \<or> hd rest \<noteq> ''..''))"
proof (cases "Clean p = Clean root")
  case True
  then show ?thesis by (auto simp: relWithin_def Rel_def Clean_eq)
next
  case False
  show ?thesis
  proof (cases "rooted root = rooted p")
    case False
    then show ?thesis using \<open>Clean p \<noteq> Clean root\<close> by (simp add: relWithin_def Rel_def)
  next
    case same: True
    with False have ne: "comps p \<noteq> comps root" by (auto simp: Clean_eq)
    define t where "t = (if Clean p = ''.'' then [''.''] else comps p)"
    obtain a b where ab: "strip_common (comps root) t = (a, b)" by fastforce
    have rel: "relWithin root p \<noteq> None \<longleftrightarrow> a = [] \<and> (b = [] \<or> hd b \<noteq> ''..'')"
      using False same ab by (cases a) (auto simp: relWithin_def Rel_def t_def Let_def)
    show ?thesis
    proof (cases "Clean p = ''.''")
      case True
      then have "comps p = []" "comps root \<noteq> []" using ne by (auto simp: Clean_dot)
      then obtain x xs where x: "comps root = x # xs" by (cases "comps root") auto
      then have "x \<noteq> ''.''" using nf_comps [of root] by (auto dest!: nf_head simp: comp_ok_def)
      with ab x True have "a \<noteq> []" by (auto simp: t_def)
      with rel \<open>comps p = []\<close> x show ?thesis by simp
    next
      case False
      then have t: "t = comps p" by (simp add: t_def)
      from strip_common_prefix [OF ab] obtain pre where
        pre: "comps root = pre @ a" "comps p = pre @ b" "a = [] \<or> b = [] \<or> hd a \<noteq> hd b" by (auto simp: t)
      show ?thesis
      proof (cases "a = []")
        case True
        with pre rel same show ?thesis by auto
      next
        case False
        have "\<not> (\<exists>rest. comps p = comps root @ rest)"
        proof
          assume "\<exists>rest. comps p = comps root @ rest"
          then obtain rest where "comps p = comps root @ rest" by blast
          with ab t False show False by (simp add: strip_common_append)
        qed
        with rel False show ?thesis by blast
      qed
    qed
  qed
qed

lemma WithinRoot_iff:
  "WithinRoot root p \<longleftrightarrow> root \<noteq> [] \<and> p \<noteq> [] \<and> rooted root = rooted p
     \<and> (\<exists>rest. comps p = comps root @ rest \<and> (rest = [] \<or> hd rest \<noteq> ''..''))"
  unfolding WithinRoot_def using relWithin_iff [of "Clean root" "Clean p"] by auto

lemma nf_tail_dots: "nf r (xs @ ys) \<Longrightarrow> ys = [] \<or> hd ys \<noteq> ''..'' \<Longrightarrow> ''..'' \<notin> set ys"
proof
  assume nf: "nf r (xs @ ys)" and hd: "ys = [] \<or> hd ys \<noteq> ''..''" and dots: "''..'' \<in> set ys"
  then obtain us vs where ys: "ys = us @ ''..'' # vs" by (meson split_list)
  then have "nf r ((xs @ us) @ [''..''])" using nf nf_prefix [of r "(xs @ us) @ [''..'']" vs] by simp
  from this [unfolded nf_snoc] have "\<forall>x \<in> set us. x = ''..''" by simp
  with hd ys show False by (cases us) auto
qed

text \<open>
  C21. Containment is what the confinement of writes and scans needs: a path is within a root exactly
  when it has the root's components, extended by components none of which is \<open>..\<close>; the relation is
  reflexive on non-empty paths, transitive, and does not depend on how the two paths are spelled.
\<close>

theorem within_root_is_prefix:
  "(WithinRoot root p \<longleftrightarrow> root \<noteq> [] \<and> p \<noteq> [] \<and> rooted root = rooted p
      \<and> (\<exists>rest. comps p = comps root @ rest \<and> ''..'' \<notin> set rest))
   \<and> (WithinRoot root p \<and> WithinRoot p q \<longrightarrow> WithinRoot root q)
   \<and> (p \<noteq> [] \<longrightarrow> WithinRoot p p)
   \<and> (root \<noteq> [] \<and> p \<noteq> [] \<longrightarrow> WithinRoot (Clean root) (Clean p) = WithinRoot root p)"
proof -
  have iff: "WithinRoot root p \<longleftrightarrow> root \<noteq> [] \<and> p \<noteq> [] \<and> rooted root = rooted p
      \<and> (\<exists>rest. comps p = comps root @ rest \<and> ''..'' \<notin> set rest)" for root p
  proof -
    have "(rest = [] \<or> hd rest \<noteq> ''..'') = (''..'' \<notin> set rest)" if "comps p = comps root @ rest" for rest
      using nf_tail_dots [of "rooted p" "comps root" rest] nf_comps [of p] that
      by (cases rest) auto
    then show ?thesis unfolding WithinRoot_iff by blast
  qed
  show ?thesis unfolding iff by auto
qed

theorem within_root_is_prefix_witness:
  "\<not> WithinRoot ''/m/a'' ''/m/a/../b''"
proof -
  have "comps ''/m/a'' = [''m'', ''a'']" "comps ''/m/a/../b'' = [''m'', ''b'']"
    by (simp_all add: comps_def rooted_def)
  then show ?thesis using within_root_is_prefix [of "''/m/a''" "''/m/a/../b''"] by simp
qed

end
