(* ===== verification/Scan.thy ===== *)
theory Scan
  imports Service Scan_Repo Go_Paths
begin

text \<open>
  \<^verbatim>\<open>internal/scan/enqueuer.go\<close>, \<^verbatim>\<open>internal/scan/scheduler.go\<close> and \<^verbatim>\<open>internal/config/resolve.go\<close>:
  from a library to queued work.  The collaborators are optional functions on the caller's world,
  as the interface fields of the structs may be nil.  The locale \<open>enqueue_service\<close> states what the
  enqueuer relies on, seen through the status of the scan rows, the tracks handed to the queue and
  the tracks the cache answers for.
\<close>

section \<open>Settings and inputs\<close>

definition ResolveBool :: "bool option \<Rightarrow> bool option \<Rightarrow> bool \<Rightarrow> bool" where
  "ResolveBool cli lib globalDefault =
     (case cli of Some b \<Rightarrow> b | None \<Rightarrow> (case lib of Some b \<Rightarrow> b | None \<Rightarrow> globalDefault))"

definition scanInputs :: "scan_result \<Rightarrow> inputs result" where
  "scanInputs res =
     (let outdir = (if res_Outdir res = [] \<and> res_FilePath res \<noteq> [] then Dir (res_FilePath res) else res_Outdir res);
          base = Base (res_FilePath res);
          filename = (if res_Filename res = [] \<and> res_FilePath res \<noteq> []
                      then TrimSuffix base (Ext base) @ ''.lrc'' else res_Filename res)
      in if outdir = [] \<and> filename = [] \<and> res_FilePath res = []
         then Inl (errorf ''invalid scan result: missing file path and output destination'')
         else Inr \<lparr>in_Track = res_Track res, in_Outdir = outdir, in_Filename = filename,
                   in_SourcePath = res_FilePath res,
                   in_OutputPaths = [\<lparr>op_Outdir = outdir, op_Filename = filename\<rparr>],
                   in_ScanResultID = res_ID res, in_DetectInstrumental = None\<rparr>)"

definition ResultInputs :: "scan_result \<Rightarrow> inputs result" where
  "ResultInputs res = scanInputs res"

section \<open>The enqueuer\<close>

record 'w pending_store =
  ps_ListPendingByLibrary :: "int \<Rightarrow> 'w \<Rightarrow> scan_result list result \<times> 'w"
  ps_SetStatus :: "int list \<Rightarrow> string \<Rightarrow> 'w \<Rightarrow> unit result \<times> 'w"

type_synonym ('v, 'w) lyrics_cache = "string \<Rightarrow> string \<Rightarrow> int \<Rightarrow> 'w \<Rightarrow> 'v result \<times> 'w"
type_synonym 'w work_enqueue = "inputs \<Rightarrow> int \<Rightarrow> 'w \<Rightarrow> work_item result \<times> 'w"

record ('v, 'w) enqueuer =
  en_Results :: "'w pending_store option"
  en_Cache :: "('v, 'w) lyrics_cache option"
  en_Queue :: "'w work_enqueue option"
  en_Priority :: int
  en_DetectOverride :: "bool option"
  en_GlobalDetectDefault :: bool

text \<open>An error of handling a result, and the one that reports that its restoration failed too.\<close>

definition result_error :: "string \<Rightarrow> int \<Rightarrow> goerr \<Rightarrow> goerr" where
  "result_error what i e = wrapf (''scan: '' @ what @ '' '' @ itoa i) e"

definition restore_error :: "string \<Rightarrow> int \<Rightarrow> goerr \<Rightarrow> goerr \<Rightarrow> goerr" where
  "restore_error what i e f =
     GoErr (''scan: '' @ what @ '' '' @ itoa i @ '': '' @ err_msg e @ ''; restore pending: '' @ err_msg f)
           (err_chain e @ err_chain f)"

definition restore_pending :: "'w pending_store \<Rightarrow> string \<Rightarrow> int \<Rightarrow> goerr \<Rightarrow> 'w \<Rightarrow> goerr \<times> 'w" where
  "restore_pending P what i e w =
     (case ps_SetStatus P [i] ''pending'' w of
        (Inl f, w1) \<Rightarrow> (restore_error what i e f, w1)
      | (Inr _, w1) \<Rightarrow> (result_error what i e, w1))"

text \<open>One turn of the loop of \<open>EnqueuePending\<close>: the error that ends it, or how the result was
  handled.\<close>

datatype enq_outcome = Enqueued | CacheHit

definition enqueue_one :: "'w pending_store \<Rightarrow> ('v, 'w) lyrics_cache \<Rightarrow> 'w work_enqueue \<Rightarrow> int \<Rightarrow> bool
    \<Rightarrow> scan_result \<Rightarrow> 'w \<Rightarrow> enq_outcome result \<times> 'w" where
  "enqueue_one P lookup enqueue prio detect res w =
     (let i = res_ID res; tr = res_Track res in
      case lookup (ArtistName tr) (TrackName tr) (DurationBucket (TrackLength tr)) w of
        (Inr _, w1) \<Rightarrow>
          (case ps_SetStatus P [i] ''done'' w1 of
             (Inl e, w2) \<Rightarrow> (Inl (result_error ''mark cache hit done'' i e), w2)
           | (Inr _, w2) \<Rightarrow> (Inr CacheHit, w2))
      | (Inl e, w1) \<Rightarrow>
          if \<not> errors_is e ErrNoRows then (Inl (result_error ''cache lookup'' i e), w1)
          else case ps_SetStatus P [i] ''processing'' w1 of
                 (Inl e, w2) \<Rightarrow> (Inl (result_error ''reserve result'' i e), w2)
               | (Inr _, w2) \<Rightarrow>
                   (case scanInputs res of
                      Inl e \<Rightarrow> (case restore_pending P ''build inputs for result'' i e w2 of (f, w3) \<Rightarrow> (Inl f, w3))
                    | Inr inp \<Rightarrow>
                        (case enqueue (inp\<lparr>in_DetectInstrumental := Some detect\<rparr>) prio w2 of
                           (Inl e, w3) \<Rightarrow> (case restore_pending P ''enqueue result'' i e w3 of (f, w4) \<Rightarrow> (Inl f, w4))
                         | (Inr _, w3) \<Rightarrow> (Inr Enqueued, w3))))"

fun enqueue_loop :: "('w \<Rightarrow> goerr option) \<Rightarrow> 'w pending_store \<Rightarrow> ('v, 'w) lyrics_cache \<Rightarrow> 'w work_enqueue \<Rightarrow> int
    \<Rightarrow> bool \<Rightarrow> scan_result list \<Rightarrow> int \<times> int \<Rightarrow> 'w \<Rightarrow> ((int \<times> int) \<times> goerr option) \<times> 'w" where
  "enqueue_loop ctx P lookup enqueue prio detect [] (n, h) w = (((n, h), None), w)"
| "enqueue_loop ctx P lookup enqueue prio detect (res # rs) (n, h) w =
     (case ctx w of
        Some e \<Rightarrow> (((n, h), Some e), w)
      | None \<Rightarrow>
          (case enqueue_one P lookup enqueue prio detect res w of
             (Inl e, w1) \<Rightarrow> (((n, h), Some e), w1)
           | (Inr CacheHit, w1) \<Rightarrow> enqueue_loop ctx P lookup enqueue prio detect rs (n, h + 1) w1
           | (Inr Enqueued, w1) \<Rightarrow> enqueue_loop ctx P lookup enqueue prio detect rs (n + 1, h) w1))"

definition EnqueuePending :: "('w \<Rightarrow> goerr option) \<Rightarrow> ('v, 'w) enqueuer \<Rightarrow> library \<Rightarrow> 'w
    \<Rightarrow> ((int \<times> int) \<times> goerr option) \<times> 'w" where
  "EnqueuePending ctx e lib w =
     (case (en_Results e, en_Cache e, en_Queue e) of
        (None, _, _) \<Rightarrow> (((0, 0), Some (errorf ''scan: enqueuer results dependency is nil'')), w)
      | (Some _, None, _) \<Rightarrow> (((0, 0), Some (errorf ''scan: enqueuer cache dependency is nil'')), w)
      | (Some _, Some _, None) \<Rightarrow> (((0, 0), Some (errorf ''scan: enqueuer queue dependency is nil'')), w)
      | (Some P, Some lookup, Some enqueue) \<Rightarrow>
          (case ctx w of
             Some err \<Rightarrow> (((0, 0), Some err), w)
           | None \<Rightarrow>
               let detect = ResolveBool (en_DetectOverride e) (lib_DetectInstrumental lib) (en_GlobalDetectDefault e)
               in case ps_ListPendingByLibrary P (lib_ID lib) w of
                    (Inl err, w1) \<Rightarrow> (((0, 0), Some (wrapf ''scan: list pending for enqueue'' err)), w1)
                  | (Inr results, w1) \<Rightarrow>
                      enqueue_loop ctx P lookup enqueue (en_Priority e) detect results (0, 0) w1))"

definition enqueuer_OnScanComplete :: "('w \<Rightarrow> goerr option) \<Rightarrow> ('v, 'w) enqueuer \<Rightarrow> library \<Rightarrow> scan_result list
    \<Rightarrow> 'w \<Rightarrow> goerr option \<times> 'w" where
  "enqueuer_OnScanComplete ctx e lib results w =
     (case EnqueuePending ctx e lib w of ((_, err), w1) \<Rightarrow> (err, w1))"

section \<open>The scheduler\<close>

record scan_options =
  so_Update :: bool
  so_Upgrade :: bool
  so_MaxDepth :: int
  so_BFS :: bool
  so_EmbeddedLyrics :: string
  so_EnrichRecording :: bool

record 'w scheduler =
  sd_Libraries :: "('w \<Rightarrow> library list result \<times> 'w) option"
  sd_Results :: "(int \<Rightarrow> scan_result list \<Rightarrow> bool \<Rightarrow> 'w \<Rightarrow> goerr option \<times> 'w) option"
  sd_Scanner :: "(string \<Rightarrow> scan_options \<Rightarrow> 'w \<Rightarrow> scan_result list result \<times> 'w) option"
  sd_Options :: scan_options
  sd_Interval :: duration
  sd_MaxRuntime :: duration
  sd_OnScanComplete :: "(library \<Rightarrow> scan_result list \<Rightarrow> 'w \<Rightarrow> goerr option \<times> 'w) option"
  sd_EnrichOverride :: "bool option"
  sd_GlobalEnrichDefault :: bool

definition stamp_result :: "library \<Rightarrow> scan_result \<Rightarrow> scan_result" where
  "stamp_result lib r =
     r\<lparr>res_LibraryID := lib_ID lib, res_Status := (if res_Status r = [] then ''pending'' else res_Status r)\<rparr>"

text \<open>\<open>scan\<close> and \<open>upsert\<close> are the non-nil collaborators.\<close>

definition scanAndPersist :: "'w scheduler \<Rightarrow> (string \<Rightarrow> scan_options \<Rightarrow> 'w \<Rightarrow> scan_result list result \<times> 'w)
    \<Rightarrow> (int \<Rightarrow> scan_result list \<Rightarrow> bool \<Rightarrow> 'w \<Rightarrow> goerr option \<times> 'w) \<Rightarrow> library \<Rightarrow> string \<Rightarrow> 'w \<Rightarrow> goerr option \<times> 'w" where
  "scanAndPersist sd scan upsert lib path w =
     (let opts = (sd_Options sd)\<lparr>so_EnrichRecording :=
                    ResolveBool (sd_EnrichOverride sd) (lib_EnrichRecording lib) (sd_GlobalEnrichDefault sd)\<rparr>
      in case scan path opts w of
           (Inl e, w1) \<Rightarrow> (Some (wrapf (''scan: scan library '' @ itoa (lib_ID lib)) e), w1)
         | (Inr found, w1) \<Rightarrow>
             let results = map (stamp_result lib) found in
             (case upsert (lib_ID lib) results (so_Update (sd_Options sd) \<or> so_Upgrade (sd_Options sd)) w1 of
                (Some e, w2) \<Rightarrow> (Some (wrapf (''scan: persist library '' @ itoa (lib_ID lib)) e), w2)
              | (None, w2) \<Rightarrow>
                  (case sd_OnScanComplete sd of
                     None \<Rightarrow> (None, w2)
                   | Some f \<Rightarrow>
                       (case f lib results w2 of
                          (Some e, w3) \<Rightarrow> (Some (wrapf (''scan: complete library '' @ itoa (lib_ID lib)) e), w3)
                        | (None, w3) \<Rightarrow> (None, w3)))))"

text \<open>The guards \<open>RunOnceFor\<close> and \<open>RunOnceForPath\<close> share.\<close>

definition with_scanner :: "('w \<Rightarrow> goerr option) \<Rightarrow> 'w scheduler
    \<Rightarrow> ((string \<Rightarrow> scan_options \<Rightarrow> 'w \<Rightarrow> scan_result list result \<times> 'w)
         \<Rightarrow> (int \<Rightarrow> scan_result list \<Rightarrow> bool \<Rightarrow> 'w \<Rightarrow> goerr option \<times> 'w) \<Rightarrow> 'w \<Rightarrow> goerr option \<times> 'w)
    \<Rightarrow> 'w \<Rightarrow> goerr option \<times> 'w" where
  "with_scanner ctx sd f w =
     (case (sd_Results sd, sd_Scanner sd) of
        (None, _) \<Rightarrow> (Some (errorf ''scan: scheduler results dependency is nil''), w)
      | (Some _, None) \<Rightarrow> (Some (errorf ''scan: scheduler scanner dependency is nil''), w)
      | (Some upsert, Some scan) \<Rightarrow> (case ctx w of Some e \<Rightarrow> (Some e, w) | None \<Rightarrow> f scan upsert w))"

fun scan_each :: "('w \<Rightarrow> goerr option) \<Rightarrow> (library \<Rightarrow> 'w \<Rightarrow> goerr option \<times> 'w) \<Rightarrow> library list \<Rightarrow> 'w \<Rightarrow> goerr option \<times> 'w" where
  "scan_each ctx f [] w = (None, w)"
| "scan_each ctx f (lib # libs) w =
     (case ctx w of
        Some e \<Rightarrow> (Some e, w)
      | None \<Rightarrow> (case f lib w of (Some e, w1) \<Rightarrow> (Some e, w1) | (None, w1) \<Rightarrow> scan_each ctx f libs w1))"

definition RunOnceFor :: "('w \<Rightarrow> goerr option) \<Rightarrow> 'w scheduler \<Rightarrow> library list \<Rightarrow> 'w \<Rightarrow> goerr option \<times> 'w" where
  "RunOnceFor ctx sd libs =
     with_scanner ctx sd (\<lambda>scan upsert.
       scan_each ctx (\<lambda>lib. scanAndPersist sd scan upsert lib (lib_Path lib)) libs)"

definition RunOnceForPath :: "('w \<Rightarrow> goerr option) \<Rightarrow> 'w scheduler \<Rightarrow> library \<Rightarrow> string \<Rightarrow> 'w \<Rightarrow> goerr option \<times> 'w" where
  "RunOnceForPath ctx sd lib path =
     with_scanner ctx sd (\<lambda>scan upsert w.
       if \<not> WithinRoot (lib_Path lib) path
       then (Some (errorf (''scan: path '' @ quoted path @ '' is outside library root '' @ quoted (lib_Path lib))), w)
       else scanAndPersist sd scan upsert lib path w)"

definition scheduler_RunOnce :: "('w \<Rightarrow> goerr option) \<Rightarrow> 'w scheduler \<Rightarrow> 'w \<Rightarrow> goerr option \<times> 'w" where
  "scheduler_RunOnce ctx sd w =
     (case sd_Libraries sd of
        None \<Rightarrow> (Some (errorf ''scan: scheduler libraries dependency is nil''), w)
      | Some list_libs \<Rightarrow>
          (case ctx w of
             Some e \<Rightarrow> (Some e, w)
           | None \<Rightarrow>
               (case list_libs w of
                  (Inl e, w1) \<Rightarrow> (Some (wrapf ''scan: list libraries'' e), w1)
                | (Inr libs, w1) \<Rightarrow> RunOnceFor ctx sd libs w1)))"

text \<open>\<open>await\<close> is the \<open>select\<close> over the context and the ticker: the context's error, or a tick.  The
  context already carries the \<open>MaxRuntime\<close> deadline.\<close>

partial_function (option) sched_loop :: "('w \<Rightarrow> goerr option) \<Rightarrow> 'w scheduler \<Rightarrow> ('w \<Rightarrow> goerr option \<times> 'w)
    \<Rightarrow> 'w \<Rightarrow> (goerr \<times> 'w) option" where
  "sched_loop ctx sd await w =
     (case await w of
        (Some e, w1) \<Rightarrow> Some (e, w1)
      | (None, w1) \<Rightarrow>
          (case scheduler_RunOnce ctx sd w1 of
             (Some e, w2) \<Rightarrow> Some (e, w2)
           | (None, w2) \<Rightarrow> sched_loop ctx sd await w2))"

definition scheduler_Run :: "('w \<Rightarrow> goerr option) \<Rightarrow> 'w scheduler \<Rightarrow> ('w \<Rightarrow> goerr option \<times> 'w) \<Rightarrow> 'w
    \<Rightarrow> (goerr option \<times> 'w) option" where
  "scheduler_Run ctx sd await w =
     (case ctx w of
        Some e \<Rightarrow> Some (Some e, w)
      | None \<Rightarrow>
          (case scheduler_RunOnce ctx sd w of
             (Some e, w1) \<Rightarrow> Some (Some e, w1)
           | (None, w1) \<Rightarrow>
               if sd_Interval sd \<le> 0 then Some (None, w1)
               else map_option (\<lambda>(e, w2). (Some e, w2)) (sched_loop ctx sd await w1)))"

end
