(* ===== verification/Scan_Props.thy ===== *)
theory Scan_Props
  imports Scan
begin

text \<open>
  What the enqueuer and the scheduler do with the scan results of a library.  A \<open>scan_view\<close> is what
  can be observed of the world: the status of each scan row, the tracks handed to the queue, the
  tracks the cache answers for.  \<open>enqueue_service\<close> states what the enqueuer relies on whatever
  faults occur, \<open>healthy_enqueue\<close> what an answering store adds; both are interpreted on the modelled
  repository, cache and queue.
\<close>

section \<open>The interface\<close>

record 'w scan_view =
  sv_ok :: "'w \<Rightarrow> bool"
  sv_status :: "'w \<Rightarrow> int \<Rightarrow> sr_status option"
  sv_handed :: "'w \<Rightarrow> int \<Rightarrow> track \<Rightarrow> bool"
  sv_hit :: "'w \<Rightarrow> track \<Rightarrow> bool"

definition view_keeps :: "'w scan_view \<Rightarrow> (int \<Rightarrow> sr_status option) \<Rightarrow> 'w \<Rightarrow> 'w \<Rightarrow> bool" where
  "view_keeps V m w w' \<longleftrightarrow>
     sv_ok V w' \<and> sv_status V w' = m \<and> (\<forall>i t. sv_handed V w i t \<longrightarrow> sv_handed V w' i t)
     \<and> sv_hit V w' = sv_hit V w"

abbreviation unmoved :: "'w scan_view \<Rightarrow> 'w \<Rightarrow> 'w \<Rightarrow> bool" where
  "unmoved V w w' \<equiv> view_keeps V (sv_status V w) w w'"

abbreviation set_to :: "'w scan_view \<Rightarrow> int \<Rightarrow> sr_status \<Rightarrow> 'w \<Rightarrow> 'w \<Rightarrow> bool" where
  "set_to V i st w w' \<equiv> view_keeps V ((sv_status V w)(i := Some st)) w w'"

lemma view_keeps_trans: "view_keeps V m w w1 \<Longrightarrow> view_keeps V m' w1 w2 \<Longrightarrow> view_keeps V m' w w2"
  by (simp add: view_keeps_def)

lemma view_keepsD:
  "view_keeps V m w w' \<Longrightarrow> sv_ok V w'" "view_keeps V m w w' \<Longrightarrow> sv_status V w' = m"
  "view_keeps V m w w' \<Longrightarrow> sv_hit V w' = sv_hit V w"
  "view_keeps V m w w' \<Longrightarrow> sv_handed V w i t \<Longrightarrow> sv_handed V w' i t"
  by (simp_all add: view_keeps_def)

text \<open>How a result handled by the loop is seen afterwards.\<close>

definition handled :: "'w scan_view \<Rightarrow> 'w \<Rightarrow> scan_result \<Rightarrow> bool" where
  "handled V w res \<longleftrightarrow>
     (if sv_hit V w (res_Track res) then sv_status V w (res_ID res) = Some SrDone
      else sv_status V w (res_ID res) = Some SrProcessing \<and> sv_handed V w (res_ID res) (res_Track res))"

definition pending_results :: "'w scan_view \<Rightarrow> 'w \<Rightarrow> scan_result list \<Rightarrow> bool" where
  "pending_results V w rs \<longleftrightarrow>
     distinct (map res_ID rs) \<and> (\<forall>r \<in> set rs. 0 < res_ID r \<and> sv_status V w (res_ID r) = Some SrPending)"

text \<open>\<open>k\<close> results were handled, and the rest of the scan table is as it was, but for the row of the
  result that failed when the error says that it could not be restored.\<close>

definition accounted :: "'w scan_view \<Rightarrow> scan_result list \<Rightarrow> nat \<Rightarrow> goerr option \<Rightarrow> 'w \<Rightarrow> 'w \<Rightarrow> bool" where
  "accounted V rs k e w w' \<longleftrightarrow>
     k \<le> length rs \<and> view_keeps V (sv_status V w') w w' \<and> (\<forall>res \<in> set (take k rs). handled V w' res)
     \<and> (\<forall>j. j \<notin> res_ID ` set (take k rs) \<longrightarrow> sv_status V w' j = sv_status V w j
          \<or> (k < length rs \<and> j = res_ID (rs ! k) \<and> sv_status V w' j = Some SrProcessing
               \<and> (\<exists>what e1 e2. e = Some (restore_error what j e1 e2))))
     \<and> (e = None \<longrightarrow> k = length rs)"

definition hits :: "'w scan_view \<Rightarrow> 'w \<Rightarrow> scan_result list \<Rightarrow> int" where
  "hits V w rs = int (length (filter (\<lambda>r. sv_hit V w (res_Track r)) rs))"

definition fresh :: "'w scan_view \<Rightarrow> 'w \<Rightarrow> scan_result list \<Rightarrow> int" where
  "fresh V w rs = int (length (filter (\<lambda>r. \<not> sv_hit V w (res_Track r)) rs))"

locale enqueue_service =
  fixes P :: "'w pending_store" and lookup :: "('v, 'w) lyrics_cache" and enqueue :: "'w work_enqueue"
    and V :: "'w scan_view"
  assumes lists: "sv_ok V w \<Longrightarrow> ps_ListPendingByLibrary P lib w = (r, w') \<Longrightarrow>
      unmoved V w w' \<and> (\<forall>rs. r = Inr rs \<longrightarrow> pending_results V w rs)"
    and lookups: "sv_ok V w \<Longrightarrow>
      lookup (ArtistName tr) (TrackName tr) (DurationBucket (TrackLength tr)) w = (l, w') \<Longrightarrow>
      unmoved V w w' \<and> (case l of Inr _ \<Rightarrow> sv_hit V w tr | Inl e \<Rightarrow> errors_is e ErrNoRows \<longrightarrow> \<not> sv_hit V w tr)"
    and sets: "sv_ok V w \<Longrightarrow> ps_SetStatus P [i] (sr_status_text st) w = (u, w') \<Longrightarrow>
      (case u of Inl _ \<Rightarrow> unmoved V w w' | Inr _ \<Rightarrow> set_to V i st w w')"
    and enqueues: "sv_ok V w \<Longrightarrow> 0 < in_ScanResultID inp \<Longrightarrow> enqueue inp prio w = (q, w') \<Longrightarrow>
      unmoved V w w' \<and> (\<forall>it. q = Inr it \<longrightarrow> sv_handed V w' (in_ScanResultID inp) (in_Track inp))"
begin

lemma sets_texts:
  "sv_ok V w \<Longrightarrow> ps_SetStatus P [i] ''pending'' w = (r, w') \<Longrightarrow>
     (case r of Inl _ \<Rightarrow> unmoved V w w' | Inr _ \<Rightarrow> set_to V i SrPending w w')"
  "sv_ok V w \<Longrightarrow> ps_SetStatus P [i] ''processing'' w = (r, w') \<Longrightarrow>
     (case r of Inl _ \<Rightarrow> unmoved V w w' | Inr _ \<Rightarrow> set_to V i SrProcessing w w')"
  "sv_ok V w \<Longrightarrow> ps_SetStatus P [i] ''done'' w = (r, w') \<Longrightarrow>
     (case r of Inl _ \<Rightarrow> unmoved V w w' | Inr _ \<Rightarrow> set_to V i SrDone w w')"
  using sets [where st = SrPending] sets [where st = SrProcessing] sets [where st = SrDone] by simp_all

text \<open>A reserved row is put back, or the error says that it was not.\<close>

lemma restore:
  assumes "sv_status V w i = Some SrPending" "set_to V i SrProcessing w w1"
    and "restore_pending P what i e w1 = (f, w2)"
  shows "unmoved V w w2 \<or> (set_to V i SrProcessing w w2 \<and> (\<exists>what e1 e2. f = restore_error what i e1 e2))"
proof -
  obtain r w3 where s: "ps_SetStatus P [i] ''pending'' w1 = (r, w3)" by fastforce
  have "sv_ok V w1" using assms(2) by (rule view_keepsD)
  note st = sets_texts(1) [OF this s]
  show ?thesis
  proof (cases r)
    case (Inl x)
    with st assms(2) have "set_to V i SrProcessing w w3" by (simp add: view_keeps_def)
    with Inl s assms(3) show ?thesis by (auto simp: restore_pending_def)
  next
    case (Inr x)
    with st assms(1,2) have "unmoved V w w3" by (auto simp: view_keeps_def)
    with Inr s assms(3) show ?thesis by (auto simp: restore_pending_def)
  qed
qed

lemma enqueue_one_step:
  assumes ok: "sv_ok V w" and pend: "sv_status V w (res_ID res) = Some SrPending" "0 < res_ID res"
    and run: "enqueue_one P lookup enqueue prio detect res w = (r, w')"
  shows "case r of
      Inr CacheHit \<Rightarrow> set_to V (res_ID res) SrDone w w' \<and> sv_hit V w (res_Track res)
    | Inr Enqueued \<Rightarrow> set_to V (res_ID res) SrProcessing w w' \<and> \<not> sv_hit V w (res_Track res)
        \<and> sv_handed V w' (res_ID res) (res_Track res)
    | Inl e \<Rightarrow> unmoved V w w'
        \<or> (set_to V (res_ID res) SrProcessing w w' \<and> (\<exists>what e1 e2. e = restore_error what (res_ID res) e1 e2))"
proof -
  let ?i = "res_ID res" and ?tr = "res_Track res"
  obtain l w1 where l: "lookup (ArtistName ?tr) (TrackName ?tr) (DurationBucket (TrackLength ?tr)) w = (l, w1)" by fastforce
  note lk = lookups [OF ok l]
  then have ok1: "sv_ok V w1" by (auto dest: view_keepsD)
  show ?thesis
  proof (cases l)
    case (Inr v)
    obtain r2 w2 where s: "ps_SetStatus P [?i] ''done'' w1 = (r2, w2)" by fastforce
    from sets_texts(3) [OF ok1 s] lk Inr run l s show ?thesis
      by (cases r2) (auto simp: enqueue_one_def Let_def view_keeps_def)
  next
    case (Inl e)
    show ?thesis
    proof (cases "errors_is e ErrNoRows")
      case False
      with Inl lk run l show ?thesis by (auto simp: enqueue_one_def Let_def)
    next
      case True
      obtain r2 w2 where s: "ps_SetStatus P [?i] ''processing'' w1 = (r2, w2)" by fastforce
      note st = sets_texts(2) [OF ok1 s]
      show ?thesis
      proof (cases r2)
        case (Inl x)
        with \<open>l = Inl e\<close> True st lk run l s show ?thesis
          by (auto simp: enqueue_one_def Let_def view_keeps_def)
      next
        case (Inr u)
        have set2: "set_to V ?i SrProcessing w w2" using st Inr lk by (auto simp: view_keeps_def)
        show ?thesis
        proof (cases "scanInputs res")
          case Inl2: (Inl x)
          obtain f w3 where f: "restore_pending P ''build inputs for result'' ?i x w2 = (f, w3)" by fastforce
          have "r = Inl f" "w' = w3"
            using \<open>l = Inl e\<close> True Inr run l s f Inl2 by (auto simp: enqueue_one_def Let_def)
          with restore [OF pend(1) set2 f] show ?thesis by auto
        next
          case Inr2: (Inr inp)
          have inp: "in_ScanResultID inp = ?i" "in_Track inp = ?tr"
            using Inr2 by (auto simp: scanInputs_def Let_def split: if_splits)
          obtain r3 w3 where q: "enqueue (inp\<lparr>in_DetectInstrumental := Some detect\<rparr>) prio w2 = (r3, w3)" by fastforce
          have "sv_ok V w2" using set2 by (rule view_keepsD)
          note enq = enqueues [OF this _ q]
          show ?thesis
          proof (cases r3)
            case Inl3: (Inl x)
            obtain f w4 where f: "restore_pending P ''enqueue result'' ?i x w3 = (f, w4)" by fastforce
            have "set_to V ?i SrProcessing w w3" using set2 enq inp pend(2) by (auto simp: view_keeps_def)
            note undone = restore [OF pend(1) this f]
            have "r = Inl f" "w' = w4"
              using \<open>l = Inl e\<close> True Inr run l s f Inr2 q Inl3 by (auto simp: enqueue_one_def Let_def)
            with undone show ?thesis by auto
          next
            case Inr3: (Inr it)
            have "set_to V ?i SrProcessing w w3" "sv_handed V w3 ?i ?tr"
              using set2 enq inp pend(2) Inr3 by (auto simp: view_keeps_def)
            then show ?thesis
              using \<open>l = Inl e\<close> True Inr run l s Inr2 q Inr3 lk by (auto simp: enqueue_one_def Let_def)
          qed
        qed
      qed
    qed
  qed
qed

text \<open>A handled result stays handled while the rest is worked on.\<close>

lemma accounted_step:
  assumes one: "set_to V (res_ID res) st w w1" and res: "if sv_hit V w (res_Track res) then st = SrDone
        else st = SrProcessing \<and> sv_handed V w1 (res_ID res) (res_Track res)"
    and rest: "accounted V rs k e w1 w'" and dist: "res_ID res \<notin> res_ID ` set rs"
  shows "accounted V (res # rs) (Suc k) e w w'"
proof -
  have k: "k \<le> length rs" using rest by (simp add: accounted_def)
  have same: "j \<noteq> res_ID res \<Longrightarrow> sv_status V w1 j = sv_status V w j" for j using one by (simp add: view_keeps_def)
  have nth: "k < length rs \<Longrightarrow> res_ID res \<noteq> res_ID (rs ! k)" using dist by auto
  have out: "res_ID res \<notin> res_ID ` set (take k rs)" using dist by (auto dest: in_set_takeD)
  then have "sv_status V w' (res_ID res) = Some st"
    using rest nth one unfolding accounted_def by (auto simp: view_keeps_def)
  then have "handled V w' res" using one res rest
    by (auto simp: handled_def accounted_def view_keeps_def)
  moreover have "view_keeps V (sv_status V w') w w'"
    using one rest by (auto simp: accounted_def view_keeps_def)
  ultimately show ?thesis using rest same by (auto simp: accounted_def)
qed

lemma accounted_stop:
  assumes "unmoved V w w'
      \<or> (set_to V (res_ID res) SrProcessing w w' \<and> (\<exists>what e1 e2. x = restore_error what (res_ID res) e1 e2))"
  shows "accounted V (res # rs) 0 (Some x) w w'"
proof -
  have "sv_status V w' j = sv_status V w j \<or> (j = res_ID res \<and> sv_status V w' j = Some SrProcessing
      \<and> (\<exists>what e1 e2. x = restore_error what j e1 e2))" for j
  proof (cases "j = res_ID res")
    case True
    with assms show ?thesis unfolding True by (elim disjE conjE) (simp_all add: view_keeps_def)
  next
    case False
    with assms show ?thesis by (auto simp: view_keeps_def)
  qed
  moreover have "view_keeps V (sv_status V w') w w'" using assms by (auto simp: view_keeps_def)
  ultimately show ?thesis by (simp add: accounted_def)
qed

lemma pending_results_Cons:
  assumes "pending_results V w (res # rs)" "set_to V (res_ID res) st w w1"
  shows "pending_results V w1 rs" "res_ID res \<notin> res_ID ` set rs"
    "sv_status V w (res_ID res) = Some SrPending" "0 < res_ID res"
  using assms by (auto simp: pending_results_def view_keeps_def image_iff)

lemma enqueue_loop_accounts:
  assumes "enqueue_loop ctx P lookup enqueue prio detect rs (n, h) w = (((n', h'), e), w')"
    and "sv_ok V w" "pending_results V w rs"
  shows "\<exists>k. accounted V rs k e w w' \<and> n' = n + fresh V w (take k rs) \<and> h' = h + hits V w (take k rs)"
  using assms
proof (induction rs arbitrary: n h w)
  case Nil
  then show ?case by (auto simp: accounted_def view_keeps_def hits_def fresh_def)
next
  case (Cons res rs)
  show ?case
  proof (cases "ctx w")
    case (Some x)
    with Cons.prems have "e = Some x" "w' = w" "n' = n" "h' = h" by auto
    with Cons.prems(2) show ?thesis
      by (intro exI [of _ 0]) (auto simp: accounted_def view_keeps_def hits_def fresh_def)
  next
    case None
    obtain r w1 where r: "enqueue_one P lookup enqueue prio detect res w = (r, w1)" by fastforce
    have pend: "sv_status V w (res_ID res) = Some SrPending" "0 < res_ID res"
      using Cons.prems(3) by (simp_all add: pending_results_def)
    note step = enqueue_one_step [OF Cons.prems(2) pend r]
    show ?thesis
    proof (cases r)
      case (Inl x)
      with Cons.prems None r have "e = Some x" "w1 = w'" "n' = n" "h' = h" by auto
      moreover from step Inl have "accounted V (res # rs) 0 (Some x) w w1" by (intro accounted_stop) simp
      ultimately show ?thesis by (intro exI [of _ 0]) (simp add: hits_def fresh_def)
    next
      case (Inr o')
      define st where "st = (case o' of CacheHit \<Rightarrow> SrDone | Enqueued \<Rightarrow> SrProcessing)"
      define d where "d = (case o' of CacheHit \<Rightarrow> (0 :: int, 1 :: int) | Enqueued \<Rightarrow> (1, 0))"
      have set1: "set_to V (res_ID res) st w w1"
        and st: "if sv_hit V w (res_Track res) then st = SrDone
          else st = SrProcessing \<and> sv_handed V w1 (res_ID res) (res_Track res)"
        and cnt: "d = (if sv_hit V w (res_Track res) then (0, 1) else (1, 0))"
        using step Inr by (cases o'; simp add: st_def d_def)+
      have rest: "enqueue_loop ctx P lookup enqueue prio detect rs (n + fst d, h + snd d) w1 = (((n', h'), e), w')"
        using Cons.prems(1) None r Inr by (cases o') (simp_all add: d_def)
      note pr = pending_results_Cons [OF Cons.prems(3) set1]
      obtain k where k: "accounted V rs k e w1 w'" "n' = n + fst d + fresh V w1 (take k rs)"
          "h' = h + snd d + hits V w1 (take k rs)"
        using Cons.IH [OF rest view_keepsD(1) [OF set1] pr(1)] by blast
      have "sv_hit V w1 = sv_hit V w" using set1 by (rule view_keepsD)
      with k cnt accounted_step [OF set1 st k(1) pr(2)] show ?thesis
        by (intro exI [of _ "Suc k"]) (auto simp: hits_def fresh_def)
    qed
  qed
qed

end

text \<open>What an answering store and an answering queue add.\<close>

locale healthy_enqueue = enqueue_service P lookup enqueue V
  for P :: "'w pending_store" and lookup :: "('v, 'w) lyrics_cache" and enqueue :: "'w work_enqueue"
    and V :: "'w scan_view" +
  assumes lookups_answer: "lookup a t b w = (Inl e, w') \<Longrightarrow> errors_is e ErrNoRows"
    and sets_answer: "sv_ok V w \<Longrightarrow> sv_status V w i \<noteq> None \<Longrightarrow> fst (ps_SetStatus P [i] (sr_status_text st) w) = Inr ()"
    and enqueues_answer: "sv_ok V w \<Longrightarrow> sv_status V w (in_ScanResultID inp) \<noteq> None \<Longrightarrow>
      \<exists>it. fst (enqueue inp prio w) = Inr it"
begin

lemma enqueue_one_answers:
  assumes ok: "sv_ok V w" and pend: "sv_status V w (res_ID res) = Some SrPending" "0 < res_ID res"
    and inp: "scanInputs res = Inr inp"
  shows "\<exists>o'. fst (enqueue_one P lookup enqueue prio detect res w) = Inr o'"
proof -
  let ?i = "res_ID res" and ?tr = "res_Track res"
  obtain l w1 where l: "lookup (ArtistName ?tr) (TrackName ?tr) (DurationBucket (TrackLength ?tr)) w = (l, w1)" by fastforce
  have lk: "unmoved V w w1" using lookups [OF ok l] by simp
  then have ok1: "sv_ok V w1" and st1: "sv_status V w1 ?i \<noteq> None" using pend by (auto simp: view_keeps_def)
  obtain u2 w2 where s: "ps_SetStatus P [?i] ''processing'' w1 = (u2, w2)" by fastforce
  obtain u3 w3 where t: "ps_SetStatus P [?i] ''done'' w1 = (u3, w3)" by fastforce
  have u: "u2 = Inr ()" "u3 = Inr ()"
    using sets_answer [OF ok1 st1, of SrProcessing] sets_answer [OF ok1 st1, of SrDone] s t by simp_all
  have "set_to V ?i SrProcessing w1 w2" using sets_texts(2) [OF ok1 s] u by simp
  moreover have "in_ScanResultID inp = ?i" using inp by (auto simp: scanInputs_def Let_def split: if_splits)
  ultimately obtain it where it: "fst (enqueue (inp\<lparr>in_DetectInstrumental := Some detect\<rparr>) prio w2) = Inr it"
    using enqueues_answer [of w2 "inp\<lparr>in_DetectInstrumental := Some detect\<rparr>" prio] by (auto simp: view_keeps_def)
  obtain q w4 where q: "enqueue (inp\<lparr>in_DetectInstrumental := Some detect\<rparr>) prio w2 = (q, w4)" by fastforce
  show ?thesis
  proof (cases l)
    case (Inl e)
    with lookups_answer l s u it q inp show ?thesis by (simp add: enqueue_one_def Let_def)
  qed (use l t u in \<open>simp add: enqueue_one_def Let_def\<close>)
qed

lemma enqueue_loop_answers:
  assumes "sv_ok V w" "pending_results V w rs" "\<And>w. ctx w = None" "\<forall>res \<in> set rs. \<exists>inp. scanInputs res = Inr inp"
  shows "snd (fst (enqueue_loop ctx P lookup enqueue prio detect rs nh w)) = None"
  using assms
proof (induction rs arbitrary: nh w)
  case (Cons res rs)
  obtain n h where nh: "nh = (n, h)" by fastforce
  have pend: "sv_status V w (res_ID res) = Some SrPending" "0 < res_ID res"
    using Cons.prems(2) by (simp_all add: pending_results_def)
  from Cons.prems(4) obtain inp where "scanInputs res = Inr inp" by auto
  from enqueue_one_answers [OF Cons.prems(1) pend this] obtain o' w1 where
    r: "enqueue_one P lookup enqueue prio detect res w = (Inr o', w1)" by (metis prod.collapse)
  have set1: "set_to V (res_ID res) (case o' of CacheHit \<Rightarrow> SrDone | Enqueued \<Rightarrow> SrProcessing) w w1"
    using enqueue_one_step [OF Cons.prems(1) pend r] by (cases o') simp_all
  note pr = pending_results_Cons [OF Cons.prems(2) set1]
  show ?case
    using Cons.IH [OF view_keepsD(1) [OF set1] pr(1) assms(3)] Cons.prems(3,4) r
    by (cases o') (simp_all add: nh)
next
  case Nil
  then show ?case by (cases nh) simp
qed

end

end
