(* ===== verification/Scan_Service.thy ===== *)
theory Scan_Service
  imports Scan_Props
begin

text \<open>
  The enqueuer and the scheduler on the modelled repository, cache and queue, as \<^verbatim>\<open>internal/app\<close>
  wires them: the interpretations of the locales of \<open>Scan_Props\<close> and the properties that span the
  scan table and the queue.
\<close>

section \<open>Wiring\<close>

definition db_store :: "'x outside \<Rightarrow> 'x system pending_store" where
  "db_store E =
     \<lparr>ps_ListPendingByLibrary = (\<lambda>l. db_call E (\<lambda>t d. (Inr (ListPendingByLibrary l d), d))),
      ps_SetStatus = (\<lambda>is st. db_call E (\<lambda>t. SetStatus is st))\<rparr>"

definition db_lookup :: "'x outside \<Rightarrow> (cached, 'x system) lyrics_cache" where
  "db_lookup E a t b = cache_call E (Lookup a t b)"

definition db_enqueue :: "dbqueue \<Rightarrow> 'x outside \<Rightarrow> 'x system work_enqueue" where
  "db_enqueue q E inp prio = db_call E (\<lambda>t. Enqueue q t inp prio)"

definition service_enqueuer :: "dbqueue \<Rightarrow> 'x outside \<Rightarrow> int \<Rightarrow> bool option \<Rightarrow> bool \<Rightarrow> (cached, 'x system) enqueuer" where
  "service_enqueuer q E prio override global =
     \<lparr>en_Results = Some (db_store E), en_Cache = Some (db_lookup E), en_Queue = Some (db_enqueue q E),
      en_Priority = prio, en_DetectOverride = override, en_GlobalDetectDefault = global\<rparr>"

abbreviation service_ctx :: "'x outside \<Rightarrow> 'x system \<Rightarrow> goerr option" where
  "service_ctx E s \<equiv> ox_ctx E (sys_x s)"

section \<open>The view of the database\<close>

definition scan_status :: "db \<Rightarrow> int \<Rightarrow> sr_status option" where
  "scan_status d i = map_option s_status (first_where (\<lambda>r. s_id r = i) (scan_results d))"

definition handed_over :: "dbqueue \<Rightarrow> db \<Rightarrow> int \<Rightarrow> track \<Rightarrow> bool" where
  "handed_over q d i tr \<longleftrightarrow>
     (\<exists>w \<in> set (work_queue d). row_key w = (NormalizeKey (dq_text q) (ArtistName tr), NormalizeKey (dq_text q) (TrackName tr))
        \<and> linked d (q_id w) i)"

definition cache_answers :: "'x system \<Rightarrow> track \<Rightarrow> bool" where
  "cache_answers s tr \<longleftrightarrow>
     (\<exists>v. fst (Lookup (ArtistName tr) (TrackName tr) (DurationBucket (TrackLength tr)) (sys_cache s)) = Inr v)"

definition ids_ok :: "db \<Rightarrow> bool" where
  "ids_ok d \<longleftrightarrow> 0 < sr_seq d \<and> (\<forall>r \<in> set (scan_results d). 0 < s_id r)"

text \<open>\<open>scan_idents\<close> is what no enqueuer may change: the identity of the scan rows, in order.\<close>

definition scan_idents :: "db \<Rightarrow> (int \<times> int \<times> string) list" where
  "scan_idents d = map (\<lambda>r. (s_id r, s_library_id r, s_file_path r)) (scan_results d)"

definition system_view :: "dbqueue \<Rightarrow> (int \<times> int \<times> string) list \<Rightarrow> 'x system scan_view" where
  "system_view q K =
     \<lparr>sv_ok = (\<lambda>s. wf_db (sys_db s) \<and> ids_ok (sys_db s) \<and> scan_idents (sys_db s) = K), sv_status = (\<lambda>s. scan_status (sys_db s)),
      sv_handed = (\<lambda>s. handed_over q (sys_db s)), sv_hit = cache_answers\<rparr>"

lemma system_view_simps [simp]:
  "sv_ok (system_view q K) s \<longleftrightarrow> wf_db (sys_db s) \<and> ids_ok (sys_db s) \<and> scan_idents (sys_db s) = K"
  "sv_status (system_view q K) s = scan_status (sys_db s)"
  "sv_handed (system_view q K) s = handed_over q (sys_db s)" "sv_hit (system_view q K) s = cache_answers s"
  by (simp_all add: system_view_def)

lemma scan_status_mem: "wf_db d \<Longrightarrow> r \<in> set (scan_results d) \<Longrightarrow> scan_status d (s_id r) = Some (s_status r)"
  by (simp add: scan_status_def first_where_key wf_db_def)

lemma scan_status_None: "scan_status d i = None \<longleftrightarrow> i \<notin> s_id ` set (scan_results d)"
  by (auto simp: scan_status_def first_where_None)

section \<open>SetStatus\<close>

lemma SetStatus_one:
  "SetStatus [i] (sr_status_text st) d =
     (if scan_status d i = None then (Inl sql_no_rows, d)
      else (Inr (), d\<lparr>scan_results := update_where (\<lambda>r. s_id r = i) (\<lambda>r. r\<lparr>s_status := st\<rparr>) (scan_results d)\<rparr>))"
proof -
  have "count_where (\<lambda>r. s_id r = i) (scan_results d) = 0 \<longleftrightarrow> scan_status d i = None"
    by (auto simp: count_where_zero_iff scan_status_None)
  then show ?thesis by (simp add: SetStatus_def split: option.split)
qed

lemma scan_status_update:
  "scan_status (d\<lparr>scan_results := update_where (\<lambda>r. s_id r = i) (\<lambda>r. r\<lparr>s_status := st\<rparr>) (scan_results d)\<rparr>)
   = (if scan_status d i = None then scan_status d else (scan_status d)(i := Some st))"
proof
  fix j
  have f: "find (\<lambda>r. s_id r = j) (update_where (\<lambda>r. s_id r = i) (\<lambda>r. r\<lparr>s_status := st\<rparr>) t)
      = map_option (\<lambda>r. if s_id r = i then r\<lparr>s_status := st\<rparr> else r) (find (\<lambda>r. s_id r = j) t)" for t
    unfolding update_where_def by (rule find_map_id) simp
  show "scan_status (d\<lparr>scan_results := update_where (\<lambda>r. s_id r = i) (\<lambda>r. r\<lparr>s_status := st\<rparr>) (scan_results d)\<rparr>) j
      = (if scan_status d i = None then scan_status d else (scan_status d)(i := Some st)) j"
    by (cases "find (\<lambda>r. s_id r = j) (scan_results d)")
      (auto simp: scan_status_def first_where_def f dest: find_Some_pred)
qed

lemma update_status_frame:
  fixes d :: db
  assumes "d' = d\<lparr>scan_results := update_where p (\<lambda>r. r\<lparr>s_status := st\<rparr>) (scan_results d)\<rparr>"
  shows "wf_db d \<Longrightarrow> wf_db d'" "ids_ok d \<Longrightarrow> ids_ok d'" "handed_over q d' = handed_over q d"
    "scan_idents d' = scan_idents d"
proof -
  show "scan_idents d' = scan_idents d" by (simp add: scan_idents_def assms update_where_def)
  have ids: "map s_id (scan_results d') = map s_id (scan_results d)"
    unfolding assms by (simp add: update_where_def)
  then have idset: "s_id ` set (scan_results d') = s_id ` set (scan_results d)" by (metis set_map)
  show "wf_db d \<Longrightarrow> wf_db d'" using ids idset unfolding wf_db_def by (simp add: assms)
  show "ids_ok d \<Longrightarrow> ids_ok d'" by (auto simp: ids_ok_def assms update_where_def)
  show "handed_over q d' = handed_over q d" by (simp add: handed_over_def linked_def assms fun_eq_iff)
qed

section \<open>Enqueue\<close>

lemma Enqueue_frame:
  assumes "Enqueue q now i pr d = (r, d')"
  shows "scan_results d' = scan_results d" "sr_seq d' = sr_seq d" "set (links d) \<subseteq> set (links d')"
    "scan_idents d' = scan_idents d"
proof -
  have "scan_results d' = scan_results d \<and> sr_seq d' = sr_seq d \<and> set (links d) \<subseteq> set (links d')"
    using assms
  proof (cases rule: Enqueue_cases)
    case (ok item w d1)
    have "scan_results d1 = scan_results d \<and> sr_seq d1 = sr_seq d \<and> links d1 = links d"
      using ok(3) by (auto simp: upsert_wq_def split: option.splits)
    with ok(4) show ?thesis by (auto simp: add_link_def)
  qed simp
  then show "scan_results d' = scan_results d" "sr_seq d' = sr_seq d" "set (links d) \<subseteq> set (links d')"
    "scan_idents d' = scan_idents d" by (simp_all add: scan_idents_def)
qed

lemma Enqueue_hands_over:
  assumes wf: "wf_db d" and E: "Enqueue q now i pr d = (Inr it, d')"
  shows "handed_over q d j tr \<Longrightarrow> handed_over q d' j tr"
    and "0 < in_ScanResultID i \<Longrightarrow> handed_over q d' (in_ScanResultID i) (in_Track i)"
proof -
  have sid: "in_ScanResultID i > 0 \<longrightarrow> in_ScanResultID i \<in> s_id ` set (scan_results d)"
    using E by (cases rule: Enqueue_cases) auto
  let ?r = "enqueued q now i pr d"
  obtain it0 d0 where ok: "Enqueue q now i pr d = (Inr it0, d0)" "wi_ID it0 = q_id ?r"
    "\<And>j. row_of d0 j = (if j = q_id ?r then Some ?r else row_of d j)"
    "in_ScanResultID i > 0 \<longrightarrow> linked d0 (wi_ID it0) (in_ScanResultID i)"
    using Enqueue_ok [OF wf sid] by metis
  have eq: "it0 = it" "d0 = d'" using trans [OF sym [OF ok(1)] E] by (simp_all only: prod.inject sum.inject)
  note id = ok(2) [unfolded eq] and rows = ok(3) [unfolded eq] and link = ok(4) [unfolded eq]
  have keep: "\<exists>w'. row_of d' (q_id w) = Some w' \<and> row_key w' = row_key w \<and> q_id w' = q_id w"
    if w: "w \<in> set (work_queue d)" for w
  proof (cases "q_id w = q_id ?r")
    case False
    with w rows row_of_mem [OF wf w] show ?thesis by simp
  next
    case True
    have "row_key w = track_key q i"
    proof (cases "key_row q i d")
      case None
      then have "q_id w = wq_seq d" using True by (simp add: enqueued_def Let_def enqueue_row_def)
      with wf_dbD(4) [OF wf w] show ?thesis by simp
    next
      case (Some w0)
      then have "q_id w = q_id w0" using True by (simp add: enqueued_def Let_def enqueue_conflict_def)
      moreover have "w0 \<in> set (work_queue d)" "row_key w0 = track_key q i"
        using Some by (auto simp: key_row_def dest: first_where_Some)
      ultimately show ?thesis using distinct_key_unique [OF wf_dbD(1) [OF wf] w] by auto
    qed
    with True rows row_key_enqueued show ?thesis by simp
  qed
  have sub: "set (links d) \<subseteq> set (links d')" using Enqueue_frame(3) [OF E] .
  show "handed_over q d j tr \<Longrightarrow> handed_over q d' j tr"
  proof -
    assume "handed_over q d j tr"
    then obtain w where w: "w \<in> set (work_queue d)" "linked d (q_id w) j"
      "row_key w = (NormalizeKey (dq_text q) (ArtistName tr), NormalizeKey (dq_text q) (TrackName tr))"
      by (auto simp: handed_over_def)
    from keep [OF w(1)] obtain w' where w': "row_of d' (q_id w) = Some w'" "row_key w' = row_key w" "q_id w' = q_id w" by blast
    have "linked d' (q_id w) j" using w(2) sub by (auto simp: linked_def)
    with w(3) w' row_of_Some [OF w'(1)] show ?thesis unfolding handed_over_def by (intro bexI [of _ w']) simp_all
  qed
  show "0 < in_ScanResultID i \<Longrightarrow> handed_over q d' (in_ScanResultID i) (in_Track i)"
  proof -
    assume "0 < in_ScanResultID i"
    with link id have l: "linked d' (q_id ?r) (in_ScanResultID i)" by simp
    have "row_of d' (q_id ?r) = Some ?r" using rows [of "q_id ?r"] by simp
    then have "?r \<in> set (work_queue d')" by (rule conjunct1 [OF row_of_Some])
    with l row_key_enqueued [of q now i pr d] show ?thesis
      unfolding handed_over_def track_key_def by (intro bexI [of _ ?r] conjI)
  qed
qed

section \<open>The interpretations\<close>

lemma db_call_cases:
  fixes E :: "'x outside"
  assumes "db_call E f s = (r, s')"
  obtains (fault) e where "r = Inl e" "sys_db s' = sys_db s" "sys_cache s' = sys_cache s"
  | (run) t where "f t (sys_db s) = (r, sys_db s')" "sys_cache s' = sys_cache s"
proof -
  obtain m x where m: "ox_fault E (sys_x s) = (m, x)" by fastforce
  obtain a d where f: "f (ox_now E x) (sys_db s) = (a, d)" by fastforce
  show thesis
  proof (cases m)
    case None
    with assms m f show thesis by (intro run [of "ox_now E x"]) (auto simp: db_call_def sys_call_def)
  next
    case (Some e)
    with assms m show thesis by (intro fault [of "errorf e"]) (auto simp: db_call_def sys_call_def)
  qed
qed

lemma cache_answers_cong: "sys_cache s' = sys_cache s \<Longrightarrow> cache_answers s' = cache_answers s"
  by (simp add: cache_answers_def fun_eq_iff)

lemma Lookup_again: "fst (Lookup a' t' b' (snd (Lookup a t b c))) = fst (Lookup a' t' b' c)"
  unfolding Lookup_value Lookup_frame ..

lemma cache_answers_Lookup:
  "sys_cache s' = snd (Lookup a t b (sys_cache s)) \<Longrightarrow> cache_answers s' = cache_answers s"
  by (simp add: cache_answers_def fun_eq_iff Lookup_again)

lemma view_same_db:
  "sv_ok (system_view q K) s \<Longrightarrow> sys_db s' = sys_db s \<Longrightarrow> cache_answers s' = cache_answers s \<Longrightarrow>
   unmoved (system_view q K) s s'"
  by (simp add: view_keeps_def)

lemmas view_unchanged = view_same_db [OF _ _ cache_answers_cong]

lemma pending_results_list:
  assumes "sv_ok (system_view q K) s"
  shows "pending_results (system_view q K) s (ListPendingByLibrary lib (sys_db s))"
proof -
  let ?d = "sys_db s" and ?p = "\<lambda>r. s_library_id r = lib \<and> s_status r = SrPending"
  have wf: "wf_db ?d" "ids_ok ?d" using assms by simp_all
  have "distinct (map s_id (filter ?p (scan_results ?d)))" using wf(1) by (simp add: wf_db_def distinct_map_filter)
  then have "distinct (map s_id (sort_key s_id (filter ?p (scan_results ?d))))"
    by (simp add: distinct_map)
  moreover have "0 < s_id r \<and> scan_status ?d (s_id r) = Some SrPending" if "r \<in> set (filter ?p (scan_results ?d))" for r
    using that wf scan_status_mem [OF wf(1)] by (auto simp: ids_ok_def)
  ultimately show ?thesis
    by (auto simp: pending_results_def ListPendingByLibrary_def scanResultRows_def scan_result_of_def comp_def)
qed

interpretation enq: enqueue_service "db_store E" "db_lookup E" "db_enqueue q E" "system_view q K"
  for E :: "'x outside" and q K
proof
  fix s s' :: "'x system" and lib r
  assume ok: "sv_ok (system_view q K) s" and run: "ps_ListPendingByLibrary (db_store E) lib s = (r, s')"
  have call: "db_call E (\<lambda>t d. (Inr (ListPendingByLibrary lib d), d)) s = (r, s')" using run by (simp add: db_store_def)
  from call have "sys_db s' = sys_db s \<and> sys_cache s' = sys_cache s \<and> (\<forall>rs. r = Inr rs \<longrightarrow> rs = ListPendingByLibrary lib (sys_db s))"
    by (cases rule: db_call_cases) auto
  with view_unchanged [OF ok] pending_results_list [OF ok]
  show "unmoved (system_view q K) s s' \<and> (\<forall>rs. r = Inr rs \<longrightarrow> pending_results (system_view q K) s rs)" by blast
next
  fix s s' :: "'x system" and tr :: track and l
  assume ok: "sv_ok (system_view q K) s"
    and run: "db_lookup E (ArtistName tr) (TrackName tr) (DurationBucket (TrackLength tr)) s = (l, s')"
  let ?L = "Lookup (ArtistName tr) (TrackName tr) (DurationBucket (TrackLength tr))"
  obtain m x where m: "ox_fault E (sys_x s) = (m, x)" by fastforce
  obtain v c where v: "?L (sys_cache s) = (v, c)" by fastforce
  show "unmoved (system_view q K) s s' \<and>
      (case l of Inr _ \<Rightarrow> sv_hit (system_view q K) s tr | Inl e \<Rightarrow> errors_is e ErrNoRows \<longrightarrow> \<not> sv_hit (system_view q K) s tr)"
  proof (cases m)
    case (Some y)
    with run m have "l = Inl (errorf y)" "sys_db s' = sys_db s" "sys_cache s' = sys_cache s"
      by (auto simp: db_lookup_def cache_call_def sys_call_def)
    with view_unchanged [OF ok] show ?thesis by (simp add: errors_is_def errorf_def)
  next
    case None
    with run m v have "l = v" "sys_db s' = sys_db s" "sys_cache s' = snd (?L (sys_cache s))"
      by (auto simp: db_lookup_def cache_call_def sys_call_def)
    moreover from this ok have "unmoved (system_view q K) s s'"
      by (intro view_same_db cache_answers_Lookup)
    ultimately show ?thesis using v by (cases v) (auto simp: cache_answers_def)
  qed
next
  fix s s' :: "'x system" and i st u
  assume ok: "sv_ok (system_view q K) s" and run: "ps_SetStatus (db_store E) [i] (sr_status_text st) s = (u, s')"
  have "db_call E (\<lambda>t. SetStatus [i] (sr_status_text st)) s = (u, s')" using run by (simp add: db_store_def)
  then show "case u of Inl _ \<Rightarrow> unmoved (system_view q K) s s' | Inr _ \<Rightarrow> set_to (system_view q K) i st s s'"
  proof (cases rule: db_call_cases)
    case (fault e)
    with view_unchanged [OF ok] show ?thesis by simp
  next
    case (run t)
    show ?thesis
    proof (cases "scan_status (sys_db s) i = None")
      case True
      with run have "u = Inl sql_no_rows" "sys_db s' = sys_db s" by (simp_all add: SetStatus_one)
      with view_unchanged [OF ok] run show ?thesis by simp
    next
      case False
      with run have u: "u = Inr ()" and d: "sys_db s' = (sys_db s)\<lparr>scan_results :=
          update_where (\<lambda>r. s_id r = i) (\<lambda>r. r\<lparr>s_status := st\<rparr>) (scan_results (sys_db s))\<rparr>" by (simp_all add: SetStatus_one)
      have "scan_status (sys_db s') = (scan_status (sys_db s))(i := Some st)"
        unfolding d scan_status_update by (rule if_not_P [OF False])
      with update_status_frame [OF d] ok u cache_answers_cong [OF run(2)] show ?thesis by (simp add: view_keeps_def)
    qed
  qed
next
  fix s s' :: "'x system" and inp :: inputs and prio qr
  assume ok: "sv_ok (system_view q K) s" and sid: "0 < in_ScanResultID inp" and run: "db_enqueue q E inp prio s = (qr, s')"
  have "db_call E (\<lambda>t. Enqueue q t inp prio) s = (qr, s')" using run by (simp add: db_enqueue_def)
  then show "unmoved (system_view q K) s s' \<and> (\<forall>it. qr = Inr it \<longrightarrow> sv_handed (system_view q K) s' (in_ScanResultID inp) (in_Track inp))"
  proof (cases rule: db_call_cases)
    case (fault e)
    with view_unchanged [OF ok] show ?thesis by simp
  next
    case (run t)
    have wf: "wf_db (sys_db s)" "ids_ok (sys_db s)" "scan_idents (sys_db s) = K" using ok by simp_all
    show ?thesis
    proof (cases qr)
      case (Inl e)
      from run(1) have "sys_db s' = sys_db s" by (cases rule: Enqueue_cases) (simp_all add: Inl)
      with view_unchanged [OF ok] run(2) Inl show ?thesis by simp
    next
      case (Inr it)
      note E = run(1) [unfolded Inr]
      have "scan_status (sys_db s') = scan_status (sys_db s)"
        by (simp add: scan_status_def fun_eq_iff Enqueue_frame(1) [OF E])
      moreover have "ids_ok (sys_db s')" using wf(2) by (simp add: ids_ok_def Enqueue_frame(1,2) [OF E])
      ultimately show ?thesis
        using wf(3) Enqueue_frame(4) [OF E] wf_Enqueue [OF wf(1) E] Enqueue_hands_over [OF wf(1) E] sid cache_answers_cong [OF run(2)] Inr
        by (auto simp: view_keeps_def)
    qed
  qed
qed

interpretation henq: healthy_enqueue "db_store (reliable E)" "db_lookup (reliable E)" "db_enqueue q (reliable E)" "system_view q K"
  for E :: "'x outside" and q K
proof
  fix a t b e and s s' :: "'x system"
  show "db_lookup (reliable E) a t b s = (Inl e, s') \<Longrightarrow> errors_is e ErrNoRows"
    using Lookup_value [of a t b "sys_cache s"]
    by (auto simp: db_lookup_def cache_call_def sys_call_def Let_def no_rows_def errors_is_def
        split: prod.splits option.splits)
next
  fix s :: "'x system" and i st
  show "sv_status (system_view q K) s i \<noteq> None \<Longrightarrow> fst (ps_SetStatus (db_store (reliable E)) [i] (sr_status_text st) s) = Inr ()"
    by (simp add: db_store_def db_call_def sys_call_def SetStatus_one)
next
  fix s :: "'x system" and inp :: inputs and prio
  assume ok: "sv_ok (system_view q K) s" and st: "sv_status (system_view q K) s (in_ScanResultID inp) \<noteq> None"
  let ?t = "ox_now (reliable E) (sys_x s)"
  have "wf_db (sys_db s)" "in_ScanResultID inp \<in> s_id ` set (scan_results (sys_db s))"
    using ok st scan_status_None [of "sys_db s" "in_ScanResultID inp"] by simp_all
  then obtain it d' where "Enqueue q ?t inp prio (sys_db s) = (Inr it, d')"
    using Enqueue_ok [where d = "sys_db s" and i = inp and q = q and now = ?t and pr = prio] by metis
  then show "\<exists>it. fst (db_enqueue q (reliable E) inp prio s) = Inr it"
    by (simp add: db_enqueue_def db_call_def sys_call_def)
qed

section \<open>The pending results of a library\<close>

text \<open>\<open>EnqueuePending\<close>, reduced to its loop.\<close>

lemma EnqueuePending_service:
  fixes E :: "'x outside"
  assumes "EnqueuePending (service_ctx E) (service_enqueuer q E prio override global) lib s = (((n, h), e), s')"
  obtains (early) err where "e = Some err" "n = 0" "h = 0" "sys_db s' = sys_db s" "sys_cache s' = sys_cache s"
      "ox_ctx E (sys_x s) \<noteq> None
       \<or> (\<exists>x. fst (db_call E (\<lambda>t d. (Inr (ListPendingByLibrary (lib_ID lib) d), d)) s) = Inl x)"
  | (loop) s1 detect where "sys_db s1 = sys_db s" "sys_cache s1 = sys_cache s"
      "enqueue_loop (service_ctx E) (db_store E) (db_lookup E) (db_enqueue q E) prio detect
         (ListPendingByLibrary (lib_ID lib) (sys_db s)) (0, 0) s1 = (((n, h), e), s')"
proof (cases "ox_ctx E (sys_x s)")
  case (Some x)
  with assms show thesis by (intro early [of x]) (auto simp: EnqueuePending_def service_enqueuer_def)
next
  case None
  let ?call = "db_call E (\<lambda>t d. (Inr (ListPendingByLibrary (lib_ID lib) d), d)) s"
  obtain r s1 where c: "?call = (r, s1)" by fastforce
  have same: "sys_db s1 = sys_db s \<and> sys_cache s1 = sys_cache s
      \<and> (\<forall>rs. r = Inr rs \<longrightarrow> rs = ListPendingByLibrary (lib_ID lib) (sys_db s))"
    using c by (cases rule: db_call_cases) auto
  show thesis
  proof (cases r)
    case (Inl x)
    with assms None c same show thesis
      by (intro early [of "wrapf ''scan: list pending for enqueue'' x"])
        (auto simp: EnqueuePending_def service_enqueuer_def db_store_def Let_def)
  next
    case (Inr rs)
    with assms None c same show thesis
      by (intro loop [of s1 "ResolveBool override (lib_DetectInstrumental lib) global"])
        (auto simp: EnqueuePending_def service_enqueuer_def db_store_def Let_def)
  qed
qed

definition pending_of :: "library \<Rightarrow> 'x system \<Rightarrow> scan_result list" where
  "pending_of lib s = ListPendingByLibrary (lib_ID lib) (sys_db s)"

abbreviation view_of :: "dbqueue \<Rightarrow> 'x system \<Rightarrow> 'x system scan_view" where
  "view_of q s \<equiv> system_view q (scan_idents (sys_db s))"

lemma EnqueuePending_accounts:
  fixes E :: "'x outside"
  assumes ok: "wf_db (sys_db s)" "ids_ok (sys_db s)"
    and run: "EnqueuePending (service_ctx E) (service_enqueuer q E prio override global) lib s = (((n, h), e), s')"
  shows "\<exists>k. accounted (view_of q s) (pending_of lib s) k e s s'
    \<and> n = fresh (view_of q s) s (take k (pending_of lib s)) \<and> h = hits (view_of q s) s (take k (pending_of lib s))"
  using run
proof (cases rule: EnqueuePending_service)
  case (early err)
  then have "unmoved (view_of q s) s s'" using ok by (intro view_unchanged) simp_all
  with early show ?thesis by (intro exI [of _ 0]) (simp add: accounted_def fresh_def hits_def view_keeps_def)
next
  case (loop s1 detect)
  have v: "unmoved (view_of q s) s s1" using ok loop by (intro view_unchanged) simp_all
  have "sv_ok (view_of q s) s1" using ok loop by simp
  moreover have "pending_results (view_of q s) s1 (pending_of lib s)"
    using pending_results_list [of q "scan_idents (sys_db s)" s] ok loop(1)
    by (simp add: pending_of_def pending_results_def)
  ultimately obtain k where k: "accounted (view_of q s) (pending_of lib s) k e s1 s'"
      "n = 0 + fresh (view_of q s) s1 (take k (pending_of lib s))" "h = 0 + hits (view_of q s) s1 (take k (pending_of lib s))"
    using enq.enqueue_loop_accounts [OF loop(3) [folded pending_of_def]] by blast
  have "accounted (view_of q s) (pending_of lib s) k e s s'"
    using k(1) v by (simp add: accounted_def view_keeps_def)
  moreover have "cache_answers s1 = cache_answers s" using loop(2) by (rule cache_answers_cong)
  ultimately show ?thesis using k(2,3) by (intro exI [of _ k]) (simp add: fresh_def hits_def)
qed

text \<open>Nothing is left pending once every pending result was handled.\<close>

lemma scan_result_of_simps [simp]:
  "res_ID (scan_result_of r) = s_id r" "res_FilePath (scan_result_of r) = s_file_path r"
  "res_LibraryID (scan_result_of r) = s_library_id r"
  by (simp_all add: scan_result_of_def)

lemma set_pending_of:
  "set (pending_of lib s) =
     scan_result_of ` {r \<in> set (scan_results (sys_db s)). s_library_id r = lib_ID lib \<and> s_status r = SrPending}"
  by (auto simp: pending_of_def ListPendingByLibrary_def scanResultRows_def)

lemma scan_idents_mem:
  "scan_idents d' = scan_idents d \<Longrightarrow> r' \<in> set (scan_results d') \<Longrightarrow>
   \<exists>r \<in> set (scan_results d). s_id r = s_id r' \<and> s_library_id r = s_library_id r' \<and> s_file_path r = s_file_path r'"
proof -
  assume eq: "scan_idents d' = scan_idents d" and r': "r' \<in> set (scan_results d')"
  have "(s_id r', s_library_id r', s_file_path r') \<in> set (scan_idents d')" using r' by (auto simp: scan_idents_def)
  then show ?thesis unfolding eq by (auto simp: scan_idents_def)
qed

lemma none_pending:
  assumes ok: "wf_db (sys_db s)" and acc: "accounted (view_of q s) (pending_of lib s) (length (pending_of lib s)) e s s'"
    and e: "e = None"
  shows "pending_of lib s' = []"
proof (rule ccontr)
  let ?rs = "pending_of lib s"
  assume "pending_of lib s' \<noteq> []"
  then obtain x where "x \<in> set (pending_of lib s')" by fastforce
  then obtain r' where r': "r' \<in> set (scan_results (sys_db s'))" "s_library_id r' = lib_ID lib" "s_status r' = SrPending"
    unfolding set_pending_of by blast
  have ok': "wf_db (sys_db s')" and idents: "scan_idents (sys_db s') = scan_idents (sys_db s)"
    using acc by (simp_all add: accounted_def view_keeps_def)
  obtain r where r: "r \<in> set (scan_results (sys_db s))" "s_id r = s_id r'" "s_library_id r = s_library_id r'"
    using scan_idents_mem [OF idents r'(1)] by blast
  have st': "scan_status (sys_db s') (s_id r) = Some SrPending" using scan_status_mem [OF ok' r'(1)] r(2) r'(3) by simp
  show False
  proof (cases "s_status r = SrPending")
    case True
    then have "scan_result_of r \<in> set ?rs" unfolding set_pending_of using r r'(2) by simp
    then have "handled (view_of q s) s' (scan_result_of r)" using acc by (simp add: accounted_def)
    with st' show False by (simp add: handled_def split: if_splits)
  next
    case False
    have "s_id r \<notin> res_ID ` set ?rs"
    proof
      assume "s_id r \<in> res_ID ` set ?rs"
      then obtain y where y: "y \<in> set (scan_results (sys_db s))" "s_status y = SrPending" "s_id y = s_id r"
        unfolding set_pending_of by auto
      then have "y = r" using r(1) wf_dbD(2) [OF ok] by (metis distinct_key_unique)
      with y False show False by simp
    qed
    with acc e have "scan_status (sys_db s') (s_id r) = scan_status (sys_db s) (s_id r)" by (simp add: accounted_def)
    with st' False scan_status_mem [OF ok r(1)] show False by simp
  qed
qed

end
