(* ===== verification/Service_Props.thy ===== *)
theory Service_Props
  imports Service
begin

text \<open>
  The properties of the worker on its queue and cache: no claimed row is orphaned silently, every
  item concludes when the database answers, a throttle gives the row back as it was, misses retire
  a row after exactly the configured number, stored lyrics are found again without a dispatch, a
  rejected song is neither written nor cached, and a row is done only after every output is written.
\<close>

section \<open>Frames\<close>

lemma db_call_frame [simp]:
  "sys_written (snd (db_call E f s)) = sys_written s" "sys_cache (snd (db_call E f s)) = sys_cache s"
  by (auto simp: db_call_def sys_call_def split: prod.split option.split)

lemma db_set_frame [simp]:
  "sys_written (snd (db_set E f s)) = sys_written s" "sys_cache (snd (db_set E f s)) = sys_cache s"
  by (simp_all add: db_set_def)

lemma on_x_frame [simp]:
  "sys_written (snd (on_x f s)) = sys_written s" "sys_cache (snd (on_x f s)) = sys_cache s"
  by (simp_all add: on_x_def split: prod.split)

lemma cache_call_written: "sys_written (snd (cache_call E f s)) = sys_written s"
  by (auto simp: cache_call_def sys_call_def split: prod.split option.split)

lemma db_queue_frame [simp]:
  "sys_written (snd (qi_Complete (db_queue q E) i s)) = sys_written s"
  "sys_written (snd (qi_Fail (db_queue q E) i c s)) = sys_written s"
  "sys_written (snd (qi_Release (db_queue q E) i s)) = sys_written s"
  "sys_written (snd (qi_SetOutcomeType (db_queue q E) i o' s)) = sys_written s"
  "sys_written (snd (qi_SetProviderLane (db_queue q E) i l s)) = sys_written s"
  "sys_cache (snd (qi_Complete (db_queue q E) i s)) = sys_cache s"
  "sys_cache (snd (qi_Fail (db_queue q E) i c s)) = sys_cache s"
  "sys_cache (snd (qi_Release (db_queue q E) i s)) = sys_cache s"
  "sys_cache (snd (qi_SetOutcomeType (db_queue q E) i o' s)) = sys_cache s"
  "sys_cache (snd (qi_SetProviderLane (db_queue q E) i l s)) = sys_cache s"
  by (simp_all add: db_queue_def)

text \<open>\<open>same_files s s'\<close>: no lyrics file written and no lyrics cached.\<close>

definition same_files :: "'x system \<Rightarrow> 'x system \<Rightarrow> bool" where
  "same_files s s' \<longleftrightarrow> sys_written s' = sys_written s \<and> sys_cache s' = sys_cache s"

lemma same_files_trans: "same_files s s1 \<Longrightarrow> same_files s1 s2 \<Longrightarrow> same_files s s2"
  by (simp add: same_files_def)

lemma same_files_calls:
  "same_files s (recordHit (service_deps q E) i l s)"
  "same_files s (recordLaneAttempts (service_deps q E) i as s)"
  "same_files s (snd (w_verify (service_deps q E) wk item sg c s))"
proof -
  show "same_files s (recordHit (service_deps q E) i l s)"
    by (simp add: same_files_def recordHit_def Let_def db_recorder_def)
  show "same_files s (recordLaneAttempts (service_deps q E) i as s)"
    by (simp add: same_files_def recordLaneAttempts_def db_recorder_def)
  show "same_files s (snd (w_verify (service_deps q E) wk item sg c s))"
  proof (cases "ox_verify E")
    case (Some v)
    obtain r s1 where c: "on_x (v (in_SourcePath (wi_Inputs item)) sg) s = (r, s1)" by fastforce
    have "same_files s s1"
      using on_x_frame [of "v (in_SourcePath (wi_Inputs item)) sg" s] by (simp add: c same_files_def)
    with Some c show ?thesis
      by (cases r) (simp_all add: w_verify_def service_deps_def same_files_def)
  qed (simp add: w_verify_def service_deps_def same_files_def)
qed

lemma w_fail_world: "snd (snd (w_fail D item c wk w)) = snd (qi_Fail (dp_queue D) (wi_ID item) c w)"
  by (simp add: w_fail_def Let_def split: prod.split sum.split)

lemma complete_item_world:
  "snd (snd (complete_item D k item wk w)) =
    (let (r, w1) = qi_Complete (dp_queue D) (wi_ID item) w
     in case r of Inr _ \<Rightarrow> w1
        | Inl e \<Rightarrow> snd (qi_Fail (dp_queue D) (wi_ID item)
                          (item_error (''complete '' @ k @ ''item '') (wi_ID item) [] e) w1))"
  unfolding complete_item_def Let_def
  by (cases "qi_Complete (dp_queue D) (wi_ID item) w") (auto split: prod.split sum.split simp del: append.simps)

lemma same_files_fail: "same_files s (snd (snd (w_fail (service_deps q E) item c wk s)))"
  by (simp add: w_fail_world same_files_def)

lemma same_files_complete: "same_files s (snd (snd (complete_item (service_deps q E) k item wk s)))"
proof -
  obtain r s1 where c: "qi_Complete (db_queue q E) (wi_ID item) s = (r, s1)" by fastforce
  have "same_files s s1" using db_queue_frame(1,6) [of q E "wi_ID item" s] by (simp add: c same_files_def)
  then show ?thesis unfolding complete_item_world service_deps_simps c
    by (cases r) (simp_all add: same_files_def)
qed

lemma write_all_written:
  "write_all (service_deps q E) sg ps s = (None, s') \<Longrightarrow>
   sys_written s' = sys_written s @ map (\<lambda>p. (p, sg)) ps \<and> sys_db s' = sys_db s"
proof (induction ps arbitrary: s)
  case (Cons p ps)
  then show ?case by (auto simp: sys_write_def split: prod.splits sum.splits option.splits)
qed simp

lemma write_all_db: "sys_db (snd (write_all (service_deps q E) sg ps s)) = sys_db s"
proof (induction ps arbitrary: s)
  case (Cons p ps)
  show ?case using Cons sys_write_db [of E sg "op_Filename p" "op_Outdir p" s]
    by (auto split: prod.split sum.split)
qed simp

lemma ox_reliable [simp]:
  "ox_now (reliable E) = ox_now E" "ox_random (reliable E) = ox_random E"
  "ox_verify (reliable E) = ox_verify E" "ox_dispatch (reliable E) = ox_dispatch E"
  by (simp_all add: reliable_def)

lemma db_call_reliable:
  "db_call (reliable E) f s = (case f (ox_now E (sys_x s)) (sys_db s) of (r, d) \<Rightarrow> (r, s\<lparr>sys_db := d\<rparr>))"
  by (simp add: db_call_def sys_call_def)

lemma cache_call_reliable:
  "cache_call (reliable E) f s = (case f (sys_cache s) of (r, c) \<Rightarrow> (r, s\<lparr>sys_cache := c\<rparr>))"
  by (simp add: cache_call_def sys_call_def)

section \<open>Every item concludes\<close>

text \<open>
  C5. The worker never orphans a claimed row in silence: whatever the providers answer and whichever
  database calls fail, one \<open>RunOnce\<close> keeps the database well formed and changes the status of at
  most one row, which was not claimed before, and if that row is still processing afterwards the
  call returns an error other than "queue empty", on which the loop stops instead of going on.
\<close>

theorem run_once_never_orphans:
  assumes "wf_db (sys_db s)" and "RunOnce (service_deps q E) wk s = (err, wk', s')"
  shows "wf_db (sys_db s') \<and> (sys_status s' = sys_status s \<or>
    (\<exists>i. sys_status s i \<noteq> Some Processing \<and> (\<forall>j. j \<noteq> i \<longrightarrow> sys_status s' j = sys_status s j)
       \<and> (sys_status s' i = Some Processing \<longrightarrow> (\<exists>e. err = Some e \<and> \<not> errors_is e WorkerQueueEmpty))))"
  using svc.RunOnce_settles [of s q E wk err wk' s'] assms by (simp add: sys_ok_def)

text \<open>
  C6. When the database answers, every item concludes: \<open>RunOnce\<close> either changes no status and returns
  an error (idle gate, cancelled context or empty queue), or it claims one row and settles it, to done
  or deferred with the failure counter back at zero, to failed with the counter one higher, or back
  to pending with the "queue empty" signal that ends the pass.
\<close>

theorem run_once_concludes:
  assumes "wf_db (sys_db s)" and "RunOnce (service_deps q (reliable E)) wk s = (err, wk', s')"
  shows "(err \<noteq> None \<and> sys_status s' = sys_status s) \<or>
    (\<exists>i. sys_status s i \<noteq> Some Processing \<and> (\<forall>j. j \<noteq> i \<longrightarrow> sys_status s' j = sys_status s j) \<and>
       ((err = Some errQueueEmpty \<and> sys_status s' i = Some Pending)
        \<or> (err = None \<and> sys_status s' i \<in> {Some Done, Some Deferred} \<and> w_consecutiveFailures wk' = 0)
        \<or> (err = None \<and> sys_status s' i = Some Failed
             \<and> w_consecutiveFailures wk' = w_consecutiveFailures wk + 1)))"
  using hsvc.RunOnce_concludes [of s q E wk err wk' s'] assms by (simp add: sys_ok_def concluded_def)

section \<open>A throttle gives the row back\<close>

text \<open>
  A throttled or unavailable provider costs the item nothing: when the dispatch of a claimed row
  ends in a throttle, an auth failure or "all lanes unavailable", the row is pending again with its
  attempts, miss count, priority and schedule as they were, nothing is written or cached, no other
  row and no scan result changes, and the pass ends with the "queue empty" signal.
\<close>

theorem throttle_gives_back:
  assumes "wf_db (sys_db s)" and "claimed (sys_db s) (wi_ID item) = Some r"
    and "ClassifyOutcome (Some e) \<in> {OutcomeAuthRateLimit, OutcomeUnavailable}"
    and "handle_error (service_deps q (reliable E)) item t sg e wk s = (err, wk', s')"
  shows "err = Some errQueueEmpty \<and> same_files s s' \<and> w_orch wk' = w_orch wk
    \<and> w_consecutiveFailures wk' \<le> max 0 (w_consecutiveFailures wk)
    \<and> scan_results (sys_db s') = scan_results (sys_db s)
    \<and> (\<forall>i. row_of (sys_db s') i =
         (if i = wi_ID item
          then Some (touch (ox_now E (sys_x s)) (r\<lparr>q_status := Pending, q_last_error := []\<rparr>))
          else row_of (sys_db s) i))"
proof -
  have rel: "qi_Release (db_queue q (reliable E)) (wi_ID item) s
      = (Inr (), s\<lparr>sys_db := upd_claimed (ox_now E (sys_x s)) (wi_ID item) release_row (sys_db s)\<rparr>)"
    using assms(1,2) by (simp add: db_queue_def db_call_reliable Release_eq)
  have rows: "row_of (upd_claimed n (wi_ID item) release_row (sys_db s)) i
      = (if i = wi_ID item then Some (touch n (release_row r)) else row_of (sys_db s) i)" for n i
    using assms(2) by (simp add: row_of_upd_claimed release_row_def)
  show ?thesis
    using assms(3,4) rows by (auto simp: handle_error_def releaseAfterThrottle_def Let_def rel
        same_files_def release_row_def)
qed

section \<open>Done only after every write\<close>

lemma status_after_fail:
  assumes "sys_ok s" "sys_status s i = Some Processing"
  shows "sys_status (snd (qi_Fail (db_queue q E) i c s)) i \<in> {Some Processing, Some Failed}"
  using dbq.fail [of i s q E c] assms by (auto simp: moves_def split: sum.splits)

lemma write_and_complete_done:
  assumes ok: "sys_ok s" and st: "sys_status s (wi_ID item) = Some Processing"
    and run: "write_and_complete (service_deps q E) item sg wk s = (err, wk', s')"
    and d: "sys_status s' (wi_ID item) = Some Done"
  shows "sys_written s' = sys_written s @ map (\<lambda>p. (p, sg)) (outputPaths (wi_Inputs item))"
proof -
  let ?D = "service_deps q E"
  obtain r s1 where w: "write_all ?D sg (outputPaths (wi_Inputs item)) s = (r, s1)" by fastforce
  have db: "sys_db s1 = sys_db s" using write_all_db [of q E sg "outputPaths (wi_Inputs item)" s] w by simp
  show ?thesis
  proof (cases r)
    case (Some pe)
    then have s': "s' = snd (qi_Fail (db_queue q E) (wi_ID item) (write_error ''write item '' item (fst pe) (snd pe)) s1)"
      using run w w_fail_world [of ?D item _ wk s1]
      by (simp add: write_and_complete_def split: prod.splits) (metis prod.sel(2))
    have "sys_status s' (wi_ID item) \<in> {Some Processing, Some Failed}"
      unfolding s' using ok st db by (intro status_after_fail) (simp_all add: sys_ok_def sys_status_def)
    with d show ?thesis by simp
  next
    case None
    let ?s2 = "if outcomeTypeFromSong sg \<noteq> []
        then snd (qi_SetOutcomeType (db_queue q E) (wi_ID item) (outcomeTypeFromSong sg) s1) else s1"
    have "s' = snd (snd (complete_item ?D [] item wk ?s2))"
      using run w None by (simp add: write_and_complete_def Let_def split: if_splits)
    then have "sys_written s' = sys_written ?s2"
      using same_files_complete [of ?s2 q E "[]" item wk] by (simp add: same_files_def)
    moreover have "sys_written ?s2 = sys_written s1" by simp
    ultimately show ?thesis using write_all_written [OF w [unfolded None]] by simp
  qed
qed

text \<open>What the vetting of a fetched song does: it writes no file, and a song it does not accept
  is not cached either.\<close>

lemma vet_files:
  assumes "vet_fetched (service_deps q E) item t sg c wk s = out"
  shows "case out of
      Inl out' \<Rightarrow> sys_written (snd (snd out')) = sys_written s
        \<and> (guardReject wk sg \<longrightarrow> sys_cache (snd (snd out')) = sys_cache s)
    | Inr s' \<Rightarrow> sys_written s' = sys_written s \<and> \<not> guardReject wk sg"
proof -
  let ?D = "service_deps q E"
  let ?s2 = "recordLaneAttempts ?D (wi_ID item) (LaneAttempts sg) (recordHit ?D (wi_ID item) (WinningLane sg) s)"
  obtain v s3 where v: "w_verify ?D wk item sg c ?s2 = (v, s3)" by fastforce
  have f3: "same_files s s3"
    using same_files_trans [OF same_files_trans [OF same_files_calls(1) same_files_calls(2)] same_files_calls(3)] v
    by (metis snd_conv)
  obtain r4 s4 where k: "qi_Complete (db_queue q E) (wi_ID item) s3 = (r4, s4)" by fastforce
  have f4: "same_files s s4"
    using f3 db_queue_frame(1,6) [of q E "wi_ID item" s3] by (simp add: k same_files_def)
  obtain r5 s5 where st: "w_store ?D t sg s3 = (r5, s5)" by fastforce
  have f5: "sys_written s5 = sys_written s"
    using f3 st cache_call_written [of E "Store (ArtistName t) (TrackName t) (DurationBucket (TrackLength t)) (encodeSong ?D sg)" s3]
    by (auto simp: w_store_def same_files_def split: prod.splits sum.splits)
  have ff: "same_files x (snd (snd (w_fail ?D item e wk x)))" for e x by (rule same_files_fail)
  show ?thesis
    using assms f3 f4 f5 ff
    by (cases v; cases r4; cases r5) (auto simp: vet_fetched_def Let_def v k st same_files_def split: if_splits)
qed


text \<open>The row after the vetting: claimed still, or failed, or done when the song is rejected.\<close>

lemma vet_status:
  assumes ok: "sys_ok s" and st: "sys_status s (wi_ID item) = Some Processing"
    and vet: "vet_fetched (service_deps q E) item t sg c wk s = out"
  shows "case out of
      Inl out' \<Rightarrow> sys_status (snd (snd out')) (wi_ID item) = Some Done \<longrightarrow> guardReject wk sg
    | Inr s' \<Rightarrow> sys_ok s' \<and> sys_status s' (wi_ID item) = Some Processing"
proof -
  let ?D = "service_deps q E"
  let ?s2 = "recordLaneAttempts ?D (wi_ID item) (LaneAttempts sg) (recordHit ?D (wi_ID item) (WinningLane sg) s)"
  obtain v s3 where v: "w_verify ?D wk item sg c ?s2 = (v, s3)" by fastforce
  have "quiet sys_ok sys_status s s3"
    using quiet_trans [OF quiet_trans [OF svc.quiet_recordHit svc.quiet_recordLaneAttempts] svc.quiet_verify] v
    by (metis snd_conv)
  with ok st have s3: "sys_ok s3" "sys_status s3 (wi_ID item) = Some Processing" by (simp_all add: quiet_def)
  obtain r5 s5 where w: "w_store ?D t sg s3 = (r5, s5)" by fastforce
  with svc.quiet_store [of s3 q E t sg] s3
  have s5: "sys_ok s5" "sys_status s5 (wi_ID item) = Some Processing" by (simp_all add: quiet_def)
  have fl: "sys_status (snd (snd (w_fail ?D item e wk x))) (wi_ID item) \<noteq> Some Done"
    if "sys_ok x" "sys_status x (wi_ID item) = Some Processing" for e x
    using status_after_fail [OF that, of q E e] by (auto simp: w_fail_world)
  note fl3 = fl [OF s3] and fl5 = fl [OF s5]
  show ?thesis
  proof (cases v)
    case (Some e)
    with vet have "out = Inl (w_fail ?D item e wk s3)" by (simp add: vet_fetched_def Let_def v)
    with fl3 show ?thesis by simp
  next
    case None
    show ?thesis
    proof (cases "guardReject wk sg")
      case True
      have "isl out"
        using vet True None by (auto simp: vet_fetched_def Let_def v split: prod.splits sum.splits)
      with True show ?thesis by (cases out) simp_all
    next
      case False
      with vet None w fl5 s5 show ?thesis
        by (cases r5) (auto simp: vet_fetched_def Let_def v)
    qed
  qed
qed

text \<open>A claimed row the handling of a fetched or cached song leaves done: the song was written to every
  output path, or it was fetched and the guard rejected it and nothing was written.\<close>

lemma handle_song_done:
  assumes ok: "sys_ok s" and st: "sys_status s (wi_ID item) = Some Processing"
    and run: "handle_song (service_deps q E) item t sg hit wk s = (err, wk', s')"
    and d: "sys_status s' (wi_ID item) = Some Done"
  defines "sg1 \<equiv> if hit then sg else sg\<lparr>FetchedAt := Some (ox_now E (sys_x s))\<rparr>"
  shows "sys_written s' = (if \<not> hit \<and> guardReject wk sg1 then sys_written s
    else sys_written s @ map (\<lambda>p. (p, sg1)) (outputPaths (wi_Inputs item)))"
proof (cases hit)
  case True
  with assms write_and_complete_done [OF ok st] show ?thesis by (simp add: handle_song_def)
next
  case False
  let ?D = "service_deps q E" and ?c = "Confidence (dq_text q) (in_Track (wi_Inputs item)) (Track sg)"
  obtain out where out: "vet_fetched ?D item t sg1 ?c wk s = out" by blast
  note vf = vet_files [OF out] and vs = vet_status [OF ok st out]
  have run': "(case out of Inl out' \<Rightarrow> out' | Inr s1 \<Rightarrow> write_and_complete ?D item sg1 wk s1) = (err, wk', s')"
  proof -
    have eq: "sg1 = sg\<lparr>FetchedAt := Some (ox_now E (sys_x s))\<rparr>" using False by (simp add: sg1_def)
    show ?thesis using run False out unfolding eq by (simp add: handle_song_def Let_def)
  qed
  show ?thesis
  proof (cases out)
    case (Inl out')
    with run' vs vf d False show ?thesis by simp
  next
    case (Inr s1)
    with run' vf vs False write_and_complete_done [of s1 item q E sg1 wk err wk' s'] d show ?thesis by simp
  qed
qed

lemma write_all_prefix:
  assumes "write_all (service_deps q E) sg ps s = (r, s')"
  shows "\<exists>k. sys_written s' = sys_written s @ map (\<lambda>p. (p, sg)) (take k ps) \<and> (r = None \<longrightarrow> length ps \<le> k)"
  using assms
proof (induction ps arbitrary: s)
  case (Cons p ps)
  obtain w s1 where w: "sys_write E sg (op_Filename p) (op_Outdir p) s = (w, s1)" by fastforce
  show ?case
  proof (cases w)
    case (Inl e)
    with Cons.prems w have "sys_written s' = sys_written s" "r \<noteq> None"
      by (auto simp: sys_write_def split: prod.splits option.splits)
    then show ?thesis by (intro exI [of _ 0]) simp
  next
    case (Inr u)
    then have s1: "sys_written s1 = sys_written s @ [(p, sg)]"
      using w by (auto simp: sys_write_def split: prod.splits option.splits)
    from Inr Cons.prems w have "write_all (service_deps q E) sg ps s1 = (r, s')" by simp
    from Cons.IH [OF this] obtain k where "sys_written s' = sys_written s1 @ map (\<lambda>p. (p, sg)) (take k ps)"
      "r = None \<longrightarrow> length ps \<le> k" by blast
    with s1 show ?thesis by (intro exI [of _ "Suc k"]) simp
  qed
qed simp

text \<open>The miss limit reached: the next miss retires the row.\<close>

definition retires :: "worker \<Rightarrow> work_item \<Rightarrow> bool" where
  "retires wk item \<longleftrightarrow> w_maxMissAttempts wk > 0 \<and> wi_MissCount item + 1 \<ge> w_maxMissAttempts wk"

lemma settle_miss_done:
  assumes ok: "sys_ok s" and st: "sys_status s (wi_ID item) = Some Processing"
    and run: "settle_miss (service_deps q E) item cause wk s = (err, wk', s')"
  shows "sys_written s' = sys_written s \<and> (sys_status s' (wi_ID item) = Some Done \<longrightarrow> retires wk item)"
proof -
  let ?w = "MissCooldown (wi_MissCount item + 1) (w_missBackoffBase wk) (w_missBackoffCap wk)"
  have s': "s' = (if retires wk item then snd (qi_RetireMiss (db_queue q E) (wi_ID item) s)
      else snd (qi_Defer (db_queue q E) (wi_ID item) ?w cause s))"
    using run by (auto simp: settle_miss_def requeueDeferred_def Let_def retires_def split: prod.splits sum.splits if_splits option.splits)
  then have "sys_written s' = sys_written s" by (simp add: db_queue_def)
  moreover have "sys_status s' (wi_ID item) \<noteq> Some Done" if "\<not> retires wk item"
    using that s' dbq.defer_item [of "wi_ID item" s q E ?w cause] ok st by (auto simp: moves_def split: sum.splits)
  ultimately show ?thesis by blast
qed

lemma detect_written: "sys_written (snd (detectInstrumental (service_deps q E) wk item s)) = sys_written s"
proof (cases "ox_detect E")
  case (Some f)
  obtain r s1 where "on_x (f (in_SourcePath (wi_Inputs item))) s = (r, s1)" by fastforce
  with Some on_x_frame(1) [of "f (in_SourcePath (wi_Inputs item))" s] show ?thesis
    by (auto simp: detectInstrumental_def Let_def service_deps_def split: sum.split option.split)
qed (auto simp: detectInstrumental_def Let_def service_deps_def split: option.split)

lemma recordMisses_written: "sys_written (recordMisses (service_deps q E) wk s) = sys_written s"
proof -
  have "sys_written (fold (\<lambda>n s. snd (rc_RecordProviderMiss (db_recorder E) n s)) ns s) = sys_written s" for ns
    by (induction ns arbitrary: s) (simp_all add: db_recorder_def)
  then show ?thesis by (simp add: recordMisses_def)
qed

lemma w_song_written: "sys_written (snd (snd (w_song (service_deps q E) t b wk s))) = sys_written s"
proof -
  let ?D = "service_deps q E"
  obtain r s1 where l: "(if b then (Inl no_rows, s) else dp_lookup ?D (ArtistName t) (TrackName t)
      (DurationBucket (TrackLength t)) s) = (r, s1)" by fastforce
  then have s1: "sys_written s1 = sys_written s"
    using cache_call_written [of E "Lookup (ArtistName t) (TrackName t) (DurationBucket (TrackLength t))" s]
    by (auto split: if_splits)
  obtain v s2 where x: "on_x (ox_dispatch E t) s1 = (v, s2)" by fastforce
  then have s2: "sys_written s2 = sys_written s" using s1 on_x_frame(1) [of "ox_dispatch E t" s1] by simp
  show ?thesis
    using s1 s2 unfolding w_song_def l Let_def by (cases r) (simp_all add: x split: prod.split)
qed

text \<open>The instrumental branch and the miss branch.\<close>

lemma write_instrumental_done:
  assumes ok: "sys_ok s" and st: "sys_status s (wi_ID item) = Some Processing"
    and run: "write_instrumental (service_deps q E) item t det cause wk s = (err, wk', s')"
    and d: "sys_status s' (wi_ID item) = Some Done"
  shows "\<exists>k. sys_written s' = sys_written s @ map (\<lambda>p. (p, instrumental_song t)) (take k (outputPaths (wi_Inputs item)))
    \<and> (length (outputPaths (wi_Inputs item)) \<le> k \<or> retires wk item)"
proof -
  let ?D = "service_deps q E" and ?sg = "instrumental_song t" and ?ps = "outputPaths (wi_Inputs item)"
  let ?st = "cache_call E (Store (ArtistName t) (TrackName t) (DurationBucket (TrackLength t)) (encodeSong ?D ?sg)) s"
  obtain r1 s1 where s1: "?st = (r1, s1)" by fastforce
  then have w1: "sys_written s1 = sys_written s" and db1: "sys_db s1 = sys_db s"
    using cache_call_written cache_call_db by (metis snd_conv)+
  obtain r s2 where w: "write_all ?D ?sg ?ps s1 = (r, s2)" by fastforce
  obtain k where k: "sys_written s2 = sys_written s @ map (\<lambda>p. (p, ?sg)) (take k ?ps)" "r = None \<longrightarrow> length ?ps \<le> k"
    using write_all_prefix [OF w] w1 by auto
  have db2: "sys_db s2 = sys_db s" using write_all_db [of q E ?sg ?ps s1] w db1 by simp
  show ?thesis
  proof (cases r)
    case (Some pe)
    then have run': "settle_miss ?D item cause wk s2 = (err, wk', s')"
      using run s1 w by (simp add: write_instrumental_def Let_def)
    have "sys_ok s2" "sys_status s2 (wi_ID item) = Some Processing"
      using ok st db2 by (simp_all add: sys_ok_def sys_status_def)
    from settle_miss_done [OF this run'] k d show ?thesis by auto
  next
    case None
    define s4 where "s4 = snd (qi_SetOutcomeType (db_queue q E) (wi_ID item) ''instrumental''
      (snd (qi_SetInstrumentalResult (db_queue q E) (wi_ID item) 1 (telemetry_of det) s2)))"
    have "s' = snd (snd (complete_item ?D ''instrumental '' item wk s4))"
      using run s1 w None by (simp add: write_instrumental_def Let_def s4_def split_beta)
    then have "sys_written s' = sys_written s4"
      using same_files_complete [of s4 q E "''instrumental ''" item wk] by (simp add: same_files_def)
    moreover have "sys_written s4 = sys_written s2" by (simp add: s4_def db_queue_def)
    ultimately show ?thesis using k None by (intro exI [of _ k]) auto
  qed
qed

lemma handle_miss_done:
  assumes ok: "sys_ok s" and st: "sys_status s (wi_ID item) = Some Processing"
    and run: "handle_miss (service_deps q E) item t sg cause wk s = (err, wk', s')"
    and d: "sys_status s' (wi_ID item) = Some Done"
  shows "\<exists>k. sys_written s' = sys_written s @ map (\<lambda>p. (p, instrumental_song t)) (take k (outputPaths (wi_Inputs item)))
    \<and> (length (outputPaths (wi_Inputs item)) \<le> k \<or> retires wk item)"
proof -
  let ?D = "service_deps q E"
  let ?s2 = "recordLaneAttempts ?D (wi_ID item) (LaneAttempts sg) (recordMisses ?D wk s)"
  obtain det ran derr s3 where dt: "detectInstrumental ?D wk item ?s2 = ((det, ran, derr), s3)"
    by (metis prod.collapse)
  have "quiet sys_ok sys_status s s3"
    using quiet_trans [OF quiet_trans [OF svc.quiet_recordMisses svc.quiet_recordLaneAttempts] svc.quiet_detect] dt
    by (metis snd_conv)
  with ok st have s3: "sys_ok s3" "sys_status s3 (wi_ID item) = Some Processing" by (simp_all add: quiet_def)
  have w3: "sys_written s3 = sys_written s"
    using detect_written [of q E wk item ?s2] same_files_calls(2) [of "recordMisses ?D wk s" q E "wi_ID item" "LaneAttempts sg"]
      recordMisses_written [of q E wk s] dt by (simp add: same_files_def)
  show ?thesis
  proof (cases "dr_Instrumental det")
    case True
    then have "write_instrumental ?D item t det cause wk s3 = (err, wk', s')"
      using run dt by (simp add: handle_miss_def Let_def)
    from write_instrumental_done [OF s3 this d] w3 show ?thesis by simp
  next
    case False
    define s4 where "s4 = (if derr = None \<and> ran
      then snd (qi_SetInstrumentalResult (db_queue q E) (wi_ID item) 0 (telemetry_of det) s3) else s3)"
    have q4: "quiet sys_ok sys_status s3 s4"
      using dbq.set_instrumental by (auto simp: s4_def intro: quiet_refl)
    have run': "settle_miss ?D item cause wk s4 = (err, wk', s')"
      using run dt False unfolding s4_def by (cases derr; cases ran) (simp_all add: handle_miss_def Let_def)
    have "sys_written s4 = sys_written s3" by (simp add: s4_def db_queue_def)
    with settle_miss_done [OF _ _ run'] q4 s3 w3 d show ?thesis
      by (intro exI [of _ 0]) (simp add: quiet_def)
  qed
qed

text \<open>The error branch: only a miss can leave the row done.\<close>

lemma handle_error_done:
  assumes ok: "sys_ok s" and st: "sys_status s (wi_ID item) = Some Processing"
    and run: "handle_error (service_deps q E) item t sg e wk s = (err, wk', s')"
    and d: "sys_status s' (wi_ID item) = Some Done"
  shows "IsBenignMiss e \<and> handle_miss (service_deps q E) item t sg e wk s = (err, wk', s')"
proof -
  let ?D = "service_deps q E"
  have nf: "s' \<noteq> snd (qi_Fail (db_queue q E) (wi_ID item) c s)" for c
    using status_after_fail [OF ok st, of q E c] d by auto
  have nr: "s' \<noteq> snd (qi_Release (db_queue q E) (wi_ID item) s)"
    using dbq.release [of "wi_ID item" s q E] ok st d by (auto simp: moves_def split: sum.splits)
  have w: "s' \<noteq> snd (snd (w_fail ?D item e wk s))" using nf by (simp add: w_fail_world)
  show ?thesis
    using run nr w by (auto simp: handle_error_def releaseAfterThrottle_def Let_def
        split: outcome_class.splits prod.splits sum.splits option.splits if_splits)
qed

text \<open>
  C14. A row is done only when its work is: if processing a claimed item leaves its row done then,
  whichever lookups, dispatches, database calls, verifications or writes fail on the way, one of
  three things happened.  A song came back and was written to every output path of the item, in
  order and once; or it came from a provider and the script guard rejected it, and nothing was
  written; or the answer was a benign miss, and then either the instrumental marker was written to
  every output path, or the miss was the one that retires the row (nothing but a prefix of the
  markers, when a marker's write failed, was written).
\<close>

theorem done_only_after_writing:
  assumes "wf_db (sys_db s)" and "sys_status s (wi_ID item) = Some Processing"
    and "process_item (service_deps q E) item wk s = (err, wk', s')"
    and "sys_status s' (wi_ID item) = Some Done"
    and "w_song (service_deps q E) (resolved_track (service_deps q E) item) (bypassCache wk item) wk s
      = (((sg, hit), e), wk1, s1)"
  shows "case e of
      None \<Rightarrow>
        let sg1 = if hit then sg else sg\<lparr>FetchedAt := Some (ox_now E (sys_x s1))\<rparr>
        in sys_written s' = (if \<not> hit \<and> guardReject wk1 sg1 then sys_written s
             else sys_written s @ map (\<lambda>p. (p, sg1)) (outputPaths (wi_Inputs item)))
    | Some c \<Rightarrow> IsBenignMiss c \<and>
        (\<exists>k. sys_written s' = sys_written s
              @ map (\<lambda>p. (p, instrumental_song (resolved_track (service_deps q E) item)))
                  (take k (outputPaths (wi_Inputs item)))
            \<and> (length (outputPaths (wi_Inputs item)) \<le> k
                \<or> w_maxMissAttempts wk1 > 0 \<and> wi_MissCount item + 1 \<ge> w_maxMissAttempts wk1))"
proof -
  let ?D = "service_deps q E" and ?t = "resolved_track (service_deps q E) item"
  have "quiet sys_ok sys_status s s1"
    using svc.quiet_song [of s q E ?t "bypassCache wk item" wk] assms(5) by simp
  with assms(1,2) have s1: "sys_ok s1" "sys_status s1 (wi_ID item) = Some Processing"
    by (simp_all add: quiet_def sys_ok_def)
  have w1: "sys_written s1 = sys_written s"
    using w_song_written [of q E ?t "bypassCache wk item" wk s] assms(5) by simp
  show ?thesis
  proof (cases e)
    case None
    then have "handle_song ?D item ?t sg hit wk1 s1 = (err, wk', s')"
      using assms(3,5) by (simp add: process_item_def Let_def)
    from handle_song_done [OF s1 this assms(4)] w1 None show ?thesis by (simp add: Let_def)
  next
    case (Some c)
    then have "handle_error ?D item ?t sg c wk1 s1 = (err, wk', s')"
      using assms(3,5) by (simp add: process_item_def Let_def)
    note m = handle_error_done [OF s1 this assms(4)]
    from handle_miss_done [OF s1 conjunct2 [OF m] assms(4)] m w1 Some show ?thesis
      by (simp add: retires_def)
  qed
qed

lemma reliable_id: "(\<forall>x. ox_fault E x = (None, x)) \<Longrightarrow> reliable E = E"
  by (simp add: reliable_def fun_eq_iff [symmetric])

lemma rejected_song_settles:
  assumes "wf_db (sys_db s)" and "sys_status s (wi_ID item) = Some Processing"
    and "guardReject wk (sg\<lparr>FetchedAt := Some (ox_now E (sys_x s))\<rparr>)"
    and "handle_song (service_deps q (reliable E)) item t sg False wk s = (err, wk', s')"
  shows "err = None
    \<and> (sys_status s' (wi_ID item) = Some Done \<or> ox_verify E \<noteq> None \<and> sys_status s' (wi_ID item) = Some Failed)"
proof -
  define sg1 where "sg1 = sg\<lparr>FetchedAt := Some (ox_now E (sys_x s))\<rparr>"
  let ?D = "service_deps q (reliable E)" and ?c = "Confidence (dq_text q) (in_Track (wi_Inputs item)) (Track sg)"
  let ?s2 = "recordLaneAttempts ?D (wi_ID item) (LaneAttempts sg1) (recordHit ?D (wi_ID item) (WinningLane sg1) s)"
  have ok: "sys_ok s" using assms(1) by (simp add: sys_ok_def)
  obtain v s3 where v: "w_verify ?D wk item sg1 ?c ?s2 = (v, s3)" by fastforce
  have f3: "same_files s s3"
    using same_files_trans [OF same_files_trans [OF same_files_calls(1) same_files_calls(2)] same_files_calls(3)] v
    by (metis snd_conv)
  have "quiet sys_ok sys_status s s3"
    using quiet_trans [OF quiet_trans [OF svc.quiet_recordHit svc.quiet_recordLaneAttempts] svc.quiet_verify] v
    by (metis snd_conv)
  with ok assms(2) have s3: "sys_ok s3" "sys_status s3 (wi_ID item) = Some Processing"
    by (simp_all add: quiet_def)
  obtain it4 s4 where fl: "\<And>e. v = Some e \<Longrightarrow> qi_Fail (db_queue q (reliable E)) (wi_ID item) e s3 = (Inr it4, s4)"
    using hsvc.live_fail [OF s3, of q E "the v"] by (cases v) auto
  obtain s5 where cm: "qi_Complete (db_queue q (reliable E)) (wi_ID item) s3 = (Inr (), s5)"
    using hsvc.live_complete [OF s3, of q E] by auto
  have st5: "sys_status s5 (wi_ID item) = Some Done" "same_files s s5"
    using dbq.complete [of "wi_ID item" s3 q "reliable E"] s3 cm f3
      db_queue_frame(1,6) [of q "reliable E" "wi_ID item" s3]
    by (simp_all add: moves_def same_files_def)
  have st4: "sys_status s4 (wi_ID item) = Some Failed" "same_files s s4" if "v = Some e" for e
    using dbq.fail [of "wi_ID item" s3 q "reliable E" e] s3 fl [OF that] f3
      db_queue_frame(2,7) [of q "reliable E" "wi_ID item" e s3]
    by (simp_all add: moves_def same_files_def)
  have nv: "ox_verify E = None \<Longrightarrow> v = None"
    using v by (auto simp: w_verify_def service_deps_def)
  have "handle_song ?D item t sg False wk s =
      (case vet_fetched ?D item t sg1 ?c wk s of Inl out \<Rightarrow> out | Inr x \<Rightarrow> write_and_complete ?D item sg1 wk x)"
    unfolding sg1_def by (simp add: handle_song_def Let_def)
  moreover have "vet_fetched ?D item t sg1 ?c wk s =
      (case v of Some e \<Rightarrow> Inl (w_fail ?D item e wk s3)
       | None \<Rightarrow> Inl (None, wk\<lparr>w_consecutiveFailures := 0\<rparr>, s5))"
    using assms(3) by (simp add: vet_fetched_def Let_def v cm sg1_def [symmetric] split: option.split)
  ultimately show ?thesis
    using assms(4) st5 st4 nv by (cases v) (auto simp: w_fail_def Let_def fl)
qed


text \<open>
  C15. A song the script guard rejects leaves no trace: whatever fails on the way, handling it writes
  no file and caches nothing; and when the database answers, the claimed row is settled without an
  error, done unless the verifier failed it.
\<close>

theorem rejected_song_leaves_no_trace:
  assumes "guardReject wk (sg\<lparr>FetchedAt := Some (ox_now E (sys_x s))\<rparr>)"
    and "handle_song (service_deps q E) item t sg False wk s = (err, wk', s')"
  shows "same_files s s'
    \<and> (wf_db (sys_db s) \<and> sys_status s (wi_ID item) = Some Processing \<and> (\<forall>x. ox_fault E x = (None, x)) \<longrightarrow>
         err = None \<and> (sys_status s' (wi_ID item) = Some Done
           \<or> ox_verify E \<noteq> None \<and> sys_status s' (wi_ID item) = Some Failed))"
proof -
  let ?sg = "sg\<lparr>FetchedAt := Some (ox_now E (sys_x s))\<rparr>"
  obtain out where out: "vet_fetched (service_deps q E) item t ?sg
      (Confidence (dq_text q) (in_Track (wi_Inputs item)) (Track sg)) wk s = out" by blast
  with assms vet_files [OF out] have "same_files s s'"
    by (cases out) (auto simp: handle_song_def Let_def same_files_def)
  then show ?thesis
    using rejected_song_settles [OF _ _ assms(1), of item q t err wk' s'] assms(2) reliable_id [of E] by metis
qed

section \<open>Cached lyrics\<close>

lemma w_store_reliable: "\<exists>s1. w_store (service_deps q (reliable E)) t sg s = (Inr (), s1)"
  by (simp add: w_store_def cache_call_reliable Store_def Let_def)

text \<open>What \<open>song\<close> makes of a stored song for a live track.\<close>

definition paired :: "song \<Rightarrow> track \<Rightarrow> song" where
  "paired sg t = (stored_song sg)\<lparr>Track := (json_track (Track sg))\<lparr>ArtistName := ArtistName t,
     TrackName := TrackName t, AlbumName := AlbumName t\<rparr>\<rparr>"

lemma song_after_store:
  assumes "NormalizeKey (cr_text (sys_cache s)) (ArtistName t') = NormalizeKey (cr_text (sys_cache s)) (ArtistName t)"
    and "NormalizeKey (cr_text (sys_cache s)) (TrackName t') = NormalizeKey (cr_text (sys_cache s)) (TrackName t)"
    and "DurationBucket (TrackLength t') = DurationBucket (TrackLength t)"
    and "ArtistName (Track sg) \<noteq> [] \<or> TrackName (Track sg) \<noteq> []"
    and "w_store (service_deps q (reliable E)) t sg s = (Inr (), s1)"
  shows "\<exists>c. w_song (service_deps q (reliable E)) t' False wk s1 = (((paired sg t', True), None), wk, s\<lparr>sys_cache := c\<rparr>)
    \<and> CacheStats c = (cr_hits (sys_cache s) + 1, cr_lookups (sys_cache s) + 1)"
proof -
  let ?D = "service_deps q (reliable E)" and ?b = "DurationBucket (TrackLength t)"
  let ?c = "snd (Store (ArtistName t) (TrackName t) ?b (encodeSong ?D sg) (sys_cache s))"
  have s1: "s1 = s\<lparr>sys_cache := ?c\<rparr>"
    using assms(5) by (auto simp: w_store_def cache_call_reliable Store_def Let_def split: if_splits)
  have "cr_hits ?c = cr_hits (sys_cache s)" "cr_lookups ?c = cr_lookups (sys_cache s)"
    by (simp_all add: Store_def Let_def)
  moreover have "find_cached (NormalizeKey (cr_text ?c) (ArtistName t'), NormalizeKey (cr_text ?c) (TrackName t'), ?b) ?c
      = Some (encodeSong ?D sg)"
    using assms(1,2) by (simp add: find_cached_Store)
  ultimately have "Lookup (ArtistName t') (TrackName t') ?b ?c
      = (Inr (encodeSong ?D sg), ?c\<lparr>cr_lookups := cr_lookups (sys_cache s) + 1, cr_hits := cr_hits (sys_cache s) + 1\<rparr>)"
    by (simp add: Lookup_def Let_def)
  then have "dp_lookup ?D (ArtistName t') (TrackName t') (DurationBucket (TrackLength t')) s1
      = (Inr (encodeSong ?D sg),
         s\<lparr>sys_cache := ?c\<lparr>cr_lookups := cr_lookups (sys_cache s) + 1, cr_hits := cr_hits (sys_cache s) + 1\<rparr>\<rparr>)"
    by (simp add: s1 cache_call_reliable assms(3) del: cr_text_Store)
  moreover have "ArtistName (Track (stored_song sg)) \<noteq> [] \<or> TrackName (Track (stored_song sg)) \<noteq> []"
    using assms(4) by (simp add: stored_song_def json_track_def)
  ultimately show ?thesis
    by (intro exI [of _ "?c\<lparr>cr_lookups := cr_lookups (sys_cache s) + 1, cr_hits := cr_hits (sys_cache s) + 1\<rparr>"])
      (simp add: w_song_def decodeSong_def encodeSong_def paired_def CacheStats_def stored_song_def)
qed

text \<open>
  C16. What a fetch stores, the next lookup of the track returns without asking a provider: after
  \<open>store\<close> succeeds, \<open>song\<close> for any track whose normalised names and duration bucket are those of the
  stored one answers from the cache, changes neither the lanes nor the world, and counts one hit and
  one lookup.  The song it returns is the stored one under the live track's names, less its transient
  fields, with every text as it comes back from the JSON encoder: the lines keep their times, the kind
  of outcome is the same, and texts that are valid UTF-8 are returned unchanged.
\<close>

theorem stored_song_is_found:
  assumes "NormalizeKey (cr_text (sys_cache s)) (ArtistName t') = NormalizeKey (cr_text (sys_cache s)) (ArtistName t)"
    and "NormalizeKey (cr_text (sys_cache s)) (TrackName t') = NormalizeKey (cr_text (sys_cache s)) (TrackName t)"
    and "DurationBucket (TrackLength t') = DurationBucket (TrackLength t)"
    and "ArtistName (Track sg) \<noteq> [] \<or> TrackName (Track sg) \<noteq> []"
    and "w_store (service_deps q (reliable E)) t sg s = (Inr (), s1)"
    and "w_song (service_deps q (reliable E)) t' False wk s1 = (((sg', hit), err), wk', s2)"
  shows "hit \<and> err = None \<and> wk' = wk \<and> sys_x s2 = sys_x s \<and> sys_db s2 = sys_db s
    \<and> Track sg' = (json_track (Track sg))\<lparr>ArtistName := ArtistName t', TrackName := TrackName t',
                                          AlbumName := AlbumName t'\<rparr>
    \<and> LyricsBody sg' = json_text (LyricsBody sg)
    \<and> map Time (Subtitles sg') = map Time (Subtitles sg)
    \<and> map Text (Subtitles sg') = map (json_text \<circ> Text) (Subtitles sg)
    \<and> (list_all (\<lambda>x. ToValidUTF8 x = x) (LyricsBody sg # map Text (Subtitles sg)) \<longrightarrow>
         LyricsBody sg' = LyricsBody sg \<and> Subtitles sg' = Subtitles sg)
    \<and> Instrumental (Track sg') = Instrumental (Track sg) \<and> outcomeTypeFromSong sg' = outcomeTypeFromSong sg
    \<and> WinningLane sg' = [] \<and> LaneAttempts sg' = [] \<and> FetchedAt sg' = None
    \<and> CacheStats (sys_cache s2) = (cr_hits (sys_cache s) + 1, cr_lookups (sys_cache s) + 1)"
proof -
  from song_after_store [OF assms(1-5), of wk] assms(6) obtain c where
    "sg' = paired sg t'" "hit" "err = None" "wk' = wk" "s2 = s\<lparr>sys_cache := c\<rparr>"
    "CacheStats c = (cr_hits (sys_cache s) + 1, cr_lookups (sys_cache s) + 1)"
    by auto
  moreover have "list_all (\<lambda>x. ToValidUTF8 x = x) (map Text ls) \<Longrightarrow> map json_line ls = ls" for ls
    by (induction ls) (auto simp: json_line_def json_text_valid)
  ultimately show ?thesis
    by (simp add: paired_def stored_song_def json_track_def json_line_def outcomeTypeFromSong_def json_text_valid)
qed

section \<open>Miss histories\<close>

text \<open>\<open>misses D i N n s s'\<close>: from \<open>s\<close> the row \<open>i\<close> has been claimed and settled as a miss \<open>n\<close> times, by
  workers whose miss limit is \<open>N\<close>; in between anything may have happened that leaves the row alone
  (other items, webhooks, the clock).\<close>

inductive misses :: "dbqueue \<Rightarrow> 'x outside \<Rightarrow> int \<Rightarrow> int \<Rightarrow> nat \<Rightarrow> 'x system \<Rightarrow> 'x system \<Rightarrow> bool"
  for q :: dbqueue and E :: "'x outside" and i N :: int where
  miss_start: "misses q E i N 0 s s"
| miss_wait: "misses q E i N n s s1 \<Longrightarrow> sys_ok s2 \<Longrightarrow> row_of (sys_db s2) i = row_of (sys_db s1) i \<Longrightarrow>
    misses q E i N n s s2"
| miss_again: "misses q E i N n s s1 \<Longrightarrow> qi_Dequeue (db_queue q E) s1 = (Inr item, s2) \<Longrightarrow> wi_ID item = i \<Longrightarrow>
    w_maxMissAttempts wk = N \<Longrightarrow> settle_miss (service_deps q E) item cause wk s2 = (err, wk', s3) \<Longrightarrow>
    misses q E i N (Suc n) s s3"

lemma settle_miss_reliable:
  fixes E :: "'x outside"
  assumes ok: "sys_ok s" and c: "claimed (sys_db s) i = Some r" and item: "wi_ID item = i" "wi_MissCount item = q_miss_count r"
  defines "n \<equiv> q_miss_count r + 1" and "t \<equiv> ox_now E (sys_x s)"
  shows "\<exists>s' e wk'. settle_miss (service_deps q (reliable E)) item cause wk s = (e, wk', s') \<and> e = None \<and> sys_ok s'
    \<and> row_of (sys_db s') i = Some (touch t
        (if w_maxMissAttempts wk > 0 \<and> n \<ge> w_maxMissAttempts wk then retire_row t r
         else defer_row (formatTime (t + MissCooldown n (w_missBackoffBase wk) (w_missBackoffCap wk))) (err_msg cause) r))"
proof -
  have wf: "wf_db (sys_db s)" using ok by (simp add: sys_ok_def)
  have ids: "q_id (retire_row t r) = q_id r" "q_id (defer_row x y r) = q_id r" for t x y r
    by (simp_all add: retire_row_def defer_row_def)
  let ?w = "formatTime (t + MissCooldown n (w_missBackoffBase wk) (w_missBackoffCap wk))"
  have "wf_db (snd (RetireMiss t i (sys_db s)))"
    "wf_db (snd (Defer t i (MissCooldown n (w_missBackoffBase wk) (w_missBackoffCap wk)) (Some cause) (sys_db s)))"
    using wf_RetireMiss [OF wf] wf_Defer [OF wf] by blast+
  then show ?thesis
    using c item by (auto simp: settle_miss_def requeueDeferred_def db_queue_def db_call_reliable
        claimed_op_eqs [OF wf] Let_def sys_ok_def row_of_upd_claimed ids n_def t_def error_text_def)
qed

lemma dequeue_claims:
  assumes "sys_ok s" "qi_Dequeue (db_queue q (reliable E)) s = (Inr item, s')"
    "row_of (sys_db s) (wi_ID item) = Some r"
  shows "sys_ok s' \<and> q_status r \<in> {Pending, Failed, Deferred}
    \<and> claimed (sys_db s') (wi_ID item) = Some (touch (ox_now E (sys_x s)) (claim r)) \<and> wi_MissCount item = q_miss_count r"
proof -
  let ?t = "ox_now E (sys_x s)" and ?rnd = "ox_random E (sys_x s)"
  have wf: "wf_db (sys_db s)" using assms(1) by (simp add: sys_ok_def)
  from assms(2) obtain x where x: "next_row q ?rnd (formatTime ?t) (sys_db s) = Some x"
    "item = item_of (claim x)" "sys_db s' = update_wq ?t (\<lambda>y. q_id y = q_id x) claim (sys_db s)"
    by (auto simp: db_queue_def db_call_reliable Dequeue_eq [OF wf] split: option.splits)
  note mem = next_row_mem [OF x(1)]
  have po: "paths_ok (claim x)"
    using wf_row_paths [OF wf_dbD(3) [OF wf mem(1)]] paths_ok_updates(5) by blast
  have id: "wi_ID item = q_id x" "wi_MissCount item = q_miss_count x"
    using item_of_simps [OF po] by (simp_all add: x(2) claim_def)
  have "r = x" using assms(3) row_of_mem [OF wf mem(1)] by (simp add: id)
  moreover have "sys_ok s'"
    using dbq.dequeue_ok [OF assms(1,2)] by simp
  ultimately show ?thesis
    using mem id row_of_claim [OF wf mem(1), of ?t "q_id x"]
    by (auto simp: claimed_def x(3) ready_def claim_def)
qed

lemma misses_count:
  assumes "misses q (reliable E) i N n s s'" and "sys_ok s" and "row_of (sys_db s) i = Some r"
    and "0 < N" and "q_miss_count r < N" "q_status r \<noteq> Done"
  shows "sys_ok s' \<and> q_miss_count r + int n \<le> N \<and> (\<exists>r'. row_of (sys_db s') i = Some r' \<and>
    (if q_miss_count r + int n = N
     then q_status r' = Done \<and> q_last_error r' = missLimitReachedError \<and> q_miss_count r' = N - 1
     else q_miss_count r' = q_miss_count r + int n \<and> q_status r' \<noteq> Done
       \<and> (n > 0 \<longrightarrow> q_status r' = Deferred \<and> q_priority r' = PriorityMiss)))"
  using assms
proof (induction rule: misses.induct)
  case (miss_start s)
  then show ?case by simp
next
  case (miss_wait n s s1 s2)
  then show ?case by simp
next
  case (miss_again n s s1 item s2 wk cause err wk' s3)
  then have IH: "sys_ok s1" "q_miss_count r + int n \<le> N" by auto
  from miss_again obtain r1 where r1: "row_of (sys_db s1) i = Some r1"
    "if q_miss_count r + int n = N then q_status r1 = Done else q_miss_count r1 = q_miss_count r + int n"
    by (auto split: if_splits)
  note dq = dequeue_claims [OF IH(1) miss_again.hyps(2), unfolded miss_again.hyps(3), OF r1(1)]
  then have lt: "q_miss_count r + int n < N" "q_miss_count r1 = q_miss_count r + int n"
    using r1(2) IH(2) by (auto split: if_splits)
  let ?c = "touch (ox_now E (sys_x s1)) (claim r1)"
  have mc: "q_miss_count ?c = q_miss_count r1" by (simp add: claim_def)
  from settle_miss_reliable [where s = s2 and i = i and r = ?c and item = item and E = E and q = q
      and cause = cause and wk = wk] dq miss_again.hyps(3,4,5) mc
  have out: "sys_ok s3" "row_of (sys_db s3) i = Some (touch (ox_now E (sys_x s2))
        (if N > 0 \<and> q_miss_count r1 + 1 \<ge> N then retire_row (ox_now E (sys_x s2)) ?c
         else defer_row (formatTime (ox_now E (sys_x s2) + MissCooldown (q_miss_count r1 + 1) (w_missBackoffBase wk) (w_missBackoffCap wk))) (err_msg cause) ?c))"
    by auto
  show ?case
    using out lt miss_again.prems(3) mc
    by (auto simp: retire_row_def defer_row_def PriorityMiss_def)
qed

text \<open>
  C7. Misses retire a row after exactly the configured number: however other work interleaves and
  whichever instants, causes and back-off settings are in force, a row that starts below the limit
  is claimed and missed at most \<open>N - miss_count\<close> times; before the last of them it is deferred at the
  miss priority with every miss counted, and the last one makes it done with the marker
  \<^verbatim>\<open>miss limit reached\<close> that the retired recheck looks for.
\<close>

theorem misses_retire:
  assumes "misses q (reliable E) i N n s s'" and "wf_db (sys_db s)" and "row_of (sys_db s) i = Some r"
    and "0 < N" and "q_miss_count r < N" and "q_status r \<noteq> Done"
  shows "q_miss_count r + int n \<le> N \<and> (\<exists>r'. row_of (sys_db s') i = Some r' \<and>
    (if q_miss_count r + int n = N
     then q_status r' = Done \<and> q_last_error r' = missLimitReachedError \<and> q_miss_count r' = N - 1
     else q_miss_count r' = q_miss_count r + int n \<and> q_status r' \<noteq> Done
       \<and> (n > 0 \<longrightarrow> q_status r' = Deferred \<and> q_priority r' = PriorityMiss)))"
  using misses_count [OF assms(1) _ assms(3-6)] assms(2) by (simp add: sys_ok_def)

section \<open>Concrete runs\<close>

text \<open>A world that is a clock, whose providers miss, whose writes succeed; the sample database.\<close>

definition sample_env :: "instant outside" where
  "sample_env =
     \<lparr>ox_ctx = (\<lambda>_. None), ox_now = id, ox_random = (\<lambda>_ _. 0), ox_fault = (\<lambda>x. (None, x)),
      ox_dispatch = (\<lambda>_ x. (\<lparr>de_lanes = (\<lambda>_. \<lparr>le_ctx = None, le_allow_at = x,
          le_reply = Inl (GoErr ''no lyrics'' [MxNoLyrics]), le_trip_at = x\<rparr>), de_ctx = None, de_events = []\<rparr>, x)),
      ox_write = (\<lambda>_ _ _ x. (None, x)), ox_verify = None, ox_detect = None,
      ox_json = (\<lambda>_. ''{}''), ox_similarity = (\<lambda>_. [])\<rparr>"

definition sample_sys :: "db \<Rightarrow> instant system" where
  "sample_sys d = \<lparr>sys_db = d, sys_cache = NewCache (dq_text sample_queue) [], sys_written = [], sys_x = second\<rparr>"

definition sample_worker :: worker where
  "sample_worker = SetMaxMissAttempts 1 (NewWorker False)"

lemma sample_sys_simps [simp]:
  "sys_db (sample_sys d) = d" "sys_x (sample_sys d) = second" "sys_written (sample_sys d) = []"
  "cr_text (sys_cache (sample_sys d)) = \<lparr>tl_transform = Some, tl_lower = id\<rparr>"
  by (simp_all add: sample_sys_def sample_queue_def NewDBQueue_def NewCache_def)

lemma sample_env_reliable: "reliable sample_env = sample_env"
  by (simp add: reliable_def sample_env_def)

lemma sample_claimed_status: "sys_status (sample_sys sample_db) 2 = Some Processing"
  using sample_claimed by (simp add: sys_status_def db_status_def claimed_Some)

definition sample_item :: work_item where
  "sample_item = item_of (sample_row 2 ''c'' Processing)"

lemma sample_item_id [simp]: "wi_ID sample_item = 2" "wi_MissCount sample_item = 0"
  by (simp_all add: sample_item_def item_of_simps sample_row_def)

theorem run_once_never_orphans_witness:
  "wf_db (sys_db (snd (snd (RunOnce (service_deps sample_queue sample_env) sample_worker (sample_sys sample_db)))))"
  using run_once_never_orphans [where s = "sample_sys sample_db" and q = sample_queue and E = sample_env
      and wk = sample_worker, OF _ prod.collapse [symmetric, THEN trans]]
    wf_sample_db by (metis prod.collapse sample_sys_simps(1))

theorem run_once_concludes_witness:
  "\<exists>err wk' s'. RunOnce (service_deps sample_queue (reliable sample_env)) sample_worker (sample_sys sample_db) = (err, wk', s')
     \<and> (sys_status s' = sys_status (sample_sys sample_db) \<or> (\<exists>i. sys_status s' i \<noteq> Some Processing))"
proof -
  obtain err wk' s' where r: "RunOnce (service_deps sample_queue (reliable sample_env)) sample_worker
      (sample_sys sample_db) = (err, wk', s')" by (metis prod.collapse)
  show ?thesis
    using run_once_concludes [OF _ r] wf_sample_db r by fastforce
qed

theorem throttle_gives_back_witness:
  "row_of (sys_db (snd (snd (handle_error (service_deps sample_queue (reliable sample_env)) sample_item zero_track
      zero_song (GoErr ''slow down'' [MxRateLimited]) sample_worker (sample_sys sample_db))))) 2
    = Some (touch second (sample_row 2 ''c'' Pending))"
proof -
  let ?e = "GoErr ''slow down'' [MxRateLimited]"
  obtain err wk' s' where r: "handle_error (service_deps sample_queue (reliable sample_env)) sample_item zero_track
      zero_song ?e sample_worker (sample_sys sample_db) = (err, wk', s')" by (metis prod.collapse)
  have "claimed (sys_db (sample_sys sample_db)) (wi_ID sample_item) = Some (sample_row 2 ''c'' Processing)"
    using sample_claimed by simp
  moreover have "ClassifyOutcome (Some ?e) \<in> {OutcomeAuthRateLimit, OutcomeUnavailable}"
    by (simp add: ClassifyOutcome_def errors_is_def)
  ultimately have "row_of (sys_db s') 2 = Some (touch second ((sample_row 2 ''c'' Processing)\<lparr>q_status := Pending, q_last_error := []\<rparr>))"
    using throttle_gives_back [OF _ _ _ r, of "sample_row 2 ''c'' Processing"] wf_sample_db
    by (simp add: sample_env_def)
  then show ?thesis unfolding r by (simp add: sample_row_def)
qed

definition sos :: song where
  "sos = zero_song\<lparr>Track := zero_track\<lparr>TrackName := ''sos''\<rparr>, LyricsBody := ''la la''\<rparr>"

theorem done_only_after_writing_witness:
  "let D = service_deps sample_queue (reliable sample_env);
       s0 = snd (w_store D (resolved_track D sample_item) sos (sample_sys sample_db))
   in \<exists>sg. sys_written (snd (snd (process_item D sample_item sample_worker s0)))
        = [(\<lparr>op_Outdir = ''/m'', op_Filename = ''c.lrc''\<rparr>, sg)] \<and> LyricsBody sg = ''la la''"
proof -
  let ?D = "service_deps sample_queue (reliable sample_env)" and ?s = "sample_sys sample_db"
  let ?t = "resolved_track ?D sample_item" and ?p = "\<lparr>op_Outdir = ''/m'', op_Filename = ''c.lrc''\<rparr>"
  obtain s0 where st: "w_store ?D ?t sos ?s = (Inr (), s0)" using w_store_reliable by blast
  have "bypassCache sample_worker sample_item = False"
    by (simp add: bypassCache_def sample_worker_def NewWorker_def SetMaxMissAttempts_def)
  with song_after_store [OF refl refl refl _ st, of sample_worker] obtain c where
    f: "w_song ?D ?t (bypassCache sample_worker sample_item) sample_worker s0
      = (((paired sos ?t, True), None), sample_worker, ?s\<lparr>sys_cache := c\<rparr>)"
    by (auto simp: sos_def)
  obtain err wk' s' where r: "process_item ?D sample_item sample_worker s0 = (err, wk', s')"
    by (metis prod.collapse)
  have paths: "outputPaths (wi_Inputs sample_item) = [?p]"
    by (simp add: sample_item_def item_of_def scanWorkItem_def unmarshalOutputPaths_def sample_row_def outputPaths_def)
  let ?s1 = "?s\<lparr>sys_cache := c, sys_written := [(?p, paired sos ?t)]\<rparr>"
  have w: "write_all ?D (paired sos ?t) (outputPaths (wi_Inputs sample_item)) (?s\<lparr>sys_cache := c\<rparr>) = (None, ?s1)"
    by (simp add: paths sys_write_def sample_env_def sample_sys_def reliable_def)
  have oc: "outcomeTypeFromSong (paired sos ?t) = ''unsynced''"
    by (simp add: outcomeTypeFromSong_def paired_def stored_song_def json_track_def sos_def zero_song_def zero_track_def)
  define s2 where "s2 = snd (qi_SetOutcomeType (db_queue sample_queue (reliable sample_env)) 2 ''unsynced'' ?s1)"
  have "sys_ok ?s1" "sys_status ?s1 2 = Some Processing"
    using wf_sample_db sample_claimed_status by (simp_all add: sys_ok_def sys_status_def)
  with dbq.set_outcome [of ?s1 sample_queue "reliable sample_env" 2 "''unsynced''"]
  have s2: "sys_ok s2" "sys_status s2 2 = Some Processing" by (simp_all add: quiet_def s2_def)
  from hsvc.live_complete [OF this] obtain s3 where
    c3: "qi_Complete (db_queue sample_queue (reliable sample_env)) 2 s2 = (Inr (), s3)" by auto
  have "s' = snd (snd (complete_item ?D [] sample_item sample_worker s2))"
    using r f w oc by (simp add: process_item_def Let_def handle_song_def write_and_complete_def s2_def)
  then have "s' = s3" by (simp add: complete_item_world c3)
  with dbq.complete [of 2 s2 sample_queue "reliable sample_env"] s2 c3 have d: "sys_status s' 2 = Some Done"
    by (simp add: moves_def)
  have s0: "sys_db s0 = sys_db ?s" "sys_written s0 = []"
    using st by (auto simp: w_store_def cache_call_reliable split: prod.splits sum.splits)
  have "LyricsBody (paired sos ?t) = ''la la''"
    by (simp add: paired_def stored_song_def sos_def json_text_ascii is_ascii_def)
  with done_only_after_writing [OF _ _ r _ f] d s0 wf_sample_db sample_claimed_status paths show ?thesis
    by (simp add: Let_def st r sys_status_def)
qed

theorem rejected_song_leaves_no_trace_witness:
  "let s' = snd (snd (handle_song (service_deps sample_queue sample_env) sample_item zero_track zero_song False
       (sample_worker\<lparr>w_scriptGuard := Some \<lparr>sg_Accept = (\<lambda>_. (False, [])), sg_Enabled = True\<rparr>\<rparr>) (sample_sys sample_db)))
   in same_files (sample_sys sample_db) s' \<and> sys_status s' 2 = Some Done"
proof -
  let ?wk = "sample_worker\<lparr>w_scriptGuard := Some \<lparr>sg_Accept = (\<lambda>_. (False, [])), sg_Enabled = True\<rparr>\<rparr>"
  obtain err wk' s' where r: "handle_song (service_deps sample_queue sample_env) sample_item zero_track
      zero_song False ?wk (sample_sys sample_db) = (err, wk', s')" by (metis prod.collapse)
  have g: "guardReject ?wk (zero_song\<lparr>FetchedAt := Some (ox_now sample_env (sys_x (sample_sys sample_db)))\<rparr>)"
    by (simp add: guardReject_def)
  have "ox_fault sample_env x = (None, x)" "ox_verify sample_env = None" for x by (simp_all add: sample_env_def)
  with rejected_song_leaves_no_trace [OF g r] wf_sample_db sample_claimed_status show ?thesis
    by (simp add: r Let_def)
qed

theorem stored_song_is_found_witness:
  "\<exists>sg' wk' s2. w_song (service_deps sample_queue (reliable sample_env)) (zero_track\<lparr>TrackName := ''sos''\<rparr>) False
      sample_worker (snd (w_store (service_deps sample_queue (reliable sample_env)) (zero_track\<lparr>TrackName := ''sos''\<rparr>)
        (zero_song\<lparr>Track := zero_track\<lparr>TrackName := ''sos''\<rparr>, LyricsBody := ''la la''\<rparr>) (sample_sys sample_db)))
    = (((sg', True), None), wk', s2) \<and> LyricsBody sg' = ''la la''"
proof -
  let ?D = "service_deps sample_queue (reliable sample_env)" and ?t = "zero_track\<lparr>TrackName := ''sos''\<rparr>"
  let ?sg = "zero_song\<lparr>Track := ?t, LyricsBody := ''la la''\<rparr>"
  obtain s1 where st: "w_store ?D ?t ?sg (sample_sys sample_db) = (Inr (), s1)"
    using w_store_reliable by blast
  obtain sg' hit err wk' s2 where f: "w_song ?D ?t False sample_worker s1 = (((sg', hit), err), wk', s2)"
    by (metis prod.collapse)
  show ?thesis
    using stored_song_is_found [OF _ _ _ _ st f] f unfolding st by (simp add: json_text_ascii is_ascii_def)
qed

text \<open>A system with one row, at a given instant.\<close>

definition lone_sys :: "wq_row \<Rightarrow> instant \<Rightarrow> instant system" where
  "lone_sys r t = (sample_sys (empty_db\<lparr>work_queue := [r], wq_seq := q_id r + 1\<rparr>))\<lparr>sys_x := t\<rparr>"

lemma lone_sys_simps:
  "sys_ok (lone_sys r t) = wf_row r" "row_of (sys_db (lone_sys r t)) (q_id r) = Some r"
  by (auto simp: lone_sys_def sys_ok_def wf_db_def empty_db_def row_of_def first_where_def)

lemma lone_miss:
  fixes wk :: worker
  assumes "wf_row r" "ready (formatTime t) r" "misses sample_queue (reliable sample_env) (q_id r) (w_maxMissAttempts wk) n s s0"
    "row_of (sys_db s0) (q_id r) = Some r"
  shows "\<exists>s'. misses sample_queue (reliable sample_env) (q_id r) (w_maxMissAttempts wk) (Suc n) s s'
    \<and> sys_ok s' \<and> row_of (sys_db s') (q_id r) = Some (touch t
        (if w_maxMissAttempts wk > 0 \<and> q_miss_count r + 1 \<ge> w_maxMissAttempts wk then retire_row t (touch t (claim r))
         else defer_row (formatTime (t + MissCooldown (q_miss_count r + 1) (w_missBackoffBase wk) (w_missBackoffCap wk)))
                ''miss'' (touch t (claim r))))"
proof -
  let ?E = "reliable sample_env" and ?i = "q_id r"
  have wait: "misses sample_queue ?E ?i (w_maxMissAttempts wk) n s (lone_sys r t)"
    using assms by (intro miss_wait [OF assms(3)]) (simp_all add: lone_sys_simps)
  have "next_row q rnd (formatTime t) (sys_db (lone_sys r t)) = Some r" for q rnd
    using assms(2) by (simp add: next_row_def lone_sys_def Let_def)
  moreover have "wf_db (sys_db (lone_sys r t))" using assms(1) lone_sys_simps(1) [of r t] by (simp add: sys_ok_def)
  moreover have now: "ox_now sample_env (sys_x (lone_sys r t)) = t" by (simp add: sample_env_def lone_sys_def)
  ultimately obtain s2 where dq: "qi_Dequeue (db_queue sample_queue ?E) (lone_sys r t) = (Inr (item_of (claim r)), s2)"
    "sys_x s2 = t"
    by (simp add: db_queue_def db_call_reliable Dequeue_eq lone_sys_def)
  have id: "wi_ID (item_of (claim r)) = ?i"
    using item_of_simps(1) [of "claim r"] wf_row_paths [OF assms(1)] by (simp add: claim_def)
  note cl = dequeue_claims [OF _ dq(1), unfolded id, of r]
  then have s2: "sys_ok s2" "claimed (sys_db s2) ?i = Some (touch t (claim r))"
    "wi_MissCount (item_of (claim r)) = q_miss_count r"
    using assms(1) now by (auto simp: lone_sys_simps)
  from settle_miss_reliable [where s = s2 and i = ?i and r = "touch t (claim r)" and item = "item_of (claim r)"
      and E = sample_env and q = sample_queue and cause = "errorf ''miss''" and wk = wk] s2 id dq(2)
  obtain s3 e wk' where sm: "settle_miss (service_deps sample_queue ?E) (item_of (claim r)) (errorf ''miss'') wk s2 = (e, wk', s3)"
    "sys_ok s3" "row_of (sys_db s3) ?i = Some (touch t
        (if w_maxMissAttempts wk > 0 \<and> q_miss_count r + 1 \<ge> w_maxMissAttempts wk then retire_row t (touch t (claim r))
         else defer_row (formatTime (t + MissCooldown (q_miss_count r + 1) (w_missBackoffBase wk) (w_missBackoffCap wk)))
                ''miss'' (touch t (claim r))))"
    by (auto simp: sample_env_def claim_def errorf_def)
  with miss_again [OF wait dq(1) id refl sm(1)] show ?thesis by blast
qed

theorem misses_retire_witness:
  "\<exists>s' r'. misses sample_queue (reliable sample_env) 1 2 2 (sample_sys sample_db) s'
     \<and> row_of (sys_db s') 1 = Some r' \<and> q_status r' = Done \<and> q_last_error r' = ''miss limit reached''"
proof -
  let ?wk = "SetMaxMissAttempts 2 (NewWorker False)" and ?r = "sample_row 1 ''p'' Pending"
  have N: "w_maxMissAttempts ?wk = 2" by (simp add: SetMaxMissAttempts_def)
  have r0: "row_of (sys_db (sample_sys sample_db)) 1 = Some ?r"
    by (simp add: sample_db_def row_of_def first_where_def)
  have wf: "wf_row ?r" by (simp add: wf_row_def sample_row_def)
  have "ready (formatTime second) ?r" by (simp add: ready_def formatTime_def)
  from lone_miss [OF wf this miss_start [where s = "sample_sys sample_db"], of ?wk] r0
  obtain s1 r1 where s1: "misses sample_queue (reliable sample_env) 1 2 (Suc 0) (sample_sys sample_db) s1" "sys_ok s1"
    "row_of (sys_db s1) 1 = Some r1" "q_status r1 = Deferred" "q_id r1 = 1"
    by (auto simp: N defer_row_def claim_def)
  have r1: "wf_row r1" using s1 by (auto simp: sys_ok_def intro: row_of_wf)
  have "ready (formatTime (q_next_attempt_at r1 * second)) r1"
    using s1 by (simp add: ready_def formatTime_def)
  from lone_miss [OF r1 this, of ?wk "Suc 0" "sample_sys sample_db" s1] s1 N
  obtain s2 where "misses sample_queue (reliable sample_env) 1 2 2 (sample_sys sample_db) s2" by (auto simp: numeral_2_eq_2)
  from misses_retire [OF this _ r0] this wf_sample_db show ?thesis
    by (fastforce simp: missLimitReachedError_def)
qed

end
