(* ===== verification/Scan_Flow.thy ===== *)
theory Scan_Flow
  imports Scan_Service Service_Props
begin

text \<open>
  Properties of a scan from the file system to the queue: \<open>EnqueuePending\<close> accounts for every
  pending result under faults and empties the list without them, and a scan that returns no error
  leaves no file of the library unaccounted for.
\<close>

section \<open>EnqueuePending\<close>

text \<open>
  C23. \<open>EnqueuePending\<close> accounts for every pending result, whatever database faults or cancellation
  interrupt it: the first \<open>k\<close> pending results are handled, and the counts it returns add up to
  \<open>k\<close>; a handled result is done when the cache answers for its track, and otherwise processing with
  its scan row linked to the queue row of its track; no other scan row changes status, except that
  the row being handled may stay processing when the error returned says that restoring it failed;
  without an error all pending results are handled.
\<close>

theorem enqueue_pending_accounts:
  fixes E :: "'x outside"
  assumes "wf_db (sys_db s)" "ids_ok (sys_db s)"
    and "EnqueuePending (service_ctx E) (service_enqueuer q E prio override global) lib s = (((n, h), e), s')"
  shows "\<exists>k \<le> length (pending_of lib s).
      n + h = int k
      \<and> (\<forall>res \<in> set (take k (pending_of lib s)).
           if cache_answers s (res_Track res) then scan_status (sys_db s') (res_ID res) = Some SrDone
           else scan_status (sys_db s') (res_ID res) = Some SrProcessing
             \<and> handed_over q (sys_db s') (res_ID res) (res_Track res))
      \<and> (\<forall>j. j \<notin> res_ID ` set (take k (pending_of lib s)) \<longrightarrow>
           scan_status (sys_db s') j = scan_status (sys_db s) j
           \<or> (scan_status (sys_db s') j = Some SrProcessing
                \<and> (\<exists>what e1 e2. e = Some (restore_error what j e1 e2))))
      \<and> (e = None \<longrightarrow> k = length (pending_of lib s))"
proof -
  obtain k where k: "accounted (view_of q s) (pending_of lib s) k e s s'"
    "n = fresh (view_of q s) s (take k (pending_of lib s))" "h = hits (view_of q s) s (take k (pending_of lib s))"
    using EnqueuePending_accounts [OF assms] by blast
  have len: "fresh V s rs + hits V s rs = int (length rs)" for V :: "'x system scan_view" and rs
    using sum_length_filter_compl [of "\<lambda>r. sv_hit V s (res_Track r)" rs] by (simp add: fresh_def hits_def)
  have le: "k \<le> length (pending_of lib s)" using k(1) by (simp add: accounted_def)
  have "cache_answers s' = cache_answers s" using k(1) by (simp add: accounted_def view_keeps_def)
  with k(1) have "\<forall>res \<in> set (take k (pending_of lib s)).
      if cache_answers s (res_Track res) then scan_status (sys_db s') (res_ID res) = Some SrDone
      else scan_status (sys_db s') (res_ID res) = Some SrProcessing
        \<and> handed_over q (sys_db s') (res_ID res) (res_Track res)"
    unfolding accounted_def handled_def system_view_simps by metis
  moreover have "n + h = int k" using k(2,3) len [of "view_of q s" "take k (pending_of lib s)"] le by simp
  ultimately show ?thesis using k(1) le unfolding accounted_def by (intro exI [of _ k]) auto
qed

definition scan_db :: db where
  "scan_db = sample_db\<lparr>scan_results := [sample_scan 1 7 SrPending, sample_scan 2 8 SrProcessing]\<rparr>"

definition sample_library :: library where
  "sample_library = \<lparr>lib_ID = 7, lib_Path = ''/m'', lib_Name = ''m'', lib_CreatedAt = [], lib_UpdatedAt = [],
     lib_EnrichRecording = None, lib_DetectInstrumental = None\<rparr>"

lemma scan_db_ok: "wf_db scan_db" "ids_ok scan_db"
  by (simp_all add: scan_db_def sample_db_def wf_db_def ids_ok_def)

lemma scan_db_pending: "pending_of sample_library (sample_sys scan_db) = [scan_result_of (sample_scan 1 7 SrPending)]"
  by (simp add: pending_of_def ListPendingByLibrary_def scanResultRows_def scan_db_def sample_library_def)

theorem enqueue_pending_accounts_witness:
  "\<exists>n h e s' k. EnqueuePending (service_ctx sample_env) (service_enqueuer sample_queue sample_env 0 None True)
      sample_library (sample_sys scan_db) = (((n, h), e), s') \<and> n + h = int k \<and> k \<le> 1"
proof -
  obtain n h e s' where r: "EnqueuePending (service_ctx sample_env) (service_enqueuer sample_queue sample_env 0 None True)
      sample_library (sample_sys scan_db) = (((n, h), e), s')" by (metis prod.collapse)
  show ?thesis using enqueue_pending_accounts [OF _ _ r] scan_db_ok r by (auto simp: scan_db_pending)
qed

lemma scanInputs_file: "res_FilePath res \<noteq> [] \<Longrightarrow> \<exists>inp. scanInputs res = Inr inp"
  by (simp add: scanInputs_def Let_def)

lemma EnqueuePending_answers:
  fixes E :: "'x outside"
  assumes ok: "wf_db (sys_db s)" "ids_ok (sys_db s)" and ctx: "\<And>x. ox_ctx E x = None"
    and files: "\<forall>res \<in> set (pending_of lib s). res_FilePath res \<noteq> []"
    and r: "EnqueuePending (service_ctx (reliable E)) (service_enqueuer q (reliable E) prio override global) lib s
        = (((n, h), e), s')"
  shows "e = None"
  using r
proof (cases rule: EnqueuePending_service)
  case (early err)
  with ctx show ?thesis by (auto simp: db_call_def sys_call_def reliable_def)
next
  case (loop s1 detect)
  have "sv_ok (view_of q s) s1" using ok loop(1) by simp
  moreover have "pending_results (view_of q s) s1 (pending_of lib s)"
    using pending_results_list [of q "scan_idents (sys_db s)" s] ok loop(1)
    by (simp add: pending_of_def pending_results_def)
  ultimately have "snd (fst (enqueue_loop (service_ctx (reliable E)) (db_store (reliable E)) (db_lookup (reliable E))
      (db_enqueue q (reliable E)) prio detect (pending_of lib s) (0, 0) s1)) = None"
    by (rule henq.enqueue_loop_answers) (simp add: reliable_def ctx, use files scanInputs_file in blast)
  with loop(3) show ?thesis by (simp add: pending_of_def)
qed

text \<open>
  With a database that answers and a context that is not cancelled, \<open>EnqueuePending\<close> returns no
  error, its two counts add up to the pending results of the library, and none is pending
  afterwards: each is done, or processing and linked to the queue row of its track.
\<close>

theorem enqueue_pending_completes:
  fixes E :: "'x outside"
  assumes "wf_db (sys_db s)" "ids_ok (sys_db s)" "\<And>x. ox_ctx E x = None"
    and "\<forall>res \<in> set (pending_of lib s). res_FilePath res \<noteq> []"
  shows "\<exists>n h s'. EnqueuePending (service_ctx E) (service_enqueuer q (reliable E) prio override global) lib s
        = (((n, h), None), s')
    \<and> n + h = int (length (pending_of lib s)) \<and> pending_of lib s' = []
    \<and> (\<forall>res \<in> set (pending_of lib s).
         scan_status (sys_db s') (res_ID res) = Some SrDone
         \<or> (scan_status (sys_db s') (res_ID res) = Some SrProcessing
              \<and> handed_over q (sys_db s') (res_ID res) (res_Track res)))"
proof -
  let ?en = "service_enqueuer q (reliable E) prio override global" and ?rs = "pending_of lib s" and ?V = "view_of q s"
  obtain n h e s' where r: "EnqueuePending (service_ctx (reliable E)) ?en lib s = (((n, h), e), s')"
    by (metis prod.collapse)
  have ctx: "service_ctx (reliable E) = service_ctx E" by (simp add: reliable_def)
  have e: "e = None" using EnqueuePending_answers [OF assms r] .
  obtain k where k: "accounted ?V ?rs k e s s'" "n = fresh ?V s (take k ?rs)" "h = hits ?V s (take k ?rs)"
    using EnqueuePending_accounts [OF assms(1,2) r] by blast
  have len: "k = length ?rs" using k(1) e by (simp add: accounted_def)
  have "n + h = int (length ?rs)"
    using k(2,3) len sum_length_filter_compl [of "\<lambda>r. cache_answers s (res_Track r)" ?rs]
    by (simp add: fresh_def hits_def)
  moreover have "pending_of lib s' = []" using none_pending [OF assms(1) k(1) [unfolded len] e] .
  moreover have "\<forall>res \<in> set ?rs. scan_status (sys_db s') (res_ID res) = Some SrDone
      \<or> (scan_status (sys_db s') (res_ID res) = Some SrProcessing
           \<and> handed_over q (sys_db s') (res_ID res) (res_Track res))"
  proof
    fix res assume "res \<in> set ?rs"
    then have "handled ?V s' res" using k(1) len by (simp add: accounted_def)
    then show "scan_status (sys_db s') (res_ID res) = Some SrDone
        \<or> (scan_status (sys_db s') (res_ID res) = Some SrProcessing
             \<and> handed_over q (sys_db s') (res_ID res) (res_Track res))"
      unfolding handled_def system_view_simps by metis
  qed
  ultimately show ?thesis using r e ctx by (intro exI [of _ n] exI [of _ h] exI [of _ s']) simp
qed

definition flow_db :: db where
  "flow_db = scan_db\<lparr>scan_results := [(sample_scan 1 7 SrPending)\<lparr>s_file_path := ''/m/p.mp3''\<rparr>]\<rparr>"

lemma flow_db_ok: "wf_db (flow_db\<lparr>links := []\<rparr>)" "ids_ok (flow_db\<lparr>links := []\<rparr>)"
  by (simp_all add: flow_db_def scan_db_def sample_db_def wf_db_def ids_ok_def)

theorem enqueue_pending_completes_witness:
  "\<exists>n h s'. EnqueuePending (service_ctx sample_env) (service_enqueuer sample_queue (reliable sample_env) 0 None True)
      sample_library (sample_sys (flow_db\<lparr>links := []\<rparr>)) = (((n, h), None), s') \<and> n + h = 1"
proof -
  let ?s = "sample_sys (flow_db\<lparr>links := []\<rparr>)"
  have p: "pending_of sample_library ?s = [scan_result_of ((sample_scan 1 7 SrPending)\<lparr>s_file_path := ''/m/p.mp3''\<rparr>)]"
    by (simp add: pending_of_def ListPendingByLibrary_def scanResultRows_def flow_db_def sample_library_def)
  have c: "ox_ctx sample_env x = None" for x by (simp add: sample_env_def)
  show ?thesis
    using enqueue_pending_completes [where s = ?s and E = sample_env and lib = sample_library and q = sample_queue
        and prio = 0 and override = None and global = True] flow_db_ok c by (auto simp: p)
qed

section \<open>A scan of a library\<close>







lemma conflict_row_simps [simp]:
  "s_id (conflict_row T lib force st res r) = s_id r"
  "s_library_id (conflict_row T lib force st res r) = s_library_id r"
  "s_status (conflict_row T lib force st res r)
     = (if scan_key lib (res_FilePath res) r \<and> force then st else s_status r)"
  by (simp_all add: conflict_row_def Let_def)














section \<open>A finished track\<close>

text \<open>Only three operations touch a row that is done: the two that revive rows and the one that deletes
  the done rows.  All three are an operator's.\<close>

fun reopens :: "db_op \<Rightarrow> bool" where
  "reopens (OpRecheckRetired lib) = True"
| "reopens (OpResetInstrumental i) = True"
| "reopens OpClearDone = True"
| "reopens _ = False"

definition keeps_done :: "db \<Rightarrow> db \<Rightarrow> bool" where
  "keeps_done d d' \<longleftrightarrow> (\<forall>i r. row_of d i = Some r \<longrightarrow> q_status r = Done \<longrightarrow>
     (\<exists>r'. row_of d' i = Some r' \<and> q_status r' = Done \<and> row_key r' = row_key r))"

lemma keeps_done_refl: "keeps_done d d"
  by (simp add: keeps_done_def)

lemma keeps_done_trans: "keeps_done d d1 \<Longrightarrow> keeps_done d1 d2 \<Longrightarrow> keeps_done d d2"
  unfolding keeps_done_def by metis

lemma keeps_done_update:
  assumes "\<And>r. p r \<Longrightarrow> q_id (f r) = q_id r"
    and "\<And>r. r \<in> set (work_queue d) \<Longrightarrow> p r \<Longrightarrow> q_status r = Done \<Longrightarrow> q_status (f r) = Done \<and> row_key (f r) = row_key r"
  shows "keeps_done d (update_wq now p f d)"
  using assms by (auto simp: keeps_done_def row_of_update_wq touch_def dest!: row_of_Some)

lemma keeps_done_delete: "wf_db d \<Longrightarrow> (\<And>r. p r \<Longrightarrow> q_status r \<noteq> Done) \<Longrightarrow> keeps_done d (delete_wq p d)"
  by (auto simp: keeps_done_def intro: row_of_delete_other)

lemma keeps_done_set_linked [simp]:
  "keeps_done d (set_linked w p st d') = keeps_done d d'"
  "keeps_done d (fold (\<lambda>i. set_linked i p st) is d') = keeps_done d d'"
  by (simp_all add: keeps_done_def)

lemma keeps_done_Enqueue: "wf_db d \<Longrightarrow> keeps_done d (snd (Enqueue q now i pr d))"
proof -
  assume wf: "wf_db d"
  obtain res d' where E: "Enqueue q now i pr d = (res, d')" by fastforce
  from E show ?thesis
  proof (cases rule: Enqueue_cases)
    case err
    then show ?thesis by (simp add: E keeps_done_refl)
  next
    case (ok item r d1)
    have "row_of d' j = row_of d1 j" for j using ok(4) by simp
    then show ?thesis using row_of_upsert [OF wf ok(3)]
      by (auto simp: E keeps_done_def enqueue_conflict_def Let_def touch_def)
  qed
qed

lemma keeps_done_Dequeue: "wf_db d \<Longrightarrow> keeps_done d (snd (Dequeue q rnd now d))"
proof (cases "next_row q rnd (formatTime now) d")
  case (Some r)
  assume wf: "wf_db d"
  have d': "snd (Dequeue q rnd now d) = update_wq now (\<lambda>x. q_id x = q_id r) claim d"
    using Some by (auto simp: Dequeue_def Let_def split: sum.splits)
  have same: "x = r" if "x \<in> set (work_queue d)" "q_id x = q_id r" for x
    using that wf next_row_mem(1) [OF Some] by (auto simp: wf_db_def intro: distinct_key_unique)
  have "q_status r \<noteq> Done" using next_row_mem(2) [OF Some] by (auto simp: ready_def)
  with same show ?thesis unfolding d' by (intro keeps_done_update) (simp, blast)
qed (simp add: Dequeue_def keeps_done_refl)

lemma keeps_done_owner_ops:
  assumes "wf_db d"
  shows "keeps_done d (snd (Complete now i d))" "keeps_done d (snd (Release now i d))"
    "keeps_done d (snd (Fail q now i c d))" "keeps_done d (snd (Defer now i t c d))"
    "keeps_done d (snd (RetireMiss now i d))"
proof -
  have "keeps_done d (upd_claimed now i f d)" if "\<And>r. q_id (f r) = q_id r" for f
    by (rule keeps_done_update) (auto simp: that is_processing_def)
  then show "keeps_done d (snd (Complete now i d))" "keeps_done d (snd (Release now i d))"
    "keeps_done d (snd (Fail q now i c d))" "keeps_done d (snd (Defer now i t c d))"
    "keeps_done d (snd (RetireMiss now i d))"
    using assms by (simp_all add: claimed_op_eqs Let_def keeps_done_refl split: option.split)
qed

lemma keeps_done_admin:
  "keeps_done d (snd (Retry now i d))" "keeps_done d (snd (RecheckDeferred now lib d))"
  "keeps_done d (bump_outcome lane h m d)" "keeps_done d (RecordLaneAttempts now i as d)"
  "keeps_done d (SetProviderLane now i lane d)" "keeps_done d (SetInstrumentalResult now i x tel d)"
  "keeps_done d (SetOutcomeType now i l d)"
proof -
  have "keeps_done d (update_wq now (\<lambda>r. q_id r = i \<and> q_status r = Failed) (retry_row now) d)"
    by (rule keeps_done_update) auto
  then show "keeps_done d (snd (Retry now i d))"
    by (simp add: Retry_def Let_def keeps_done_refl split: option.split sum.split)
  show "keeps_done d (snd (RecheckDeferred now lib d))"
    unfolding RecheckDeferred_def snd_conv by (rule keeps_done_update) (auto simp: is_deferred_def)
  show "keeps_done d (SetProviderLane now i lane d)"
    by (auto simp: SetProviderLane_def keeps_done_refl intro!: keeps_done_update)
  show "keeps_done d (SetInstrumentalResult now i x tel d)" "keeps_done d (SetOutcomeType now i l d)"
    by (auto simp: SetInstrumentalResult_def SetOutcomeType_def intro!: keeps_done_update)
qed (simp_all add: keeps_done_def row_of_def bump_outcome_def RecordLaneAttempts_def)

lemma keeps_done_CancelByLibrary: "wf_db d \<Longrightarrow> keeps_done d (snd (CancelByLibrary now lib d))"
proof -
  assume wf: "wf_db d"
  obtain n d' where "CancelByLibrary now lib d = (Inr n, d')"
    and rows: "\<And>r. r \<in> set (work_queue d) \<Longrightarrow> row_of d' (q_id r) =
        (if cancellable r \<and> in_library d (Some lib) r then after_action now (action_of d lib r) r else Some r)"
    using CancelByLibrary_rows [OF wf, of now lib] by metis
  then show ?thesis by (auto simp: keeps_done_def cancellable_def dest!: row_of_Some)
qed

lemma keeps_done_db_step: "wf_db d \<Longrightarrow> \<not> reopens oper \<Longrightarrow> keeps_done d (db_step q now oper d)"
  by (cases oper)
     (auto simp: keeps_done_Enqueue keeps_done_Dequeue keeps_done_owner_ops keeps_done_admin
        keeps_done_CancelByLibrary Cleanup_def Let_def RecordProviderHit_def RecordProviderMiss_def
      intro!: keeps_done_delete)

lemma keeps_done_db_run:
  "wf_db d \<Longrightarrow> list_all (\<lambda>(_, oper). \<not> reopens oper) ops \<Longrightarrow> keeps_done d (db_run q ops d)"
proof (induction ops arbitrary: d)
  case (Cons x ops)
  obtain now oper where x: "x = (now, oper)" by (cases x)
  from Cons.prems x have "keeps_done d (db_step q now oper d)" by (intro keeps_done_db_step) simp_all
  moreover have "keeps_done (db_step q now oper d) (db_run q ops (db_step q now oper d))"
    using Cons.prems x by (intro Cons.IH wf_db_step) simp_all
  ultimately show ?case unfolding x by (simp add: keeps_done_trans)
qed (simp add: keeps_done_refl)

text \<open>An enqueue of a finished track leaves it finished.\<close>

lemma enqueue_done_row:
  assumes "wf_db d" "in_ScanResultID inp > 0 \<longrightarrow> in_ScanResultID inp \<in> s_id ` set (scan_results d)"
  shows "\<exists>it d'. Enqueue q now inp prio d = (Inr it, d') \<and> wf_db d' \<and> keeps_done d d'"
proof -
  obtain it d' where E: "Enqueue q now inp prio d = (Inr it, d')" using Enqueue_ok [OF assms] by metis
  with wf_Enqueue [OF assms(1) E] keeps_done_Enqueue [OF assms(1), of q now inp prio] show ?thesis by simp
qed

lemma keeps_done_rows:
  assumes "keeps_done d d'" "wf_db d" "wf_db d'" "w \<in> set (work_queue d)" "q_status w = Done"
  shows "\<exists>x \<in> set (work_queue d'). row_key x = row_key w"
    "x \<in> set (work_queue d') \<Longrightarrow> row_key x = row_key w \<Longrightarrow> q_status x = Done \<and> \<not> ready t x"
proof -
  have "row_of d (q_id w) = Some w" using assms(2,4) by (rule row_of_mem)
  then obtain r where r: "row_of d' (q_id w) = Some r" "q_status r = Done" "row_key r = row_key w"
    using assms(1,5) unfolding keeps_done_def by blast
  note mem = conjunct1 [OF row_of_Some [OF r(1)]]
  show "\<exists>x \<in> set (work_queue d'). row_key x = row_key w" using mem r(3) by blast
  assume "x \<in> set (work_queue d')" "row_key x = row_key w"
  with mem r assms(3) have "x = r" by (intro distinct_key_unique [of row_key "work_queue d'"]) (simp_all add: wf_db_def)
  with r(2) show "q_status x = Done \<and> \<not> ready t x" by (simp add: ready_def)
qed

text \<open>
  C25. A new file of a track whose queue row is done but which the cache does not answer for (a
  retired miss, an instrumental) is stranded: the enqueuer counts it as enqueued and marks its scan
  row processing, while the queue row of the track stays done.  Through every later history of
  queue operations other than an operator's recheck of retired rows, reset of an instrumental or
  clearing of the done rows, the track keeps that one row and the row stays done, so that no dequeue
  hands it out.
\<close>

theorem finished_track_strands_file:
  fixes E :: "'x outside"
  assumes "wf_db (sys_db s)" "scan_status (sys_db s) (res_ID res) = Some SrPending" "0 < res_ID res"
    and "res_FilePath res \<noteq> []" "\<not> cache_answers s (res_Track res)"
    and "w \<in> set (work_queue (sys_db s))" "q_status w = Done"
    and "row_key w = (NormalizeKey (dq_text q) (ArtistName (res_Track res)), NormalizeKey (dq_text q) (TrackName (res_Track res)))"
  shows "\<exists>s'. enqueue_one (db_store (reliable E)) (db_lookup (reliable E)) (db_enqueue q (reliable E)) prio detect res s
        = (Inr Enqueued, s')
    \<and> scan_status (sys_db s') (res_ID res) = Some SrProcessing
    \<and> (\<forall>ops. list_all (\<lambda>(_, oper). \<not> reopens oper) ops \<longrightarrow>
        (\<exists>x \<in> set (work_queue (db_run q ops (sys_db s'))). row_key x = row_key w)
        \<and> (\<forall>x \<in> set (work_queue (db_run q ops (sys_db s'))). row_key x = row_key w \<longrightarrow>
              q_status x = Done \<and> \<not> ready t x))"
proof -
  let ?d = "sys_db s" and ?i = "res_ID res" and ?tr = "res_Track res"
  let ?L = "Lookup (ArtistName ?tr) (TrackName ?tr) (DurationBucket (TrackLength ?tr))"
  define d2 where "d2 = ?d\<lparr>scan_results := update_where (\<lambda>r. s_id r = ?i) (\<lambda>r. r\<lparr>s_status := SrProcessing\<rparr>) (scan_results ?d)\<rparr>"
  obtain inp where inp: "scanInputs res = Inr inp" using scanInputs_file [OF assms(4)] by blast
  then have fields: "in_ScanResultID inp = ?i" "in_Track inp = ?tr" by (auto simp: scanInputs_def Let_def split: if_splits)
  define inp2 where "inp2 = inp\<lparr>in_DetectInstrumental := Some detect\<rparr>"
  have fields: "in_ScanResultID inp2 = ?i" "in_Track inp2 = ?tr" using fields by (simp_all add: inp2_def)
  obtain l c where L: "?L (sys_cache s) = (l, c)" by fastforce
  have l: "l = Inl no_rows"
    using assms(5) Lookup_value [of "ArtistName ?tr" "TrackName ?tr" "DurationBucket (TrackLength ?tr)" "sys_cache s"]
    by (auto simp: cache_answers_def L Let_def split: option.splits)
  have wf2: "wf_db d2" using update_status_frame(1) [OF d2_def assms(1)] .
  have st2: "scan_status d2 ?i = Some SrProcessing" using assms(2) by (simp add: d2_def scan_status_update)
  have sid: "in_ScanResultID inp2 > 0 \<longrightarrow> in_ScanResultID inp2 \<in> s_id ` set (scan_results d2)"
    using st2 scan_status_None [of d2 ?i] fields by auto
  let ?now = "ox_now E (sys_x s)" and ?s2 = "s\<lparr>sys_cache := c, sys_db := d2\<rparr>"
  have w2: "w \<in> set (work_queue d2)" using assms(6) by (simp add: d2_def)
  from enqueue_done_row [OF wf2 sid] obtain it d3 where E: "Enqueue q ?now inp2 prio d2 = (Inr it, d3)"
    and wf3: "wf_db d3" and k3: "keeps_done d2 d3" by metis
  have all: "(\<exists>x \<in> set (work_queue (db_run q ops d3)). row_key x = row_key w)
      \<and> (\<forall>x \<in> set (work_queue (db_run q ops d3)). row_key x = row_key w \<longrightarrow> q_status x = Done \<and> \<not> ready t x)"
    if "list_all (\<lambda>(_, oper). \<not> reopens oper) ops" for ops
    using keeps_done_rows [OF keeps_done_trans [OF k3 keeps_done_db_run [OF wf3 that]] wf2 wf_db_run [OF wf3] w2 assms(7)]
    by blast
  have st3: "scan_status d3 ?i = Some SrProcessing"
    using st2 by (simp add: scan_status_def Enqueue_frame(1) [OF E])
  have set2: "SetStatus [?i] ''processing'' ?d = (Inr (), d2)"
    using SetStatus_one [of ?i SrProcessing ?d] assms(2) by (simp add: d2_def)
  have "enqueue_one (db_store (reliable E)) (db_lookup (reliable E)) (db_enqueue q (reliable E)) prio detect res s
      = (Inr Enqueued, ?s2\<lparr>sys_db := d3\<rparr>)"
    using L E [unfolded inp2_def] set2 inp l
    by (simp add: enqueue_one_def Let_def db_lookup_def cache_call_def sys_call_def db_store_def db_call_def
        db_enqueue_def no_rows_def errors_is_def)
  with st3 all show ?thesis by (intro exI [of _ "?s2\<lparr>sys_db := d3\<rparr>"]) simp
qed

theorem finished_track_strands_file_witness:
  "\<exists>s'. enqueue_one (db_store (reliable sample_env)) (db_lookup (reliable sample_env)) (db_enqueue sample_queue (reliable sample_env))
        0 True ((sample_result ''/m/a.mp3'')\<lparr>res_ID := 1, res_Track := zero_track\<lparr>ArtistName := ''d'', TrackName := ''t''\<rparr>\<rparr>)
        (sample_sys scan_db) = (Inr Enqueued, s')
    \<and> scan_status (sys_db s') 1 = Some SrProcessing
    \<and> (\<exists>x \<in> set (work_queue (db_run sample_queue [(second, OpRetry 3), (second, OpDequeue (\<lambda>_. 0))] (sys_db s'))).
         row_key x = (''d'', ''t'') \<and> q_status x = Done)"
proof -
  let ?s = "sample_sys scan_db" and ?tr = "zero_track\<lparr>ArtistName := ''d'', TrackName := ''t''\<rparr>"
  let ?res = "(sample_result ''/m/a.mp3'')\<lparr>res_ID := 1, res_Track := ?tr\<rparr>" and ?w = "sample_row 3 ''d'' Done"
  have p: "NormalizeKey (dq_text sample_queue) ''d'' = ''d''" "NormalizeKey (dq_text sample_queue) ''t'' = ''t''"
    by (simp_all add: sample_queue_def NewDBQueue_def NormalizeKey_plain plain_def)
  have c: "\<not> cache_answers ?s ?tr"
    by (simp add: cache_answers_def sample_sys_def NewCache_def Lookup_def Let_def find_cached_def first_where_def)
  have a: "wf_db (sys_db ?s)" "scan_status (sys_db ?s) (res_ID ?res) = Some SrPending" "?w \<in> set (work_queue (sys_db ?s))"
    using scan_db_ok by (simp_all add: scan_status_def first_where_def scan_db_def sample_db_def)
  have b: "0 < res_ID ?res" "res_FilePath ?res \<noteq> []" "\<not> cache_answers ?s (res_Track ?res)" "q_status ?w = Done"
    "row_key ?w = (NormalizeKey (dq_text sample_queue) (ArtistName (res_Track ?res)), NormalizeKey (dq_text sample_queue) (TrackName (res_Track ?res)))"
    using c p by (simp_all add: sample_result_def)
  obtain s' where s': "enqueue_one (db_store (reliable sample_env)) (db_lookup (reliable sample_env))
      (db_enqueue sample_queue (reliable sample_env)) 0 True ?res ?s = (Inr Enqueued, s')"
    "scan_status (sys_db s') (res_ID ?res) = Some SrProcessing"
    and later: "\<And>ops. list_all (\<lambda>(_, oper). \<not> reopens oper) ops \<Longrightarrow>
        (\<exists>x \<in> set (work_queue (db_run sample_queue ops (sys_db s'))). row_key x = row_key ?w)
        \<and> (\<forall>x \<in> set (work_queue (db_run sample_queue ops (sys_db s'))). row_key x = row_key ?w \<longrightarrow>
              q_status x = Done \<and> \<not> ready 0 x)"
    using finished_track_strands_file [OF a(1,2) b(1,2,3) a(3) b(4,5), of sample_env 0 True 0] by blast
  from later [of "[(second, OpRetry 3), (second, OpDequeue (\<lambda>_. 0))]"] s' show ?thesis
    by (intro exI [of _ s']) auto
qed

end
