(* ===== verification/Lyrics_Text.thy ===== *)
theory Lyrics_Text
  imports Go_Paths Models "HOL-Library.Signed_Division"
begin

text \<open>
  \<^verbatim>\<open>internal/lyrics/slugify.go\<close> and the text half of \<^verbatim>\<open>internal/lyrics/writer.go\<close>: the name of a
  sidecar file and the bytes written to it.  The Unicode normalisation, the version string and the
  printing of a time are fields of an argument.
\<close>

section \<open>Names\<close>

record lyrics_lib =
  ll_nfkc :: "string \<Rightarrow> string"
  ll_version :: string
  ll_rfc3339 :: "instant \<Rightarrow> string"

definition forbidden :: "char \<Rightarrow> bool" where
  "forbidden c \<longleftrightarrow> c \<in> set (CHR 0x5C # ''/:*?\"<>|'')"

fun squeeze_dashes :: "string \<Rightarrow> string" where
  "squeeze_dashes (a # b # s) =
     (if a = CHR ''-'' \<and> b = CHR ''-'' then squeeze_dashes (b # s) else a # squeeze_dashes (b # s))"
| "squeeze_dashes s = s"

definition trim_set :: "string \<Rightarrow> string \<Rightarrow> string" where
  "trim_set cs s = rev (dropWhile (\<lambda>c. c \<in> set cs) (rev (dropWhile (\<lambda>c. c \<in> set cs) s)))"

definition Slugify :: "lyrics_lib \<Rightarrow> string \<Rightarrow> string" where
  "Slugify L s = trim_set ''-_'' (squeeze_dashes (filter (\<lambda>c. \<not> forbidden c) (ll_nfkc L s)))"

definition isUnsafeBaseName :: "string \<Rightarrow> bool" where
  "isUnsafeBaseName name \<longleftrightarrow> IsAbs name \<or> (\<exists>c \<in> set name. c = slash \<or> c = CHR 0x5C)"

definition SidecarName :: "lyrics_lib \<Rightarrow> string \<Rightarrow> string \<Rightarrow> string \<Rightarrow> bool \<Rightarrow> string result" where
  "SidecarName L artist track filename synced =
     (let ext = (if synced then ''.lrc'' else ''.txt'');
          refuse = (\<lambda>what n. Inl (errorf (''refusing to write: '' @ what @ '' \"'' @ n @ ''\" is not a base name'')))
      in if filename \<noteq> [] \<and>
            (filename = ''.'' \<or> filename = ''..'' \<or> filename \<noteq> Base filename \<or> isUnsafeBaseName filename)
         then refuse ''output filename'' filename
         else
           let fn = (if filename \<noteq> [] then TrimSuffix filename (Ext filename) @ ext
                     else Slugify L (artist @ '' - '' @ track) @ ext)
           in if isUnsafeBaseName fn then refuse ''derived output name'' fn else Inr fn)"

section \<open>Content\<close>

definition eighth_note :: string where
  "eighth_note = bytes [226, 153, 170]"

definition InstrumentalMarker :: string where
  "InstrumentalMarker = eighth_note @ '' Instrumental '' @ eighth_note"

abbreviation newline :: char where "newline \<equiv> CHR 0x0A"
abbreviation carriage :: char where "carriage \<equiv> CHR 0x0D"

text \<open>The verb \<^verbatim>\<open>%02d\<close>.\<close>

definition pad2 :: "int \<Rightarrow> string" where
  "pad2 i = (if 0 \<le> i \<and> i < 10 then CHR ''0'' # itoa i else itoa i)"

definition timed_line :: "lrc_time \<Rightarrow> string \<Rightarrow> string" where
  "timed_line t text =
     ''['' @ pad2 (Minutes t) @ '':'' @ pad2 (Seconds t) @ ''.'' @ pad2 (Hundredths t) @ '']''
     @ (if text = [] then eighth_note else text) @ [newline]"

fun synced_lines :: "bool \<Rightarrow> lrc_line list \<Rightarrow> lrc_line list \<Rightarrow> string" where
  "synced_lines interleave [] trs = []"
| "synced_lines interleave (l # ls) trs =
     timed_line (Time l) (Text l)
     @ (case trs of
          [] \<Rightarrow> synced_lines interleave ls []
        | tr # trs' \<Rightarrow> (if interleave then timed_line (Time l) (Text tr) else []) @ synced_lines interleave ls trs')"

definition writeSyncedLRC :: "song \<Rightarrow> bool \<Rightarrow> string" where
  "writeSyncedLRC song bilingual =
     synced_lines (bilingual \<and> TranslationSubtitles song \<noteq> []) (Subtitles song) (TranslationSubtitles song)"

definition writeUnsyncedLRC :: "song \<Rightarrow> string" where
  "writeUnsyncedLRC song = LyricsBody song"

definition writeInstrumental :: string where
  "writeInstrumental = InstrumentalMarker @ [newline]"

definition tag_line :: "string \<Rightarrow> string \<Rightarrow> string" where
  "tag_line k v = ''['' @ k @ '':'' @ v @ '']''"

definition header_tags :: "lyrics_lib \<Rightarrow> song \<Rightarrow> string list" where
  "header_tags L song =
     (let tr = Track song; opt = (\<lambda>k v. if v = [] then [] else [tag_line k v])
      in [tag_line ''by'' ''canticle'', tag_line ''ar'' (ArtistName tr), tag_line ''ti'' (TrackName tr)]
         @ opt ''al'' (AlbumName tr)
         @ (if TrackLength tr = 0 then []
            else [tag_line ''length'' (pad2 (TrackLength tr sdiv 60) @ '':'' @ pad2 (TrackLength tr smod 60))])
         @ opt ''source'' (WinningLane song)
         @ (case FetchedAt song of None \<Rightarrow> [] | Some t \<Rightarrow> [tag_line ''fetched'' (ll_rfc3339 L t)])
         @ [tag_line ''ve'' (ll_version L)]
         @ opt ''isrc'' (ISRC tr) @ opt ''mbid'' (RecordingMBID tr))"

definition header_text :: "string list \<Rightarrow> string" where
  "header_text tags = concat (map (\<lambda>t. t @ [newline]) tags)"

text \<open>Whether the song is synced, and the bytes of its file; \<open>None\<close> when there is nothing to save.\<close>

definition song_content :: "lyrics_lib \<Rightarrow> bool \<Rightarrow> song \<Rightarrow> (bool \<times> string) option" where
  "song_content L bilingual song =
     (if Instrumental (Track song) = 1 then Some (False, writeInstrumental)
      else if Subtitles song \<noteq> [] then Some (True, header_text (header_tags L song) @ writeSyncedLRC song bilingual)
      else if LyricsBody song \<noteq> [] then Some (False, writeUnsyncedLRC song)
      else None)"

section \<open>Lemmas\<close>

lemma isUnsafe_iff: "isUnsafeBaseName n \<longleftrightarrow> slash \<in> set n \<or> CHR 0x5C \<in> set n"
proof -
  have "slash \<in> set n" if "IsAbs n" using that by (cases n) (simp_all add: IsAbs_def rooted_def)
  then show ?thesis by (auto simp: isUnsafeBaseName_def)
qed

lemma safe_name: "\<not> isUnsafeBaseName n \<Longrightarrow> slash \<notin> set n \<and> CHR 0x5C \<notin> set n"
  by (simp add: isUnsafe_iff)

lemma SidecarName_Inr:
  assumes "SidecarName L artist track filename synced = Inr fn"
  shows "\<not> isUnsafeBaseName fn" "\<exists>b. fn = b @ (if synced then ''.lrc'' else ''.txt'')"
  using assms by (auto simp: SidecarName_def Let_def split: if_splits)

text \<open>Joining a safe name to a directory adds one component.\<close>

lemma comps_snoc:
  assumes "slash \<notin> set fn" "comp_ok fn" "fn \<noteq> ''..''"
  shows "comps (dir @ slash # fn) = (if dir = [] then [fn] else comps dir @ [fn])"
proof -
  have split: "split_on slash (d @ slash # fn) = split_on slash d @ [fn]" for d
    by (induction d) (use assms(1) in \<open>auto simp: split_on_free split: list.splits\<close>)
  have loop: "clean_loop r out (cs @ [fn]) = clean_loop r out cs @ [fn]" for r out cs
    using assms(2,3) by (induction r out cs rule: clean_loop.induct) (auto simp: comp_ok_def split: list.splits)
  show ?thesis
  proof (cases "dir = []")
    case True
    have "comps (slash # fn) = clean_loop True [] ([[]] @ [fn])"
      using split [of "[]"] by (simp add: comps_def rooted_def)
    also have "\<dots> = clean_loop True [] [[]] @ [fn]" by (rule loop)
    finally show ?thesis using True by simp
  next
    case False
    then have "rooted (dir @ slash # fn) = rooted dir" by (cases dir) (simp_all add: rooted_def)
    with False show ?thesis unfolding comps_def split loop by simp
  qed
qed

end
