(* ===== verification/Lyrics_Files.thy ===== *)
theory Lyrics_Files
  imports Lyrics_Text
begin

text \<open>
  The disk half of \<^verbatim>\<open>internal/lyrics/writer.go\<close>: \<open>WriteLRC\<close> as the sequence of system calls it
  makes.  The file system maps paths to contents; \<open>fs_seen\<close> records every state it ever showed, so
  that what a reader can see, or what is left when the process dies at any point, is a statement
  about it.  When the machine itself stops, contents that were never synced may be lost:
  \<open>fs_unsynced\<close> marks them and \<open>after_power_loss\<close> says what can be found afterwards.  Whether a call
  fails, how much of a write goes out first, the random part of a temporary name and what a path
  resolves to are answers of the environment.
\<close>

section \<open>System calls\<close>

type_synonym files = "string \<rightharpoonup> string"

record fs =
  fs_files :: files
  fs_seen :: "files list"
  fs_calls :: nat
  fs_unsynced :: "string \<Rightarrow> bool"

record fs_env =
  fe_fail :: "nat \<Rightarrow> string option"
  fe_cut :: "nat \<Rightarrow> nat"
  fe_rand :: "nat \<Rightarrow> string"
  fe_tempdir :: string
  fe_resolve :: "string \<Rightarrow> string option"
  fe_missing :: "string \<Rightarrow> bool"

definition put_files :: "files \<Rightarrow> fs \<Rightarrow> fs" where
  "put_files f s = s\<lparr>fs_files := f, fs_seen := fs_seen s @ [f]\<rparr>"

definition fs_call :: "fs_env \<Rightarrow> (files \<Rightarrow> files) \<Rightarrow> fs \<Rightarrow> unit result \<times> fs" where
  "fs_call E g s =
     (let s1 = s\<lparr>fs_calls := fs_calls s + 1\<rparr>
      in case fe_fail E (fs_calls s) of
           Some m \<Rightarrow> (Inl (errorf m), s1)
         | None \<Rightarrow> (Inr (), put_files (g (fs_files s)) s1))"

text \<open>\<open>os.Remove\<close> with its \<open>os.IsNotExist\<close> error ignored.\<close>

definition fs_remove :: "fs_env \<Rightarrow> string \<Rightarrow> fs \<Rightarrow> unit result \<times> fs" where
  "fs_remove E p s = (if fs_files s p = None then (Inr (), s\<lparr>fs_calls := fs_calls s + 1\<rparr>)
                      else fs_call E (\<lambda>f. f(p := None)) s)"

definition fs_rename :: "fs_env \<Rightarrow> string \<Rightarrow> string \<Rightarrow> fs \<Rightarrow> unit result \<times> fs" where
  "fs_rename E p p' s =
     (case fs_call E (\<lambda>f. f(p' := f p, p := None)) s of
        (Inl e, s1) \<Rightarrow> (Inl e, s1)
      | (Inr _, s1) \<Rightarrow> (Inr (), s1\<lparr>fs_unsynced := (fs_unsynced s1)(p' := fs_unsynced s1 p)\<rparr>))"

text \<open>\<open>Close\<close> and \<open>Chmod\<close> leave names and contents alone, and so does \<open>Sync\<close>, after which the content is
  stable.\<close>

definition fs_touch :: "fs_env \<Rightarrow> fs \<Rightarrow> unit result \<times> fs" where
  "fs_touch E = fs_call E (\<lambda>f. f)"

definition fs_sync :: "fs_env \<Rightarrow> string \<Rightarrow> fs \<Rightarrow> unit result \<times> fs" where
  "fs_sync E p s =
     (case fs_touch E s of
        (Inl e, s1) \<Rightarrow> (Inl e, s1)
      | (Inr _, s1) \<Rightarrow> (Inr (), s1\<lparr>fs_unsynced := (fs_unsynced s1)(p := False)\<rparr>))"

text \<open>A buffered write: some part of the content is out before the last flush succeeds or fails.\<close>

definition fs_write :: "fs_env \<Rightarrow> string \<Rightarrow> string \<Rightarrow> fs \<Rightarrow> unit result \<times> fs" where
  "fs_write E p content s =
     fs_call E (\<lambda>f. f(p \<mapsto> content))
       (put_files ((fs_files s)(p \<mapsto> take (fe_cut E (fs_calls s)) content))
         (s\<lparr>fs_unsynced := (fs_unsynced s)(p := True)\<rparr>))"

text \<open>What may be found when the machine stopped in \<open>s\<close>: names are as they were (the directory was
  synced), but of a content that was never synced any part may be missing.\<close>

definition after_power_loss :: "fs \<Rightarrow> files \<Rightarrow> bool" where
  "after_power_loss s f \<longleftrightarrow>
     (\<forall>p. f p = fs_files s p \<or> fs_unsynced s p \<and> (\<exists>k. f p = map_option (take k) (fs_files s p)))"

definition temp_path :: "fs_env \<Rightarrow> string \<Rightarrow> string \<Rightarrow> nat \<Rightarrow> string" where
  "temp_path E dir fn n =
     (let d = (if dir = [] then fe_tempdir E else dir)
      in (if HasSuffix d ''/'' then d else d @ ''/'') @ fn @ ''.'' @ fe_rand E n @ ''.tmp'')"

definition fs_create_temp :: "fs_env \<Rightarrow> string \<Rightarrow> string \<Rightarrow> fs \<Rightarrow> string result \<times> fs" where
  "fs_create_temp E dir fn s =
     (let p = temp_path E dir fn (fs_calls s)
      in if fs_files s p \<noteq> None then (Inl (errorf ''file exists''), s)
         else case fs_call E (\<lambda>f. f(p \<mapsto> [])) s of
                (Inl e, s1) \<Rightarrow> (Inl e, s1)
              | (Inr _, s1) \<Rightarrow> (Inr p, s1))"

section \<open>WriteLRC\<close>

record lrc_writer =
  lw_roots :: "string list"
  lw_bilingual :: bool

definition SetBilingual :: "bool \<Rightarrow> lrc_writer \<Rightarrow> lrc_writer" where
  "SetBilingual b w = w\<lparr>lw_bilingual := b\<rparr>"

definition NewLRCWriter :: "string list \<Rightarrow> lrc_writer" where
  "NewLRCWriter roots = \<lparr>lw_roots = map Clean (filter (\<lambda>r. r \<noteq> []) roots), lw_bilingual = False\<rparr>"

definition matchRoot :: "lrc_writer \<Rightarrow> string \<Rightarrow> string option" where
  "matchRoot w outdir =
     (let best = fold (\<lambda>r b. if WithinRoot r outdir \<and> length r > length b then r else b) (lw_roots w) []
      in if best = [] then None else Some best)"

definition confine :: "fs_env \<Rightarrow> lrc_writer \<Rightarrow> string \<Rightarrow> string result" where
  "confine E w outdir =
     (case matchRoot w outdir of
        None \<Rightarrow> Inr outdir
      | Some rt \<Rightarrow>
          (case ResolveWithinRoot (fe_resolve E) rt outdir of
             Some resolved \<Rightarrow> Inr resolved
           | None \<Rightarrow>
               if fe_missing E outdir
               then Inl (errorf (''refusing to write: output dir \"'' @ outdir @ ''\" does not exist''))
               else Inl (errorf (''refusing to write to \"'' @ outdir @ ''\": output dir escapes confinement root \"''
                                 @ rt @ ''\" or is unresolvable''))))"

text \<open>What is decided before the disk is touched: the directory, the file name and the content.\<close>

definition lrc_target :: "lyrics_lib \<Rightarrow> fs_env \<Rightarrow> lrc_writer \<Rightarrow> song \<Rightarrow> string \<Rightarrow> string
    \<Rightarrow> (string \<times> string \<times> string) result" where
  "lrc_target L E w song filename outdir =
     (let tr = Track song in
      case song_content L (lw_bilingual w) song of
        None \<Rightarrow> Inl (errorf (''nothing to save for '' @ ArtistName tr @ '' - '' @ TrackName tr))
      | Some (synced, content) \<Rightarrow>
          (case SidecarName L (ArtistName tr) (TrackName tr) filename synced of
             Inl e \<Rightarrow> Inl e
           | Inr fn \<Rightarrow> (case confine E w outdir of Inl e \<Rightarrow> Inl e | Inr dir \<Rightarrow> Inr (dir, fn, content))))"

text \<open>The deferred function on an error: close the temporary file if it is open, and remove it.\<close>

definition discard_temp :: "fs_env \<Rightarrow> string \<Rightarrow> bool \<Rightarrow> goerr \<Rightarrow> fs \<Rightarrow> unit result \<times> fs" where
  "discard_temp E tmp shut e s =
     (let s1 = (if shut then s else snd (fs_touch E s)) in (Inl e, snd (fs_remove E tmp s1)))"

definition step_or_discard :: "fs_env \<Rightarrow> string \<Rightarrow> bool \<Rightarrow> string \<Rightarrow> unit result \<times> fs \<Rightarrow> (fs \<Rightarrow> unit result \<times> fs)
    \<Rightarrow> unit result \<times> fs" where
  "step_or_discard E tmp shut what call k =
     (case call of
        (Inl e, s) \<Rightarrow> discard_temp E tmp shut (wrapf what e) s
      | (Inr _, s) \<Rightarrow> k s)"

definition other_sidecar :: "string \<Rightarrow> string option" where
  "other_sidecar fp =
     (if Ext fp = ''.lrc'' then Some (TrimSuffix fp ''.lrc'' @ ''.txt'')
      else if Ext fp = ''.txt'' then Some (TrimSuffix fp ''.txt'' @ ''.lrc'') else None)"

definition write_lyrics_file :: "fs_env \<Rightarrow> string \<Rightarrow> string \<Rightarrow> string \<Rightarrow> fs \<Rightarrow> unit result \<times> fs" where
  "write_lyrics_file E dir fn content s =
     (let fp = Join dir fn in
      case fs_create_temp E dir fn s of
        (Inl e, s1) \<Rightarrow> (Inl (wrapf (''creating temp file in '' @ dir) e), s1)
      | (Inr tmp, s1) \<Rightarrow>
          step_or_discard E tmp False ''writing'' (fs_write E tmp content s1) (\<lambda>s2.
          step_or_discard E tmp False (''closing '' @ tmp) (fs_touch E s2) (\<lambda>s3.
          step_or_discard E tmp True (''chmod '' @ tmp) (fs_touch E s3) (\<lambda>s4.
          step_or_discard E tmp True (''removing existing '' @ fp) (fs_remove E fp s4) (\<lambda>s5.
          step_or_discard E tmp True (''renaming '' @ tmp @ '' to '' @ fp) (fs_rename E tmp fp s5) (\<lambda>s6.
            (Inr (), case other_sidecar fp of None \<Rightarrow> s6 | Some stale \<Rightarrow> snd (fs_remove E stale s6))))))))"

definition WriteLRC :: "lyrics_lib \<Rightarrow> fs_env \<Rightarrow> lrc_writer \<Rightarrow> song \<Rightarrow> string \<Rightarrow> string \<Rightarrow> fs \<Rightarrow> unit result \<times> fs" where
  "WriteLRC L E w song filename outdir s =
     (case lrc_target L E w song filename outdir of
        Inl e \<Rightarrow> (Inl e, s)
      | Inr (dir, fn, content) \<Rightarrow> write_lyrics_file E dir fn content s)"

section \<open>Every state on disk\<close>

text \<open>\<open>fs_within P s s'\<close>: every state put on disk from \<open>s\<close> to \<open>s'\<close>, the last included, satisfies \<open>P\<close>.\<close>

definition fs_within :: "(files \<Rightarrow> bool) \<Rightarrow> fs \<Rightarrow> fs \<Rightarrow> bool" where
  "fs_within P s s' \<longleftrightarrow>
     (\<exists>fs. fs_seen s' = fs_seen s @ fs \<and> (\<forall>f \<in> set fs. P f)) \<and> P (fs_files s')"

lemma fs_within_refl: "P (fs_files s) \<Longrightarrow> fs_within P s s"
  by (simp add: fs_within_def)

lemma fs_within_trans: "fs_within P s s1 \<Longrightarrow> fs_within P s1 s2 \<Longrightarrow> fs_within P s s2"
  by (auto simp: fs_within_def)

lemma fs_within_mono: "fs_within P s s' \<Longrightarrow> (\<And>f. P f \<Longrightarrow> Q f) \<Longrightarrow> fs_within Q s s'"
  by (fastforce simp: fs_within_def)

lemma fs_call_within:
  "P (fs_files s) \<Longrightarrow> P (g (fs_files s)) \<Longrightarrow> fs_within P s (snd (fs_call E g s))"
  by (simp add: fs_call_def fs_within_def put_files_def Let_def split: option.split)

lemma fs_call_Inr: "fs_call E g s = (Inr u, s') \<Longrightarrow> fs_files s' = g (fs_files s)"
  by (auto simp: fs_call_def put_files_def Let_def split: option.splits)

lemma fs_call_Inl: "fs_call E g s = (Inl e, s') \<Longrightarrow> fs_files s' = fs_files s"
  by (auto simp: fs_call_def put_files_def Let_def split: option.splits)

lemma fs_touch_files: "fs_files (snd (fs_touch E s)) = fs_files s"
  by (simp add: fs_touch_def fs_call_def put_files_def Let_def split: option.split)

lemma fs_touch_within: "P (fs_files s) \<Longrightarrow> fs_within P s (snd (fs_touch E s))"
  unfolding fs_touch_def by (rule fs_call_within)

lemma fs_sync_files: "fs_files (snd (fs_sync E p s)) = fs_files s"
proof (cases "fs_touch E s")
  case (Pair r s1)
  then show ?thesis using fs_touch_files [of E s] by (cases r) (simp_all add: fs_sync_def)
qed

lemma fs_sync_within: "P (fs_files s) \<Longrightarrow> fs_within P s (snd (fs_sync E p s))"
proof (cases "fs_touch E s")
  case (Pair r s1)
  then show "P (fs_files s) \<Longrightarrow> ?thesis"
    using fs_touch_within [of P s E] by (cases r) (simp_all add: fs_sync_def fs_within_def)
qed

lemma fs_rename_within:
  assumes "P (fs_files s)" "P ((fs_files s)(p' := fs_files s p, p := None))"
  shows "fs_within P s (snd (fs_rename E p p' s))"
proof (cases "fs_call E (\<lambda>f. f(p' := f p, p := None)) s")
  case (Pair r s1)
  then show ?thesis using fs_call_within [of P s "\<lambda>f. f(p' := f p, p := None)" E, OF assms]
    by (cases r) (simp_all add: fs_rename_def fs_within_def)
qed

lemma fs_rename_Inr:
  "fs_rename E p p' s = (Inr u, s') \<Longrightarrow>
     fs_files s' = (fs_files s)(p' := fs_files s p, p := None) \<and> fs_unsynced s' p' = fs_unsynced s p"
  by (auto simp: fs_rename_def fs_call_def put_files_def Let_def split: option.splits)

lemma fs_rename_Inl: "fs_rename E p p' s = (Inl e, s') \<Longrightarrow> fs_files s' = fs_files s"
  by (auto simp: fs_rename_def fs_call_def put_files_def Let_def split: option.splits)

lemma fs_call_unsynced: "fs_unsynced (snd (fs_call E g s)) = fs_unsynced s"
  by (simp add: fs_call_def put_files_def Let_def split: option.split)

lemma fs_unsynced_kept:
  "fs_unsynced (snd (fs_touch E s)) = fs_unsynced s" "fs_unsynced (snd (fs_remove E p s)) = fs_unsynced s"
  by (simp_all add: fs_touch_def fs_remove_def fs_call_unsynced)

lemma fs_write_unsynced: "fs_write E p content s = (r, s') \<Longrightarrow> fs_unsynced s' p"
  using fs_call_unsynced by (metis (no_types, lifting) fs_write_def put_files_def fun_upd_same fs.ext_inject fs.surjective fs.update_convs(1,2,4) snd_conv)

lemma fs_sync_synced: "fs_sync E p s = (Inr u, s') \<Longrightarrow> \<not> fs_unsynced s' p"
  by (auto simp: fs_sync_def split: prod.splits sum.splits)

lemma fs_remove_within:
  "P (fs_files s) \<Longrightarrow> P ((fs_files s)(p := None)) \<Longrightarrow> fs_within P s (snd (fs_remove E p s))"
  by (simp add: fs_remove_def fs_call_within) (simp add: fs_within_def)

lemma fs_remove_Inr: "fs_remove E p s = (Inr u, s') \<Longrightarrow> fs_files s' = (fs_files s)(p := None)"
  by (auto simp: fs_remove_def fun_upd_idem dest: fs_call_Inr split: if_splits)

lemma fs_remove_Inl: "fs_remove E p s = (Inl e, s') \<Longrightarrow> fs_files s' = fs_files s"
  by (auto simp: fs_remove_def dest: fs_call_Inl split: if_splits)

lemma fs_remove_snd: "fs_files (snd (fs_remove E p s)) \<in> {fs_files s, (fs_files s)(p := None)}"
  by (auto simp: fs_remove_def fs_call_def put_files_def Let_def split: option.split)

lemma discard_within:
  "P (fs_files s) \<Longrightarrow> P ((fs_files s)(tmp := None)) \<Longrightarrow> fs_within P s (snd (discard_temp E tmp shut e s))"
  unfolding discard_temp_def Let_def snd_conv
  by (rule fs_within_trans [of _ _ "if shut then s else snd (fs_touch E s)"])
    (auto simp: fs_touch_files intro: fs_remove_within fs_touch_within fs_within_refl)

lemma step_or_discard_within:
  assumes "fs_within P s (snd call)" "\<And>f. P f \<Longrightarrow> P (f(tmp := None))"
    and "\<And>u s1. call = (Inr u, s1) \<Longrightarrow> fs_within P s1 (snd (k s1))"
  shows "fs_within P s (snd (step_or_discard E tmp c what call k))"
proof (cases call)
  case (Pair r s1)
  have P: "P (fs_files s1)" using assms(1) unfolding Pair fs_within_def snd_conv by (rule conjunct2)
  show ?thesis
  proof (cases r)
    case (Inl e)
    have "fs_within P s1 (snd (discard_temp E tmp c (wrapf what e) s1))" using P assms(2) [OF P] by (rule discard_within)
    with assms(1) Inl Pair show ?thesis by (auto simp: step_or_discard_def intro: fs_within_trans)
  next
    case (Inr u)
    with assms(1,3) Pair show ?thesis by (auto simp: step_or_discard_def intro: fs_within_trans)
  qed
qed

lemma step_or_discard_Inr:
  "step_or_discard E tmp c what call k = (Inr u, s') \<Longrightarrow> \<exists>v s1. call = (Inr v, s1) \<and> k s1 = (Inr u, s')"
  by (cases call; cases "fst call") (auto simp: step_or_discard_def discard_temp_def Let_def)

lemma step_or_discard_Inl:
  assumes "step_or_discard E tmp c what call k = (Inl e, s')" "\<And>f. P f \<Longrightarrow> P (f(tmp := None))"
    and "\<And>x s1. call = (Inl x, s1) \<Longrightarrow> P (fs_files s1)"
    and "\<And>u s1. call = (Inr u, s1) \<Longrightarrow> k s1 = (Inl e, s') \<Longrightarrow> P (fs_files s')"
  shows "P (fs_files s')"
proof (cases call)
  case (Pair r s1)
  show ?thesis
  proof (cases r)
    case (Inl x)
    have "fs_within P s1 (snd (discard_temp E tmp c (wrapf what x) s1))"
      using assms(2,3) Pair Inl by (intro discard_within) auto
    with assms(1) Pair Inl show ?thesis by (simp add: step_or_discard_def fs_within_def)
  qed (use assms(1,4) Pair in \<open>simp add: step_or_discard_def\<close>)
qed

lemma fs_write_within:
  assumes "\<And>x. P ((fs_files s)(p \<mapsto> x))"
  shows "fs_within P s (snd (fs_write E p content s))"
proof -
  let ?s1 = "put_files ((fs_files s)(p \<mapsto> take (fe_cut E (fs_calls s)) content))
    (s\<lparr>fs_unsynced := (fs_unsynced s)(p := True)\<rparr>)"
  have "fs_within P s ?s1" using assms by (simp add: fs_within_def put_files_def)
  moreover have "fs_within P ?s1 (snd (fs_call E (\<lambda>f. f(p \<mapsto> content)) ?s1))"
    using assms by (intro fs_call_within) (simp_all add: put_files_def)
  ultimately show ?thesis unfolding fs_write_def by (rule fs_within_trans)
qed

lemma fs_write_Inr: "fs_write E p content s = (Inr u, s') \<Longrightarrow> fs_files s' = (fs_files s)(p \<mapsto> content)"
  by (auto simp: fs_write_def put_files_def dest: fs_call_Inr)

lemma fs_write_Inl: "fs_write E p content s = (Inl e, s') \<Longrightarrow> \<exists>x. fs_files s' = (fs_files s)(p \<mapsto> x)"
  unfolding fs_write_def by (drule fs_call_Inl) (auto simp: put_files_def)

lemma fs_touch_eq: "fs_touch E s = (r, s') \<Longrightarrow> fs_files s' = fs_files s"
  using fs_touch_files [of E s] by simp

lemma fs_sync_eq: "fs_sync E p s = (r, s') \<Longrightarrow> fs_files s' = fs_files s"
  using fs_sync_files [of E p s] by simp

lemma fs_create_temp_Inr:
  "fs_create_temp E dir fn s = (Inr p, s') \<Longrightarrow>
     p = temp_path E dir fn (fs_calls s) \<and> fs_files s p = None \<and> fs_files s' = (fs_files s)(p \<mapsto> [])"
  by (auto simp: fs_create_temp_def Let_def dest!: fs_call_Inr split: if_splits prod.splits sum.splits)

lemma fs_create_temp_Inl: "fs_create_temp E dir fn s = (Inl e, s') \<Longrightarrow> fs_files s' = fs_files s"
  by (auto simp: fs_create_temp_def Let_def dest!: fs_call_Inl split: if_splits prod.splits sum.splits)

lemma fs_create_temp_within:
  assumes "P (fs_files s)" "\<And>x. P ((fs_files s)(temp_path E dir fn (fs_calls s) \<mapsto> x))"
  shows "fs_within P s (snd (fs_create_temp E dir fn s))"
proof -
  let ?g = "\<lambda>f. f(temp_path E dir fn (fs_calls s) \<mapsto> [])"
  have "fs_within P s (snd (fs_call E ?g s))" using assms by (intro fs_call_within)
  then show ?thesis using assms(1)
    by (auto simp: fs_create_temp_def Let_def fs_within_refl split: prod.split sum.split)
qed

text \<open>A temporary name is no lyrics name.\<close>

lemma HasSuffix_append: "HasSuffix s p \<longleftrightarrow> (\<exists>t. s = t @ p)"
proof -
  have "(\<exists>u. rev s = rev p @ u) \<longleftrightarrow> (\<exists>t. s = t @ p)" by (metis rev_append rev_rev_ident)
  then show ?thesis by (simp add: HasSuffix_def HasPrefix_append)
qed

lemma temp_path_suffix: "HasSuffix (temp_path E dir fn n) ''.tmp''"
proof -
  have "temp_path E dir fn n = (let d = (if dir = [] then fe_tempdir E else dir)
      in (if HasSuffix d ''/'' then d else d @ ''/'') @ fn @ ''.'' @ fe_rand E n) @ ''.tmp''"
    by (simp add: temp_path_def Let_def)
  then show ?thesis unfolding HasSuffix_append by blast
qed

lemma Join_name:
  assumes "slash \<notin> set fn" "comp_ok fn" "fn \<noteq> ''..''"
  shows "comps (Join dir fn) = (if dir = [] then [fn] else comps dir @ [fn])"
    "Join dir fn = (if dir = [] \<or> (\<not> rooted dir \<and> comps dir = []) then fn
       else (if rooted dir then slash # join_with slash (comps dir) else join_with slash (comps dir))
            @ (if comps dir = [] then [] else [slash]) @ fn)"
proof -
  have fn: "fn \<noteq> []" using assms(2) by (simp add: comp_ok_def)
  have rt: "rooted fn = False" using assms(1) fn by (cases fn) (auto simp: rooted_def)
  have sp: "comps fn = [fn]"
    unfolding comps_def split_on_free [OF assms(1)] using assms(2,3) fn by (simp add: comp_ok_def)
  have r: "rooted (dir @ slash # fn) = rooted dir" if "dir \<noteq> []" using that by (cases dir) (simp_all add: rooted_def)
  show "comps (Join dir fn) = (if dir = [] then [fn] else comps dir @ [fn])"
    using comps_snoc [OF assms, of dir] fn sp rt by (simp add: Join_def)
  show "Join dir fn = (if dir = [] \<or> (\<not> rooted dir \<and> comps dir = []) then fn
       else (if rooted dir then slash # join_with slash (comps dir) else join_with slash (comps dir))
            @ (if comps dir = [] then [] else [slash]) @ fn)"
    using comps_snoc [OF assms, of dir] fn sp rt r
    by (auto simp: Join_def Clean_def of_comps_def join_with_snoc)
qed

end
