(* ===== verification/Lyrics_Props.thy ===== *)
theory Lyrics_Props
  imports Lyrics_Files
begin

text \<open>
  What \<open>WriteLRC\<close> leaves on disk: a lyrics file is replaced as a whole in every state a crash can
  expose, and everything it touches is an entry of the directory it was confined to.
\<close>

section \<open>Extensions\<close>

lemma after_last_append: "c \<notin> set x \<Longrightarrow> after_last c (p @ c # x) = x"
proof -
  assume "c \<notin> set x"
  then have "takeWhile (\<lambda>y. y \<noteq> c) (rev x @ (c # rev p)) = rev x" by (subst takeWhile_append2) auto
  then show ?thesis by (simp add: after_last_def)
qed

lemma after_last_tail: "c \<notin> set x \<Longrightarrow> after_last c (p @ x) = after_last c p @ x"
proof -
  assume "c \<notin> set x"
  then have "takeWhile (\<lambda>y. y \<noteq> c) (rev x @ rev p) = rev x @ takeWhile (\<lambda>y. y \<noteq> c) (rev p)"
    by (intro takeWhile_append2) auto
  then show ?thesis by (simp add: after_last_def)
qed

lemma Ext_suffix: "slash \<notin> set x \<Longrightarrow> CHR ''.'' \<notin> set x \<Longrightarrow> Ext (p @ CHR ''.'' # x) = CHR ''.'' # x"
proof -
  assume x: "slash \<notin> set x" "CHR ''.'' \<notin> set x"
  then have "slash \<notin> set (CHR ''.'' # x)" by auto
  then have "after_last slash (p @ CHR ''.'' # x) = after_last slash p @ CHR ''.'' # x" by (rule after_last_tail)
  with x(2) show ?thesis by (simp add: Ext_def Let_def after_last_append)
qed

lemma Ext_known: "Ext (p @ ''.lrc'') = ''.lrc''" "Ext (p @ ''.txt'') = ''.txt''" "HasSuffix p ''.tmp'' \<Longrightarrow> Ext p = ''.tmp''"
  using Ext_suffix [of "''lrc''" p] Ext_suffix [of "''txt''" p] Ext_suffix [of "''tmp''"]
  by (auto simp: HasSuffix_append)

lemma other_sidecar_Ext:
  "other_sidecar p = Some q \<Longrightarrow> (Ext p = ''.lrc'' \<and> Ext q = ''.txt'') \<or> (Ext p = ''.txt'' \<and> Ext q = ''.lrc'')"
  by (auto simp: other_sidecar_def Ext_known split: if_splits)

text \<open>The name of the file \<open>WriteLRC\<close> writes.\<close>

lemma sidecar_path:
  assumes "SidecarName L artist track filename synced = Inr fn"
  shows "slash \<notin> set fn" "comp_ok fn" "fn \<noteq> ''..''" "Ext (Join dir fn) \<in> {''.lrc'', ''.txt''}"
proof -
  obtain b where b: "fn = b @ (if synced then ''.lrc'' else ''.txt'')" using SidecarName_Inr(2) [OF assms] by blast
  show s: "slash \<notin> set fn" using safe_name [OF SidecarName_Inr(1) [OF assms]] by blast
  have l: "length fn \<ge> 4" by (simp add: b)
  then show "comp_ok fn" "fn \<noteq> ''..''" using s by (auto simp: comp_ok_def)
  then obtain d where "Join dir fn = d @ fn" using Join_name(2) [OF s, of dir] by (metis append.assoc append_Nil)
  then have "Join dir fn = (d @ b) @ (if synced then ''.lrc'' else ''.txt'')" by (simp add: b)
  then show "Ext (Join dir fn) \<in> {''.lrc'', ''.txt''}" by (cases synced) (simp_all add: Ext_known del: append_assoc)
qed

lemma lrc_target_name:
  "lrc_target L E w song filename outdir = Inr (dir, fn, content) \<Longrightarrow>
   \<exists>synced. SidecarName L (ArtistName (Track song)) (TrackName (Track song)) filename synced = Inr fn
     \<and> song_content L (lw_bilingual w) song = Some (synced, content) \<and> confine E w outdir = Inr dir"
  by (auto simp: lrc_target_def Let_def split: option.splits sum.splits)

text \<open>Without faults every call succeeds.\<close>

lemma fs_call_ok: "(\<And>i. fe_fail E i = None) \<Longrightarrow> \<exists>s'. fs_call E g s = (Inr (), s')"
  by (simp add: fs_call_def Let_def)

lemma fs_steps_ok:
  assumes "\<And>i. fe_fail E i = None"
  shows "\<exists>s'. fs_touch E s = (Inr (), s')" "\<exists>s'. fs_sync E p s = (Inr (), s')" "\<exists>s'. fs_rename E p p' s = (Inr (), s')"
  using fs_call_ok [OF assms] by (auto simp: fs_touch_def fs_sync_def fs_rename_def assms fs_call_def Let_def)

lemma step_ok: "\<exists>s1. call = (Inr (), s1) \<Longrightarrow> (\<And>s. \<exists>s'. k s = (Inr (), s')) \<Longrightarrow> \<exists>s'. step_or_discard E tmp b w call k = (Inr (), s')"
  by (auto simp: step_or_discard_def)

section \<open>Atomicity\<close>

text \<open>What a state on disk may show while \<open>content\<close> is being written to \<open>fp\<close> by way of \<open>tmp\<close>.\<close>

definition lyrics_safe :: "string \<Rightarrow> string \<Rightarrow> string \<Rightarrow> files \<Rightarrow> files \<Rightarrow> bool" where
  "lyrics_safe fp tmp content old f \<longleftrightarrow>
     f fp \<in> {old fp, None, Some content}
     \<and> (\<forall>p. p \<noteq> fp \<and> other_sidecar fp \<noteq> Some p \<and> p \<noteq> tmp \<longrightarrow> f p = old p)"

lemma write_file_within:
  assumes ext: "Ext (Join dir fn) \<in> {''.lrc'', ''.txt''}"
  shows "fs_within (lyrics_safe (Join dir fn) (temp_path E dir fn (fs_calls s)) content (fs_files s)) s (snd (write_lyrics_file E dir fn content s))"
proof -
  define fp where "fp = Join dir fn"
  define tp where "tp = temp_path E dir fn (fs_calls s)"
  define P where "P = lyrics_safe fp tp content (fs_files s)"
  have ntp: "tp \<noteq> fp" using Ext_known(3) [OF temp_path_suffix [of E dir fn "fs_calls s"]] ext by (auto simp: fp_def tp_def)
  have tmp_upd: "P (f(tp := x))" if "P f" for f x
    using ntp that by (simp add: P_def lyrics_safe_def)
  have fp_upd: "P (f(fp := x))" if "P f" "x = None \<or> x = Some content" for f x
    using that by (auto simp: P_def lyrics_safe_def)
  have stale_upd: "P (f(q := None))" if "P f" "other_sidecar fp = Some q" for f q
    using that other_sidecar_Ext [OF that(2)] by (auto simp: P_def lyrics_safe_def)
  have start: "P (fs_files s)" by (simp add: P_def lyrics_safe_def)
  obtain r s1 where c: "fs_create_temp E dir fn s = (r, s1)" by fastforce
  have "fs_within P s (snd (fs_create_temp E dir fn s))"
    using start tmp_upd [OF start] unfolding tp_def by (intro fs_create_temp_within)
  then have w1: "fs_within P s s1" by (simp add: c)
  have "fs_within P s1 (snd (write_lyrics_file E dir fn content s))"
  proof (cases r)
    case (Inl e)
    with c w1 show ?thesis by (simp add: write_lyrics_file_def Let_def fs_within_def)
  next
    case (Inr tmp)
    have t: "tmp = tp" using fs_create_temp_Inr [OF c [unfolded Inr]] by (simp add: tp_def)
    then have nt: "tmp \<noteq> fp" using ntp by simp
    have clean: "P f \<Longrightarrow> P (f(tmp := x))" for f x using tmp_upd t by blast
    have cleared: "\<And>f. P f \<Longrightarrow> P (f(tmp := None))" by (rule clean)
    note stepped = step_or_discard_within [where P = P and tmp = tmp, OF _ cleared]
    have P1: "P (fs_files s1)" using w1 by (simp add: fs_within_def)
    have last: "fs_within P s6 (case other_sidecar fp of None \<Rightarrow> s6 | Some q \<Rightarrow> snd (fs_remove E q s6))"
      if "P (fs_files s6)" for s6
      using that stale_upd by (auto intro: fs_within_refl fs_remove_within split: option.split)
    show ?thesis
      unfolding write_lyrics_file_def Let_def c Inr prod.case sum.case fp_def [symmetric]
    proof (rule stepped, goal_cases)
      case 1
      show ?case using P1 clean by (intro fs_write_within)
    next
      case (3 u s2)
      have f2: "fs_files s2 tmp = Some content" "P (fs_files s2)"
        using fs_write_Inr [OF 3] clean [OF P1] by simp_all
      show ?case
      proof (rule stepped, goal_cases)
        case 1
        show ?case using f2(2) by (rule fs_touch_within)
      next
        case (3 u s3)
        have f3: "fs_files s3 tmp = Some content" "P (fs_files s3)" using fs_touch_eq [OF 3] f2 by simp_all
        show ?case
        proof (rule stepped, goal_cases)
          case 1
          show ?case using f3(2) by (rule fs_touch_within)
        next
          case (3 u s4)
          have f4: "fs_files s4 tmp = Some content" "P (fs_files s4)" using fs_touch_eq [OF 3] f3 by simp_all
          show ?case
          proof (rule stepped, goal_cases)
            case 1
            show ?case using f4(2) fp_upd by (intro fs_remove_within) simp_all
          next
            case (3 u s5)
            have f5: "fs_files s5 tmp = Some content" "P (fs_files s5)"
              using fs_remove_Inr [OF 3] f4 nt fp_upd by simp_all
            have ren: "P ((fs_files s5)(fp := fs_files s5 tmp, tmp := None))" using f5 fp_upd clean by simp
            show ?case
            proof (rule stepped, goal_cases)
              case 1
              show ?case using f5(2) ren by (rule fs_rename_within)
            next
              case (3 u s6)
              have "P (fs_files s6)" using fs_rename_Inr [OF 3] ren by simp
              then show ?case using last by simp
            qed
          qed
        qed
      qed
    qed
  qed
  with w1 show ?thesis unfolding P_def fp_def tp_def by (rule fs_within_trans)
qed

text \<open>A successful write goes through all its calls.\<close>

lemma write_file_steps:
  assumes w: "write_lyrics_file E dir fn content s = (Inr u, s')"
  obtains tmp s1 s2 s3 s4 s5 s6 u2 u3 u4 u5 u6
  where "fs_create_temp E dir fn s = (Inr tmp, s1)" "fs_write E tmp content s1 = (Inr u2, s2)"
    "fs_touch E s2 = (Inr u3, s3)" "fs_touch E s3 = (Inr u4, s4)" "fs_remove E (Join dir fn) s4 = (Inr u5, s5)"
    "fs_rename E tmp (Join dir fn) s5 = (Inr u6, s6)"
    "s' = (case other_sidecar (Join dir fn) of None \<Rightarrow> s6 | Some stale \<Rightarrow> snd (fs_remove E stale s6))"
proof -
  define fp where "fp = Join dir fn"
  obtain tmp s1 where c: "fs_create_temp E dir fn s = (Inr tmp, s1)"
    using w by (cases "fs_create_temp E dir fn s"; cases "fst (fs_create_temp E dir fn s)")
      (auto simp: write_lyrics_file_def Let_def)
  from w [unfolded write_lyrics_file_def Let_def c prod.case sum.case, folded fp_def]
  obtain u2 s2 where 2: "fs_write E tmp content s1 = (Inr u2, s2)"
    and w2: "step_or_discard E tmp False (''closing '' @ tmp) (fs_touch E s2) (\<lambda>s3.
          step_or_discard E tmp True (''chmod '' @ tmp) (fs_touch E s3) (\<lambda>s4.
          step_or_discard E tmp True (''removing existing '' @ fp) (fs_remove E fp s4) (\<lambda>s5.
          step_or_discard E tmp True (''renaming '' @ tmp @ '' to '' @ fp) (fs_rename E tmp fp s5) (\<lambda>s6.
            (Inr (), case other_sidecar fp of None \<Rightarrow> s6 | Some stale \<Rightarrow> snd (fs_remove E stale s6)))))) = (Inr u, s')"
    by (auto dest: step_or_discard_Inr)
  obtain u3 s3 u4 s4 where 3: "fs_touch E s2 = (Inr u3, s3)" "fs_touch E s3 = (Inr u4, s4)"
    and w4: "step_or_discard E tmp True (''removing existing '' @ fp) (fs_remove E fp s4) (\<lambda>s5.
          step_or_discard E tmp True (''renaming '' @ tmp @ '' to '' @ fp) (fs_rename E tmp fp s5) (\<lambda>s6.
            (Inr (), case other_sidecar fp of None \<Rightarrow> s6 | Some stale \<Rightarrow> snd (fs_remove E stale s6)))) = (Inr u, s')"
    using w2 by (blast dest: step_or_discard_Inr)
  obtain u5 s5 u6 s6 where 5: "fs_remove E fp s4 = (Inr u5, s5)" "fs_rename E tmp fp s5 = (Inr u6, s6)"
    and w6: "(Inr (), case other_sidecar fp of None \<Rightarrow> s6 | Some stale \<Rightarrow> snd (fs_remove E stale s6)) = (Inr u, s')"
    using w4 by (blast dest: step_or_discard_Inr)
  show thesis using that [OF c 2 3 5 [unfolded fp_def]] w6 by (simp add: fp_def)
qed

lemma write_file_done:
  assumes ext: "Ext (Join dir fn) \<in> {''.lrc'', ''.txt''}" and w: "write_lyrics_file E dir fn content s = (Inr u, s')"
  shows "fs_files s' (Join dir fn) = Some content
    \<and> (\<forall>p. p \<noteq> Join dir fn \<and> other_sidecar (Join dir fn) \<noteq> Some p \<longrightarrow> fs_files s' p = fs_files s p)"
proof -
  define fp where "fp = Join dir fn"
  from write_file_steps [OF w] obtain tmp s1 s2 s3 s4 s5 s6 u2 u3 u4 u5 u6 where
    c: "fs_create_temp E dir fn s = (Inr tmp, s1)" and 2: "fs_write E tmp content s1 = (Inr u2, s2)"
    and 3: "fs_touch E s2 = (Inr u3, s3)" "fs_touch E s3 = (Inr u4, s4)"
    and 5: "fs_remove E fp s4 = (Inr u5, s5)" "fs_rename E tmp fp s5 = (Inr u6, s6)"
    and w6: "s' = (case other_sidecar fp of None \<Rightarrow> s6 | Some stale \<Rightarrow> snd (fs_remove E stale s6))"
    unfolding fp_def by metis
  note ct = fs_create_temp_Inr [OF c]
  have t: "HasSuffix tmp ''.tmp''" using ct temp_path_suffix by blast
  then have nt: "tmp \<noteq> fp" using Ext_known(3) [OF t] ext by (auto simp: fp_def)
  have f5: "fs_files s5 = ((fs_files s)(tmp \<mapsto> content))(fp := None)"
    using fs_remove_Inr [OF 5(1)] fs_touch_eq [OF 3(1)] fs_touch_eq [OF 3(2)] fs_write_Inr [OF 2] ct by simp
  have "fs_files s6 = (fs_files s5)(fp := fs_files s5 tmp, tmp := None)"
    using fs_rename_Inr [OF 5(2)] by simp
  then have f6: "fs_files s6 fp = Some content" "p \<noteq> fp \<Longrightarrow> fs_files s6 p = fs_files s p" for p
    using f5 nt ct by auto
  show ?thesis unfolding fp_def [symmetric]
  proof (cases "other_sidecar fp")
    case None
    with f6 w6 show "fs_files s' fp = Some content
        \<and> (\<forall>p. p \<noteq> fp \<and> other_sidecar fp \<noteq> Some p \<longrightarrow> fs_files s' p = fs_files s p)" by simp
  next
    case (Some q)
    have "q \<noteq> fp" using other_sidecar_Ext [OF Some] by auto
    moreover have "fs_files s' \<in> {fs_files s6, (fs_files s6)(q := None)}" using w6 Some fs_remove_snd [of E q s6] by simp
    ultimately show "fs_files s' fp = Some content
        \<and> (\<forall>p. p \<noteq> fp \<and> other_sidecar fp \<noteq> Some p \<longrightarrow> fs_files s' p = fs_files s p)"
      using f6 Some by auto
  qed
qed

lemma write_file_failed:
  assumes ext: "Ext (Join dir fn) \<in> {''.lrc'', ''.txt''}" and w: "write_lyrics_file E dir fn content s = (Inl e, s')"
    and q: "other_sidecar (Join dir fn) = Some q"
  shows "fs_files s' q = fs_files s q"
proof -
  define fp where "fp = Join dir fn"
  have qe: "Ext q \<in> {''.lrc'', ''.txt''}" "q \<noteq> fp" using other_sidecar_Ext [OF q] by (auto simp: fp_def)
  let ?P = "\<lambda>f. f q = fs_files s q"
  obtain r s1 where c: "fs_create_temp E dir fn s = (r, s1)" by fastforce
  show ?thesis
  proof (cases r)
    case (Inl x)
    with w c fs_create_temp_Inl [OF c [unfolded Inl]] show ?thesis by (simp add: write_lyrics_file_def Let_def)
  next
    case (Inr tmp)
    note ct = fs_create_temp_Inr [OF c [unfolded Inr]]
    have t: "HasSuffix tmp ''.tmp''" using ct temp_path_suffix by blast
    then have nt: "tmp \<noteq> q" using Ext_known(3) [OF t] qe by auto
    have f1: "?P (fs_files s1)" using ct nt by simp
    have cl: "?P f \<Longrightarrow> ?P (f(tmp := None))" for f using nt by simp
    note err = step_or_discard_Inl [where P = ?P and tmp = tmp, OF _ cl]
    have body: "step_or_discard E tmp False ''writing'' (fs_write E tmp content s1) (\<lambda>s2.
          step_or_discard E tmp False (''closing '' @ tmp) (fs_touch E s2) (\<lambda>s3.
          step_or_discard E tmp True (''chmod '' @ tmp) (fs_touch E s3) (\<lambda>s4.
          step_or_discard E tmp True (''removing existing '' @ fp) (fs_remove E fp s4) (\<lambda>s5.
          step_or_discard E tmp True (''renaming '' @ tmp @ '' to '' @ fp) (fs_rename E tmp fp s5) (\<lambda>s6.
            (Inr (), case other_sidecar fp of None \<Rightarrow> s6 | Some stale \<Rightarrow> snd (fs_remove E stale s6))))))) = (Inl e, s')"
      using w by (simp add: write_lyrics_file_def Let_def c Inr fp_def)
    show ?thesis
    proof (rule err [OF body], goal_cases)
      case (2 x s2)
      with f1 nt show ?case by (auto dest: fs_write_Inl)
    next
      case (3 u s2)
      have f2: "?P (fs_files s2)" using fs_write_Inr [OF 3(1)] f1 nt by simp
      show ?case
      proof (rule err [OF 3(2)], goal_cases)
        case (2 x s3) with f2 show ?case by (simp add: fs_touch_eq)
      next
        case (3 u s3)
        have f3: "?P (fs_files s3)" using f2 fs_touch_eq [OF 3(1)] by simp
        show ?case
        proof (rule err [OF 3(2)], goal_cases)
          case (2 x s4) with f3 show ?case by (simp add: fs_touch_eq)
        next
          case (3 u s4)
          have f4: "?P (fs_files s4)" using f3 fs_touch_eq [OF 3(1)] by simp
          show ?case
          proof (rule err [OF 3(2)], goal_cases)
            case (2 x s5) with f4 show ?case by (simp add: fs_remove_Inl)
          next
            case (3 u s5)
            have f5: "?P (fs_files s5)" using f4 fs_remove_Inr [OF 3(1)] qe by simp
            show ?case
            proof (rule err [OF 3(2)], goal_cases)
              case (2 x s6) with f5 show ?case by (simp add: fs_rename_Inl)
            qed simp_all
          qed simp_all
        qed simp_all
      qed simp_all
    qed simp_all
  qed
qed

text \<open>
  C28. Lyrics files are replaced as a whole: in every state the file system shows while \<open>WriteLRC\<close>
  runs, so for every reader and wherever the process is killed, and whichever system calls fail, the
  lyrics file has its old content, the complete new content, or is absent, and no other file differs
  but the stale sidecar of the other format and the temporary file; a success leaves the complete
  content and, the stale sidecar apart, every other file as it was; and an error leaves the stale
  sidecar in place.  (Nothing is claimed here of a machine that stops: see \<open>power_loss_can_empty_lyrics\<close>.)
\<close>

theorem write_is_atomic:
  assumes "lrc_target L E w song filename outdir = Inr (dir, fn, content)"
    and "WriteLRC L E w song filename outdir s = (r, s')"
  shows "fs_within (lyrics_safe (Join dir fn) (temp_path E dir fn (fs_calls s)) content (fs_files s)) s s'
    \<and> (r = Inr () \<longrightarrow> fs_files s' (Join dir fn) = Some content
         \<and> (\<forall>p. p \<noteq> Join dir fn \<and> other_sidecar (Join dir fn) \<noteq> Some p \<longrightarrow> fs_files s' p = fs_files s p))
    \<and> (r \<noteq> Inr () \<longrightarrow> (\<forall>q. other_sidecar (Join dir fn) = Some q \<longrightarrow> fs_files s' q = fs_files s q))"
proof -
  obtain synced where "SidecarName L (ArtistName (Track song)) (TrackName (Track song)) filename synced = Inr fn"
    using lrc_target_name [OF assms(1)] by blast
  then have ext: "Ext (Join dir fn) \<in> {''.lrc'', ''.txt''}" by (rule sidecar_path)
  have w: "write_lyrics_file E dir fn content s = (r, s')" using assms by (simp add: WriteLRC_def)
  show ?thesis
  proof (cases r)
    case (Inl e)
    with write_file_within [OF ext, where content = content and s = s and E = E] write_file_failed [OF ext w [unfolded Inl]] w show ?thesis by simp
  next
    case (Inr u)
    with write_file_within [OF ext, where content = content and s = s and E = E] write_file_done [OF ext w [unfolded Inr]] w show ?thesis by simp
  qed
qed

text \<open>The directory is synced after the rename, so that "the rename survives a hard crash", but the
  content never is: after a successful \<open>WriteLRC\<close> a machine that stops can come back with an empty
  lyrics file in the place of the old one.\<close>

lemma write_file_unsynced:
  assumes "write_lyrics_file E dir fn content s = (Inr u, s')"
  shows "fs_unsynced s' (Join dir fn)"
proof -
  from write_file_steps [OF assms] obtain tmp s1 s2 s3 s4 s5 s6 u2 u3 u4 u5 u6 where
    2: "fs_write E tmp content s1 = (Inr u2, s2)" and 3: "fs_touch E s2 = (Inr u3, s3)" "fs_touch E s3 = (Inr u4, s4)"
    and 5: "fs_remove E (Join dir fn) s4 = (Inr u5, s5)" "fs_rename E tmp (Join dir fn) s5 = (Inr u6, s6)"
    and w6: "s' = (case other_sidecar (Join dir fn) of None \<Rightarrow> s6 | Some stale \<Rightarrow> snd (fs_remove E stale s6))"
    by metis
  have "fs_unsynced s5 = fs_unsynced s2"
    using fs_unsynced_kept(1) [of E s2] fs_unsynced_kept(1) [of E s3] fs_unsynced_kept(2) [of E "Join dir fn" s4] 3 5(1) by simp
  then have "fs_unsynced s6 (Join dir fn)" using fs_rename_Inr [OF 5(2)] fs_write_unsynced [OF 2] by simp
  then show ?thesis by (simp add: w6 fs_unsynced_kept split: option.split)
qed

theorem power_loss_can_empty_lyrics:
  assumes "lrc_target L E w song filename outdir = Inr (dir, fn, content)"
    and "WriteLRC L E w song filename outdir s = (Inr (), s')"
  shows "\<exists>f. after_power_loss s' f \<and> f (Join dir fn) = Some [] \<and> (\<forall>p. p \<noteq> Join dir fn \<longrightarrow> f p = fs_files s' p)"
proof -
  let ?fp = "Join dir fn"
  obtain synced where "SidecarName L (ArtistName (Track song)) (TrackName (Track song)) filename synced = Inr fn"
    using lrc_target_name [OF assms(1)] by blast
  then have ext: "Ext ?fp \<in> {''.lrc'', ''.txt''}" by (rule sidecar_path)
  have w: "write_lyrics_file E dir fn content s = (Inr (), s')" using assms by (simp add: WriteLRC_def)
  note d = conjunct1 [OF write_file_done [OF ext w]] and u = write_file_unsynced [OF w]
  have "after_power_loss s' ((fs_files s')(?fp := Some []))"
    using d u by (auto simp: after_power_loss_def intro: exI [of _ 0])
  then show ?thesis by (intro exI [of _ "(fs_files s')(?fp := Some [])"]) simp
qed

definition sample_lyrics_lib :: lyrics_lib where
  "sample_lyrics_lib = \<lparr>ll_nfkc = id, ll_version = ''dev'', ll_rfc3339 = (\<lambda>_. ''2024-01-01T00:00:00Z'')\<rparr>"

text \<open>A disk whose third call fails, and one without faults.\<close>

definition sample_fs_env :: "nat option \<Rightarrow> fs_env" where
  "sample_fs_env bad = \<lparr>fe_fail = (\<lambda>n. if Some n = bad then Some ''no space left on device'' else None),
     fe_cut = (\<lambda>_. 1), fe_rand = (\<lambda>_. ''7''), fe_tempdir = ''/tmp'', fe_resolve = Some, fe_missing = (\<lambda>_. False)\<rparr>"

definition sample_fs :: fs where
  "sample_fs = \<lparr>fs_files = [''/m/p.txt'' \<mapsto> ''old''], fs_seen = [], fs_calls = 0, fs_unsynced = (\<lambda>_. False)\<rparr>"

lemma sample_target:
  "lrc_target sample_lyrics_lib (sample_fs_env bad) (NewLRCWriter [''/m'']) (zero_song\<lparr>LyricsBody := ''la''\<rparr>) ''p.mp3'' ''/m''
     = Inr (''/m'', ''p.txt'', ''la'')"
proof -
  have "WithinRoot ''/m'' ''/m''" "ResolveWithinRoot Some ''/m'' ''/m'' = Some ''/m''" "Clean ''/m'' = ''/m''" by code_simp+
  then have "confine (sample_fs_env bad) (NewLRCWriter [''/m'']) ''/m'' = Inr ''/m''"
    by (simp add: confine_def matchRoot_def NewLRCWriter_def sample_fs_env_def)
  moreover have "SidecarName sample_lyrics_lib [] [] ''p.mp3'' False = Inr ''p.txt''" by code_simp
  ultimately show ?thesis
    by (simp add: lrc_target_def song_content_def zero_song_def zero_track_def writeUnsyncedLRC_def)
qed

theorem write_is_atomic_witness:
  "\<exists>r s'. WriteLRC sample_lyrics_lib (sample_fs_env (Some 3)) (NewLRCWriter [''/m'']) (zero_song\<lparr>LyricsBody := ''la''\<rparr>)
      ''p.mp3'' ''/m'' sample_fs = (r, s')
    \<and> fs_files s' ''/m/p.txt'' \<in> {Some ''old'', None, Some ''la''}"
proof -
  obtain r s' where w: "WriteLRC sample_lyrics_lib (sample_fs_env (Some 3)) (NewLRCWriter [''/m''])
      (zero_song\<lparr>LyricsBody := ''la''\<rparr>) ''p.mp3'' ''/m'' sample_fs = (r, s')" by (metis prod.collapse)
  have j: "Join ''/m'' ''p.txt'' = ''/m/p.txt''" by code_simp
  have old: "fs_files sample_fs ''/m/p.txt'' = Some ''old''" by (simp add: sample_fs_def)
  have "lyrics_safe ''/m/p.txt'' (temp_path (sample_fs_env (Some 3)) ''/m'' ''p.txt'' (fs_calls sample_fs)) ''la''
      (fs_files sample_fs) (fs_files s')"
    using conjunct1 [OF write_is_atomic [OF sample_target w]] unfolding j fs_within_def by (rule conjunct2)
  then have "fs_files s' ''/m/p.txt'' \<in> {Some ''old'', None, Some ''la''}" unfolding lyrics_safe_def old by (rule conjunct1)
  with w show ?thesis by blast
qed

theorem power_loss_can_empty_lyrics_witness:
  "\<exists>s' f. WriteLRC sample_lyrics_lib (sample_fs_env None) (NewLRCWriter [''/m'']) (zero_song\<lparr>LyricsBody := ''la''\<rparr>)
      ''p.mp3'' ''/m'' sample_fs = (Inr (), s') \<and> after_power_loss s' f \<and> f ''/m/p.txt'' = Some []"
proof -
  have ok: "fe_fail (sample_fs_env None) i = None" for i by (simp add: sample_fs_env_def)
  have j: "Join ''/m'' ''p.txt'' = ''/m/p.txt''" by code_simp
  obtain tmp s1 where "fs_create_temp (sample_fs_env None) ''/m'' ''p.txt'' sample_fs = (Inr tmp, s1)"
    by (auto simp: fs_create_temp_def Let_def fs_call_def ok sample_fs_def temp_path_def sample_fs_env_def HasSuffix_def)
  then have "\<exists>s'. write_lyrics_file (sample_fs_env None) ''/m'' ''p.txt'' ''la'' sample_fs = (Inr (), s')"
    unfolding write_lyrics_file_def Let_def
    by (auto simp: fs_write_def fs_remove_def intro!: step_ok fs_call_ok fs_steps_ok ok)
  then obtain s' where w: "WriteLRC sample_lyrics_lib (sample_fs_env None) (NewLRCWriter [''/m''])
      (zero_song\<lparr>LyricsBody := ''la''\<rparr>) ''p.mp3'' ''/m'' sample_fs = (Inr (), s')"
    by (auto simp: WriteLRC_def sample_target)
  from power_loss_can_empty_lyrics [OF sample_target w] w show ?thesis by (auto simp: j)
qed

section \<open>Confinement\<close>

lemma temp_path_comps:
  assumes "dir \<noteq> []" "slash \<notin> set fn" "slash \<notin> set (fe_rand E n)"
  shows "comps (temp_path E dir fn n) = comps dir @ [fn @ ''.'' @ fe_rand E n @ ''.tmp'']"
    "rooted (temp_path E dir fn n) = rooted dir"
proof -
  let ?n = "fn @ ''.'' @ fe_rand E n @ ''.tmp''"
  have "length ?n \<ge> 5" by simp
  then have ok: "slash \<notin> set ?n" "comp_ok ?n" "?n \<noteq> ''..''" using assms(2,3) by (auto simp: comp_ok_def simp del: append_Cons)
  have path: "temp_path E dir fn n = (if HasSuffix dir ''/'' then dir else dir @ ''/'') @ ?n"
    using assms(1) by (simp add: temp_path_def Let_def)
  have "comps (temp_path E dir fn n) = comps dir @ [?n]"
  proof (cases "HasSuffix dir ''/''")
    case True
    then obtain d where d: "dir = d @ [slash]" by (auto simp: HasSuffix_append)
    have "comps (d @ slash # ?n) = (if d = [] then [?n] else comps d @ [?n])" using ok by (rule comps_snoc)
    moreover have "comps [slash] = []" by code_simp
    ultimately show ?thesis using True d comps_slash [of d] path by (cases "d = []") simp_all
  next
    case False
    have "comps (dir @ slash # ?n) = (if dir = [] then [?n] else comps dir @ [?n])" using ok by (rule comps_snoc)
    with False assms(1) path show ?thesis by simp
  qed
  then show "comps (temp_path E dir fn n) = comps dir @ [?n]" .
  show "rooted (temp_path E dir fn n) = rooted dir" using assms(1) path by (cases dir) (auto simp: rooted_def)
qed

lemma Join_rooted: "dir \<noteq> [] \<Longrightarrow> fn \<noteq> [] \<Longrightarrow> rooted (Join dir fn) = rooted dir"
  by (cases dir) (simp_all add: Join_def rooted_def [of "_ # _"])


lemma Join_prefix:
  "\<exists>D. \<forall>x. slash \<notin> set x \<and> comp_ok x \<and> x \<noteq> ''..'' \<longrightarrow> Join dir x = D @ x"
proof -
  let ?D = "if dir = [] \<or> (\<not> rooted dir \<and> comps dir = []) then []
       else (if rooted dir then slash # join_with slash (comps dir) else join_with slash (comps dir))
            @ (if comps dir = [] then [] else [slash])"
  have "Join dir x = ?D @ x" if "slash \<notin> set x" "comp_ok x" "x \<noteq> ''..''" for x
    unfolding Join_name(2) [OF that] by simp
  then show ?thesis by blast
qed

lemma TrimSuffix_append [simp]: "TrimSuffix (p @ e) e = p"
  by (simp add: TrimSuffix_def HasSuffix_append)

lemma other_sidecar_path:
  assumes "SidecarName L artist track filename synced = Inr fn" "other_sidecar (Join dir fn) = Some q"
  shows "\<exists>n. q = Join dir n \<and> slash \<notin> set n \<and> comp_ok n \<and> n \<noteq> ''..''"
proof -
  let ?e = "if synced then ''.lrc'' else ''.txt''" and ?e' = "if synced then ''.txt'' else ''.lrc''"
  obtain b where b: "fn = b @ ?e" using SidecarName_Inr(2) [OF assms(1)] by blast
  note ok = sidecar_path(1-3) [OF assms(1)]
  have "length (b @ ?e') \<ge> 4" by simp
  then have ok': "slash \<notin> set (b @ ?e')" "comp_ok (b @ ?e')" "b @ ?e' \<noteq> ''..''"
    using ok(1) b by (auto simp: comp_ok_def simp del: append_Cons)
  obtain D where D: "Join dir x = D @ x" if "slash \<notin> set x" "comp_ok x" "x \<noteq> ''..''" for x
    using Join_prefix [of dir] by blast
  have "Join dir fn = (D @ b) @ ?e" using D [OF ok] b by simp
  then have "q = (D @ b) @ ?e'" using assms(2) by (cases synced) (simp_all add: other_sidecar_def Ext_known del: append_assoc)
  then have "q = Join dir (b @ ?e')" using D [OF ok'] by simp
  with ok' show ?thesis by blast
qed

lemma ResolveWithinRoot_Some:
  "ResolveWithinRoot resolve rt p = Some d \<Longrightarrow> \<exists>rr. resolve (Clean rt) = Some rr \<and> relWithin rr d \<noteq> None"
  by (auto simp: ResolveWithinRoot_def split: if_splits option.splits)

lemma relWithin_comps:
  "relWithin rr d \<noteq> None \<Longrightarrow> rooted d = rooted rr \<and> (\<exists>rest. comps d = comps rr @ rest \<and> ''..'' \<notin> set rest)"
proof -
  assume "relWithin rr d \<noteq> None"
  then obtain rest where r: "rooted rr = rooted d" "comps d = comps rr @ rest" "rest = [] \<or> hd rest \<noteq> ''..''"
    using relWithin_iff by blast
  have "''..'' \<notin> set rest" using nf_tail_dots [of "rooted d" "comps rr" rest] nf_comps [of d] r by simp
  with r show ?thesis by auto
qed

text \<open>
  C29. A write stays where it may: every path that differs in any state on disk while \<open>WriteLRC\<close>
  runs names an entry directly in the directory it chose; that directory is the one asked for when
  no confinement root contains it, and otherwise lies, symbolic links resolved, within the resolved
  root, with no parent step on the way.
\<close>

theorem write_stays_in_directory:
  assumes "lrc_target L E w song filename outdir = Inr (dir, fn, content)"
    and "WriteLRC L E w song filename outdir s = (r, s')"
    and "dir \<noteq> []" "\<And>n. slash \<notin> set (fe_rand E n)"
  shows "fs_within (\<lambda>f. \<forall>p. f p \<noteq> fs_files s p \<longrightarrow> rooted p = rooted dir \<and> (\<exists>n. comps p = comps dir @ [n])) s s'
    \<and> (case matchRoot w outdir of
         None \<Rightarrow> dir = outdir
       | Some rt \<Rightarrow> \<exists>rr. fe_resolve E (Clean rt) = Some rr \<and> rooted dir = rooted rr
           \<and> (\<exists>rest. comps dir = comps rr @ rest \<and> ''..'' \<notin> set rest))"
proof -
  obtain synced where n: "SidecarName L (ArtistName (Track song)) (TrackName (Track song)) filename synced = Inr fn"
    and c: "confine E w outdir = Inr dir" using lrc_target_name [OF assms(1)] by blast
  note ok = sidecar_path [OF n]
  let ?tmp = "temp_path E dir fn (fs_calls s)"
  have joined: "rooted (Join dir x) = rooted dir \<and> (\<exists>n. comps (Join dir x) = comps dir @ [n])"
    if "slash \<notin> set x" "comp_ok x" "x \<noteq> ''..''" for x
    using Join_name(1) [OF that, of dir] Join_rooted [OF assms(3), of x] assms(3) that by (auto simp: comp_ok_def)
  have entry: "rooted p = rooted dir \<and> (\<exists>n. comps p = comps dir @ [n])"
    if "lyrics_safe (Join dir fn) ?tmp content (fs_files s) f" "f p \<noteq> fs_files s p" for f p
  proof -
    have "p = Join dir fn \<or> other_sidecar (Join dir fn) = Some p \<or> p = ?tmp"
      using that by (auto simp: lyrics_safe_def)
    then show ?thesis
    proof (elim disjE)
      assume "other_sidecar (Join dir fn) = Some p"
      from other_sidecar_path [OF n this] show ?thesis using joined by blast
    next
      assume p: "p = ?tmp"
      show ?thesis unfolding p using temp_path_comps [OF assms(3) ok(1) assms(4)] by blast
    qed (use joined [OF ok(1-3)] in simp)
  qed
  have "write_lyrics_file E dir fn content s = (r, s')" using assms(1,2) by (simp add: WriteLRC_def)
  then have "fs_within (lyrics_safe (Join dir fn) ?tmp content (fs_files s)) s s'"
    using write_file_within [OF ok(4) [of dir], where content = content and s = s and E = E] by simp
  then have "fs_within (\<lambda>f. \<forall>p. f p \<noteq> fs_files s p \<longrightarrow> rooted p = rooted dir \<and> (\<exists>n. comps p = comps dir @ [n])) s s'"
    using entry by (rule_tac fs_within_mono) blast+
  moreover have "case matchRoot w outdir of None \<Rightarrow> dir = outdir
      | Some rt \<Rightarrow> \<exists>rr. fe_resolve E (Clean rt) = Some rr \<and> rooted dir = rooted rr
           \<and> (\<exists>rest. comps dir = comps rr @ rest \<and> ''..'' \<notin> set rest)"
  proof (cases "matchRoot w outdir")
    case (Some rt)
    with c have "ResolveWithinRoot (fe_resolve E) rt outdir = Some dir"
      by (auto simp: confine_def split: option.splits if_splits)
    from ResolveWithinRoot_Some [OF this] relWithin_comps show ?thesis using Some by fastforce
  qed (use c in \<open>simp add: confine_def\<close>)
  ultimately show ?thesis by blast
qed

theorem write_stays_in_directory_witness:
  "{p. fs_files (snd (WriteLRC sample_lyrics_lib (sample_fs_env None) (NewLRCWriter [''/m'']) (zero_song\<lparr>LyricsBody := ''la''\<rparr>)
      ''p.mp3'' ''/m'' sample_fs)) p \<noteq> fs_files sample_fs p} \<subseteq> {p. \<exists>n. comps p = [''m'', n]}"
proof -
  obtain r s' where w: "WriteLRC sample_lyrics_lib (sample_fs_env None) (NewLRCWriter [''/m''])
      (zero_song\<lparr>LyricsBody := ''la''\<rparr>) ''p.mp3'' ''/m'' sample_fs = (r, s')" by (metis prod.collapse)
  have "slash \<notin> set (fe_rand (sample_fs_env None) n)" for n by (simp add: sample_fs_env_def)
  note conj = write_stays_in_directory [OF sample_target w _ this]
  have "comps ''/m'' = [''m'']" by code_simp
  with conjunct1 [OF conj] show ?thesis unfolding w by (auto simp: fs_within_def)
qed

end
