(* ===== verification/Lyrics_Parser.thy ===== *)
theory Lyrics_Parser
  imports Lyrics_Files Normalize
begin

text \<open>
  \<^verbatim>\<open>internal/lyrics/parser.go\<close>: reading the header of an LRC file and injecting provenance tags
  into it.  \<open>scan_lines\<close> is \<open>bufio.Scanner\<close> with its line splitter and its limit on the length of a
  line.
\<close>

section \<open>Lines\<close>

definition MaxScanTokenSize :: nat where "MaxScanTokenSize = 65536"

definition dropCR :: "string \<Rightarrow> string" where
  "dropCR l = (if l \<noteq> [] \<and> last l = carriage then butlast l else l)"

definition pieces :: "string \<Rightarrow> string list" where
  "pieces c = (let ps = split_on newline c in if last ps = [] then butlast ps else ps)"

definition scan_lines :: "string \<Rightarrow> string list result" where
  "scan_lines c =
     (if list_all (\<lambda>p. length p < MaxScanTokenSize) (pieces c) then Inr (map dropCR (pieces c))
      else Inl (errorf ''bufio.Scanner: token too long''))"

section \<open>The header\<close>

record lrc_tag =
  lt_key :: string
  lt_value :: string
  lt_raw :: string

definition is_digit :: "char \<Rightarrow> bool" where
  "is_digit c \<longleftrightarrow> 48 \<le> byte_of c \<and> byte_of c \<le> 57"

definition parseTagLine :: "string \<Rightarrow> lrc_tag option" where
  "parseTagLine line =
     (let s = TrimSpace line in
      if \<not> HasPrefix s ''['' \<or> \<not> HasSuffix s '']'' then None
      else let inner = butlast (tl s); key = takeWhile (\<lambda>c. c \<noteq> CHR '':'') inner
           in if CHR '':'' \<notin> set inner \<or> key = [] \<or> is_digit (hd key) then None
              else Some \<lparr>lt_key = key, lt_value = drop (length key + 1) inner, lt_raw = line\<rparr>)"

definition blank_tag :: "string \<Rightarrow> lrc_tag" where
  "blank_tag line = \<lparr>lt_key = [], lt_value = [], lt_raw = line\<rparr>"

text \<open>The tag a header line gives: a parsed one, or a blank one; \<open>None\<close> ends the header.\<close>

definition header_line :: "string \<Rightarrow> lrc_tag option" where
  "header_line line =
     (case parseTagLine line of
        Some t \<Rightarrow> Some t
      | None \<Rightarrow> if TrimSpace line = [] then Some (blank_tag line) else None)"

fun split_header :: "string list \<Rightarrow> lrc_tag list \<times> string list" where
  "split_header [] = ([], [])"
| "split_header (line # ls) =
     (case header_line line of
        None \<Rightarrow> ([], line # ls)
      | Some t \<Rightarrow> (case split_header ls of (ts, rest) \<Rightarrow> (t # ts, rest)))"

definition parseLRCHeader :: "string \<Rightarrow> (lrc_tag list \<times> string list) result" where
  "parseLRCHeader c =
     (case scan_lines c of Inl e \<Rightarrow> Inl (wrapf ''scan'' e) | Inr ls \<Rightarrow> Inr (split_header ls))"

section \<open>Injection\<close>

record provenance_tags =
  pt_Source :: string
  pt_Fetched :: string
  pt_ISRC :: string
  pt_MBID :: string

definition sanitizeTagValue :: "string \<Rightarrow> string" where
  "sanitizeTagValue v =
     filter (\<lambda>c. c \<noteq> newline) (filter (\<lambda>c. c \<noteq> carriage) (filter (\<lambda>c. c \<noteq> CHR '']'') v))"

definition tag_candidates :: "provenance_tags \<Rightarrow> (string \<times> string) list" where
  "tag_candidates pt =
     [(''source'', sanitizeTagValue (pt_Source pt)), (''fetched'', sanitizeTagValue (pt_Fetched pt)),
      (''isrc'', sanitizeTagValue (pt_ISRC pt)), (''mbid'', sanitizeTagValue (pt_MBID pt))]"

definition header_keys :: "(string \<Rightarrow> string) \<Rightarrow> lrc_tag list \<Rightarrow> string list" where
  "header_keys lower ts = map (\<lambda>t. ToLower lower (lt_key t)) (filter (\<lambda>t. lt_key t \<noteq> []) ts)"

definition new_tag :: "string \<times> string \<Rightarrow> lrc_tag" where
  "new_tag kv = \<lparr>lt_key = fst kv, lt_value = snd kv, lt_raw = tag_line (fst kv) (snd kv)\<rparr>"

text \<open>The first blank entry of the header, or its end.\<close>

definition insert_index :: "lrc_tag list \<Rightarrow> nat" where
  "insert_index ts = length (takeWhile (\<lambda>t. lt_key t \<noteq> []) ts)"

fun has_crlf :: "string \<Rightarrow> bool" where
  "has_crlf (a # b # s) \<longleftrightarrow> (a = carriage \<and> b = newline) \<or> has_crlf (b # s)"
| "has_crlf s \<longleftrightarrow> False"

fun join_lines :: "string \<Rightarrow> bool \<Rightarrow> string list \<Rightarrow> string" where
  "join_lines eol nl [] = []"
| "join_lines eol nl [l] = (if nl then l @ eol else l)"
| "join_lines eol nl (l # m # ls) = l @ eol @ join_lines eol nl (m # ls)"

text \<open>What \<open>InjectProvenance\<close> computes from the bytes of the file: the tags injected and skipped, and
  the new bytes if there is anything to write.\<close>

definition inject_plan :: "(string \<Rightarrow> string) \<Rightarrow> string \<Rightarrow> provenance_tags \<Rightarrow> (int \<times> int \<times> string option) result" where
  "inject_plan lower c pt =
     (let eol = (if has_crlf c then [carriage, newline] else [newline]);
          nl = (c \<noteq> [] \<and> last c = newline)
      in case parseLRCHeader c of
           Inl e \<Rightarrow> Inl e
         | Inr (tags, lyrics) \<Rightarrow>
             let given = filter (\<lambda>kv. snd kv \<noteq> []) (tag_candidates pt);
                 old = filter (\<lambda>kv. fst kv \<in> set (header_keys lower tags)) given;
                 add = map new_tag (filter (\<lambda>kv. fst kv \<notin> set (header_keys lower tags)) given);
                 k = insert_index tags
             in if add = [] then Inr (0, int (length old), None)
                else Inr (int (length add), int (length old),
                          Some (join_lines eol nl (map lt_raw (take k tags @ add @ drop k tags) @ lyrics))))"

text \<open>Reading a file, and its \<open>Lstat\<close>.\<close>

definition fs_read :: "fs_env \<Rightarrow> string \<Rightarrow> fs \<Rightarrow> string result \<times> fs" where
  "fs_read E p s =
     (let s1 = s\<lparr>fs_calls := fs_calls s + 1\<rparr>
      in case fe_fail E (fs_calls s) of
           Some m \<Rightarrow> (Inl (errorf m), s1)
         | None \<Rightarrow> (case fs_files s p of None \<Rightarrow> (Inl (errorf ''no such file or directory''), s1) | Some c \<Rightarrow> (Inr c, s1)))"

definition replace_file :: "fs_env \<Rightarrow> string \<Rightarrow> string \<Rightarrow> fs \<Rightarrow> unit result \<times> fs" where
  "replace_file E path content s =
     (case fs_create_temp E (Dir path) (Base path) s of
        (Inl e, s1) \<Rightarrow> (Inl (wrapf (''create temp for '' @ path) e), s1)
      | (Inr tmp, s1) \<Rightarrow>
          step_or_discard E tmp False (''write '' @ tmp) (fs_write E tmp content s1) (\<lambda>s2.
          step_or_discard E tmp False (''sync '' @ tmp) (fs_sync E tmp s2) (\<lambda>s3.
          step_or_discard E tmp False (''close '' @ tmp) (fs_touch E s3) (\<lambda>s4.
          step_or_discard E tmp True (''chmod '' @ tmp) (fs_touch E s4) (\<lambda>s5.
          step_or_discard E tmp True (''rename '' @ tmp @ '' -> '' @ path) (fs_rename E tmp path s5) (\<lambda>s6.
            (Inr (), s6)))))))"

definition InjectProvenance :: "(string \<Rightarrow> string) \<Rightarrow> fs_env \<Rightarrow> (string \<Rightarrow> bool) \<Rightarrow> string \<Rightarrow> provenance_tags
    \<Rightarrow> fs \<Rightarrow> (int \<times> int) result \<times> fs" where
  "InjectProvenance lower E is_link path pt s =
     (if ToLower lower (Ext path) \<noteq> ''.lrc'' then (Inl (errorf (''not an LRC file: '' @ path)), s)
      else case fs_read E path s of
        (Inl e, s1) \<Rightarrow> (Inl (wrapf (''lstat '' @ path) e), s1)
      | (Inr _, s1) \<Rightarrow>
          if is_link path then (Inr (0, 0), s1)
          else case fs_read E path s1 of
            (Inl e, s2) \<Rightarrow> (Inl (wrapf (''read '' @ path) e), s2)
          | (Inr _, s2) \<Rightarrow>
              (case fs_read E path s2 of
                 (Inl e, s3) \<Rightarrow> (Inl (wrapf (''open '' @ path) e), s3)
               | (Inr c, s3) \<Rightarrow>
                   (case inject_plan lower c pt of
                      Inl e \<Rightarrow> (Inl e, s3)
                    | Inr (injected, skipped, None) \<Rightarrow> (Inr (0, skipped), s3)
                    | Inr (injected, skipped, Some out) \<Rightarrow>
                        (case replace_file E path out s3 of
                           (Inl e, s4) \<Rightarrow> (Inl e, s4)
                         | (Inr _, s4) \<Rightarrow> (Inr (injected, skipped), s4)))))"

end
