(* ===== verification/Lyrics_Provenance.thy ===== *)
theory Lyrics_Provenance
  imports Lyrics_Props Lyrics_Parser
begin

text \<open>
  What \<open>InjectProvenance\<close> does to a file: the lines it writes scan back to the lines it meant, the
  header it parsed comes back with the new tags in it, a second run finds nothing to do, and on disk
  the file is at any moment the old one or the complete new one.
\<close>

section \<open>Lines written and scanned again\<close>

definition line_ok :: "string \<Rightarrow> string \<Rightarrow> bool" where
  "line_ok cr l \<longleftrightarrow> newline \<notin> set l \<and> (cr = [] \<longrightarrow> dropCR l = l) \<and> length (l @ cr) < MaxScanTokenSize"

lemma dropCR_snoc: "dropCR (l @ [carriage]) = l"
  by (simp add: dropCR_def)

lemma cr_free: "cr = [] \<or> cr = [carriage] \<Longrightarrow> newline \<notin> set cr"
  by auto

lemma split_join_lines:
  assumes "cr = [] \<or> cr = [carriage]" "\<forall>l \<in> set ls. newline \<notin> set l" "ls \<noteq> []"
  shows "split_on newline (join_lines (cr @ [newline]) nl ls)
         = (if nl then map (\<lambda>l. l @ cr) ls @ [[]] else map (\<lambda>l. l @ cr) (butlast ls) @ [last ls])"
  using assms(2,3)
proof (induction "cr @ [newline]" nl ls rule: join_lines.induct)
  case (2 nl l)
  have "split_on newline ((l @ cr) @ newline # []) = (l @ cr) # split_on newline []"
    by (rule split_on_append) (use 2 cr_free [OF assms(1)] in auto)
  with 2 show ?case by (simp add: split_on_free)
next
  case (3 nl l m ls)
  have "split_on newline ((l @ cr) @ newline # s) = (l @ cr) # split_on newline s" for s
    by (rule split_on_append) (use 3 cr_free [OF assms(1)] in auto)
  with 3 show ?case by simp
qed simp

lemma pieces_join_lines:
  assumes "cr = [] \<or> cr = [carriage]" "\<forall>l \<in> set ls. newline \<notin> set l" "ls \<noteq> []" "nl \<or> last ls \<noteq> []"
  shows "pieces (join_lines (cr @ [newline]) nl ls)
         = (if nl then map (\<lambda>l. l @ cr) ls else map (\<lambda>l. l @ cr) (butlast ls) @ [last ls])"
  using split_join_lines [OF assms(1-3)] assms(4) by (auto simp: pieces_def Let_def)

lemma scan_join_lines:
  assumes "cr = [] \<or> cr = [carriage]" "\<forall>l \<in> set ls. line_ok cr l" "ls \<noteq> []"
    "nl \<or> last ls \<noteq> [] \<and> dropCR (last ls) = last ls"
  shows "scan_lines (join_lines (cr @ [newline]) nl ls) = Inr ls"
proof -
  let ?ps = "if nl then map (\<lambda>l. l @ cr) ls else map (\<lambda>l. l @ cr) (butlast ls) @ [last ls]"
  have cr: "dropCR (l @ cr) = l" if "l \<in> set ls" for l
    using that assms(1,2) by (auto simp: line_ok_def dropCR_snoc)
  have split: "butlast ls @ [last ls] = ls" using assms(3) by simp
  have "set (butlast ls) \<subseteq> set ls" by (meson in_set_butlastD subsetI)
  then have ls: "map dropCR ?ps = ls"
    using cr assms(4) split by (auto simp: map_idI subset_iff comp_def)
  have "length p < MaxScanTokenSize" if "p \<in> set ?ps" for p
    using that assms(2) last_in_set [OF assms(3)]
    by (fastforce simp: line_ok_def dest: in_set_butlastD split: if_splits)
  moreover have "pieces (join_lines (cr @ [newline]) nl ls) = ?ps"
    by (rule pieces_join_lines) (use assms in \<open>auto simp: line_ok_def\<close>)
  ultimately show ?thesis using ls by (simp add: scan_lines_def list_all_iff)
qed

section \<open>The lines of a file\<close>

lemma pieces_lines:
  assumes "p \<in> set (pieces c)"
  shows "newline \<notin> set p"
  using assms by (auto simp: pieces_def Let_def split: if_splits dest: in_set_butlastD split_on_comps)

lemma dropCR_subset: "set (dropCR l) \<subseteq> set l"
  by (auto simp: dropCR_def dest: in_set_butlastD)

lemma dropCR_length: "length (dropCR l) \<le> length l"
  by (simp add: dropCR_def)

text \<open>Without a carriage return before a newline or at the end, no line ends in one.\<close>

lemma split_plain:
  assumes "\<not> has_crlf c" "c \<noteq> [] \<longrightarrow> last c \<noteq> carriage" "p \<in> set (split_on newline c)"
  shows "p = [] \<or> last p \<noteq> carriage"
  using assms
proof (induction c arbitrary: p rule: has_crlf.induct)
  case (1 a b s)
  note IH = "1.IH" [of "hd (split_on newline (b # s))"] "1.IH"
  show ?case
  proof (cases "a = newline")
    case True
    with 1 show ?thesis by auto
  next
    case False
    obtain y ys where y: "split_on newline (b # s) = y # ys"
      using split_on_nonempty by (meson list.exhaust)
    from False 1(4) y have p: "p = a # y \<or> p \<in> set ys" by auto
    have "y = [] \<longrightarrow> b = newline" using y by (auto split: if_splits list.splits)
    moreover have "b = newline \<Longrightarrow> a \<noteq> carriage" using 1(2) by auto
    moreover have IH: "q = [] \<or> last q \<noteq> carriage" if "q \<in> set (y # ys)" for q
      using "1.IH" [of q] 1(2,3) that y by auto
    moreover have "y = [] \<or> last y \<noteq> carriage" by (rule IH) simp
    ultimately show ?thesis using p by (cases "y = []") auto
  qed
qed (auto split: if_splits)

lemma last_piece:
  assumes "c \<noteq> []" "last c \<noteq> newline"
  shows "last (split_on newline c) \<noteq> [] \<and> last (last (split_on newline c)) = last c"
  using assms by (induction c) (auto split: list.splits if_splits)

lemma last_line:
  assumes "scan_lines c = Inr ls" "c \<noteq> []" "last c \<noteq> newline" "last c \<noteq> carriage"
  shows "last ls \<noteq> [] \<and> dropCR (last ls) = last ls"
proof -
  note q = last_piece [OF assms(2,3)]
  then have "pieces c = split_on newline c" by (simp add: pieces_def)
  then have "last ls = dropCR (last (split_on newline c))"
    using assms(1) by (auto simp: scan_lines_def last_map split: if_splits)
  with q assms(4) show ?thesis by (simp add: dropCR_def)
qed

lemma pieces_line_ok:
  assumes "scan_lines c = Inr ls" "c \<noteq> [] \<longrightarrow> last c \<noteq> carriage"
    "list_all (\<lambda>p. length p + 1 < MaxScanTokenSize) (pieces c)" "l \<in> set ls"
  shows "line_ok (if has_crlf c then [carriage] else []) l"
proof -
  from assms(1,4) obtain p where p: "p \<in> set (pieces c)" "l = dropCR p"
    by (auto simp: scan_lines_def split: if_splits)
  have "dropCR l = l" if "\<not> has_crlf c"
  proof -
    have "p \<in> set (split_on newline c)"
      using p(1) by (auto simp: pieces_def Let_def split: if_splits dest: in_set_butlastD)
    from split_plain [OF that assms(2) this] show ?thesis by (auto simp: p(2) dropCR_def)
  qed
  then show ?thesis
    using pieces_lines [OF p(1)] dropCR_subset [of p] dropCR_length [of p] assms(3) p
    by (auto simp: line_ok_def list_all_iff)
qed

section \<open>The header\<close>

lemma header_line_raw: "header_line l = Some t \<Longrightarrow> lt_raw t = l"
  by (auto simp: header_line_def parseTagLine_def blank_tag_def Let_def split: option.splits if_splits)

definition header_of :: "lrc_tag list \<Rightarrow> string list \<Rightarrow> bool" where
  "header_of ts rest \<longleftrightarrow> (\<forall>t \<in> set ts. header_line (lt_raw t) = Some t) \<and> (rest \<noteq> [] \<longrightarrow> header_line (hd rest) = None)"

lemma split_header_iff: "split_header ls = (ts, rest) \<longleftrightarrow> ls = map lt_raw ts @ rest \<and> header_of ts rest"
proof (induction ls arbitrary: ts)
  case Nil
  show ?case by (auto simp: header_of_def)
next
  case (Cons l ls)
  show ?case
  proof (cases "header_line l")
    case None
    then show ?thesis by (cases ts) (auto simp: header_of_def)
  next
    case (Some t)
    have "split_header (l # ls) = (ts, rest) \<longleftrightarrow> (\<exists>us. ts = t # us \<and> split_header ls = (us, rest))"
      using Some by (auto split: prod.splits)
    also have "\<dots> \<longleftrightarrow> (\<exists>us. ts = t # us \<and> ls = map lt_raw us @ rest \<and> header_of us rest)"
      by (simp add: Cons.IH)
    also have "\<dots> \<longleftrightarrow> l # ls = map lt_raw ts @ rest \<and> header_of ts rest"
    proof (cases ts)
      case Nil
      with Some show ?thesis by (auto simp: header_of_def)
    next
      case (Cons u us)
      have "header_line (lt_raw u) = Some u \<and> lt_raw u = l \<longleftrightarrow> u = t"
        using Some header_line_raw [OF Some] by auto
      with Cons show ?thesis by (auto simp: header_of_def)
    qed
    finally show ?thesis .
  qed
qed

lemma header_of_insert:
  assumes "header_of ts rest" "\<forall>t \<in> set add. header_line (lt_raw t) = Some t"
  shows "header_of (take k ts @ add @ drop k ts) rest"
  using assms by (auto simp: header_of_def dest: in_set_takeD in_set_dropD)

lemma space_forms_brackets:
  assumes "p \<in> set space_forms"
  shows "hd p \<noteq> CHR ''[''" "last p \<noteq> CHR '']''"
proof -
  have "byte_of (hd p) \<noteq> (91 :: nat)" "byte_of (last p) \<noteq> (93 :: nat)"
    using assms by (auto simp: space_forms_def bytes_def)
  then show "hd p \<noteq> CHR ''[''" "last p \<noteq> CHR '']''" by auto
qed

lemma bracket_trim:
  assumes "s \<noteq> []" "hd s = CHR ''[''" "last s = CHR '']'' \<or> 97 \<le> byte_of (last s) \<and> byte_of (last s) \<le> 122"
  shows "TrimSpace s = s"
proof -
  have "\<not> HasPrefix s p" if "p \<in> set space_forms" for p
    using space_forms_brackets(1) [OF that] space_forms_nonempty [OF that] assms(1,2) by (cases p; cases s) auto
  then have a: "leading_space s = None" by (auto simp: leading_space_def find_None_iff)
  have "\<not> HasSuffix s p" if "p \<in> set space_forms" for p
    using space_forms_brackets(2) [OF that] space_forms_ends(2) [OF that] space_forms_nonempty [OF that] assms(1,3)
    by (cases p rule: rev_cases; cases s rule: rev_cases) (auto simp: HasSuffix_def)
  then have "trailing_space s = None" by (auto simp: trailing_space_def find_None_iff)
  with a show ?thesis by (simp add: TrimSpace_def trim_left_id trim_right_id)
qed

lemma tag_line_trim: "TrimSpace (tag_line k v) = tag_line k v"
  by (rule bracket_trim) (simp_all add: tag_line_def)

lemma Ball_mono: "\<forall>x \<in> A. P x \<Longrightarrow> (\<And>x. P x \<Longrightarrow> Q x) \<Longrightarrow> \<forall>x \<in> A. Q x"
  by blast

lemma takeWhile_key: "CHR '':'' \<notin> set k \<Longrightarrow> takeWhile (\<lambda>c. c \<noteq> CHR '':'') (k @ CHR '':'' # v) = k"
  by (induction k) auto

lemma header_line_new:
  assumes "k \<in> {''source'', ''fetched'', ''isrc'', ''mbid''}"
  shows "header_line (lt_raw (new_tag (k, v))) = Some (new_tag (k, v))"
proof -
  have k: "CHR '':'' \<notin> set k" "k \<noteq> []" "\<not> is_digit (hd k)" using assms by (auto simp: is_digit_def)
  have "parseTagLine (tag_line k v) = Some (new_tag (k, v))"
    unfolding parseTagLine_def Let_def tag_line_trim
    using k by (simp add: tag_line_def takeWhile_key new_tag_def HasSuffix_def butlast_append)
  then show ?thesis by (simp add: header_line_def new_tag_def)
qed


section \<open>Injection\<close>

definition missing_tags :: "(string \<Rightarrow> string) \<Rightarrow> lrc_tag list \<Rightarrow> provenance_tags \<Rightarrow> lrc_tag list" where
  "missing_tags lower tags pt =
     map new_tag (filter (\<lambda>kv. fst kv \<notin> set (header_keys lower tags)) (filter (\<lambda>kv. snd kv \<noteq> []) (tag_candidates pt)))"

lemma provenance_keys:
  assumes "kv \<in> set (tag_candidates pt)"
  shows "fst kv \<in> {''source'', ''fetched'', ''isrc'', ''mbid''}" "plain (fst kv)" "fst kv \<noteq> []"
  using assms by (auto simp: tag_candidates_def plain_def)

lemma missing_tag_line:
  assumes "t \<in> set (missing_tags lower tags pt)" "cr = [] \<or> cr = [carriage]"
    "\<forall>v \<in> {pt_Source pt, pt_Fetched pt, pt_ISRC pt, pt_MBID pt}. length v < 65000"
  shows "header_line (lt_raw t) = Some t" "line_ok cr (lt_raw t)" "dropCR (lt_raw t) = lt_raw t" "lt_raw t \<noteq> []"
proof -
  from assms(1) obtain kv where kv: "kv \<in> set (tag_candidates pt)" and t: "t = new_tag kv"
    by (auto simp: missing_tags_def)
  note key = provenance_keys [OF kv]
  show "header_line (lt_raw t) = Some t" using header_line_new [OF key(1), of "snd kv"] by (simp add: t)
  have short: "length (sanitizeTagValue v) \<le> length v" for v
    unfolding sanitizeTagValue_def by (meson length_filter_le order_trans)
  obtain v where v: "v \<in> {pt_Source pt, pt_Fetched pt, pt_ISRC pt, pt_MBID pt}" "snd kv = sanitizeTagValue v"
  proof -
    have "snd kv \<in> sanitizeTagValue ` {pt_Source pt, pt_Fetched pt, pt_ISRC pt, pt_MBID pt}"
      using kv unfolding tag_candidates_def by fastforce
    then show ?thesis using that by blast
  qed
  have len: "length (snd kv) < 65000" unfolding v(2) by (rule le_less_trans [OF short bspec [OF assms(3) v(1)]])
  have "newline \<notin> set (snd kv)" using kv by (auto simp: tag_candidates_def sanitizeTagValue_def)
  moreover show "dropCR (lt_raw t) = lt_raw t" "lt_raw t \<noteq> []"
    by (simp_all add: t new_tag_def tag_line_def dropCR_def)
  ultimately show "line_ok cr (lt_raw t)"
    using key(1) len assms(2) by (auto simp: line_ok_def t new_tag_def tag_line_def MaxScanTokenSize_def)
qed

lemma header_keys_insert:
  "set (header_keys lower (take k ts @ add @ drop k ts)) = set (header_keys lower ts) \<union> set (header_keys lower add)"
proof -
  have "set (take k ts) \<union> set (drop k ts) = set ts" by (metis append_take_drop_id set_append)
  then show ?thesis unfolding header_keys_def by auto
qed

lemma missing_keys:
  "set (header_keys lower (missing_tags lower tags pt))
   = fst ` {kv \<in> set (tag_candidates pt). snd kv \<noteq> [] \<and> fst kv \<notin> set (header_keys lower tags)}"
proof -
  have "lt_key (new_tag kv) \<noteq> []" "ToLower lower (lt_key (new_tag kv)) = fst kv"
    if "kv \<in> set (tag_candidates pt)" for kv
    using provenance_keys [OF that] by (simp_all add: new_tag_def ToLower_plain)
  then have "header_keys lower (map new_tag (filter P (filter Q (tag_candidates pt))))
      = map fst (filter P (filter Q (tag_candidates pt)))" for P Q
    by (auto simp: header_keys_def intro!: filter_True)
  then show ?thesis by (auto simp: missing_tags_def)
qed

lemma length_filter_split: "length (filter (\<lambda>x. \<not> P x) xs) + length (filter P xs) = length xs"
  by (simp add: add.commute sum_length_filter_compl)

text \<open>The plan against a header that already has what was given.\<close>

lemma inject_plan_done:
  assumes "parseLRCHeader c' = Inr (take k tags @ missing_tags lower tags pt @ drop k tags, lyrics)"
  shows "inject_plan lower c' pt = Inr (0, int (length (filter (\<lambda>kv. snd kv \<noteq> []) (tag_candidates pt))), None)"
proof -
  let ?given = "filter (\<lambda>kv. snd kv \<noteq> []) (tag_candidates pt)"
  let ?keys = "set (header_keys lower (take k tags @ missing_tags lower tags pt @ drop k tags))"
  have "fst kv \<in> ?keys" if "kv \<in> set ?given" for kv
    using that unfolding header_keys_insert missing_keys
    by (cases "fst kv \<in> set (header_keys lower tags)") (auto intro: imageI)
  then have "\<forall>kv \<in> set ?given. fst kv \<in> ?keys" by blast
  then have "filter (\<lambda>kv. fst kv \<in> ?keys) ?given = ?given" "filter (\<lambda>kv. fst kv \<notin> ?keys) ?given = []"
    by (simp_all only: filter_id_conv filter_empty_conv not_not)
  with assms show ?thesis unfolding inject_plan_def Let_def by (simp del: filter_filter)
qed

definition after_plan :: "string \<Rightarrow> string option \<Rightarrow> string" where
  "after_plan c out = (case out of None \<Rightarrow> c | Some x \<Rightarrow> x)"

text \<open>The file after the injection parses to the old header with the new tags in it, and the old lyrics.\<close>

lemma inject_plan_parses:
  assumes plan: "inject_plan lower c pt = Inr (n, k, out)"
    and end_ok: "c \<noteq> [] \<longrightarrow> last c \<noteq> carriage"
    and lens: "list_all (\<lambda>p. length p + 1 < MaxScanTokenSize) (pieces c)"
      "\<forall>v \<in> {pt_Source pt, pt_Fetched pt, pt_ISRC pt, pt_MBID pt}. length v < 65000"
  obtains tags lyrics where
    "parseLRCHeader c = Inr (tags, lyrics)"
    "parseLRCHeader (after_plan c out)
     = Inr (take (insert_index tags) tags @ missing_tags lower tags pt @ drop (insert_index tags) tags, lyrics)"
    "n = int (length (missing_tags lower tags pt))"
    "n + k = int (length (filter (\<lambda>kv. snd kv \<noteq> []) (tag_candidates pt)))"
proof -
  from plan obtain tags lyrics where parse: "parseLRCHeader c = Inr (tags, lyrics)"
    by (auto simp: inject_plan_def Let_def split: sum.splits)
  then obtain ls where scan: "scan_lines c = Inr ls" and split: "split_header ls = (tags, lyrics)"
    by (auto simp: parseLRCHeader_def split: sum.splits)
  let ?cr = "if has_crlf c then [carriage] else []"
  let ?nl = "c \<noteq> [] \<and> last c = newline"
  let ?add = "missing_tags lower tags pt"
  let ?i = "insert_index tags"
  let ?tags' = "take ?i tags @ ?add @ drop ?i tags"
  let ?out = "map lt_raw ?tags' @ lyrics"
  note ls = split [unfolded split_header_iff]
  have nk: "n = int (length ?add)" "n + k = int (length (filter (\<lambda>kv. snd kv \<noteq> []) (tag_candidates pt)))"
    using plan parse length_filter_split [of "\<lambda>kv. fst kv \<in> set (header_keys lower tags)" "filter (\<lambda>kv. snd kv \<noteq> []) (tag_candidates pt)"]
    by (auto simp: inject_plan_def Let_def missing_tags_def split: if_splits)
  show ?thesis
  proof (cases "?add = []")
    case True
    then have "after_plan c out = c"
      using plan parse by (auto simp: inject_plan_def Let_def missing_tags_def after_plan_def)
    with True parse nk show ?thesis by (intro that [of tags lyrics]) simp_all
  next
    case False
    then have out: "after_plan c out = join_lines (?cr @ [newline]) ?nl ?out"
      using plan parse by (auto simp: inject_plan_def Let_def missing_tags_def after_plan_def)
    have add: "header_line (lt_raw t) = Some t" "line_ok ?cr (lt_raw t)" "dropCR (lt_raw t) = lt_raw t" "lt_raw t \<noteq> []"
      if "t \<in> set ?add" for t
      using missing_tag_line [OF that _ lens(2)] by auto
    have "set ?out \<subseteq> set ls \<union> lt_raw ` set ?add"
      using ls by (auto dest: in_set_takeD in_set_dropD)
    then have ok: "\<forall>l \<in> set ?out. line_ok ?cr l"
      using add(2) pieces_line_ok [OF scan end_ok lens(1)] by blast
    have fin: "?nl \<or> last ?out \<noteq> [] \<and> dropCR (last ?out) = last ?out"
    proof (cases ?nl)
      case False
      show ?thesis
      proof (cases "lyrics = [] \<and> drop ?i tags = []")
        case True
        then have "last ?out = lt_raw (last ?add)" using \<open>?add \<noteq> []\<close> by (simp add: last_map)
        then show ?thesis using add(3,4) [of "last ?add"] \<open>?add \<noteq> []\<close> by simp
      next
        case False
        then have "last ?out = last ls"
          using ls by (cases "tags = []"; cases "lyrics = []"; auto simp: last_map last_append last_drop)
        moreover have "ls \<noteq> []" using False ls by auto
        moreover from this have "c \<noteq> []" using scan by (auto simp: scan_lines_def pieces_def)
        ultimately show ?thesis using last_line [OF scan] end_ok \<open>\<not> ?nl\<close> by auto
      qed
    qed simp
    have "scan_lines (after_plan c out) = Inr ?out"
      unfolding out by (rule scan_join_lines) (use ok fin False in auto)
    moreover have "split_header ?out = (?tags', lyrics)"
      unfolding split_header_iff using ls add(1) by (auto intro: header_of_insert)
    ultimately have "parseLRCHeader (after_plan c out) = Inr (?tags', lyrics)"
      by (simp add: parseLRCHeader_def)
    with parse nk show ?thesis by (intro that [of tags lyrics])
  qed
qed

section \<open>Replacing the file\<close>

definition rewrite_safe :: "string \<Rightarrow> string \<Rightarrow> string \<Rightarrow> files \<Rightarrow> files \<Rightarrow> bool" where
  "rewrite_safe path tmp content old f \<longleftrightarrow>
     f path \<in> {old path, Some content} \<and> (\<forall>p. p \<noteq> path \<and> p \<noteq> tmp \<longrightarrow> f p = old p)"

lemma replace_within:
  assumes nt: "temp_path E (Dir path) (Base path) (fs_calls s) \<noteq> path"
  shows "fs_within (rewrite_safe path (temp_path E (Dir path) (Base path) (fs_calls s)) content (fs_files s)) s
           (snd (replace_file E path content s))"
proof -
  define tp where "tp = temp_path E (Dir path) (Base path) (fs_calls s)"
  define P where "P = rewrite_safe path tp content (fs_files s)"
  have tmp_upd: "P (f(tp := x))" if "P f" for f x
    using nt that by (simp add: P_def rewrite_safe_def tp_def)
  have start: "P (fs_files s)" by (simp add: P_def rewrite_safe_def)
  obtain r s1 where c: "fs_create_temp E (Dir path) (Base path) s = (r, s1)" by fastforce
  have "fs_within P s (snd (fs_create_temp E (Dir path) (Base path) s))"
    using start tmp_upd [OF start] unfolding tp_def by (intro fs_create_temp_within)
  then have w1: "fs_within P s s1" by (simp add: c)
  have "fs_within P s1 (snd (replace_file E path content s))"
  proof (cases r)
    case (Inl e)
    with c w1 show ?thesis by (simp add: replace_file_def fs_within_def)
  next
    case (Inr tmp)
    have t: "tmp = tp" using fs_create_temp_Inr [OF c [unfolded Inr]] by (simp add: tp_def)
    have clean: "P f \<Longrightarrow> P (f(tmp := x))" for f x using tmp_upd t by blast
    have cleared: "\<And>f. P f \<Longrightarrow> P (f(tmp := None))" by (rule clean)
    note stepped = step_or_discard_within [where P = P and tmp = tmp, OF _ cleared]
    have P1: "P (fs_files s1)" using w1 by (simp add: fs_within_def)
    show ?thesis
      unfolding replace_file_def c Inr prod.case sum.case
    proof (rule stepped, goal_cases)
      case 1
      show ?case using P1 clean by (intro fs_write_within)
    next
      case (3 u s2)
      have f2: "fs_files s2 tmp = Some content" "P (fs_files s2)"
        using fs_write_Inr [OF 3] clean [OF P1] by simp_all
      show ?case
      proof (rule stepped, goal_cases)
        case 1
        show ?case using f2(2) by (rule fs_sync_within)
      next
        case (3 u s3)
        have f3: "fs_files s3 tmp = Some content" "P (fs_files s3)" using fs_sync_eq [OF 3] f2 by simp_all
        show ?case
        proof (rule stepped, goal_cases)
          case 1
          show ?case using f3(2) by (rule fs_touch_within)
        next
          case (3 u s4)
          have f4: "fs_files s4 tmp = Some content" "P (fs_files s4)" using fs_touch_eq [OF 3] f3 by simp_all
          show ?case
          proof (rule stepped, goal_cases)
            case 1
            show ?case using f4(2) by (rule fs_touch_within)
          next
            case (3 u s5)
            have f5: "fs_files s5 tmp = Some content" "P (fs_files s5)" using fs_touch_eq [OF 3] f4 by simp_all
            have "P ((fs_files s5)(path := fs_files s5 tmp))" using f5 by (auto simp: P_def rewrite_safe_def)
            then have ren: "P ((fs_files s5)(path := fs_files s5 tmp, tmp := None))" by (rule clean)
            show ?case
            proof (rule stepped, goal_cases)
              case 1
              show ?case using f5(2) ren by (rule fs_rename_within)
            next
              case (3 u s6)
              then have "P (fs_files s6)" using fs_rename_Inr [OF 3] ren by simp
              then show ?case by (simp add: fs_within_refl)
            qed
          qed
        qed
      qed
    qed
  qed
  with w1 show ?thesis unfolding P_def tp_def by (rule fs_within_trans)
qed

lemma replace_done:
  assumes w: "replace_file E path content s = (Inr u, s')" and nt: "temp_path E (Dir path) (Base path) (fs_calls s) \<noteq> path"
  shows "fs_files s' = (fs_files s)(path \<mapsto> content)"
proof -
  obtain tmp s1 where c: "fs_create_temp E (Dir path) (Base path) s = (Inr tmp, s1)"
    using w by (cases "fs_create_temp E (Dir path) (Base path) s"; cases "fst (fs_create_temp E (Dir path) (Base path) s)")
      (auto simp: replace_file_def)
  note ct = fs_create_temp_Inr [OF c]
  from w [unfolded replace_file_def c prod.case sum.case]
  obtain u2 s2 u3 s3 where 2: "fs_write E tmp content s1 = (Inr u2, s2)" "fs_sync E tmp s2 = (Inr u3, s3)"
    and w3: "step_or_discard E tmp False (''close '' @ tmp) (fs_touch E s3) (\<lambda>s4.
          step_or_discard E tmp True (''chmod '' @ tmp) (fs_touch E s4) (\<lambda>s5.
          step_or_discard E tmp True (''rename '' @ tmp @ '' -> '' @ path) (fs_rename E tmp path s5) (\<lambda>s6.
            (Inr (), s6)))) = (Inr u, s')"
    by (blast dest: step_or_discard_Inr)
  obtain u4 s4 u5 s5 u6 where 4: "fs_touch E s3 = (Inr u4, s4)" "fs_touch E s4 = (Inr u5, s5)"
    "fs_rename E tmp path s5 = (Inr u6, s')"
    using w3 by (blast dest: step_or_discard_Inr)
  have "fs_files s5 = (fs_files s)(tmp \<mapsto> content)"
    using fs_touch_eq [OF 4(1)] fs_touch_eq [OF 4(2)] fs_sync_eq [OF 2(2)] fs_write_Inr [OF 2(1)] ct by simp
  moreover have "fs_files s' = (fs_files s5)(path := fs_files s5 tmp, tmp := None)"
    using fs_rename_Inr [OF 4(3)] by simp
  ultimately show ?thesis using ct nt by (auto simp: fun_eq_iff)
qed

text \<open>Here the content is synced before the rename, and a stop of the machine after a success finds the
  new file.\<close>

lemma replace_synced:
  assumes w: "replace_file E path content s = (Inr u, s')" and "after_power_loss s' f"
    and nt: "temp_path E (Dir path) (Base path) (fs_calls s) \<noteq> path"
  shows "f path = Some content"
proof -
  obtain tmp s1 where c: "fs_create_temp E (Dir path) (Base path) s = (Inr tmp, s1)"
    using w by (cases "fs_create_temp E (Dir path) (Base path) s"; cases "fst (fs_create_temp E (Dir path) (Base path) s)")
      (auto simp: replace_file_def)
  from w [unfolded replace_file_def c prod.case sum.case]
  obtain u3 s2 s3 where 2: "fs_sync E tmp s2 = (Inr u3, s3)"
    and w3: "step_or_discard E tmp False (''close '' @ tmp) (fs_touch E s3) (\<lambda>s4.
          step_or_discard E tmp True (''chmod '' @ tmp) (fs_touch E s4) (\<lambda>s5.
          step_or_discard E tmp True (''rename '' @ tmp @ '' -> '' @ path) (fs_rename E tmp path s5) (\<lambda>s6.
            (Inr (), s6)))) = (Inr u, s')"
    by (blast dest: step_or_discard_Inr)
  obtain u4 s4 u5 s5 u6 where 4: "fs_touch E s3 = (Inr u4, s4)" "fs_touch E s4 = (Inr u5, s5)"
    "fs_rename E tmp path s5 = (Inr u6, s')"
    using w3 by (blast dest: step_or_discard_Inr)
  have "fs_unsynced s5 = fs_unsynced s3"
    using fs_unsynced_kept(1) [of E s3] fs_unsynced_kept(1) [of E s4] 4(1,2) by simp
  then have "\<not> fs_unsynced s' path" using fs_rename_Inr [OF 4(3)] fs_sync_synced [OF 2] by simp
  moreover have "fs_files s' path = Some content" using replace_done [OF w nt] by simp
  ultimately show ?thesis using assms(2) unfolding after_power_loss_def by (metis (full_types))
qed

section \<open>The whole operation\<close>

text \<open>A file that is not to be touched is left alone; otherwise the plan of its content is carried out.\<close>

lemma fs_read_files: "fs_read E p s = (r, s') \<Longrightarrow> fs_files s' = fs_files s \<and> fs_seen s' = fs_seen s"
  by (auto simp: fs_read_def Let_def split: option.splits)

lemma fs_read_Inr: "fs_read E p s = (Inr c, s') \<Longrightarrow> fs_files s p = Some c"
  by (auto simp: fs_read_def Let_def split: option.splits)

lemma fs_read_ok:
  "fe_fail E (fs_calls s) = None \<Longrightarrow> fs_files s p = Some c \<Longrightarrow> fs_read E p s = (Inr c, s\<lparr>fs_calls := fs_calls s + 1\<rparr>)"
  by (simp add: fs_read_def Let_def)

text \<open>Every run is one of these: nothing is replaced, or the planned content replaces the file.\<close>

lemma InjectProvenance_cases:
  assumes "InjectProvenance lower E is_link path pt s = (r, s')"
  obtains (same) "fs_files s' = fs_files s" "fs_seen s' = fs_seen s"
      "\<And>n k. r = Inr (n, k) \<Longrightarrow> \<not> is_link path \<Longrightarrow> \<exists>c. fs_files s path = Some c \<and> inject_plan lower c pt = Inr (n, k, None)"
  | (replaced) c n k out s3 where "fs_files s path = Some c" "inject_plan lower c pt = Inr (n, k, Some out)"
      "fs_files s3 = fs_files s" "fs_seen s3 = fs_seen s" "ToLower lower (Ext path) = ''.lrc''"
      "\<And>x. replace_file E path out s3 = (Inr x, s') \<Longrightarrow> r = Inr (n, k)"
      "s' = snd (replace_file E path out s3)" "(\<exists>e. r = Inl e) = (\<exists>e. fst (replace_file E path out s3) = Inl e)"
proof (cases "ToLower lower (Ext path) = ''.lrc''")
  case False
  with assms show ?thesis by (intro same) (auto simp: InjectProvenance_def)
next
  case lrc: True
  obtain r1 s1 where 1: "fs_read E path s = (r1, s1)" by fastforce
  obtain r2 s2 where 2: "fs_read E path s1 = (r2, s2)" by fastforce
  obtain r3 s3 where 3: "fs_read E path s2 = (r3, s3)" by fastforce
  note fr = fs_read_files [OF 1] fs_read_files [OF 2] fs_read_files [OF 3]
  show ?thesis
  proof (cases "\<exists>c x y. r1 = Inr x \<and> \<not> is_link path \<and> r2 = Inr y \<and> r3 = Inr c")
    case False
    with assms lrc 1 2 3 fr show ?thesis
      by (intro same) (auto simp: InjectProvenance_def split: sum.splits if_splits)
  next
    case True
    then obtain c x y where c: "r1 = Inr x" "\<not> is_link path" "r2 = Inr y" "r3 = Inr c" by blast
    have cc: "fs_files s path = Some c" using fs_read_Inr [of E path s2 c s3] 3 c fr by simp
    show ?thesis
    proof (cases "\<exists>n k out. inject_plan lower c pt = Inr (n, k, Some out)")
      case False
      with assms lrc 1 2 3 fr c cc show ?thesis
        by (intro same) (auto simp: InjectProvenance_def inject_plan_def Let_def split: sum.splits if_splits option.splits)
    next
      case True
      then obtain n k out where p: "inject_plan lower c pt = Inr (n, k, Some out)" by blast
      obtain r4 s4 where 4: "replace_file E path out s3 = (r4, s4)" by fastforce
      show ?thesis
        by (rule replaced [of c n k out s3, OF cc p _ _ lrc]) (use assms lrc 1 2 3 4 fr c p in \<open>auto simp: InjectProvenance_def split: sum.splits\<close>)
    qed
  qed
qed

lemma replace_failed:
  assumes w: "replace_file E path content s = (Inl e, s')" and nt: "temp_path E (Dir path) (Base path) (fs_calls s) \<noteq> path"
  shows "fs_files s' path = fs_files s path"
proof -
  let ?P = "\<lambda>f. f path = fs_files s path"
  obtain r s1 where c: "fs_create_temp E (Dir path) (Base path) s = (r, s1)" by fastforce
  show ?thesis
  proof (cases r)
    case (Inl x)
    with w c fs_create_temp_Inl [OF c [unfolded Inl]] show ?thesis by (simp add: replace_file_def)
  next
    case (Inr tmp)
    note ct = fs_create_temp_Inr [OF c [unfolded Inr]]
    then have ntp: "tmp \<noteq> path" using nt by simp
    then have cl: "?P f \<Longrightarrow> ?P (f(tmp := None))" for f by simp
    note err = step_or_discard_Inl [where P = ?P and tmp = tmp, OF _ cl]
    note w' = w [unfolded replace_file_def c Inr prod.case sum.case]
    have f1: "?P (fs_files s1)" using ct ntp by simp
    show ?thesis
    proof (rule err [OF w'], goal_cases)
      case (2 x s2) with f1 ntp show ?case by (auto dest: fs_write_Inl)
    next
      case (3 u s2)
      have f2: "?P (fs_files s2)" using fs_write_Inr [OF 3(1)] f1 ntp by simp
      show ?case
      proof (rule err [OF 3(2)], goal_cases)
        case (2 x s3) with f2 show ?case by (simp add: fs_sync_eq)
      next
        case (3 u s3)
        have f3: "?P (fs_files s3)" using f2 fs_sync_eq [OF 3(1)] by simp
        show ?case
        proof (rule err [OF 3(2)], goal_cases)
          case (2 x s4) with f3 show ?case by (simp add: fs_touch_eq)
        next
          case (3 u s4)
          have f4: "?P (fs_files s4)" using f3 fs_touch_eq [OF 3(1)] by simp
          show ?case
          proof (rule err [OF 3(2)], goal_cases)
            case (2 x s5) with f4 show ?case by (simp add: fs_touch_eq)
          next
            case (3 u s5)
            have f5: "?P (fs_files s5)" using f4 fs_touch_eq [OF 3(1)] by simp
            show ?case
            proof (rule err [OF 3(2)], goal_cases)
              case (2 x s6) with f5 show ?case by (simp add: fs_rename_Inl)
            qed simp_all
          qed simp_all
        qed simp_all
      qed simp_all
    qed simp_all
  qed
qed

lemma lrc_path_not_temp:
  assumes "ToLower lower (Ext path) = ''.lrc''" "HasSuffix tmp ''.tmp''"
  shows "tmp \<noteq> path"
  using assms(1) Ext_known(3) [OF assms(2)] by (auto simp: ToLower_def is_ascii_def lower_byte_def)

text \<open>
  C30. Tags are injected as a whole: in every state on disk while \<open>InjectProvenance\<close> runs, whichever
  system calls fail, the file has its old content or the complete planned one, and nothing else differs
  but one temporary file; an error leaves the old content, and a run that reports success leaves no
  temporary file and has changed the content only if it reports an injected tag.
\<close>

theorem provenance_is_atomic:
  assumes "InjectProvenance lower E is_link path pt s = (r, s')"
  shows "\<exists>tmp. HasSuffix tmp ''.tmp'' \<and> tmp \<noteq> path \<and>
      fs_within (\<lambda>f. (f path = fs_files s path
                       \<or> (\<exists>c n k out. fs_files s path = Some c \<and> inject_plan lower c pt = Inr (n, k, Some out) \<and> f path = Some out))
                    \<and> (\<forall>p. p \<noteq> path \<and> p \<noteq> tmp \<longrightarrow> f p = fs_files s p)) s s'
      \<and> (case r of
           Inl e \<Rightarrow> fs_files s' path = fs_files s path
         | Inr (n, k) \<Rightarrow> (\<forall>p. p \<noteq> path \<longrightarrow> fs_files s' p = fs_files s p)
             \<and> (n = 0 \<longrightarrow> fs_files s' path = fs_files s path))"
  using assms
proof (cases rule: InjectProvenance_cases)
  case same
  have "HasSuffix (path @ ''.tmp'') ''.tmp''" unfolding HasSuffix_append by blast
  moreover have "path @ ''.tmp'' \<noteq> path" by simp
  ultimately show ?thesis using same(1,2) by (auto simp: fs_within_def split: sum.split)
next
  case (replaced c n k out s3)
  define tmp where "tmp = temp_path E (Dir path) (Base path) (fs_calls s3)"
  have t: "HasSuffix tmp ''.tmp''" unfolding tmp_def by (rule temp_path_suffix)
  have nt: "tmp \<noteq> path" using replaced(5) t by (rule lrc_path_not_temp)
  have n0: "n \<noteq> 0" using replaced(2) by (auto simp: inject_plan_def Let_def split: sum.splits if_splits)
  have "fs_within (rewrite_safe path tmp out (fs_files s3)) s3 s'"
    unfolding replaced(7) tmp_def by (rule replace_within) (use nt in \<open>simp add: tmp_def\<close>)
  then have "fs_within (\<lambda>f. (f path = fs_files s path
                       \<or> (\<exists>c n k out. fs_files s path = Some c \<and> inject_plan lower c pt = Inr (n, k, Some out) \<and> f path = Some out))
                    \<and> (\<forall>p. p \<noteq> path \<and> p \<noteq> tmp \<longrightarrow> f p = fs_files s p)) s3 s'"
    by (rule fs_within_mono) (use replaced(1-3) in \<open>auto simp: rewrite_safe_def\<close>)
  then have w: "fs_within (\<lambda>f. (f path = fs_files s path
                       \<or> (\<exists>c n k out. fs_files s path = Some c \<and> inject_plan lower c pt = Inr (n, k, Some out) \<and> f path = Some out))
                    \<and> (\<forall>p. p \<noteq> path \<and> p \<noteq> tmp \<longrightarrow> f p = fs_files s p)) s s'"
    unfolding fs_within_def replaced(4) .
  obtain q where q: "replace_file E path out s3 = (q, s')" using replaced(7) by (cases "replace_file E path out s3") simp
  show ?thesis
  proof (cases q)
    case (Inl e)
    then obtain e' where "r = Inl e'" using replaced(8) q by auto
    moreover have "fs_files s' path = fs_files s path"
      using replace_failed [OF q [unfolded Inl]] nt replaced(3) by (simp add: tmp_def)
    ultimately show ?thesis using w t nt by auto
  next
    case (Inr u)
    then have "r = Inr (n, k)" using replaced(6) q by simp
    moreover have "fs_files s' = (fs_files s)(path \<mapsto> out)"
      using replace_done [OF q [unfolded Inr]] nt replaced(3) by (simp add: tmp_def)
    ultimately show ?thesis using w t nt n0 by auto
  qed
qed

text \<open>
  C31. Injecting twice is injecting once: after a successful run the file parses to the header it had
  with exactly the reported number of tags added, none of which it had before, and to the same lyric
  lines; and running it again with the same tags adds nothing, skips every tag given, and leaves the
  disk as it is.  The file must not end in a lone carriage return, and its lines and the given values
  must stay below the limit of the line scanner.
\<close>

theorem provenance_is_idempotent:
  assumes run: "InjectProvenance lower E is_link path pt s = (Inr (n, k), s1)"
    and disk: "fs_files s path = Some c" "\<not> is_link path" "\<And>i. fs_calls s1 \<le> i \<Longrightarrow> fe_fail E i = None"
    and text_ok: "c \<noteq> [] \<longrightarrow> last c \<noteq> carriage" "list_all (\<lambda>p. length p + 1 < MaxScanTokenSize) (pieces c)"
      "\<forall>v \<in> {pt_Source pt, pt_Fetched pt, pt_ISRC pt, pt_MBID pt}. length v < 65000"
  shows "\<exists>c1 before add after lyrics s2.
      fs_files s1 path = Some c1
      \<and> parseLRCHeader c = Inr (before @ after, lyrics) \<and> parseLRCHeader c1 = Inr (before @ add @ after, lyrics)
      \<and> n = int (length add) \<and> set (header_keys lower add) \<inter> set (header_keys lower (before @ after)) = {}
      \<and> InjectProvenance lower E is_link path pt s1 = (Inr (0, n + k), s2) \<and> fs_files s2 = fs_files s1"
proof -
  have lrc: "ToLower lower (Ext path) = ''.lrc''" using run by (auto simp: InjectProvenance_def split: if_splits)
  obtain out where plan: "inject_plan lower c pt = Inr (n, k, out)" and c1: "fs_files s1 path = Some (after_plan c out)"
    using run
  proof (cases rule: InjectProvenance_cases)
    case same
    from same(3) [OF refl disk(2)] disk(1) have "inject_plan lower c pt = Inr (n, k, None)" by auto
    with that same(1) disk(1) show ?thesis by (auto simp: after_plan_def)
  next
    case (replaced c' n' k' out s3)
    obtain q where q: "replace_file E path out s3 = (Inr q, s1)"
      using replaced(7,8) by (cases "replace_file E path out s3"; cases "fst (replace_file E path out s3)") auto
    have "fs_files s1 = (fs_files s3)(path \<mapsto> out)"
      using q lrc_path_not_temp [OF lrc temp_path_suffix] by (rule replace_done)
    moreover have "c' = c" "n' = n" "k' = k" using replaced(1) replaced(6) [OF q] disk(1) by simp_all
    ultimately show ?thesis using that [of "Some out"] replaced(2) by (simp add: after_plan_def)
  qed
  from plan text_ok obtain tags lyrics where p: "parseLRCHeader c = Inr (tags, lyrics)"
    "parseLRCHeader (after_plan c out)
     = Inr (take (insert_index tags) tags @ missing_tags lower tags pt @ drop (insert_index tags) tags, lyrics)"
    "n = int (length (missing_tags lower tags pt))"
    "n + k = int (length (filter (\<lambda>kv. snd kv \<noteq> []) (tag_candidates pt)))"
    by (rule inject_plan_parses)
  have again: "inject_plan lower (after_plan c out) pt = Inr (0, n + k, None)"
    using inject_plan_done [OF p(2)] p(4) by simp
  have ok: "fe_fail E (fs_calls s1) = None" "fe_fail E (fs_calls s1 + 1) = None" "fe_fail E (fs_calls s1 + 2) = None"
    by (simp_all add: disk(3))
  have "InjectProvenance lower E is_link path pt s1 = (Inr (0, n + k), s1\<lparr>fs_calls := fs_calls s1 + 3\<rparr>)"
    using lrc disk(2) again ok c1 by (simp add: InjectProvenance_def fs_read_ok)
  moreover have "set (header_keys lower (missing_tags lower tags pt)) \<inter> set (header_keys lower tags) = {}"
    unfolding missing_keys by auto
  ultimately show ?thesis using p c1
    by (intro exI [of _ "after_plan c out"] exI [of _ "take (insert_index tags) tags"]
        exI [of _ "missing_tags lower tags pt"] exI [of _ "drop (insert_index tags) tags"] exI [of _ lyrics] exI) auto
qed

definition sample_lrc :: string where
  "sample_lrc = ''[ar:A]'' @ [carriage, newline] @ ''[Source:x]'' @ [carriage, newline, carriage, newline] @ ''[00:01.00]la''"

definition sample_provenance :: provenance_tags where
  "sample_provenance = \<lparr>pt_Source = ''lane'', pt_Fetched = ''2024]'', pt_ISRC = [], pt_MBID = ''m''\<rparr>"

definition sample_lrc_disk :: fs where
  "sample_lrc_disk = \<lparr>fs_files = [''/m/p.lrc'' \<mapsto> sample_lrc], fs_seen = [], fs_calls = 0, fs_unsynced = (\<lambda>_. False)\<rparr>"

lemma sample_pieces:
  "pieces sample_lrc = [''[ar:A]'' @ [carriage], ''[Source:x]'' @ [carriage], [carriage], ''[00:01.00]la'']"
  by code_simp

lemma sample_header:
  "parseLRCHeader sample_lrc
   = Inr ([\<lparr>lt_key = ''ar'', lt_value = ''A'', lt_raw = ''[ar:A]''\<rparr>,
           \<lparr>lt_key = ''Source'', lt_value = ''x'', lt_raw = ''[Source:x]''\<rparr>, blank_tag []], [''[00:01.00]la''])"
proof -
  have scan: "scan_lines sample_lrc = Inr [''[ar:A]'', ''[Source:x]'', [], ''[00:01.00]la'']"
  proof -
    have "list_all (\<lambda>p. length p \<le> 20) (pieces sample_lrc)" by code_simp
    then have "list_all (\<lambda>p. length p < MaxScanTokenSize) (pieces sample_lrc)"
      by (rule list.pred_mono_strong) (simp add: MaxScanTokenSize_def)
    moreover have "map dropCR (pieces sample_lrc) = [''[ar:A]'', ''[Source:x]'', [], ''[00:01.00]la'']" by code_simp
    ultimately show ?thesis by (simp add: scan_lines_def)
  qed
  have "TrimSpace x = x" if "x \<in> {''[ar:A]'', ''[Source:x]'', ''[00:01.00]la''}" for x
    by (rule bracket_trim) (use that in auto)
  moreover have "TrimSpace [] = []" by (rule TrimSpace_plain) (simp add: plain_def)
  ultimately have "split_header [''[ar:A]'', ''[Source:x]'', [], ''[00:01.00]la'']
    = ([\<lparr>lt_key = ''ar'', lt_value = ''A'', lt_raw = ''[ar:A]''\<rparr>,
        \<lparr>lt_key = ''Source'', lt_value = ''x'', lt_raw = ''[Source:x]''\<rparr>, blank_tag []], [''[00:01.00]la''])"
    by (simp add: header_line_def parseTagLine_def HasSuffix_def is_digit_def)
  with scan show ?thesis by (simp add: parseLRCHeader_def)
qed

lemma sample_plan:
  "inject_plan id sample_lrc sample_provenance = Inr (2, 1, Some
     (''[ar:A]'' @ [carriage, newline] @ ''[Source:x]'' @ [carriage, newline] @ ''[fetched:2024]'' @ [carriage, newline]
      @ ''[mbid:m]'' @ [carriage, newline, carriage, newline] @ ''[00:01.00]la''))"
proof -
  have "has_crlf sample_lrc" "last sample_lrc \<noteq> newline" by code_simp+
  moreover have "tag_candidates sample_provenance
      = [(''source'', ''lane''), (''fetched'', ''2024''), (''isrc'', []), (''mbid'', ''m'')]" by code_simp
  moreover have "header_keys id [\<lparr>lt_key = ''ar'', lt_value = ''A'', lt_raw = ''[ar:A]''\<rparr>,
           \<lparr>lt_key = ''Source'', lt_value = ''x'', lt_raw = ''[Source:x]''\<rparr>, blank_tag []] = [''ar'', ''source'']" by code_simp
  ultimately show ?thesis
    by (simp add: inject_plan_def Let_def sample_header insert_index_def blank_tag_def new_tag_def tag_line_def)
qed

lemma sample_disk: "fs_files sample_lrc_disk ''/m/p.lrc'' = Some sample_lrc" "fs_calls sample_lrc_disk = 0" "fs_seen sample_lrc_disk = []"
  by (simp_all add: sample_lrc_disk_def)

lemma sample_ext: "ToLower id (Ext ''/m/p.lrc'') = ''.lrc''" "Dir ''/m/p.lrc'' = ''/m''" "Base ''/m/p.lrc'' = ''p.lrc''"
  by code_simp+

lemma replace_ok:
  assumes ok: "\<And>i. fe_fail E i = None" and "fs_files s (temp_path E (Dir path) (Base path) (fs_calls s)) = None"
  shows "\<exists>s'. replace_file E path content s = (Inr (), s')"
proof -
  obtain tmp s1 where "fs_create_temp E (Dir path) (Base path) s = (Inr tmp, s1)"
    using assms(2) by (auto simp: fs_create_temp_def Let_def fs_call_def ok)
  then show ?thesis
    unfolding replace_file_def
    by (auto simp: fs_write_def intro!: step_ok fs_call_ok fs_steps_ok ok)
qed

lemma sample_injected:
  "\<exists>s'. InjectProvenance id (sample_fs_env None) (\<lambda>_. False) ''/m/p.lrc'' sample_provenance sample_lrc_disk = (Inr (2, 1), s')"
proof -
  have ok: "fe_fail (sample_fs_env None) i = None" for i by (simp add: sample_fs_env_def)
  obtain s' where "replace_file (sample_fs_env None) ''/m/p.lrc''
     (''[ar:A]'' @ [carriage, newline] @ ''[Source:x]'' @ [carriage, newline] @ ''[fetched:2024]'' @ [carriage, newline]
      @ ''[mbid:m]'' @ [carriage, newline, carriage, newline] @ ''[00:01.00]la'')
     (sample_lrc_disk\<lparr>fs_calls := 3\<rparr>) = (Inr (), s')" 
    using replace_ok [OF ok, of "sample_lrc_disk\<lparr>fs_calls := 3\<rparr>" "''/m/p.lrc''"]
    by (auto simp: sample_disk sample_ext temp_path_def HasSuffix_def sample_fs_env_def sample_lrc_disk_def)
  then show ?thesis
    unfolding InjectProvenance_def sample_ext
    by (simp add: fs_read_ok ok sample_disk sample_plan numeral_eq_Suc)
qed

definition sample_lrc_out :: string where
  "sample_lrc_out = ''[ar:A]'' @ [carriage, newline] @ ''[Source:x]'' @ [carriage, newline] @ ''[fetched:2024]'' @ [carriage, newline]
      @ ''[mbid:m]'' @ [carriage, newline, carriage, newline] @ ''[00:01.00]la''"

theorem provenance_is_atomic_witness:
  "\<forall>bad. \<exists>r s'. InjectProvenance id (sample_fs_env bad) (\<lambda>_. False) ''/m/p.lrc'' sample_provenance sample_lrc_disk = (r, s')
     \<and> fs_files s' ''/m/p.lrc'' \<in> {Some sample_lrc, Some sample_lrc_out}"
proof
  fix bad
  obtain r s' where w: "InjectProvenance id (sample_fs_env bad) (\<lambda>_. False) ''/m/p.lrc'' sample_provenance sample_lrc_disk = (r, s')"
    by (metis prod.collapse)
  from provenance_is_atomic [OF w] have "fs_files s' ''/m/p.lrc'' = fs_files sample_lrc_disk ''/m/p.lrc''
      \<or> (\<exists>c n k out. fs_files sample_lrc_disk ''/m/p.lrc'' = Some c \<and> inject_plan id c sample_provenance = Inr (n, k, Some out)
           \<and> fs_files s' ''/m/p.lrc'' = Some out)"
    unfolding fs_within_def by blast
  then have "fs_files s' ''/m/p.lrc'' \<in> {Some sample_lrc, Some sample_lrc_out}"
    by (auto simp: sample_disk sample_plan sample_lrc_out_def)
  with w show "\<exists>r s'. InjectProvenance id (sample_fs_env bad) (\<lambda>_. False) ''/m/p.lrc'' sample_provenance sample_lrc_disk = (r, s')
     \<and> fs_files s' ''/m/p.lrc'' \<in> {Some sample_lrc, Some sample_lrc_out}" by blast
qed

theorem provenance_is_idempotent_witness:
  "\<exists>s1 s2. InjectProvenance id (sample_fs_env None) (\<lambda>_. False) ''/m/p.lrc'' sample_provenance sample_lrc_disk = (Inr (2, 1), s1)
     \<and> InjectProvenance id (sample_fs_env None) (\<lambda>_. False) ''/m/p.lrc'' sample_provenance s1 = (Inr (0, 3), s2)
     \<and> fs_files s2 = fs_files s1"
proof -
  obtain s1 where r: "InjectProvenance id (sample_fs_env None) (\<lambda>_. False) ''/m/p.lrc'' sample_provenance sample_lrc_disk = (Inr (2, 1), s1)"
    using sample_injected by blast
  have "list_all (\<lambda>p. length p + 1 \<le> 20) (pieces sample_lrc)" by code_simp
  then have ps: "list_all (\<lambda>p. length p + 1 < MaxScanTokenSize) (pieces sample_lrc)"
    by (rule list.pred_mono_strong) (simp add: MaxScanTokenSize_def)
  have e: "sample_lrc \<noteq> [] \<longrightarrow> last sample_lrc \<noteq> carriage" by code_simp
  have "\<forall>v \<in> {pt_Source sample_provenance, pt_Fetched sample_provenance, pt_ISRC sample_provenance, pt_MBID sample_provenance}.
      length v \<le> 20" by code_simp
  then have vs: "\<forall>v \<in> {pt_Source sample_provenance, pt_Fetched sample_provenance, pt_ISRC sample_provenance, pt_MBID sample_provenance}.
      length v < 65000"
    by (rule Ball_mono) (rule le_less_trans, assumption, simp)
  have ok: "\<And>i. fs_calls s1 \<le> i \<Longrightarrow> fe_fail (sample_fs_env None) i = None" by (simp add: sample_fs_env_def)
  from provenance_is_idempotent [OF r sample_disk(1) _ ok e ps vs] r show ?thesis by auto
qed
end
