(* ===== verification/Api_Keys.thy ===== *)
theory Api_Keys
  imports Go_Paths Queue_State "HOL-Library.List_Lexorder" "HOL-Library.Char_ord"
begin

text \<open>
  \<^verbatim>\<open>internal/auth\<close>: API keys.  \<open>key_service\<close> is \<open>auth.Service\<close> over any store; the two stores of the
  package are \<open>MemoryStore\<close> (a map by hash) and \<open>SQLStore\<close> (the table \<open>api_key_metadata\<close>).
  The PBKDF2 derivation and the random source are arguments; \<open>keyService\<close> is the start-up code of
  \<^verbatim>\<open>internal/commands/commands.go\<close> that registers the configured webhook keys.
\<close>

section \<open>Scopes\<close>

definition ScopeWebhook :: string where "ScopeWebhook = ''webhook''"
definition ScopeAdmin :: string where "ScopeAdmin = ''admin''"

definition HasScope :: "string list \<Rightarrow> string \<Rightarrow> bool" where
  "HasScope scopes required \<longleftrightarrow> required = [] \<or> list_ex (\<lambda>v. v = ScopeAdmin \<or> v = required) scopes"

fun norm_scopes :: "string list \<Rightarrow> string list \<Rightarrow> string list result" where
  "norm_scopes [] acc = Inr acc"
| "norm_scopes (v # vs) acc =
     (let scope = TrimSpace v in
      if scope \<noteq> ScopeWebhook \<and> scope \<noteq> ScopeAdmin then Inl (errorf (''auth: unsupported scope \"'' @ v @ ''\"''))
      else norm_scopes vs (if scope \<in> set acc then acc else acc @ [scope]))"

definition NormalizeScopes :: "string list \<Rightarrow> string list result" where
  "NormalizeScopes scopes =
     (if scopes = [] then Inl (errorf ''auth: at least one scope is required'')
      else case norm_scopes scopes [] of Inl e \<Rightarrow> Inl e | Inr scs \<Rightarrow> Inr (sort scs))"

definition encodeScopes :: "string list \<Rightarrow> string" where
  "encodeScopes scopes = join_with (CHR '','') scopes"

definition decodeScopes :: "string \<Rightarrow> string list" where
  "decodeScopes s = filter (\<lambda>v. v \<noteq> []) (map TrimSpace (split_on (CHR '','') s))"

text \<open>The scope arguments of the command line and of the create form.\<close>

definition parseScopes :: "string list \<Rightarrow> string list result" where
  "parseScopes values = NormalizeScopes (if values = [] then [ScopeWebhook] else values)"

definition parseScopeForm :: "string list \<Rightarrow> string list result" where
  "parseScopeForm values =
     (let cleaned = filter (\<lambda>v. v \<noteq> []) (map TrimSpace values)
      in NormalizeScopes (if cleaned = [] then [ScopeWebhook] else cleaned))"

section \<open>Keys and stores\<close>

record api_key =
  k_ID :: string
  k_Name :: string
  k_Hash :: string
  k_Scopes :: "string list"
  k_CreatedAt :: instant
  k_RevokedAt :: "instant option"

record created_key =
  ck_Raw :: string
  ck_Key :: api_key

definition ErrDuplicateKey :: goerr where "ErrDuplicateKey = GoErr ''auth: duplicate key'' [AuthDuplicateKey]"
definition ErrInvalidKey :: goerr where "ErrInvalidKey = GoErr ''auth: invalid key'' [AuthInvalidKey]"
definition ErrRevokedKey :: goerr where "ErrRevokedKey = GoErr ''auth: revoked key'' [AuthRevokedKey]"
definition ErrForbiddenScope :: goerr where "ErrForbiddenScope = GoErr ''auth: forbidden scope'' [AuthForbiddenScope]"

record 'w key_store =
  ks_Create :: "api_key \<Rightarrow> 'w \<Rightarrow> unit result \<times> 'w"
  ks_FindByHash :: "string \<Rightarrow> 'w \<Rightarrow> api_key result \<times> 'w"
  ks_RevokeByHash :: "string \<Rightarrow> instant \<Rightarrow> 'w \<Rightarrow> api_key result \<times> 'w"
  ks_RevokeByID :: "string \<Rightarrow> instant \<Rightarrow> 'w \<Rightarrow> api_key result \<times> 'w"
  ks_List :: "'w \<Rightarrow> api_key list result \<times> 'w"

section \<open>The service\<close>

definition KeyPrefix :: string where "KeyPrefix = ''mxlrc_''"
definition keyBytes :: nat where "keyBytes = 32"

text \<open>\<open>as_rand n\<close> is \<open>io.ReadFull\<close> of \<open>n\<close> bytes; \<open>as_derive\<close> is PBKDF2-SHA256 with the salt and the
  iteration count of the package.\<close>

record 'w key_service =
  as_store :: "'w key_store option"
  as_rand :: "(nat \<Rightarrow> 'w \<Rightarrow> string result \<times> 'w) option"
  as_now :: "('w \<Rightarrow> instant) option"
  as_derive :: "string \<Rightarrow> string result"

definition HashKey :: "(string \<Rightarrow> string result) \<Rightarrow> string \<Rightarrow> string result" where
  "HashKey derive raw =
     (case derive raw of Inl e \<Rightarrow> Inl (wrapf ''auth: derive key hash'' e) | Inr b \<Rightarrow> Inr (hex_encode b))"

definition generateKey :: "(nat \<Rightarrow> 'w \<Rightarrow> string result \<times> 'w) \<Rightarrow> 'w \<Rightarrow> string result \<times> 'w" where
  "generateKey rand w =
     (case rand keyBytes w of
        (Inl e, w1) \<Rightarrow> (Inl (wrapf ''auth: generate key'' e), w1)
      | (Inr b, w1) \<Rightarrow> (Inr (KeyPrefix @ hex_encode b), w1))"

definition CreateKey :: "'w key_service \<Rightarrow> string \<Rightarrow> string list \<Rightarrow> 'w \<Rightarrow> created_key result \<times> 'w" where
  "CreateKey s name scopes w =
     (case as_store s of None \<Rightarrow> (Inl (errorf ''auth: store dependency is nil''), w) | Some St \<Rightarrow>
      (case as_rand s of None \<Rightarrow> (Inl (errorf ''auth: rand dependency is nil''), w) | Some rand \<Rightarrow>
      (case as_now s of None \<Rightarrow> (Inl (errorf ''auth: now dependency is nil''), w) | Some now \<Rightarrow>
      (case NormalizeScopes scopes of Inl e \<Rightarrow> (Inl e, w) | Inr scs \<Rightarrow>
      (case generateKey rand w of (Inl e, w1) \<Rightarrow> (Inl e, w1) | (Inr raw, w1) \<Rightarrow>
      (case HashKey (as_derive s) raw of Inl e \<Rightarrow> (Inl e, w1) | Inr hash \<Rightarrow>
       if length hash < 16 then (Inl (errorf ''auth: derived key hash is too short''), w1)
       else let key = \<lparr>k_ID = take 16 hash, k_Name = TrimSpace name, k_Hash = hash, k_Scopes = scs,
                       k_CreatedAt = now w1, k_RevokedAt = None\<rparr>
            in case ks_Create St key w1 of
                 (Inl e, w2) \<Rightarrow> (Inl e, w2)
               | (Inr _, w2) \<Rightarrow> (Inr \<lparr>ck_Raw = raw, ck_Key = key\<rparr>, w2)))))))"

definition ValidateKey :: "'w key_service \<Rightarrow> string \<Rightarrow> string \<Rightarrow> 'w \<Rightarrow> api_key result \<times> 'w" where
  "ValidateKey s raw required w =
     (case as_store s of None \<Rightarrow> (Inl (errorf ''auth: store dependency is nil''), w) | Some St \<Rightarrow>
      if \<not> HasPrefix raw KeyPrefix then (Inl ErrInvalidKey, w)
      else case HashKey (as_derive s) raw of
        Inl e \<Rightarrow> (Inl e, w)
      | Inr hash \<Rightarrow>
          (case ks_FindByHash St hash w of
             (Inl e, w1) \<Rightarrow> (Inl e, w1)
           | (Inr key, w1) \<Rightarrow>
               if k_Hash key \<noteq> hash then (Inl ErrInvalidKey, w1)
               else if k_RevokedAt key \<noteq> None then (Inl ErrRevokedKey, w1)
               else if required \<noteq> [] \<and> \<not> HasScope (k_Scopes key) required then (Inl ErrForbiddenScope, w1)
               else (Inr key, w1)))"

definition RevokeKey :: "'w key_service \<Rightarrow> string \<Rightarrow> 'w \<Rightarrow> api_key result \<times> 'w" where
  "RevokeKey s raw w =
     (case as_store s of None \<Rightarrow> (Inl (errorf ''auth: store dependency is nil''), w) | Some St \<Rightarrow>
      (case as_now s of None \<Rightarrow> (Inl (errorf ''auth: now dependency is nil''), w) | Some now \<Rightarrow>
       if \<not> HasPrefix raw KeyPrefix then (Inl ErrInvalidKey, w)
       else case HashKey (as_derive s) raw of
         Inl e \<Rightarrow> (Inl e, w)
       | Inr hash \<Rightarrow> ks_RevokeByHash St hash (now w) w))"

definition RevokeKeyByID :: "'w key_service \<Rightarrow> string \<Rightarrow> 'w \<Rightarrow> api_key result \<times> 'w" where
  "RevokeKeyByID s i w =
     (case as_store s of None \<Rightarrow> (Inl (errorf ''auth: store dependency is nil''), w) | Some St \<Rightarrow>
      (case as_now s of None \<Rightarrow> (Inl (errorf ''auth: now dependency is nil''), w) | Some now \<Rightarrow>
       if TrimSpace i = [] then (Inl ErrInvalidKey, w) else ks_RevokeByID St i (now w) w))"

definition ListKeys :: "'w key_service \<Rightarrow> 'w \<Rightarrow> api_key list result \<times> 'w" where
  "ListKeys s w =
     (case as_store s of None \<Rightarrow> (Inl (errorf ''auth: store dependency is nil''), w) | Some St \<Rightarrow> ks_List St w)"

section \<open>The store in memory\<close>

text \<open>The map is kept as a list of its entries; \<open>me_order\<close> is the order a \<open>range\<close> over it takes.\<close>

record 'x key_memory =
  mm_keys :: "(string \<times> api_key) list"
  mm_x :: 'x

record 'x mem_env =
  me_ctx :: "'x \<Rightarrow> goerr option"
  me_order :: "(string \<times> api_key) list \<Rightarrow> (string \<times> api_key) list"

definition put_key :: "string \<Rightarrow> api_key \<Rightarrow> (string \<times> api_key) list \<Rightarrow> (string \<times> api_key) list" where
  "put_key h k m = (if map_of m h = None then m @ [(h, k)] else map (\<lambda>(g, old). (g, if g = h then k else old)) m)"

definition mem_Create :: "'x mem_env \<Rightarrow> api_key \<Rightarrow> 'x key_memory \<Rightarrow> unit result \<times> 'x key_memory" where
  "mem_Create E key w =
     (case me_ctx E (mm_x w) of Some e \<Rightarrow> (Inl e, w) | None \<Rightarrow>
      if k_Hash key = [] then (Inl (errorf ''auth: key hash must not be empty''), w)
      else if map_of (mm_keys w) (k_Hash key) \<noteq> None then (Inl ErrDuplicateKey, w)
      else (Inr (), w\<lparr>mm_keys := put_key (k_Hash key) key (mm_keys w)\<rparr>))"

definition mem_FindByHash :: "'x mem_env \<Rightarrow> string \<Rightarrow> 'x key_memory \<Rightarrow> api_key result \<times> 'x key_memory" where
  "mem_FindByHash E hash w =
     (case me_ctx E (mm_x w) of Some e \<Rightarrow> (Inl e, w) | None \<Rightarrow>
      (case map_of (mm_keys w) hash of None \<Rightarrow> (Inl ErrInvalidKey, w) | Some key \<Rightarrow> (Inr key, w)))"

definition mem_RevokeByHash :: "'x mem_env \<Rightarrow> string \<Rightarrow> instant \<Rightarrow> 'x key_memory \<Rightarrow> api_key result \<times> 'x key_memory" where
  "mem_RevokeByHash E hash tm w =
     (case me_ctx E (mm_x w) of Some e \<Rightarrow> (Inl e, w) | None \<Rightarrow>
      (case map_of (mm_keys w) hash of
         None \<Rightarrow> (Inl ErrInvalidKey, w)
       | Some key \<Rightarrow> (let key' = key\<lparr>k_RevokedAt := Some tm\<rparr> in (Inr key', w\<lparr>mm_keys := put_key hash key' (mm_keys w)\<rparr>))))"

definition mem_RevokeByID :: "'x mem_env \<Rightarrow> string \<Rightarrow> instant \<Rightarrow> 'x key_memory \<Rightarrow> api_key result \<times> 'x key_memory" where
  "mem_RevokeByID E i tm w =
     (case me_ctx E (mm_x w) of Some e \<Rightarrow> (Inl e, w) | None \<Rightarrow>
      (case find (\<lambda>(h, k). k_ID k = i) (me_order E (mm_keys w)) of
         None \<Rightarrow> (Inl ErrInvalidKey, w)
       | Some (hash, key) \<Rightarrow>
           if k_RevokedAt key \<noteq> None then (Inr key, w)
           else (let key' = key\<lparr>k_RevokedAt := Some tm\<rparr> in (Inr key', w\<lparr>mm_keys := put_key hash key' (mm_keys w)\<rparr>))))"

definition mem_List :: "'x mem_env \<Rightarrow> 'x key_memory \<Rightarrow> api_key list result \<times> 'x key_memory" where
  "mem_List E w =
     (case me_ctx E (mm_x w) of Some e \<Rightarrow> (Inl e, w) | None \<Rightarrow>
      (Inr (sort_key (\<lambda>k. (k_CreatedAt k, k_ID k)) (map snd (me_order E (mm_keys w)))), w))"

definition MemoryStore :: "'x mem_env \<Rightarrow> 'x key_memory key_store" where
  "MemoryStore E = \<lparr>ks_Create = mem_Create E, ks_FindByHash = mem_FindByHash E,
     ks_RevokeByHash = mem_RevokeByHash E, ks_RevokeByID = mem_RevokeByID E, ks_List = mem_List E\<rparr>"


section \<open>The store in SQLite\<close>

text \<open>\<open>sql_exec\<close> and \<open>sql_query\<close> are a statement on the table \<open>api_key_metadata\<close>: \<open>se_fault\<close> may answer
  with an error of the engine, which leaves the table as it is.  The table has the primary key \<open>id\<close>
  and the unique column \<open>hash\<close>; timestamps are kept to the second.\<close>

record key_row =
  kr_id :: string
  kr_name :: string
  kr_hash :: string
  kr_scopes :: string
  kr_created_at :: stamp
  kr_revoked_at :: "stamp option"

record 'x key_table =
  kt_rows :: "key_row list"
  kt_x :: 'x

type_synonym 'x sql_env = "'x \<Rightarrow> string option \<times> 'x"

definition sql_run :: "'x sql_env \<Rightarrow> (key_row list \<Rightarrow> 'a result \<times> key_row list) \<Rightarrow> 'x key_table \<Rightarrow> 'a result \<times> 'x key_table" where
  "sql_run E f w =
     (case E (kt_x w) of
        (Some m, x) \<Rightarrow> (Inl (errorf m), w\<lparr>kt_x := x\<rparr>)
      | (None, x) \<Rightarrow> (case f (kt_rows w) of (r, t) \<Rightarrow> (r, w\<lparr>kt_rows := t, kt_x := x\<rparr>)))"

definition row_of_key :: "api_key \<Rightarrow> key_row" where
  "row_of_key k = \<lparr>kr_id = k_ID k, kr_name = k_Name k, kr_hash = k_Hash k, kr_scopes = encodeScopes (k_Scopes k),
     kr_created_at = formatTime (k_CreatedAt k), kr_revoked_at = None\<rparr>"

definition scanKey :: "key_row \<Rightarrow> api_key" where
  "scanKey r = \<lparr>k_ID = kr_id r, k_Name = kr_name r, k_Hash = kr_hash r, k_Scopes = decodeScopes (kr_scopes r),
     k_CreatedAt = kr_created_at r * second, k_RevokedAt = map_option (\<lambda>t. t * second) (kr_revoked_at r)\<rparr>"

definition insert_key :: "key_row \<Rightarrow> key_row list \<Rightarrow> unit result \<times> key_row list" where
  "insert_key r t =
     (if list_ex (\<lambda>o'. kr_id o' = kr_id r \<or> kr_hash o' = kr_hash r) t
      then (Inl (errorf ''constraint failed: UNIQUE constraint failed''), t) else (Inr (), t @ [r]))"

definition insert_key_if_new :: "key_row \<Rightarrow> key_row list \<Rightarrow> bool result \<times> key_row list" where
  "insert_key_if_new r t =
     (if list_ex (\<lambda>o'. kr_hash o' = kr_hash r) t then (Inr False, t)
      else case insert_key r t of (Inl e, t') \<Rightarrow> (Inl e, t') | (Inr _, t') \<Rightarrow> (Inr True, t'))"

definition select_key :: "(key_row \<Rightarrow> bool) \<Rightarrow> key_row list \<Rightarrow> key_row result \<times> key_row list" where
  "select_key p t = (case first_where p t of None \<Rightarrow> (Inl (GoErr ''sql: no rows in result set'' [ErrNoRows]), t) | Some r \<Rightarrow> (Inr r, t))"

definition sql_Create :: "'x sql_env \<Rightarrow> api_key \<Rightarrow> 'x key_table \<Rightarrow> unit result \<times> 'x key_table" where
  "sql_Create E key w =
     (if k_Hash key = [] then (Inl (errorf ''auth: key hash must not be empty''), w)
      else case sql_run E (insert_key (row_of_key key)) w of
        (Inl e, w1) \<Rightarrow> (Inl (wrapf ''auth: create key'' e), w1)
      | (Inr _, w1) \<Rightarrow> (Inr (), w1))"

definition CreateIfNotExists :: "'x sql_env \<Rightarrow> api_key \<Rightarrow> 'x key_table \<Rightarrow> bool result \<times> 'x key_table" where
  "CreateIfNotExists E key w =
     (if k_Hash key = [] then (Inl (errorf ''auth: key hash must not be empty''), w)
      else case sql_run E (insert_key_if_new (row_of_key key)) w of
        (Inl e, w1) \<Rightarrow> (Inl (wrapf ''auth: create key if not exists'' e), w1)
      | (Inr b, w1) \<Rightarrow> (Inr b, w1))"

definition find_key :: "string \<Rightarrow> (key_row \<Rightarrow> bool) \<Rightarrow> 'x sql_env \<Rightarrow> 'x key_table \<Rightarrow> api_key result \<times> 'x key_table" where
  "find_key what p E w =
     (case sql_run E (select_key p) w of
        (Inl e, w1) \<Rightarrow> (if errors_is e ErrNoRows then (Inl ErrInvalidKey, w1) else (Inl (wrapf what e), w1))
      | (Inr r, w1) \<Rightarrow> (Inr (scanKey r), w1))"

definition sql_FindByHash :: "'x sql_env \<Rightarrow> string \<Rightarrow> 'x key_table \<Rightarrow> api_key result \<times> 'x key_table" where
  "sql_FindByHash E hash = find_key ''auth: find key'' (\<lambda>r. kr_hash r = hash) E"

definition findByID :: "'x sql_env \<Rightarrow> string \<Rightarrow> 'x key_table \<Rightarrow> api_key result \<times> 'x key_table" where
  "findByID E i = find_key ''auth: find key by id'' (\<lambda>r. kr_id r = i) E"

definition sql_RevokeByHash :: "'x sql_env \<Rightarrow> string \<Rightarrow> instant \<Rightarrow> 'x key_table \<Rightarrow> api_key result \<times> 'x key_table" where
  "sql_RevokeByHash E hash tm w =
     (case sql_FindByHash E hash w of
        (Inl e, w1) \<Rightarrow> (Inl e, w1)
      | (Inr key, w1) \<Rightarrow>
          (case sql_run E (\<lambda>t. (Inr (), update_where (\<lambda>r. kr_hash r = hash) (\<lambda>r. r\<lparr>kr_revoked_at := Some (formatTime tm)\<rparr>) t)) w1 of
             (Inl e, w2) \<Rightarrow> (Inl (wrapf ''auth: revoke key'' e), w2)
           | (Inr _, w2) \<Rightarrow> (Inr (key\<lparr>k_RevokedAt := Some tm\<rparr>), w2)))"

definition sql_RevokeByID :: "'x sql_env \<Rightarrow> string \<Rightarrow> instant \<Rightarrow> 'x key_table \<Rightarrow> api_key result \<times> 'x key_table" where
  "sql_RevokeByID E i tm w =
     (case sql_run E (\<lambda>t. (Inr (), update_where (\<lambda>r. kr_id r = i \<and> kr_revoked_at r = None)
                              (\<lambda>r. r\<lparr>kr_revoked_at := Some (formatTime tm)\<rparr>) t)) w of
        (Inl e, w1) \<Rightarrow> (Inl (wrapf ''auth: revoke key by id'' e), w1)
      | (Inr _, w1) \<Rightarrow> findByID E i w1)"

definition sql_List :: "'x sql_env \<Rightarrow> 'x key_table \<Rightarrow> api_key list result \<times> 'x key_table" where
  "sql_List E w =
     (case sql_run E (\<lambda>t. (Inr (map scanKey (sort_key (\<lambda>r. (kr_created_at r, kr_id r)) t)), t)) w of
        (Inl e, w1) \<Rightarrow> (Inl (wrapf ''auth: list keys'' e), w1)
      | (Inr ks, w1) \<Rightarrow> (Inr ks, w1))"

definition SQLStore :: "'x sql_env \<Rightarrow> 'x key_table key_store" where
  "SQLStore E = \<lparr>ks_Create = sql_Create E, ks_FindByHash = sql_FindByHash E,
     ks_RevokeByHash = sql_RevokeByHash E, ks_RevokeByID = sql_RevokeByID E, ks_List = sql_List E\<rparr>"

section \<open>Configured keys\<close>

text \<open>A configured key, or why it is refused; \<open>i\<close> counts from 1.\<close>

definition webhook_key :: "(goerr \<Rightarrow> goerr) \<Rightarrow> (string \<Rightarrow> string result) \<Rightarrow> instant \<Rightarrow> int \<Rightarrow> string \<Rightarrow> api_key result" where
  "webhook_key hash_err derive now i raw =
     (if \<not> HasPrefix raw KeyPrefix then Inl (errorf (''webhook API key '' @ itoa i @ '': invalid format''))
      else case HashKey derive raw of
        Inl e \<Rightarrow> Inl (hash_err e)
      | Inr hash \<Rightarrow>
          if length hash < 16 then Inl (errorf (''webhook API key '' @ itoa i @ '': derived hash is too short''))
          else Inr \<lparr>k_ID = take 16 hash, k_Name = ''webhook-'' @ itoa i, k_Hash = hash, k_Scopes = [ScopeWebhook],
                    k_CreatedAt = now, k_RevokedAt = None\<rparr>)"

fun register_keys :: "(string \<Rightarrow> string result) \<Rightarrow> ('x key_table \<Rightarrow> instant) \<Rightarrow> 'x sql_env \<Rightarrow> int \<Rightarrow> string list
    \<Rightarrow> 'x key_table \<Rightarrow> unit result \<times> 'x key_table" where
  "register_keys derive now E i [] w = (Inr (), w)"
| "register_keys derive now E i (raw # raws) w =
     (if TrimSpace raw = [] then register_keys derive now E (i + 1) raws w
      else case webhook_key (\<lambda>e. e) derive (now w) i (TrimSpace raw) of
        Inl e \<Rightarrow> (Inl e, w)
      | Inr key \<Rightarrow>
          (case CreateIfNotExists E key w of
             (Inl e, w1) \<Rightarrow> (Inl e, w1)
           | (Inr _, w1) \<Rightarrow> register_keys derive now E (i + 1) raws w1))"

text \<open>\<open>auth.NewService\<close> on a store, with the random source, the clock and the derivation of the process.\<close>

definition key_service_on :: "'w key_store \<Rightarrow> (nat \<Rightarrow> 'w \<Rightarrow> string result \<times> 'w) \<Rightarrow> ('w \<Rightarrow> instant) \<Rightarrow> (string \<Rightarrow> string result)
    \<Rightarrow> 'w key_service" where
  "key_service_on St rand now derive = \<lparr>as_store = Some St, as_rand = Some rand, as_now = Some now, as_derive = derive\<rparr>"

definition keyService :: "(nat \<Rightarrow> 'x key_table \<Rightarrow> string result \<times> 'x key_table) \<Rightarrow> ('x key_table \<Rightarrow> instant)
    \<Rightarrow> (string \<Rightarrow> string result) \<Rightarrow> 'x sql_env \<Rightarrow> string list \<Rightarrow> 'x key_table \<Rightarrow> 'x key_table key_service result \<times> 'x key_table" where
  "keyService rand now derive E rawKeys w =
     (case register_keys derive now E 1 rawKeys w of
        (Inl e, w1) \<Rightarrow> (Inl e, w1)
      | (Inr _, w1) \<Rightarrow> (Inr (key_service_on (SQLStore E) rand now derive), w1))"

fun webhook_keys_loop :: "(string \<Rightarrow> string result) \<Rightarrow> instant \<Rightarrow> 'x mem_env \<Rightarrow> int \<Rightarrow> nat \<Rightarrow> string list
    \<Rightarrow> 'x key_memory \<Rightarrow> nat result \<times> 'x key_memory" where
  "webhook_keys_loop derive now E i created [] w = (Inr created, w)"
| "webhook_keys_loop derive now E i created (raw # raws) w =
     (if TrimSpace raw = [] then webhook_keys_loop derive now E (i + 1) created raws w
      else case webhook_key (wrapf (''hash webhook API key '' @ itoa i)) derive now i (TrimSpace raw) of
        Inl e \<Rightarrow> (Inl e, w)
      | Inr key \<Rightarrow>
          (case mem_Create E key w of
             (Inl e, w1) \<Rightarrow> (Inl (wrapf (''create webhook API key '' @ itoa i) e), w1)
           | (Inr _, w1) \<Rightarrow> webhook_keys_loop derive now E (i + 1) (created + 1) raws w1))"

definition NewWebhookService :: "(nat \<Rightarrow> 'x key_memory \<Rightarrow> string result \<times> 'x key_memory) \<Rightarrow> ('x key_memory \<Rightarrow> instant)
    \<Rightarrow> (string \<Rightarrow> string result) \<Rightarrow> 'x mem_env \<Rightarrow> string list \<Rightarrow> 'x \<Rightarrow> 'x key_memory key_service result \<times> 'x key_memory" where
  "NewWebhookService rand now derive E rawKeys x =
     (let w = \<lparr>mm_keys = [], mm_x = x\<rparr> in
      if rawKeys = [] then (Inl (errorf ''at least one webhook API key is required''), w)
      else case webhook_keys_loop derive (now w) E 1 0 rawKeys w of
        (Inl e, w1) \<Rightarrow> (Inl e, w1)
      | (Inr created, w1) \<Rightarrow>
          if created = 0 then (Inl (errorf ''at least one webhook API key is required''), w1)
          else (Inr (key_service_on (MemoryStore E) rand now derive), w1))"

end
