(* ===== verification/Api_Keys_Props.thy ===== *)
theory Api_Keys_Props
  imports Api_Keys
begin

text \<open>
  What the API keys promise.  \<open>key_store\<close> is the contract of \<open>auth.Store\<close> under any faults, over a
  view of the stored keys by hash; \<open>key_service_laws\<close> adds what the service needs of its random
  source, \<open>reliable_keys\<close> that lookups answer.  Both stores of the package provide the contract.
\<close>

section \<open>The view of a store\<close>

record key_info =
  ki_id :: string
  ki_name :: string
  ki_scopes :: "string list"
  ki_revoked :: bool

type_synonym key_view = "string \<rightharpoonup> key_info"

definition key_info :: "api_key \<Rightarrow> key_info" where
  "key_info k = \<lparr>ki_id = k_ID k, ki_name = k_Name k, ki_scopes = k_Scopes k, ki_revoked = (k_RevokedAt k \<noteq> None)\<rparr>"

definition revoke_info :: "key_info \<Rightarrow> key_info" where
  "revoke_info i = i\<lparr>ki_revoked := True\<rparr>"

definition valid_scopes :: "string set" where
  "valid_scopes = {ScopeWebhook, ScopeAdmin}"

definition revokes_id :: "string \<Rightarrow> key_view \<Rightarrow> key_view \<Rightarrow> bool" where
  "revokes_id i V V' \<longleftrightarrow> (\<exists>h k. V h = Some k \<and> ki_id k = i \<and> V' = V(h \<mapsto> revoke_info k))"

text \<open>\<open>key_kept V V'\<close>: every key of \<open>V\<close> is in \<open>V'\<close>, the same but perhaps revoked since.\<close>

definition key_kept :: "key_view \<Rightarrow> key_view \<Rightarrow> bool" where
  "key_kept V V' \<longleftrightarrow> (\<forall>h k. V h = Some k \<longrightarrow> V' h = Some k \<or> V' h = Some (revoke_info k))"

lemma revoke_info_simps [simp]:
  "ki_id (revoke_info i) = ki_id i" "ki_name (revoke_info i) = ki_name i" "ki_scopes (revoke_info i) = ki_scopes i"
  "ki_revoked (revoke_info i)" "revoke_info (revoke_info i) = revoke_info i"
  by (simp_all add: revoke_info_def)

lemma key_kept_refl [simp]: "key_kept V V"
  by (simp add: key_kept_def)

lemma key_kept_trans: "key_kept V V1 \<Longrightarrow> key_kept V1 V2 \<Longrightarrow> key_kept V V2"
  unfolding key_kept_def by (metis revoke_info_simps(5))

lemma key_kept_new: "V h = None \<Longrightarrow> key_kept V (V(h \<mapsto> k))"
  by (simp add: key_kept_def)

lemma key_kept_revoke: "V h = Some k \<Longrightarrow> key_kept V (V(h \<mapsto> revoke_info k))"
  by (simp add: key_kept_def)

lemma key_kept_revokes_id: "revokes_id i V V' \<Longrightarrow> key_kept V V'"
  by (auto simp: revokes_id_def intro: key_kept_revoke)

lemma norm_scopes_valid:
  "norm_scopes vs acc = Inr scs \<Longrightarrow> set acc \<subseteq> valid_scopes \<Longrightarrow> set scs \<subseteq> valid_scopes"
  by (induction vs acc rule: norm_scopes.induct) (auto simp: Let_def valid_scopes_def split: if_splits)

lemma NormalizeScopes_valid: "NormalizeScopes vs = Inr scs \<Longrightarrow> set scs \<subseteq> valid_scopes"
  by (auto simp: NormalizeScopes_def split: if_splits sum.splits dest!: norm_scopes_valid)

section \<open>The contract of a store\<close>

locale key_store =
  fixes St :: "'w key_store" and ok :: "'w \<Rightarrow> bool" and view :: "'w \<Rightarrow> key_view"
  assumes create: "\<And>w k r w'. ok w \<Longrightarrow> set (k_Scopes k) \<subseteq> valid_scopes \<Longrightarrow> k_RevokedAt k = None \<Longrightarrow> ks_Create St k w = (r, w')
      \<Longrightarrow> ok w' \<and> (case r of Inl _ \<Rightarrow> view w' = view w
                  | Inr _ \<Rightarrow> view w (k_Hash k) = None \<and> view w' = (view w)(k_Hash k \<mapsto> key_info k))"
    and lookup: "\<And>w h r w'. ok w \<Longrightarrow> ks_FindByHash St h w = (r, w')
      \<Longrightarrow> ok w' \<and> view w' = view w \<and> (\<forall>k. r = Inr k \<longrightarrow> k_Hash k = h \<and> view w h = Some (key_info k))"
    and revoke_hash: "\<And>w h t r w'. ok w \<Longrightarrow> ks_RevokeByHash St h t w = (r, w')
      \<Longrightarrow> ok w' \<and> (case r of Inl _ \<Rightarrow> view w' = view w
                  | Inr k \<Rightarrow> \<exists>i. view w h = Some i \<and> view w' = (view w)(h \<mapsto> revoke_info i))"
    and revoke_id: "\<And>w i t r w'. ok w \<Longrightarrow> ks_RevokeByID St i t w = (r, w')
      \<Longrightarrow> ok w' \<and> (view w' = view w \<and> (\<forall>k. r \<noteq> Inr k) \<or> revokes_id i (view w) (view w'))"
    and listing: "\<And>w r w'. ok w \<Longrightarrow> ks_List St w = (r, w') \<Longrightarrow> ok w' \<and> view w' = view w"

section \<open>Runs of the service\<close>

datatype key_op =
    DoCreate string "string list"
  | DoValidate string string
  | DoRevoke string
  | DoRevokeID string
  | DoList

datatype key_out = Created "created_key result" | Answered "api_key result" | Listed "api_key list result"

fun key_step :: "'w key_service \<Rightarrow> key_op \<Rightarrow> 'w \<Rightarrow> key_out \<times> 'w" where
  "key_step s (DoCreate name scopes) w = (case CreateKey s name scopes w of (r, w1) \<Rightarrow> (Created r, w1))"
| "key_step s (DoValidate raw required) w = (case ValidateKey s raw required w of (r, w1) \<Rightarrow> (Answered r, w1))"
| "key_step s (DoRevoke raw) w = (case RevokeKey s raw w of (r, w1) \<Rightarrow> (Answered r, w1))"
| "key_step s (DoRevokeID i) w = (case RevokeKeyByID s i w of (r, w1) \<Rightarrow> (Answered r, w1))"
| "key_step s DoList w = (case ListKeys s w of (r, w1) \<Rightarrow> (Listed r, w1))"

fun key_run :: "'w key_service \<Rightarrow> key_op list \<Rightarrow> 'w \<Rightarrow> (key_op \<times> key_out) list \<times> 'w" where
  "key_run s [] w = ([], w)"
| "key_run s (p # ps) w =
     (case key_step s p w of (out, w1) \<Rightarrow> (case key_run s ps w1 of (tr, w2) \<Rightarrow> ((p, out) # tr, w2)))"

text \<open>What a trace of a run says: which keys it issued, and which it revoked.\<close>

definition issued :: "(key_op \<times> key_out) list \<Rightarrow> string \<Rightarrow> string \<Rightarrow> string list \<Rightarrow> bool" where
  "issued tr h i scs \<longleftrightarrow>
     (\<exists>name scopes ck. (DoCreate name scopes, Created (Inr ck)) \<in> set tr \<and> NormalizeScopes scopes = Inr scs
        \<and> k_Hash (ck_Key ck) = h \<and> k_ID (ck_Key ck) = i)"

definition revoked_raw :: "(string \<Rightarrow> string result) \<Rightarrow> (key_op \<times> key_out) list \<Rightarrow> string \<Rightarrow> bool" where
  "revoked_raw derive tr h \<longleftrightarrow> (\<exists>raw k. (DoRevoke raw, Answered (Inr k)) \<in> set tr \<and> HashKey derive raw = Inr h)"

definition revoked_id :: "(key_op \<times> key_out) list \<Rightarrow> string \<Rightarrow> bool" where
  "revoked_id tr i \<longleftrightarrow> (\<exists>k. (DoRevokeID i, Answered (Inr k)) \<in> set tr)"

definition key_trace :: "(string \<Rightarrow> string result) \<Rightarrow> key_view \<Rightarrow> key_view \<Rightarrow> (key_op \<times> key_out) list \<Rightarrow> bool" where
  "key_trace derive V V' tr \<longleftrightarrow>
     key_kept V V'
     \<and> (\<forall>h k. V' h = Some k \<longrightarrow> V h = Some k \<or> (\<exists>k0. V h = Some k0 \<and> k = revoke_info k0)
                             \<or> V h = None \<and> issued tr h (ki_id k) (ki_scopes k))
     \<and> (\<forall>h. revoked_raw derive tr h \<longrightarrow> (\<exists>k. V' h = Some k \<and> ki_revoked k))
     \<and> (\<forall>i. revoked_id tr i \<longrightarrow> (\<exists>h k. V' h = Some k \<and> ki_id k = i \<and> ki_revoked k))"

lemma key_trace_Nil: "key_trace derive V V []"
  by (auto simp: key_trace_def revoked_raw_def revoked_id_def)

lemma key_kept_revoked: "key_kept V V' \<Longrightarrow> V h = Some k \<Longrightarrow> ki_revoked k \<Longrightarrow> \<exists>k'. V' h = Some k' \<and> ki_id k' = ki_id k \<and> ki_revoked k'"
  unfolding key_kept_def by (metis revoke_info_simps(1,4))

lemma key_trace_Cons:
  assumes "key_trace derive V V1 [e]" "key_trace derive V1 V2 tr"
  shows "key_trace derive V V2 (e # tr)"
proof -
  have kept: "key_kept V V1" "key_kept V1 V2" using assms by (simp_all add: key_trace_def)
  have mem: "issued [e] h i s \<Longrightarrow> issued (e # tr) h i s" "issued tr h i s \<Longrightarrow> issued (e # tr) h i s" for h i s
    by (auto simp: issued_def)
  have origin: "V h = Some k \<or> (\<exists>k0. V h = Some k0 \<and> k = revoke_info k0) \<or> V h = None \<and> issued (e # tr) h (ki_id k) (ki_scopes k)"
    if k: "V2 h = Some k" for h k
  proof -
    from assms(2) k have "V1 h = Some k \<or> (\<exists>k0. V1 h = Some k0 \<and> k = revoke_info k0) \<or> V1 h = None \<and> issued tr h (ki_id k) (ki_scopes k)"
      by (simp add: key_trace_def)
    then show ?thesis
    proof (elim disjE exE conjE)
      fix k0 assume 0: "V1 h = Some k0" "k = revoke_info k0"
      with assms(1) have "V h = Some k0 \<or> (\<exists>k1. V h = Some k1 \<and> k0 = revoke_info k1) \<or> V h = None \<and> issued [e] h (ki_id k0) (ki_scopes k0)"
        by (simp add: key_trace_def)
      with 0 mem(1) show ?thesis by auto
    next
      assume "V1 h = Some k"
      with assms(1) have "V h = Some k \<or> (\<exists>k1. V h = Some k1 \<and> k = revoke_info k1) \<or> V h = None \<and> issued [e] h (ki_id k) (ki_scopes k)"
        by (simp add: key_trace_def)
      with mem(1) show ?thesis by blast
    next
      assume "V1 h = None" "issued tr h (ki_id k) (ki_scopes k)"
      moreover have "V h = None" using kept(1) \<open>V1 h = None\<close> by (metis key_kept_def option.distinct(1) option.exhaust)
      ultimately show ?thesis using mem(2) by blast
    qed
  qed
  have raw: "\<exists>k. V2 h = Some k \<and> ki_revoked k" if "revoked_raw derive (e # tr) h" for h
  proof -
    have "revoked_raw derive [e] h \<or> revoked_raw derive tr h" using that by (auto simp: revoked_raw_def)
    then show ?thesis
    proof
      assume "revoked_raw derive [e] h"
      with assms(1) obtain k where "V1 h = Some k" "ki_revoked k" by (auto simp: key_trace_def)
      with key_kept_revoked [OF kept(2)] show ?thesis by blast
    qed (use assms(2) in \<open>simp add: key_trace_def\<close>)
  qed
  have rid: "\<exists>h k. V2 h = Some k \<and> ki_id k = i \<and> ki_revoked k" if "revoked_id (e # tr) i" for i
  proof -
    have "revoked_id [e] i \<or> revoked_id tr i" using that by (auto simp: revoked_id_def)
    then show ?thesis
    proof
      assume "revoked_id [e] i"
      with assms(1) obtain h k where "V1 h = Some k" "ki_id k = i" "ki_revoked k" by (auto simp: key_trace_def)
      with key_kept_revoked [OF kept(2)] show ?thesis by blast
    qed (use assms(2) in \<open>simp add: key_trace_def\<close>)
  qed
  show ?thesis using key_kept_trans [OF kept] origin raw rid unfolding key_trace_def by blast
qed


section \<open>Every run keeps the books\<close>

locale key_service_laws = key_store +
  fixes rand :: "nat \<Rightarrow> 'a \<Rightarrow> string result \<times> 'a" and now :: "'a \<Rightarrow> instant" and derive :: "string \<Rightarrow> string result"
  assumes entropy: "\<And>w n r w'. ok w \<Longrightarrow> rand n w = (r, w') \<Longrightarrow> ok w' \<and> view w' = view w"
begin

abbreviation svc :: "'a key_service" where
  "svc \<equiv> key_service_on St rand now derive"

lemma create_view:
  assumes "ok w" "CreateKey svc name scopes w = (r, w')"
  shows "ok w' \<and> (case r of Inl _ \<Rightarrow> view w' = view w
     | Inr ck \<Rightarrow> view w (k_Hash (ck_Key ck)) = None \<and> view w' = (view w)(k_Hash (ck_Key ck) \<mapsto> key_info (ck_Key ck))
         \<and> NormalizeScopes scopes = Inr (k_Scopes (ck_Key ck)) \<and> k_RevokedAt (ck_Key ck) = None
         \<and> HashKey derive (ck_Raw ck) = Inr (k_Hash (ck_Key ck)) \<and> HasPrefix (ck_Raw ck) KeyPrefix)"
proof (cases "NormalizeScopes scopes")
  case (Inl e)
  with assms show ?thesis by (auto simp: CreateKey_def key_service_on_def)
next
  case scs: (Inr scs)
  obtain g w1 where g: "generateKey rand w = (g, w1)" by fastforce
  obtain b w0 where b: "rand keyBytes w = (b, w0)" by fastforce
  have w1: "ok w1" "view w1 = view w"
    using entropy [OF assms(1) b] g b by (auto simp: generateKey_def split: sum.splits)
  have pre: "HasPrefix raw KeyPrefix" if "g = Inr raw" for raw
    using that g by (auto simp: generateKey_def HasPrefix_append split: prod.splits sum.splits)
  show ?thesis
  proof (cases "\<exists>raw hash. g = Inr raw \<and> HashKey derive raw = Inr hash \<and> 16 \<le> length hash")
    case False
    with assms scs g w1 show ?thesis
      by (auto simp: CreateKey_def key_service_on_def not_less split: sum.splits if_splits)
  next
    case True
    then obtain raw hash where h: "g = Inr raw" "HashKey derive raw = Inr hash" "16 \<le> length hash" by blast
    define key where "key = \<lparr>k_ID = take 16 hash, k_Name = TrimSpace name, k_Hash = hash, k_Scopes = scs,
                       k_CreatedAt = now w1, k_RevokedAt = None\<rparr>"
    obtain c w2 where c: "ks_Create St key w1 = (c, w2)" by fastforce
    have r: "r = map_sum id (\<lambda>_. \<lparr>ck_Raw = raw, ck_Key = key\<rparr>) c" "w' = w2"
      using assms(2) scs g h c by (auto simp: CreateKey_def key_service_on_def key_def Let_def split: sum.splits)
    have "set (k_Scopes key) \<subseteq> valid_scopes" using NormalizeScopes_valid [OF scs] by (simp add: key_def)
    from create [OF w1(1) this _ c] h pre show ?thesis by (auto simp: r w1(2) key_def scs split: sum.splits)
  qed
qed

lemma validate_view:
  assumes "ok w" "ValidateKey svc raw required w = (r, w')"
  shows "ok w' \<and> view w' = view w
    \<and> (\<forall>k. r = Inr k \<longrightarrow> HasPrefix raw KeyPrefix \<and> HashKey derive raw = Inr (k_Hash k) \<and> view w (k_Hash k) = Some (key_info k)
         \<and> k_RevokedAt k = None \<and> HasScope (k_Scopes k) required)"
proof (cases "HashKey derive raw")
  case (Inl e)
  with assms show ?thesis by (auto simp: ValidateKey_def key_service_on_def split: if_splits)
next
  case (Inr h)
  obtain f w1 where f: "ks_FindByHash St h w = (f, w1)" by fastforce
  from lookup [OF assms(1) f] assms Inr f show ?thesis
    by (auto simp: ValidateKey_def key_service_on_def HasScope_def split: if_splits sum.splits)
qed

lemma revoke_view:
  assumes "ok w" "RevokeKey svc raw w = (r, w')"
  shows "ok w' \<and> (case r of Inl _ \<Rightarrow> view w' = view w
    | Inr k \<Rightarrow> \<exists>h i. HashKey derive raw = Inr h \<and> view w h = Some i \<and> view w' = (view w)(h \<mapsto> revoke_info i))"
proof (cases "HashKey derive raw")
  case (Inl e)
  with assms show ?thesis by (auto simp: RevokeKey_def key_service_on_def split: if_splits)
next
  case (Inr h)
  with assms revoke_hash [OF assms(1), of h "now w" r w'] show ?thesis
    by (auto simp: RevokeKey_def key_service_on_def split: if_splits sum.splits)
qed

lemma revoke_id_view:
  assumes "ok w" "RevokeKeyByID svc i w = (r, w')"
  shows "ok w' \<and> (view w' = view w \<and> (\<forall>k. r \<noteq> Inr k) \<or> revokes_id i (view w) (view w'))"
  using assms revoke_id [OF assms(1), of i "now w" r w'] by (auto simp: RevokeKeyByID_def key_service_on_def split: if_splits)

lemma step_trace:
  assumes "ok w" "key_step svc p w = (out, w')"
  shows "ok w' \<and> key_trace derive (view w) (view w') [(p, out)]"
proof (cases p)
  case (DoCreate name scopes)
  then obtain r where r: "CreateKey svc name scopes w = (r, w')" "out = Created r" using assms(2) by (auto split: prod.splits)
  note c = create_view [OF assms(1) r(1)]
  show ?thesis
  proof (cases r)
    case (Inl e)
    with c r show ?thesis by (auto simp: key_trace_def revoked_raw_def revoked_id_def)
  next
    case (Inr ck)
    with c have "issued [(p, out)] (k_Hash (ck_Key ck)) (k_ID (ck_Key ck)) (k_Scopes (ck_Key ck))"
      using r DoCreate by (auto simp: issued_def)
    with c Inr r DoCreate show ?thesis
      by (auto simp: key_trace_def revoked_raw_def revoked_id_def key_info_def intro: key_kept_new)
  qed
next
  case (DoValidate raw required)
  with assms validate_view [OF assms(1)] show ?thesis
    by (fastforce simp: key_trace_def revoked_raw_def revoked_id_def split: prod.splits)
next
  case (DoRevoke raw)
  then obtain r where r: "RevokeKey svc raw w = (r, w')" "out = Answered r" using assms(2) by (auto split: prod.splits)
  from revoke_view [OF assms(1) r(1)] r DoRevoke show ?thesis
    by (auto simp: key_trace_def revoked_raw_def revoked_id_def key_kept_revoke split: sum.splits if_splits)
next
  case (DoRevokeID i)
  then obtain r where r: "RevokeKeyByID svc i w = (r, w')" "out = Answered r" using assms(2) by (auto split: prod.splits)
  from revoke_id_view [OF assms(1) r(1)] r DoRevokeID show ?thesis
    by (auto simp: key_trace_def revoked_raw_def revoked_id_def revokes_id_def key_kept_revoke split: if_splits)
next
  case DoList
  with assms listing [OF assms(1), of "fst (ks_List St w)" w'] show ?thesis
    by (auto simp: key_trace_def revoked_raw_def revoked_id_def ListKeys_def key_service_on_def split: prod.splits)
qed

lemma run_trace: "ok w \<Longrightarrow> key_run svc ps w = (tr, w') \<Longrightarrow> ok w' \<and> key_trace derive (view w) (view w') tr"
proof (induction ps arbitrary: w tr)
  case Nil
  then show ?case by (simp add: key_trace_Nil)
next
  case (Cons p ps)
  obtain out w1 where 1: "key_step svc p w = (out, w1)" by fastforce
  obtain tr1 where 2: "key_run svc ps w1 = (tr1, w')" "tr = (p, out) # tr1"
    using Cons.prems(2) 1 by (auto split: prod.splits)
  note s = step_trace [OF Cons.prems(1) 1]
  with Cons.IH [OF _ 2(1)] 2(2) show ?case by (auto intro: key_trace_Cons)
qed

lemma validated_after_run:
  assumes "ok w" "key_run svc ps w = (tr, w1)" "ValidateKey svc raw required w1 = (Inr k, w2)"
  shows "HasPrefix raw KeyPrefix \<and> HashKey derive raw = Inr (k_Hash k) \<and> HasScope (k_Scopes k) required
    \<and> (view w (k_Hash k) = Some (key_info k) \<or> view w (k_Hash k) = None \<and> issued tr (k_Hash k) (k_ID k) (k_Scopes k))
    \<and> \<not> revoked_raw derive tr (k_Hash k)"
proof -
  note r = run_trace [OF assms(1,2)]
  then have "ok w1" by simp
  note v = validate_view [OF this assms(3)]
  then have k: "view w1 (k_Hash k) = Some (key_info k)" "\<not> ki_revoked (key_info k)" by (auto simp: key_info_def)
  with r have "view w (k_Hash k) = Some (key_info k) \<or> view w (k_Hash k) = None \<and> issued tr (k_Hash k) (k_ID k) (k_Scopes k)"
    unfolding key_trace_def by (metis key_info.select_convs(1,3) key_info_def revoke_info_simps(4))
  moreover have "\<not> revoked_raw derive tr (k_Hash k)" using r k unfolding key_trace_def by auto
  ultimately show ?thesis using v by blast
qed

end

text \<open>When no two keys share an id, a revocation by id names the key.\<close>

locale unique_key_ids = key_service_laws +
  assumes unique: "\<And>w h i h' i'. ok w \<Longrightarrow> view w h = Some i \<Longrightarrow> view w h' = Some i' \<Longrightarrow> ki_id i = ki_id i' \<Longrightarrow> h = h'"
begin

lemma validated_not_revoked_id:
  assumes "ok w" "key_run svc ps w = (tr, w1)" "ValidateKey svc raw required w1 = (Inr k, w2)"
  shows "\<not> revoked_id tr (k_ID k)"
proof
  assume "revoked_id tr (k_ID k)"
  note r = run_trace [OF assms(1,2)]
  then have o1: "ok w1" by simp
  from r \<open>revoked_id tr (k_ID k)\<close> obtain h i where i: "view w1 h = Some i" "ki_id i = k_ID k" "ki_revoked i"
    unfolding key_trace_def by blast
  from validate_view [OF o1 assms(3)] have v: "view w1 (k_Hash k) = Some (key_info k)" "\<not> ki_revoked (key_info k)"
    by (auto simp: key_info_def)
  have "h = k_Hash k" by (rule unique [OF o1 i(1) v(1)]) (simp add: i(2) key_info_def)
  with i v show False by simp
qed

end

text \<open>A store that answers its lookups, and reports no failure of a revocation it has carried out.\<close>

locale reliable_keys = key_service_laws +
  assumes found: "\<And>w h i. ok w \<Longrightarrow> view w h = Some i \<Longrightarrow> \<exists>k w'. ks_FindByHash St h w = (Inr k, w')"
    and settled: "\<And>w i t e w'. ok w \<Longrightarrow> ks_RevokeByID St i t w = (Inl e, w') \<Longrightarrow> view w' = view w"
begin

lemma validates:
  assumes "ok w" "HasPrefix raw KeyPrefix" "HashKey derive raw = Inr h" "view w h = Some i" "\<not> ki_revoked i"
    "HasScope (ki_scopes i) required"
  shows "\<exists>k w'. ValidateKey svc raw required w = (Inr k, w') \<and> key_info k = i"
proof -
  obtain k w' where f: "ks_FindByHash St h w = (Inr k, w')" using found [OF assms(1,4)] by blast
  with lookup [OF assms(1) f] assms show ?thesis
    by (auto simp: ValidateKey_def key_service_on_def key_info_def)
qed

text \<open>A key is revoked only by a revocation that succeeded.\<close>

lemma run_revokes:
  assumes "ok w" "key_run svc ps w = (tr, w')" "view w h = Some i" "\<not> revoked_raw derive tr h" "\<not> revoked_id tr (ki_id i)"
  shows "view w' h = Some i"
  using assms
proof (induction ps arbitrary: w tr)
  case Nil
  then show ?case by simp
next
  case (Cons p ps)
  obtain out w1 where 1: "key_step svc p w = (out, w1)" by fastforce
  obtain tr1 where 2: "key_run svc ps w1 = (tr1, w')" "tr = (p, out) # tr1"
    using Cons.prems(2) 1 by (auto split: prod.splits)
  have ok1: "ok w1" using step_trace [OF Cons.prems(1) 1] by simp
  have not: "\<not> revoked_raw derive tr1 h" "\<not> revoked_id tr1 (ki_id i)" "\<not> revoked_raw derive [(p, out)] h" "\<not> revoked_id [(p, out)] (ki_id i)"
    using Cons.prems(4,5) 2(2) by (auto simp: revoked_raw_def revoked_id_def)
  have "view w1 h = Some i"
  proof (cases p)
    case (DoCreate name scopes)
    then obtain r where r: "CreateKey svc name scopes w = (r, w1)" using 1 by (auto split: prod.splits)
    from create_view [OF Cons.prems(1) r] Cons.prems(3) show ?thesis by (cases r) auto
  next
    case (DoValidate raw required)
    with 1 validate_view [OF Cons.prems(1)] Cons.prems(3) show ?thesis by (fastforce split: prod.splits)
  next
    case (DoRevoke raw)
    then obtain r where r: "RevokeKey svc raw w = (r, w1)" "out = Answered r" using 1 by (auto split: prod.splits)
    from revoke_view [OF Cons.prems(1) r(1)] r(2) not(3) DoRevoke Cons.prems(3) show ?thesis
      by (cases r) (auto simp: revoked_raw_def)
  next
    case (DoRevokeID i')
    then obtain r where r: "RevokeKeyByID svc i' w = (r, w1)" "out = Answered r" using 1 by (auto split: prod.splits)
    show ?thesis
    proof (cases r)
      case (Inl e)
      then have "view w1 = view w"
        using r(1) settled [OF Cons.prems(1)] by (auto simp: RevokeKeyByID_def key_service_on_def split: if_splits)
      with Cons.prems(3) show ?thesis by simp
    next
      case (Inr k)
      with not(4) r(2) DoRevokeID have "i' \<noteq> ki_id i" by (auto simp: revoked_id_def)
      with revoke_id_view [OF Cons.prems(1) r(1)] Inr Cons.prems(3) show ?thesis by (auto simp: revokes_id_def)
    qed
  next
    case DoList
    with 1 listing [OF Cons.prems(1), of "fst (ks_List St w)" w1] Cons.prems(3) show ?thesis
      by (auto simp: ListKeys_def key_service_on_def split: prod.splits)
  qed
  from Cons.IH [OF ok1 2(1) this not(1,2)] show ?case .
qed

lemma issued_key_validates:
  assumes "ok w" "CreateKey svc name scopes w = (Inr ck, w1)" "key_run svc ps w1 = (tr, w2)"
    "\<not> revoked_raw derive tr (k_Hash (ck_Key ck))" "\<not> revoked_id tr (k_ID (ck_Key ck))"
    "HasScope (k_Scopes (ck_Key ck)) required"
  shows "\<exists>k w'. ValidateKey svc (ck_Raw ck) required w2 = (Inr k, w') \<and> key_info k = key_info (ck_Key ck)"
proof -
  note c = create_view [OF assms(1,2), simplified]
  then have v: "view w1 (k_Hash (ck_Key ck)) = Some (key_info (ck_Key ck))" and o1: "ok w1" by simp_all
  have "view w2 (k_Hash (ck_Key ck)) = Some (key_info (ck_Key ck))"
    by (rule run_revokes [OF o1 assms(3) v assms(4)]) (use assms(5) in \<open>simp add: key_info_def\<close>)
  moreover have "ok w2" using run_trace [OF o1 assms(3)] by simp
  ultimately show ?thesis using c assms(6) by (intro validates) (auto simp: key_info_def)
qed

end

section \<open>SQLite\<close>

definition wf_keys :: "key_row list \<Rightarrow> bool" where
  "wf_keys t \<longleftrightarrow> distinct (map kr_id t) \<and> distinct (map kr_hash t)"

definition row_view :: "key_row list \<Rightarrow> key_view" where
  "row_view t h = map_option (\<lambda>r. key_info (scanKey r)) (first_where (\<lambda>r. kr_hash r = h) t)"

definition table_rand :: "(nat \<Rightarrow> 'x \<Rightarrow> string result \<times> 'x) \<Rightarrow> nat \<Rightarrow> 'x key_table \<Rightarrow> string result \<times> 'x key_table" where
  "table_rand rand n w = (case rand n (kt_x w) of (r, x) \<Rightarrow> (r, w\<lparr>kt_x := x\<rparr>))"

definition table_now :: "('x \<Rightarrow> instant) \<Rightarrow> 'x key_table \<Rightarrow> instant" where
  "table_now now w = now (kt_x w)"

lemma row_view_mem: "wf_keys t \<Longrightarrow> r \<in> set t \<Longrightarrow> row_view t (kr_hash r) = Some (key_info (scanKey r))"
  by (simp add: row_view_def first_where_key wf_keys_def)

lemma row_view_None: "row_view t h = None \<longleftrightarrow> h \<notin> kr_hash ` set t"
  by (auto simp: row_view_def first_where_None)

lemma row_view_Some: "row_view t h = Some i \<Longrightarrow> \<exists>r \<in> set t. kr_hash r = h \<and> i = key_info (scanKey r)"
  by (auto simp: row_view_def dest: first_where_Some)

lemma row_view_snoc: "h \<notin> kr_hash ` set t \<Longrightarrow> kr_hash r = h \<Longrightarrow> row_view (t @ [r]) = (row_view t)(h \<mapsto> key_info (scanKey r))"
proof -
  assume "h \<notin> kr_hash ` set t" "kr_hash r = h"
  moreover from this have "find (\<lambda>r. kr_hash r = h) t = None" by (metis (mono_tags, lifting) find_None_iff imageI)
  ultimately show ?thesis
    by (auto simp: row_view_def first_where_def fun_eq_iff find_append split: option.split)
qed

lemma row_view_revoke:
  assumes "wf_keys t" "r \<in> set t" "\<And>s. s \<in> set t \<Longrightarrow> p s \<longleftrightarrow> s = r"
  shows "row_view (update_where p (\<lambda>r. r\<lparr>kr_revoked_at := Some tm\<rparr>) t)
       = (row_view t)(kr_hash r \<mapsto> revoke_info (key_info (scanKey r)))"
proof
  fix h
  let ?t = "update_where p (\<lambda>r. r\<lparr>kr_revoked_at := Some tm\<rparr>) t"
  have wf: "wf_keys ?t" using assms(1) unfolding wf_keys_def
    by (subst (1 2) map_update_where_frame) auto
  show "row_view ?t h = ((row_view t)(kr_hash r \<mapsto> revoke_info (key_info (scanKey r)))) h"
  proof (cases "\<exists>s \<in> set t. kr_hash s = h")
    case False
    then have "row_view ?t h = None" "row_view t h = None" "h \<noteq> kr_hash r"
      using assms(2) by (auto simp: row_view_None table_simps)
    then show ?thesis by simp
  next
    case True
    then obtain s where s: "s \<in> set t" "kr_hash s = h" by blast
    let ?s = "if p s then s\<lparr>kr_revoked_at := Some tm\<rparr> else s"
    have "?s \<in> set ?t" using s(1) by (auto simp: table_simps)
    from row_view_mem [OF wf this] s have "row_view ?t h = Some (key_info (scanKey ?s))" by (simp split: if_splits)
    moreover have "p s \<longleftrightarrow> h = kr_hash r"
      using assms s by (auto simp: wf_keys_def intro: distinct_key_unique)
    moreover have "row_view t h = Some (key_info (scanKey s))" using row_view_mem [OF assms(1) s(1)] s(2) by simp
    ultimately show ?thesis
      using assms(3) [OF s(1)] by (auto simp: key_info_def scanKey_def revoke_info_def)
  qed
qed


lemma decode_encode_scopes:
  assumes "set scs \<subseteq> valid_scopes"
  shows "decodeScopes (encodeScopes scs) = scs"
proof (cases "scs = []")
  case True
  have "TrimSpace [] = []" by (rule TrimSpace_plain) (simp add: plain_def)
  with True show ?thesis by (simp add: decodeScopes_def encodeScopes_def)
next
  case False
  have v: "CHR '','' \<notin> set x \<and> x \<noteq> [] \<and> TrimSpace x = x" if "x \<in> set scs" for x
  proof -
    from that assms have "x = ''webhook'' \<or> x = ''admin''" by (auto simp: valid_scopes_def ScopeWebhook_def ScopeAdmin_def)
    then show ?thesis by (elim disjE) (simp_all add: TrimSpace_plain plain_def)
  qed
  then have "split_on (CHR '','') (join_with (CHR '','') scs) = scs" using False by (intro split_join) auto
  moreover have "filter (\<lambda>v. v \<noteq> []) (map TrimSpace scs) = scs" using v by (induction scs) auto
  ultimately show ?thesis by (simp add: decodeScopes_def encodeScopes_def)
qed

lemma key_info_row:
  "set (k_Scopes k) \<subseteq> valid_scopes \<Longrightarrow> k_RevokedAt k = None \<Longrightarrow> key_info (scanKey (row_of_key k)) = key_info k"
  by (simp add: key_info_def scanKey_def row_of_key_def decode_encode_scopes)

lemma sql_run_cases:
  assumes "sql_run E f w = (r, w')"
  obtains (fault) m where "r = Inl (errorf m)" "kt_rows w' = kt_rows w"
  | (ran) "f (kt_rows w) = (r, kt_rows w')"
  using assms by (auto simp: sql_run_def split: prod.splits option.splits)

lemma insert_key_view:
  assumes "wf_keys t" "insert_key r t = (q, t')"
  shows "wf_keys t' \<and> (case q of Inl _ \<Rightarrow> t' = t
     | Inr _ \<Rightarrow> row_view t (kr_hash r) = None \<and> row_view t' = (row_view t)(kr_hash r \<mapsto> key_info (scanKey r)))"
proof (cases q)
  case (Inl e)
  with assms show ?thesis by (auto simp: insert_key_def split: if_splits)
next
  case (Inr u)
  then have t': "t' = t @ [r]" "\<forall>s \<in> set t. kr_id s \<noteq> kr_id r \<and> kr_hash s \<noteq> kr_hash r"
    using assms(2) by (auto simp: insert_key_def list_ex_iff split: if_splits)
  then have "kr_hash r \<notin> kr_hash ` set t" by auto
  with t' assms(1) Inr show ?thesis by (auto simp: row_view_snoc row_view_None wf_keys_def)
qed

lemma find_key_view:
  assumes "find_key what p E w = (q, w')"
  shows "kt_rows w' = kt_rows w \<and> (\<forall>k. q = Inr k \<longrightarrow> (\<exists>r \<in> set (kt_rows w). p r \<and> k = scanKey r))"
proof -
  obtain x w1 where x: "sql_run E (select_key p) w = (x, w1)" by fastforce
  then have "kt_rows w1 = kt_rows w \<and> (\<forall>r. x = Inr r \<longrightarrow> r \<in> set (kt_rows w) \<and> p r)"
    by (cases rule: sql_run_cases) (auto simp: select_key_def dest: first_where_Some split: option.splits)
  with assms x show ?thesis by (auto simp: find_key_def split: sum.splits if_splits)
qed

interpretation sqlk: key_store "SQLStore E" "\<lambda>w. wf_keys (kt_rows w)" "\<lambda>w. row_view (kt_rows w)"
  for E :: "'x sql_env"
proof (unfold_locales, goal_cases)
  case (1 w k r w')
  obtain q w1 where q: "sql_run E (insert_key (row_of_key k)) w = (q, w1)" by fastforce
  have "wf_keys (kt_rows w1) \<and> (case q of Inl _ \<Rightarrow> kt_rows w1 = kt_rows w
     | Inr _ \<Rightarrow> row_view (kt_rows w) (k_Hash k) = None \<and> row_view (kt_rows w1) = (row_view (kt_rows w))(k_Hash k \<mapsto> key_info k))"
    using q
  proof (cases rule: sql_run_cases)
    case ran
    have "kr_hash (row_of_key k) = k_Hash k" by (simp add: row_of_key_def)
    with insert_key_view [OF 1(1) ran] 1(2,3) show ?thesis by (auto simp: key_info_row split: sum.splits)
  qed (use 1(1) in simp)
  with 1(1,4) q show ?case by (auto simp: SQLStore_def sql_Create_def split: if_splits sum.splits)
next
  case (2 w h r w')
  then have f: "find_key ''auth: find key'' (\<lambda>r. kr_hash r = h) E w = (r, w')" by (simp add: SQLStore_def sql_FindByHash_def)
  from find_key_view [OF f] 2(1) row_view_mem [OF 2(1)] show ?case by (fastforce simp: scanKey_def)
next
  case (3 w h t r w')
  obtain q w1 where q: "sql_FindByHash E h w = (q, w1)" by fastforce
  then have f: "find_key ''auth: find key'' (\<lambda>r. kr_hash r = h) E w = (q, w1)" by (simp add: sql_FindByHash_def)
  note fv = find_key_view [OF f]
  show ?case
  proof (cases q)
    case (Inl e)
    with 3 q fv show ?thesis by (auto simp: SQLStore_def sql_RevokeByHash_def)
  next
    case (Inr k)
    with fv obtain row where row: "row \<in> set (kt_rows w)" "kr_hash row = h" "k = scanKey row" by blast
    let ?f = "\<lambda>t'. (Inr () :: unit result, update_where (\<lambda>r. kr_hash r = h) (\<lambda>r. r\<lparr>kr_revoked_at := Some (formatTime t)\<rparr>) t')"
    obtain u w2 where u: "sql_run E ?f w1 = (u, w2)" by fastforce
    have key: "s \<in> set (kt_rows w) \<Longrightarrow> kr_hash s = h \<longleftrightarrow> s = row" for s
      using row 3(1) by (auto simp: wf_keys_def intro: distinct_key_unique)
    let ?t = "update_where (\<lambda>r. kr_hash r = h) (\<lambda>r. r\<lparr>kr_revoked_at := Some (formatTime t)\<rparr>) (kt_rows w)"
    have wf: "wf_keys ?t" using 3(1) unfolding wf_keys_def by (subst (1 2) map_update_where_frame) auto
    have "kt_rows w2 = (case u of Inl _ \<Rightarrow> kt_rows w | Inr _ \<Rightarrow> ?t)"
      using u fv by (cases rule: sql_run_cases) auto
    with wf 3(1) row_view_revoke [OF 3(1) row(1) key, of "formatTime t"] row(2)
    have "wf_keys (kt_rows w2) \<and> (case u of Inl _ \<Rightarrow> kt_rows w2 = kt_rows w
        | Inr _ \<Rightarrow> row_view (kt_rows w2) = (row_view (kt_rows w))(h \<mapsto> revoke_info (key_info (scanKey row))))"
      by (cases u) auto
    moreover have "row_view (kt_rows w) h = Some (key_info (scanKey row))" using row_view_mem [OF 3(1) row(1)] row(2) by simp
    ultimately show ?thesis using 3(2) q Inr u by (auto simp: SQLStore_def sql_RevokeByHash_def split: sum.splits)
  qed
next
  case (4 w i t r w')
  let ?p = "\<lambda>r. kr_id r = i \<and> kr_revoked_at r = None"
  let ?f = "\<lambda>t'. (Inr () :: unit result, update_where ?p (\<lambda>r. r\<lparr>kr_revoked_at := Some (formatTime t)\<rparr>) t')"
  obtain q w1 where q: "sql_run E ?f w = (q, w1)" by fastforce
  have wf1: "wf_keys (update_where ?p (\<lambda>r. r\<lparr>kr_revoked_at := Some (formatTime t)\<rparr>) (kt_rows w))"
    using 4(1) unfolding wf_keys_def by (subst (1 2) map_update_where_frame) auto
  have view1: "revokes_id i (row_view (kt_rows w)) (row_view (update_where ?p (\<lambda>r. r\<lparr>kr_revoked_at := Some (formatTime t)\<rparr>) (kt_rows w)))"
    if row: "row \<in> set (kt_rows w)" "kr_id row = i" for row
  proof -
    have v: "row_view (kt_rows w) (kr_hash row) = Some (key_info (scanKey row))" by (rule row_view_mem [OF 4(1) row(1)])
    have key: "s \<in> set (kt_rows w) \<Longrightarrow> kr_id s = i \<longleftrightarrow> s = row" for s
      using row 4(1) by (auto simp: wf_keys_def intro: distinct_key_unique)
    show ?thesis
    proof (cases "kr_revoked_at row = None")
      case True
      have "row_view (update_where ?p (\<lambda>r. r\<lparr>kr_revoked_at := Some (formatTime t)\<rparr>) (kt_rows w))
          = (row_view (kt_rows w))(kr_hash row \<mapsto> revoke_info (key_info (scanKey row)))"
        by (rule row_view_revoke [OF 4(1) row(1)]) (use key True in blast)
      with v row(2) show ?thesis unfolding revokes_id_def
        by (intro exI [of _ "kr_hash row"] exI [of _ "key_info (scanKey row)"]) (simp add: key_info_def scanKey_def)
    next
      case False
      then have "update_where ?p (\<lambda>r. r\<lparr>kr_revoked_at := Some (formatTime t)\<rparr>) (kt_rows w) = kt_rows w"
        using key by (intro update_where_none) auto
      moreover have "revoke_info (key_info (scanKey row)) = key_info (scanKey row)"
        using False by (simp add: key_info_def scanKey_def revoke_info_def)
      then have "(row_view (kt_rows w))(kr_hash row \<mapsto> revoke_info (key_info (scanKey row))) = row_view (kt_rows w)"
        using v by (simp add: fun_upd_idem)
      ultimately show ?thesis using v row(2) unfolding revokes_id_def
        by (intro exI [of _ "kr_hash row"] exI [of _ "key_info (scanKey row)"]) (simp add: key_info_def scanKey_def)
    qed
  qed
  have none: "update_where ?p (\<lambda>r. r\<lparr>kr_revoked_at := Some (formatTime t)\<rparr>) (kt_rows w) = kt_rows w"
    if "\<forall>row \<in> set (kt_rows w). kr_id row \<noteq> i"
    using that by (intro update_where_none) auto
  show ?case
    using q
  proof (cases rule: sql_run_cases)
    case (fault m)
    with 4 q show ?thesis by (auto simp: SQLStore_def sql_RevokeByID_def)
  next
    case ran
    then have f: "find_key ''auth: find key by id'' (\<lambda>r. kr_id r = i) E w1 = (r, w')"
      using 4(2) q by (auto simp: SQLStore_def sql_RevokeByID_def findByID_def)
    note fv = find_key_view [OF f]
    have rows: "kt_rows w1 = update_where ?p (\<lambda>r. r\<lparr>kr_revoked_at := Some (formatTime t)\<rparr>) (kt_rows w)" using ran by simp
    show ?thesis
    proof (cases "\<exists>row \<in> set (kt_rows w). kr_id row = i")
      case True
      with view1 wf1 fv rows show ?thesis by auto
    next
      case False
      with none fv rows 4(1) show ?thesis by fastforce
    qed
  qed
next
  case (5 w r w')
  then show ?case by (auto simp: SQLStore_def sql_List_def sql_run_def split: prod.splits option.splits sum.splits)
qed


definition sql_key_service :: "(nat \<Rightarrow> 'x \<Rightarrow> string result \<times> 'x) \<Rightarrow> ('x \<Rightarrow> instant) \<Rightarrow> (string \<Rightarrow> string result)
    \<Rightarrow> 'x sql_env \<Rightarrow> 'x key_table key_service" where
  "sql_key_service rand now derive E = key_service_on (SQLStore E) (table_rand rand) (table_now now) derive"

interpretation sqls: unique_key_ids "SQLStore E" "\<lambda>w. wf_keys (kt_rows w)" "\<lambda>w. row_view (kt_rows w)"
    "table_rand rand" "table_now now" derive
  for E :: "'x sql_env" and rand now derive
proof (unfold_locales, goal_cases)
  case (1 w n r w')
  then show ?case by (auto simp: table_rand_def split: prod.splits)
next
  case (2 w h i h' i')
  then obtain r r' where "r \<in> set (kt_rows w)" "kr_hash r = h" "i = key_info (scanKey r)"
    "r' \<in> set (kt_rows w)" "kr_hash r' = h'" "i' = key_info (scanKey r')"
    by (blast dest: row_view_Some)
  moreover from this 2(4) have "kr_id r = kr_id r'" by (simp add: key_info_def scanKey_def)
  ultimately show ?case using 2(1) by (auto simp: wf_keys_def dest: distinct_key_unique)
qed

definition no_faults :: "'x sql_env" where
  "no_faults x = (None, x)"

lemma sql_run_no_faults: "sql_run no_faults f w = (case f (kt_rows w) of (r, t) \<Rightarrow> (r, w\<lparr>kt_rows := t\<rparr>))"
  by (cases "f (kt_rows w)") (simp add: sql_run_def no_faults_def)

lemma RevokeByID_no_faults:
  "sql_RevokeByID no_faults i tm w =
     (let t = update_where (\<lambda>r. kr_id r = i \<and> kr_revoked_at r = None) (\<lambda>r. r\<lparr>kr_revoked_at := Some (formatTime tm)\<rparr>) (kt_rows w)
      in (case first_where (\<lambda>r. kr_id r = i) t of None \<Rightarrow> Inl ErrInvalidKey | Some r \<Rightarrow> Inr (scanKey r), w\<lparr>kt_rows := t\<rparr>))"
  by (simp add: sql_RevokeByID_def sql_run_no_faults findByID_def find_key_def select_key_def Let_def errors_is_def split: option.split)

interpretation sqlr: reliable_keys "SQLStore no_faults" "\<lambda>w. wf_keys (kt_rows w)" "\<lambda>w. row_view (kt_rows w)"
    "table_rand rand" "table_now now" derive
  for rand :: "nat \<Rightarrow> 'x \<Rightarrow> string result \<times> 'x" and now derive
proof (unfold_locales, goal_cases)
  case (1 w h i)
  then obtain r where "first_where (\<lambda>r. kr_hash r = h) (kt_rows w) = Some r" by (auto simp: row_view_def)
  then show ?case by (simp add: SQLStore_def sql_FindByHash_def find_key_def sql_run_no_faults select_key_def)
next
  case (2 w i t e w')
  let ?p = "\<lambda>r. kr_id r = i \<and> kr_revoked_at r = None"
  let ?t = "update_where ?p (\<lambda>r. r\<lparr>kr_revoked_at := Some (formatTime t)\<rparr>) (kt_rows w)"
  have w': "w' = w\<lparr>kt_rows := ?t\<rparr>" and none: "first_where (\<lambda>r. kr_id r = i) ?t = None"
    using 2(2) unfolding SQLStore_def key_store.simps RevokeByID_no_faults Let_def by (simp_all split: option.splits)
  from none have "\<forall>r \<in> set ?t. kr_id r \<noteq> i" unfolding first_where_None .
  then have "kr_id r \<noteq> i" if "r \<in> set (kt_rows w)" for r
    using that by (cases "?p r") (force simp: table_simps)+
  then have "?t = kt_rows w" by (intro update_where_none) auto
  then show ?case unfolding w' by simp
qed

section \<open>Memory\<close>

definition wf_memory :: "'x mem_env \<Rightarrow> 'x key_memory \<Rightarrow> bool" where
  "wf_memory E w \<longleftrightarrow> distinct (map fst (mm_keys w)) \<and> (\<forall>(h, k) \<in> set (mm_keys w). k_Hash k = h)
     \<and> (\<forall>l. set (me_order E l) = set l)"

definition mem_view :: "'x key_memory \<Rightarrow> key_view" where
  "mem_view w h = map_option key_info (map_of (mm_keys w) h)"

lemma put_key_eq:
  assumes "distinct (map fst m)"
  shows "distinct (map fst (put_key h k m))" "map_of (put_key h k m) = (map_of m)(h \<mapsto> k)"
    "set (put_key h k m) \<subseteq> insert (h, k) (set m)"
proof -
  have keys: "map fst (map (\<lambda>(g, old). (g, if g = h then k else old)) m) = map fst m" by (induction m) auto
  have upd: "map_of (map (\<lambda>(g, old). (g, if g = h then k else old)) m) g
      = (if g = h \<and> map_of m g \<noteq> None then Some k else map_of m g)" for g
    by (induction m) auto
  show "distinct (map fst (put_key h k m))"
    using assms keys by (auto simp: put_key_def map_of_eq_None_iff simp del: map_map)
  show "map_of (put_key h k m) = (map_of m)(h \<mapsto> k)"
    using upd by (auto simp: put_key_def fun_eq_iff map_add_def split: option.split)
  show "set (put_key h k m) \<subseteq> insert (h, k) (set m)" by (auto simp: put_key_def split: if_splits)
qed

lemma put_key_ok:
  assumes "wf_memory E w" "k_Hash k = h"
  shows "wf_memory E (w\<lparr>mm_keys := put_key h k (mm_keys w)\<rparr>)"
    "mem_view (w\<lparr>mm_keys := put_key h k (mm_keys w)\<rparr>) = (mem_view w)(h \<mapsto> key_info k)"
proof -
  have d: "distinct (map fst (mm_keys w))" using assms(1) by (simp add: wf_memory_def)
  note p = put_key_eq [OF d, of h k]
  show "wf_memory E (w\<lparr>mm_keys := put_key h k (mm_keys w)\<rparr>)"
    using assms p(1,3) unfolding wf_memory_def by fastforce
  show "mem_view (w\<lparr>mm_keys := put_key h k (mm_keys w)\<rparr>) = (mem_view w)(h \<mapsto> key_info k)"
    by (auto simp: mem_view_def p(2) fun_eq_iff)
qed

lemma memory_hash: "wf_memory E w \<Longrightarrow> map_of (mm_keys w) h = Some k \<Longrightarrow> k_Hash k = h"
  by (auto simp: wf_memory_def dest: map_of_SomeD)

lemma revoked_key_info: "key_info (k\<lparr>k_RevokedAt := Some tm\<rparr>) = revoke_info (key_info k)"
  by (simp add: key_info_def revoke_info_def)

interpretation memk: key_store "MemoryStore E" "wf_memory E" mem_view
  for E :: "'x mem_env"
proof (unfold_locales, goal_cases)
  case (1 w k r w')
  then show ?case using put_key_ok [OF 1(1), of k "k_Hash k"]
    by (auto simp: MemoryStore_def mem_Create_def mem_view_def split: option.splits if_splits)
next
  case (2 w h r w')
  then show ?case using memory_hash [OF 2(1)]
    by (auto simp: MemoryStore_def mem_FindByHash_def mem_view_def split: option.splits)
next
  case (3 w h t r w')
  show ?case
  proof (cases "map_of (mm_keys w) h")
    case (Some k)
    with memory_hash [OF 3(1)] put_key_ok [OF 3(1), of "k\<lparr>k_RevokedAt := Some t\<rparr>" h] 3 show ?thesis
      by (auto simp: MemoryStore_def mem_RevokeByHash_def Let_def mem_view_def revoked_key_info split: option.splits)
  qed (use 3 in \<open>auto simp: MemoryStore_def mem_RevokeByHash_def split: option.splits\<close>)
next
  case (4 w i t r w')
  show ?case
  proof (cases "find (\<lambda>(h, k). k_ID k = i) (me_order E (mm_keys w))")
    case None
    with 4 show ?thesis by (auto simp: MemoryStore_def mem_RevokeByID_def split: option.splits)
  next
    case (Some hk)
    obtain h k where hk: "hk = (h, k)" by fastforce
    have m: "(h, k) \<in> set (mm_keys w)" "k_ID k = i"
      using Some 4(1) by (auto simp: hk find_Some_iff wf_memory_def) (metis nth_mem)
    then have mo: "map_of (mm_keys w) h = Some k" using 4(1) by (simp add: wf_memory_def)
    have rev: "revokes_id i (mem_view w) ((mem_view w)(h \<mapsto> revoke_info (key_info k)))"
      using mo m(2) unfolding revokes_id_def
      by (intro exI [of _ h] exI [of _ "key_info k"]) (simp add: mem_view_def key_info_def)
    have same: "(mem_view w)(h \<mapsto> revoke_info (key_info k)) = mem_view w" if "k_RevokedAt k \<noteq> None"
      using that mo by (auto simp: mem_view_def key_info_def revoke_info_def fun_eq_iff)
    have "k_Hash (k\<lparr>k_RevokedAt := Some t\<rparr>) = h" using memory_hash [OF 4(1) mo] by simp
    note pk = put_key_ok [OF 4(1) this, unfolded revoked_key_info]
    show ?thesis using 4 Some hk rev same pk
      by (cases "k_RevokedAt k") (auto simp: MemoryStore_def mem_RevokeByID_def Let_def split: option.splits)
  qed
next
  case (5 w r w')
  then show ?case by (auto simp: MemoryStore_def mem_List_def split: option.splits)
qed

definition memory_rand :: "(nat \<Rightarrow> 'x \<Rightarrow> string result \<times> 'x) \<Rightarrow> nat \<Rightarrow> 'x key_memory \<Rightarrow> string result \<times> 'x key_memory" where
  "memory_rand rand n w = (case rand n (mm_x w) of (r, x) \<Rightarrow> (r, w\<lparr>mm_x := x\<rparr>))"

interpretation memr: reliable_keys "MemoryStore E" "\<lambda>w. wf_memory E w \<and> (\<forall>x. me_ctx E x = None)" mem_view
    "memory_rand rand" now derive
  for E :: "'x mem_env" and rand now derive
proof (unfold_locales, goal_cases)
  case (1 w k r w') then show ?case using memk.create [of E w k r w'] by blast
next
  case (2 w h r w') then show ?case using memk.lookup [of E w h r w'] by blast
next
  case (3 w h t r w') then show ?case using memk.revoke_hash [of E w h t r w'] by blast
next
  case (4 w i t r w') then show ?case using memk.revoke_id [of E w i t r w'] by blast
next
  case (5 w r w') then show ?case using memk.listing [of E w r w'] by blast
next
  case (6 w n r w')
  then show ?case by (auto simp: memory_rand_def wf_memory_def mem_view_def fun_eq_iff split: prod.splits)
next
  case (7 w h i)
  then show ?case by (auto simp: MemoryStore_def mem_FindByHash_def mem_view_def)
next
  case (8 w i t e w')
  then show ?case by (auto simp: MemoryStore_def mem_RevokeByID_def Let_def split: option.splits if_splits prod.splits)
qed

section \<open>Properties\<close>

text \<open>The key \<open>k\<close> that \<open>raw\<close> opens a scope with, given the table at the start and what the service did since.\<close>

definition rightful_key :: "(string \<Rightarrow> string result) \<Rightarrow> key_row list \<Rightarrow> (key_op \<times> key_out) list \<Rightarrow> string \<Rightarrow> string \<Rightarrow> api_key \<Rightarrow> bool" where
  "rightful_key derive t tr required raw k \<longleftrightarrow>
     HasPrefix raw KeyPrefix \<and> HashKey derive raw = Inr (k_Hash k) \<and> HasScope (k_Scopes k) required
      \<and> ((\<exists>r \<in> set t. kr_hash r = k_Hash k \<and> kr_id r = k_ID k \<and> decodeScopes (kr_scopes r) = k_Scopes k \<and> kr_revoked_at r = None)
         \<or> k_Hash k \<notin> kr_hash ` set t \<and> issued tr (k_Hash k) (k_ID k) (k_Scopes k))
      \<and> \<not> revoked_raw derive tr (k_Hash k) \<and> \<not> revoked_id tr (k_ID k)"

lemma validated_rightful:
  assumes "wf_keys t" "key_run (sql_key_service rand now derive E) ops \<lparr>kt_rows = t, kt_x = x\<rparr> = (tr, w1)"
    and "ValidateKey (sql_key_service rand now derive E) raw required w1 = (Inr k, w2)"
  shows "rightful_key derive t tr required raw k"
proof -
  note a = assms [unfolded sql_key_service_def]
  have ok: "wf_keys (kt_rows \<lparr>kt_rows = t, kt_x = x\<rparr>)" using assms(1) by simp
  note v = sqls.validated_after_run [OF ok a(2,3)]
  have "k_RevokedAt k = None"
    using sqls.validate_view [OF conjunct1 [OF sqls.run_trace [OF ok a(2)]] a(3)] by blast
  then have "\<exists>r \<in> set t. kr_hash r = k_Hash k \<and> kr_id r = k_ID k \<and> decodeScopes (kr_scopes r) = k_Scopes k \<and> kr_revoked_at r = None"
    if "row_view t (k_Hash k) = Some (key_info k)"
    using row_view_Some [OF that] by (auto simp: key_info_def scanKey_def)
  with v sqls.validated_not_revoked_id [OF ok a(2,3)] show ?thesis by (auto simp: rightful_key_def row_view_None)
qed

text \<open>
  C32. An API key opens an endpoint only if it was issued for it and never revoked: whatever the
  service was asked to do and whichever statements failed, a key that validates for a scope has a
  stored hash that was in the table, unrevoked, from the start or was issued in the run by a create
  whose normalised scopes are the stored ones; these scopes include the required one or admin; and no
  revocation of it, by the raw key or by its id, has succeeded in the run.
\<close>

theorem keys_need_issue:
  assumes "wf_keys t" "key_run (sql_key_service rand now derive E) ops \<lparr>kt_rows = t, kt_x = x\<rparr> = (tr, w1)"
    and "ValidateKey (sql_key_service rand now derive E) raw required w1 = (Inr k, w2)"
  shows "HasPrefix raw KeyPrefix \<and> HashKey derive raw = Inr (k_Hash k) \<and> HasScope (k_Scopes k) required
    \<and> ((\<exists>r \<in> set t. kr_hash r = k_Hash k \<and> kr_id r = k_ID k \<and> decodeScopes (kr_scopes r) = k_Scopes k \<and> kr_revoked_at r = None)
       \<or> k_Hash k \<notin> kr_hash ` set t \<and> issued tr (k_Hash k) (k_ID k) (k_Scopes k))
    \<and> \<not> revoked_raw derive tr (k_Hash k) \<and> \<not> revoked_id tr (k_ID k)"
  using validated_rightful [OF assms] unfolding rightful_key_def .

text \<open>
  An issued key works until it is revoked: with a database that answers, the raw key a create
  returned validates for every scope it was given after any further use of the service in which no
  revocation of it succeeds, and comes back with the id, name and scopes it was created with.
\<close>

theorem issued_keys_work:
  assumes "wf_keys (kt_rows w)" "CreateKey (sql_key_service rand now derive no_faults) name scopes w = (Inr ck, w1)"
    and "key_run (sql_key_service rand now derive no_faults) ops w1 = (tr, w2)"
    and "\<not> revoked_raw derive tr (k_Hash (ck_Key ck))" "\<not> revoked_id tr (k_ID (ck_Key ck))"
    and "HasScope (k_Scopes (ck_Key ck)) required"
  shows "\<exists>k w3. ValidateKey (sql_key_service rand now derive no_faults) (ck_Raw ck) required w2 = (Inr k, w3)
    \<and> key_info k = key_info (ck_Key ck)"
  using sqlr.issued_key_validates [OF assms(1) assms(2-3) [unfolded sql_key_service_def] assms(4-6)]
  unfolding sql_key_service_def .

lemma webhook_key_Inr:
  "webhook_key f derive now i raw = Inr key \<Longrightarrow> HasPrefix raw KeyPrefix \<and> HashKey derive raw = Inr (k_Hash key)
     \<and> k_Scopes key = [ScopeWebhook] \<and> k_RevokedAt key = None"
  by (auto simp: webhook_key_def split: if_splits sum.splits)

lemma CreateIfNotExists_rows:
  assumes "wf_keys (kt_rows w)" "CreateIfNotExists E key w = (r, w')"
  shows "wf_keys (kt_rows w') \<and> (kt_rows w' = kt_rows w \<or> kt_rows w' = kt_rows w @ [row_of_key key])
    \<and> (\<forall>b. r = Inr b \<longrightarrow> k_Hash key \<in> kr_hash ` set (kt_rows w'))"
proof -
  have "wf_keys (kt_rows w1) \<and> (kt_rows w1 = kt_rows w \<or> kt_rows w1 = kt_rows w @ [row_of_key key])
      \<and> (\<forall>b. q = Inr b \<longrightarrow> k_Hash key \<in> kr_hash ` set (kt_rows w1))"
    if "sql_run E (insert_key_if_new (row_of_key key)) w = (q, w1)" for q w1
    using that
  proof (cases rule: sql_run_cases)
    case ran
    then have "q = fst (insert_key_if_new (row_of_key key) (kt_rows w))" "kt_rows w1 = snd (insert_key_if_new (row_of_key key) (kt_rows w))"
      by simp_all
    then show ?thesis
      using assms(1) by (auto simp: insert_key_if_new_def insert_key_def wf_keys_def list_ex_iff row_of_key_def image_iff split: if_splits) metis+
  qed (use assms(1) in simp)
  with assms show ?thesis by (auto simp: CreateIfNotExists_def split: if_splits prod.splits sum.splits)
qed

text \<open>
  Start-up registers the configured webhook keys and changes nothing else: every stored key stays
  exactly as it was, so a key revoked earlier is not revived by its line in the configuration; what is
  added has the webhook scope only and the hash of a configured key; and when start-up succeeds, every
  configured key is in the table.
\<close>

theorem startup_registers_keys:
  assumes "wf_keys (kt_rows w)" "register_keys derive now E i raws w = (r, w')"
  shows "wf_keys (kt_rows w') \<and> (\<exists>new. kt_rows w' = kt_rows w @ new
      \<and> (\<forall>n \<in> set new. kr_scopes n = encodeScopes [ScopeWebhook] \<and> kr_revoked_at n = None
           \<and> (\<exists>raw \<in> set raws. HasPrefix (TrimSpace raw) KeyPrefix \<and> HashKey derive (TrimSpace raw) = Inr (kr_hash n))))
    \<and> (r = Inr () \<longrightarrow> (\<forall>raw \<in> set raws. TrimSpace raw = [] \<or>
          (\<exists>h. HashKey derive (TrimSpace raw) = Inr h \<and> h \<in> kr_hash ` set (kt_rows w'))))"
  using assms
proof (induction derive now E i raws w rule: register_keys.induct)
  case (1 derive now E i w)
  then show ?case by auto
next
  case (2 derive now E i raw raws w)
  show ?case
  proof (cases "TrimSpace raw = []")
    case True
    with 2 show ?thesis by auto
  next
    case False
    show ?thesis
    proof (cases "webhook_key (\<lambda>e. e) derive (now w) i (TrimSpace raw)")
      case (Inl e)
      with False 2(3,4) show ?thesis by auto
    next
      case (Inr key)
      note wk = webhook_key_Inr [OF Inr]
      obtain c w1 where c: "CreateIfNotExists E key w = (c, w1)" by fastforce
      note cr = CreateIfNotExists_rows [OF 2(3) c]
      have new: "kr_scopes (row_of_key key) = encodeScopes [ScopeWebhook] \<and> kr_revoked_at (row_of_key key) = None
          \<and> kr_hash (row_of_key key) = k_Hash key" using wk by (simp add: row_of_key_def)
      have one: "\<exists>n. kt_rows w1 = kt_rows w @ n \<and> set n \<subseteq> {row_of_key key}" using cr by auto
      have good: "kr_scopes m = encodeScopes [ScopeWebhook] \<and> kr_revoked_at m = None
           \<and> (\<exists>raw' \<in> set (raw # raws). HasPrefix (TrimSpace raw') KeyPrefix \<and> HashKey derive (TrimSpace raw') = Inr (kr_hash m))"
        if "m \<in> {row_of_key key}" for m
        using that new wk by auto
      show ?thesis
      proof (cases c)
        case (Inl e)
        then have "r = Inl e" "w' = w1" using False \<open>webhook_key (\<lambda>e. e) derive (now w) i (TrimSpace raw) = Inr key\<close> c 2(4) by auto
        with cr one good show ?thesis by blast
      next
        case (Inr b)
        then have run: "register_keys derive now E (i + 1) raws w1 = (r, w')"
          using False \<open>webhook_key (\<lambda>e. e) derive (now w) i (TrimSpace raw) = Inr key\<close> c 2(4) by auto
        have IH: "wf_keys (kt_rows w') \<and> (\<exists>new. kt_rows w' = kt_rows w1 @ new
            \<and> (\<forall>n \<in> set new. kr_scopes n = encodeScopes [ScopeWebhook] \<and> kr_revoked_at n = None
                 \<and> (\<exists>raw \<in> set raws. HasPrefix (TrimSpace raw) KeyPrefix \<and> HashKey derive (TrimSpace raw) = Inr (kr_hash n))))
          \<and> (r = Inr () \<longrightarrow> (\<forall>raw \<in> set raws. TrimSpace raw = [] \<or>
                (\<exists>h. HashKey derive (TrimSpace raw) = Inr h \<and> h \<in> kr_hash ` set (kt_rows w'))))"
          by (rule 2(2) [OF False \<open>webhook_key (\<lambda>e. e) derive (now w) i (TrimSpace raw) = Inr key\<close> c [symmetric] Inr _ run])
            (use cr in simp)
        then obtain new2 where n2: "kt_rows w' = kt_rows w1 @ new2"
          "\<forall>n \<in> set new2. kr_scopes n = encodeScopes [ScopeWebhook] \<and> kr_revoked_at n = None
             \<and> (\<exists>raw \<in> set raws. HasPrefix (TrimSpace raw) KeyPrefix \<and> HashKey derive (TrimSpace raw) = Inr (kr_hash n))"
          by blast
        from one obtain n where n: "kt_rows w1 = kt_rows w @ n" "set n \<subseteq> {row_of_key key}" by blast
        have "kr_scopes m = encodeScopes [ScopeWebhook] \<and> kr_revoked_at m = None
             \<and> (\<exists>raw' \<in> set (raw # raws). HasPrefix (TrimSpace raw') KeyPrefix \<and> HashKey derive (TrimSpace raw') = Inr (kr_hash m))"
          if "m \<in> set (n @ new2)" for m
        proof (cases "m \<in> set n")
          case True
          with n(2) show ?thesis by (intro good) blast
        next
          case False
          with that n2(2) show ?thesis by auto
        qed
        moreover have "kt_rows w' = kt_rows w @ n @ new2" using n n2 by simp
        moreover have "k_Hash key \<in> kr_hash ` set (kt_rows w')" using cr Inr n2(1) by auto
        ultimately show ?thesis using IH wk by (intro conjI exI [of _ "n @ new2"]) auto
      qed
    qed
  qed
qed


section \<open>Sample runs\<close>

text \<open>A derivation, an entropy source and a clock for the witnesses.\<close>

definition sample_derive :: "string \<Rightarrow> string result" where
  "sample_derive raw = Inr (replicate 32 (last raw))"

definition sample_rand :: "nat \<Rightarrow> nat \<Rightarrow> string result \<times> nat" where
  "sample_rand n x = (Inr (replicate n (if x = 0 then CHR ''a'' else CHR ''b'')), x + 1)"

definition sample_keys :: "nat key_table key_service" where
  "sample_keys = sql_key_service sample_rand (\<lambda>x. 0) sample_derive no_faults"

definition sample_table :: "nat key_table" where
  "sample_table = \<lparr>kt_rows = [], kt_x = 0\<rparr>"

definition sample_raw :: string where
  "sample_raw = KeyPrefix @ concat (replicate 32 ''61'')"

definition sample_hash :: string where
  "sample_hash = concat (replicate 32 ''31'')"

definition sample_key :: api_key where
  "sample_key = \<lparr>k_ID = take 16 sample_hash, k_Name = ''lidarr'', k_Hash = sample_hash, k_Scopes = [''webhook''],
     k_CreatedAt = 0, k_RevokedAt = None\<rparr>"

lemma sample_wf: "wf_keys (kt_rows sample_table)" "wf_keys []"
  by (simp_all add: sample_table_def wf_keys_def)

lemma sample_bytes: "hex_encode (replicate 32 (CHR ''a'')) = concat (replicate 32 ''61'')"
  "hex_encode (replicate 32 (CHR ''1'')) = sample_hash"
proof -
  have d: "char_of (54 :: nat) = CHR ''6''" "char_of (49 :: nat) = CHR ''1''" "char_of (51 :: nat) = CHR ''3''"
  proof -
    have "of_char (CHR ''6'') = (54 :: nat)" "of_char (CHR ''1'') = (49 :: nat)" "of_char (CHR ''3'') = (51 :: nat)" by simp_all
    then show "char_of (54 :: nat) = CHR ''6''" "char_of (49 :: nat) = CHR ''1''" "char_of (51 :: nat) = CHR ''3''"
      by (metis char_of_char)+
  qed
  show "hex_encode (replicate 32 (CHR ''a'')) = concat (replicate 32 ''61'')"
    "hex_encode (replicate 32 (CHR ''1'')) = sample_hash"
    by (simp_all add: hex_encode_def hex_digit_def sample_hash_def d)
qed

lemma last_concat_replicate: "last (KeyPrefix @ concat (replicate 32 ''61'')) = CHR ''1''"
  by (simp add: numeral_eq_Suc)

lemma sample_hashed: "HashKey sample_derive sample_raw = Inr sample_hash" "length sample_hash = 64"
  "HasPrefix sample_raw KeyPrefix"
proof -
  show "HashKey sample_derive sample_raw = Inr sample_hash"
    unfolding HashKey_def sample_derive_def sample_raw_def last_concat_replicate by (simp add: sample_bytes)
  show "length sample_hash = 64" by (simp add: sample_hash_def length_concat sum_list_replicate)
  show "HasPrefix sample_raw KeyPrefix" by (simp add: sample_raw_def HasPrefix_append)
qed

lemma sample_words: "NormalizeScopes [''webhook''] = Inr [''webhook'']" "TrimSpace ''lidarr'' = ''lidarr''"
proof -
  have "TrimSpace ''webhook'' = ''webhook''" by (rule TrimSpace_plain) (simp add: plain_def)
  then show "NormalizeScopes [''webhook''] = Inr [''webhook'']"
    by (simp add: NormalizeScopes_def ScopeWebhook_def)
  show "TrimSpace ''lidarr'' = ''lidarr''" by (rule TrimSpace_plain) (simp add: plain_def)
qed

lemma sample_created:
  "CreateKey sample_keys ''lidarr'' [''webhook''] sample_table
   = (Inr \<lparr>ck_Raw = sample_raw, ck_Key = sample_key\<rparr>, \<lparr>kt_rows = [row_of_key sample_key], kt_x = 1\<rparr>)"
proof -
  have g: "generateKey (table_rand sample_rand) sample_table = (Inr sample_raw, \<lparr>kt_rows = [], kt_x = 1\<rparr>)"
    by (simp add: generateKey_def table_rand_def sample_rand_def sample_table_def keyBytes_def sample_bytes sample_raw_def)
  have "sample_hash \<noteq> []" using sample_hashed(2) by auto
  then have "sql_Create no_faults sample_key \<lparr>kt_rows = [], kt_x = 1 :: nat\<rparr> = (Inr (), \<lparr>kt_rows = [row_of_key sample_key], kt_x = 1\<rparr>)"
    by (simp add: sql_Create_def sql_run_no_faults insert_key_def sample_key_def del: One_nat_def)
  then show ?thesis
    by (simp add: CreateKey_def sample_keys_def sql_key_service_def key_service_on_def sample_words g sample_hashed
        SQLStore_def table_now_def sample_key_def [symmetric] del: One_nat_def)
qed

lemma sample_validated:
  "ValidateKey sample_keys sample_raw ''webhook'' \<lparr>kt_rows = [row_of_key sample_key], kt_x = 1\<rparr>
   = (Inr sample_key, \<lparr>kt_rows = [row_of_key sample_key], kt_x = 1\<rparr>)"
proof -
  have "scanKey (row_of_key sample_key) = sample_key"
    by (simp add: scanKey_def row_of_key_def decode_encode_scopes sample_key_def valid_scopes_def ScopeWebhook_def formatTime_def)
  then show ?thesis
    by (simp add: ValidateKey_def sample_keys_def sql_key_service_def key_service_on_def sample_hashed SQLStore_def
        sql_FindByHash_def find_key_def sql_run_no_faults select_key_def first_where_def)
      (simp add: sample_key_def row_of_key_def HasScope_def)
qed

theorem keys_need_issue_witness:
  "\<exists>tr w1 k w2. key_run sample_keys [DoCreate ''lidarr'' [''webhook'']] sample_table = (tr, w1)
     \<and> ValidateKey sample_keys sample_raw ''webhook'' w1 = (Inr k, w2) \<and> issued tr sample_hash (k_ID k) [''webhook'']"
proof -
  let ?tr = "[(DoCreate ''lidarr'' [''webhook''], Created (Inr \<lparr>ck_Raw = sample_raw, ck_Key = sample_key\<rparr>))]"
  let ?w1 = "\<lparr>kt_rows = [row_of_key sample_key], kt_x = 1 :: nat\<rparr>"
  have run: "key_run sample_keys [DoCreate ''lidarr'' [''webhook'']] sample_table = (?tr, ?w1)"
    by (simp add: sample_created)
  have start: "sample_table = \<lparr>kt_rows = [], kt_x = 0\<rparr>" by (simp add: sample_table_def)
  have "issued ?tr (k_Hash sample_key) (k_ID sample_key) (k_Scopes sample_key)"
    using keys_need_issue [OF sample_wf(2) run [unfolded sample_keys_def start] sample_validated [unfolded sample_keys_def]]
    by simp
  moreover have "k_Hash sample_key = sample_hash" "k_Scopes sample_key = [''webhook'']" by (simp_all add: sample_key_def)
  ultimately show ?thesis using run sample_validated by auto
qed

theorem issued_keys_work_witness:
  "\<exists>k w. ValidateKey sample_keys sample_raw ''webhook'' \<lparr>kt_rows = [row_of_key sample_key], kt_x = 1\<rparr> = (Inr k, w)
     \<and> ki_name (key_info k) = ''lidarr''"
proof -
  have "HasScope (k_Scopes (ck_Key \<lparr>ck_Raw = sample_raw, ck_Key = sample_key\<rparr>)) ''webhook''"
    by (simp add: sample_key_def HasScope_def)
  from issued_keys_work [OF sample_wf(1) sample_created [unfolded sample_keys_def] key_run.simps(1) _ _ this]
  show ?thesis by (auto simp: sample_keys_def revoked_raw_def revoked_id_def key_info_def sample_key_def)
qed

theorem startup_registers_keys_witness:
  "\<exists>r w'. register_keys sample_derive (table_now (\<lambda>x. 0)) no_faults 1 [sample_raw] sample_table = (r, w') \<and> wf_keys (kt_rows w')"
proof -
  obtain r w' where r: "register_keys sample_derive (table_now (\<lambda>x. 0)) no_faults 1 [sample_raw] sample_table = (r, w')"
    by (metis prod.collapse)
  from startup_registers_keys [OF sample_wf(1) r] r show ?thesis by blast
qed

end
