(* ===== verification/Login_Limiter.thy ===== *)
theory Login_Limiter
  imports Prelude
begin

text \<open>
  \<^verbatim>\<open>internal/web/ratelimit.go\<close>: the limiter of failed logins.  The map of attempts is the list of its
  entries; \<open>li_order\<close> is the order in which a \<open>range\<close> over it goes.  Every call takes the instant its
  clock reads, under the mutex.
\<close>

section \<open>State\<close>

record attempt_state =
  at_failures :: int
  at_lockedUntil :: "instant option"
  at_lastSeen :: instant

type_synonym attempts = "(string \<times> attempt_state) list"

record login_limiter =
  li_attempts :: attempts
  li_baseBackoff :: duration
  li_maxBackoff :: duration
  li_maxFailures :: int
  li_lockout :: duration
  li_idleEvictAfter :: duration
  li_maxEntries :: int
  li_order :: "attempts \<Rightarrow> attempts"

definition newLoginLimiter :: "(attempts \<Rightarrow> attempts) \<Rightarrow> login_limiter" where
  "newLoginLimiter order =
     \<lparr>li_attempts = [], li_baseBackoff = 1 * second, li_maxBackoff = 8 * second, li_maxFailures = 10,
      li_lockout = 15 * minute, li_idleEvictAfter = 24 * hour, li_maxEntries = 10000, li_order = order\<rparr>"

definition drop_attempt :: "string \<Rightarrow> attempts \<Rightarrow> attempts" where
  "drop_attempt ip m = filter (\<lambda>e. fst e \<noteq> ip) m"

definition put_attempt :: "string \<Rightarrow> attempt_state \<Rightarrow> attempts \<Rightarrow> attempts" where
  "put_attempt ip st m =
     (if map_of m ip = None then m @ [(ip, st)] else map (\<lambda>(k, old). (k, if k = ip then st else old)) m)"

definition size_of :: "login_limiter \<Rightarrow> int" where
  "size_of l = int (length (li_attempts l))"

section \<open>Operations\<close>

definition limiter_allow :: "instant \<Rightarrow> string \<Rightarrow> login_limiter \<Rightarrow> (bool \<times> duration) \<times> login_limiter" where
  "limiter_allow now ip l =
     (case map_of (li_attempts l) ip of
        None \<Rightarrow> ((True, 0), l)
      | Some st \<Rightarrow>
          (case at_lockedUntil st of
             None \<Rightarrow> ((True, 0), l)
           | Some until \<Rightarrow>
               if until - now > 0 then ((False, until - now), l)
               else ((True, 0), l\<lparr>li_attempts := drop_attempt ip (li_attempts l)\<rparr>)))"

definition active_lockout :: "instant \<Rightarrow> attempt_state \<Rightarrow> bool" where
  "active_lockout now st = (case at_lockedUntil st of None \<Rightarrow> False | Some u \<Rightarrow> u > now)"

definition evictIdleLocked :: "instant \<Rightarrow> login_limiter \<Rightarrow> login_limiter" where
  "evictIdleLocked now l =
     l\<lparr>li_attempts := filter (\<lambda>(ip, st). active_lockout now st \<or> \<not> at_lastSeen st < now - li_idleEvictAfter l) (li_attempts l)\<rparr>"

text \<open>The loop keeps the address and the time of the oldest entry so far; the empty address is none.\<close>

fun oldest_unlocked :: "instant \<Rightarrow> attempts \<Rightarrow> string \<times> instant \<Rightarrow> string \<times> instant" where
  "oldest_unlocked now [] acc = acc"
| "oldest_unlocked now ((ip, st) # es) (oldestIP, oldest) =
     (if active_lockout now st then oldest_unlocked now es (oldestIP, oldest)
      else if oldestIP = [] \<or> at_lastSeen st < oldest then oldest_unlocked now es (ip, at_lastSeen st)
      else oldest_unlocked now es (oldestIP, oldest))"

definition evictOldestLocked :: "instant \<Rightarrow> login_limiter \<Rightarrow> login_limiter" where
  "evictOldestLocked now l =
     (case oldest_unlocked now (li_order l (li_attempts l)) ([], 0) of
        (oldestIP, _) \<Rightarrow> if oldestIP \<noteq> [] then l\<lparr>li_attempts := drop_attempt oldestIP (li_attempts l)\<rparr> else l)"

definition backoffFor :: "login_limiter \<Rightarrow> int \<Rightarrow> duration" where
  "backoffFor l failures =
     (if failures \<le> 1 then 0
      else let shift = failures - 2 in
        if shift \<ge> 62 then li_maxBackoff l
        else let d = wrap64 (li_baseBackoff l * 2 ^ nat shift) in
          if d \<le> 0 \<or> d > li_maxBackoff l then li_maxBackoff l else d)"

text \<open>Room for a new address: nothing is evicted while there is some, and the result may still be full.\<close>

definition make_room :: "instant \<Rightarrow> login_limiter \<Rightarrow> login_limiter" where
  "make_room now l =
     (if size_of l \<ge> li_maxEntries l
      then let l1 = evictIdleLocked now l
           in if size_of l1 \<ge> li_maxEntries l1 then evictOldestLocked now l1 else l1
      else l)"

definition count_failure :: "instant \<Rightarrow> string \<Rightarrow> attempt_state \<Rightarrow> login_limiter \<Rightarrow> duration \<times> login_limiter" where
  "count_failure now ip st l =
     (let failures = at_failures st + 1;
          st' = st\<lparr>at_failures := failures, at_lastSeen := now,
                   at_lockedUntil := (if failures \<ge> li_maxFailures l then Some (now + li_lockout l) else at_lockedUntil st)\<rparr>
      in (backoffFor l failures, l\<lparr>li_attempts := put_attempt ip st' (li_attempts l)\<rparr>))"

definition limiter_fail :: "instant \<Rightarrow> string \<Rightarrow> login_limiter \<Rightarrow> duration \<times> login_limiter" where
  "limiter_fail now ip l =
     (case map_of (li_attempts l) ip of
        Some st \<Rightarrow> count_failure now ip st l
      | None \<Rightarrow>
          (let l1 = make_room now l
           in if size_of l1 \<ge> li_maxEntries l1 then (li_maxBackoff l1, l1)
              else count_failure now ip \<lparr>at_failures = 0, at_lockedUntil = None, at_lastSeen = 0\<rparr> l1))"

definition limiter_success :: "string \<Rightarrow> login_limiter \<Rightarrow> login_limiter" where
  "limiter_success ip l = l\<lparr>li_attempts := drop_attempt ip (li_attempts l)\<rparr>"

section \<open>Runs\<close>

datatype limiter_op = LoginAsk string | LoginFailed string | LoginSucceeded string

fun limiter_step :: "instant \<times> limiter_op \<Rightarrow> login_limiter \<Rightarrow> login_limiter" where
  "limiter_step (now, LoginAsk ip) l = snd (limiter_allow now ip l)"
| "limiter_step (now, LoginFailed ip) l = snd (limiter_fail now ip l)"
| "limiter_step (now, LoginSucceeded ip) l = limiter_success ip l"

definition limiter_run :: "(instant \<times> limiter_op) list \<Rightarrow> login_limiter \<Rightarrow> login_limiter" where
  "limiter_run ops l = fold limiter_step ops l"

lemma map_of_drop: "map_of (drop_attempt ip m) k = (if k = ip then None else map_of m k)"
  by (induction m) (auto simp: drop_attempt_def)

lemma map_of_put: "map_of (put_attempt ip st m) k = (if k = ip then Some st else map_of m k)"
proof -
  have "map_of (map (\<lambda>(k, old). (k, if k = ip then st else old)) m) k
      = (if k = ip \<and> map_of m k \<noteq> None then Some st else map_of m k)" for k
    by (induction m) auto
  then show ?thesis by (auto simp: put_attempt_def map_add_def split: option.split)
qed

lemma length_put: "length (put_attempt ip st m) = (if map_of m ip = None then Suc (length m) else length m)"
  by (simp add: put_attempt_def)

lemma length_drop_attempt: "length (drop_attempt ip m) \<le> length m"
  by (simp add: drop_attempt_def)

text \<open>The settings never change.\<close>

definition settings :: "login_limiter \<Rightarrow> login_limiter" where
  "settings l = l\<lparr>li_attempts := []\<rparr>"

lemma settings_update [simp]: "settings (l\<lparr>li_attempts := m\<rparr>) = settings l"
  by (simp add: settings_def)

lemma settings_evict [simp]: "settings (evictIdleLocked now l) = settings l" "settings (evictOldestLocked now l) = settings l"
  by (simp_all add: evictIdleLocked_def evictOldestLocked_def split: prod.split)

lemma settings_make_room [simp]: "settings (make_room now l) = settings l"
  by (simp add: make_room_def Let_def)

lemma settings_count [simp]: "settings (snd (count_failure now ip st l)) = settings l"
  by (simp add: count_failure_def Let_def)

lemma settings_step [simp]: "settings (limiter_step p l) = settings l"
proof (cases "(p, l)" rule: limiter_step.cases)
  case (1 now ip l)
  then show ?thesis by (auto simp: limiter_allow_def split: option.split)
next
  case (2 now ip l)
  then show ?thesis by (auto simp: limiter_fail_def Let_def split: option.split)
next
  case (3 now ip l)
  then show ?thesis by (simp add: limiter_success_def)
qed

lemma settings_eq:
  assumes "settings l' = settings l"
  shows "li_maxEntries l' = li_maxEntries l" "li_maxFailures l' = li_maxFailures l" "li_lockout l' = li_lockout l"
    "li_baseBackoff l' = li_baseBackoff l" "li_maxBackoff l' = li_maxBackoff l" "li_order l' = li_order l"
  using arg_cong [OF assms, of li_maxEntries] arg_cong [OF assms, of li_maxFailures]
    arg_cong [OF assms, of li_lockout] arg_cong [OF assms, of li_baseBackoff]
    arg_cong [OF assms, of li_maxBackoff] arg_cong [OF assms, of li_order]
  by (simp_all add: settings_def)

section \<open>Bounded memory\<close>

definition limiter_inv :: "login_limiter \<Rightarrow> bool" where
  "limiter_inv l \<longleftrightarrow> distinct (map fst (li_attempts l)) \<and> size_of l \<le> li_maxEntries l
     \<and> (\<forall>(ip, st) \<in> set (li_attempts l). 1 \<le> at_failures st
          \<and> (at_lockedUntil st \<noteq> None \<longleftrightarrow> li_maxFailures l \<le> at_failures st))"

lemma fst_put: "distinct (map fst m) \<Longrightarrow> distinct (map fst (put_attempt ip st m))"
proof -
  assume d: "distinct (map fst m)"
  have "map fst (map (\<lambda>(k, old). (k, if k = ip then st else old)) m) = map fst m" by (induction m) auto
  with d show ?thesis by (auto simp: put_attempt_def map_of_eq_None_iff simp del: map_map)
qed

lemma set_put: "set (put_attempt ip st m) \<subseteq> insert (ip, st) (set m)"
  by (auto simp: put_attempt_def split: if_splits)

lemma evict_subset: "set (li_attempts (evictIdleLocked now l)) \<subseteq> set (li_attempts l)"
  "set (li_attempts (evictOldestLocked now l)) \<subseteq> set (li_attempts l)"
  "set (li_attempts (make_room now l)) \<subseteq> set (li_attempts l)"
  by (auto simp: make_room_def Let_def evictIdleLocked_def evictOldestLocked_def drop_attempt_def split: prod.splits if_splits)

lemma ball_subset: "A \<subseteq> B \<Longrightarrow> \<forall>x \<in> B. P x \<Longrightarrow> \<forall>x \<in> A. P x"
  by blast

lemma inv_smaller:
  assumes "limiter_inv l" "settings l' = settings l" "set (li_attempts l') \<subseteq> set (li_attempts l)"
    "distinct (map fst (li_attempts l'))" "length (li_attempts l') \<le> length (li_attempts l)"
  shows "limiter_inv l'"
  using assms settings_eq [OF assms(2)] unfolding limiter_inv_def size_of_def by fastforce

lemma inv_drop: "limiter_inv l \<Longrightarrow> limiter_inv (l\<lparr>li_attempts := drop_attempt ip (li_attempts l)\<rparr>)"
  by (rule inv_smaller [of l]) (auto simp: drop_attempt_def limiter_inv_def distinct_map_filter)

lemma inv_make_room: "limiter_inv l \<Longrightarrow> limiter_inv (make_room now l)"
proof -
  have i: "limiter_inv l \<Longrightarrow> limiter_inv (evictIdleLocked now l)" for l
    by (rule inv_smaller [of l]) (auto simp: evictIdleLocked_def limiter_inv_def distinct_map_filter)
  have "limiter_inv l \<Longrightarrow> limiter_inv (evictOldestLocked now l)" for l
    by (auto simp: evictOldestLocked_def inv_drop split: prod.split)
  with i show "limiter_inv l \<Longrightarrow> limiter_inv (make_room now l)" by (simp add: make_room_def Let_def)
qed

lemma inv_count:
  assumes "limiter_inv l" "map_of (li_attempts l) ip \<noteq> None \<or> size_of l < li_maxEntries l"
    "0 \<le> at_failures st" "at_lockedUntil st \<noteq> None \<longleftrightarrow> li_maxFailures l \<le> at_failures st" "1 \<le> li_maxFailures l"
  shows "limiter_inv (snd (count_failure now ip st l))"
proof -
  define st' where "st' = st\<lparr>at_failures := at_failures st + 1, at_lastSeen := now,
      at_lockedUntil := (if at_failures st + 1 \<ge> li_maxFailures l then Some (now + li_lockout l) else at_lockedUntil st)\<rparr>"
  have c: "snd (count_failure now ip st l) = l\<lparr>li_attempts := put_attempt ip st' (li_attempts l)\<rparr>"
    by (simp add: count_failure_def Let_def st'_def)
  have "1 \<le> at_failures st' \<and> (at_lockedUntil st' \<noteq> None \<longleftrightarrow> li_maxFailures l \<le> at_failures st')"
    using assms(3,4) by (auto simp: st'_def)
  then have "\<forall>(k, s) \<in> insert (ip, st') (set (li_attempts l)). 1 \<le> at_failures s \<and> (at_lockedUntil s \<noteq> None \<longleftrightarrow> li_maxFailures l \<le> at_failures s)"
    using assms(1) by (auto simp: limiter_inv_def)
  then have "\<forall>(k, s) \<in> set (put_attempt ip st' (li_attempts l)). 1 \<le> at_failures s \<and> (at_lockedUntil s \<noteq> None \<longleftrightarrow> li_maxFailures l \<le> at_failures s)"
    by (rule ball_subset [OF set_put])
  moreover have "int (length (put_attempt ip st' (li_attempts l))) \<le> li_maxEntries l"
    using assms(1,2) by (auto simp: length_put limiter_inv_def size_of_def)
  ultimately show ?thesis using assms(1) fst_put unfolding c limiter_inv_def size_of_def by simp
qed

lemma inv_step:
  assumes "limiter_inv l" "1 \<le> li_maxFailures l"
  shows "limiter_inv (limiter_step p l)"
proof (cases "(p, l)" rule: limiter_step.cases)
  case (1 now ip l')
  with assms inv_drop show ?thesis by (auto simp: limiter_allow_def split: option.split)
next
  case (2 now ip l')
  show ?thesis
  proof (cases "map_of (li_attempts l) ip")
    case (Some st)
    then have "(ip, st) \<in> set (li_attempts l)" by (rule map_of_SomeD)
    with assms(1) have "0 \<le> at_failures st" "at_lockedUntil st \<noteq> None \<longleftrightarrow> li_maxFailures l \<le> at_failures st"
      by (auto simp: limiter_inv_def)
    with inv_count [OF assms(1), of ip st now] Some assms(2) 2 show ?thesis by (simp add: limiter_fail_def)
  next
    case None
    have i: "limiter_inv (make_room now l)" using assms(1) by (rule inv_make_room)
    note se = settings_eq [OF settings_make_room [of now l]]
    show ?thesis
    proof (cases "size_of (make_room now l) \<ge> li_maxEntries (make_room now l)")
      case True
      with None i 2 show ?thesis by (simp add: limiter_fail_def Let_def)
    next
      case False
      with inv_count [OF i, of ip "\<lparr>at_failures = 0, at_lockedUntil = None, at_lastSeen = 0\<rparr>" now] None assms(2) 2 se
      show ?thesis by (simp add: limiter_fail_def Let_def)
    qed
  qed
next
  case (3 now ip l')
  with assms(1) inv_drop show ?thesis by (simp add: limiter_success_def)
qed

lemma run_inv:
  assumes "limiter_inv l" "1 \<le> li_maxFailures l"
  shows "limiter_inv (limiter_run ops l) \<and> settings (limiter_run ops l) = settings l"
  using assms
proof (induction ops arbitrary: l)
  case (Cons p ops)
  have "1 \<le> li_maxFailures (limiter_step p l)" using settings_eq(2) [OF settings_step] Cons.prems(2) by simp
  with Cons.IH [OF inv_step [OF Cons.prems]] show ?case by (simp add: limiter_run_def)
qed (simp add: limiter_run_def)


section \<open>Lockouts\<close>

definition locked_until :: "instant \<Rightarrow> string \<Rightarrow> login_limiter \<Rightarrow> bool" where
  "locked_until u ip l \<longleftrightarrow> (\<exists>st v. map_of (li_attempts l) ip = Some st \<and> at_lockedUntil st = Some v \<and> u \<le> v)"

definition fair_order :: "login_limiter \<Rightarrow> bool" where
  "fair_order l \<longleftrightarrow> (\<forall>m. set (li_order l m) = set m)"

lemma oldest_unlocked_mem:
  "oldest_unlocked now es acc = (ip, t) \<Longrightarrow> ip = fst acc \<or> (\<exists>st. (ip, st) \<in> set es \<and> \<not> active_lockout now st)"
proof (induction now es acc rule: oldest_unlocked.induct)
  case (2 now i st es oip old)
  then show ?case by (auto split: if_splits)
qed simp

lemma evict_keeps_lock:
  assumes "limiter_inv l" "fair_order l" "map_of (li_attempts l) ip = Some st" "active_lockout now st"
  shows "map_of (li_attempts (evictIdleLocked now l)) ip = Some st" "map_of (li_attempts (evictOldestLocked now l)) ip = Some st"
proof -
  have d: "distinct (map fst (li_attempts l))" using assms(1) by (simp add: limiter_inv_def)
  have "(ip, st) \<in> set (li_attempts l)" using assms(3) by (rule map_of_SomeD)
  then have "(ip, st) \<in> set (li_attempts (evictIdleLocked now l))" using assms(4) by (simp add: evictIdleLocked_def)
  moreover have "distinct (map fst (li_attempts (evictIdleLocked now l)))" using d by (simp add: evictIdleLocked_def distinct_map_filter)
  ultimately show "map_of (li_attempts (evictIdleLocked now l)) ip = Some st" by simp
  obtain o' t where o: "oldest_unlocked now (li_order l (li_attempts l)) ([], 0) = (o', t)" by fastforce
  have "o' \<noteq> ip" if "o' \<noteq> []"
  proof
    assume "o' = ip"
    with oldest_unlocked_mem [OF o] that assms(2) obtain st' where "(ip, st') \<in> set (li_attempts l)" "\<not> active_lockout now st'"
      by (auto simp: fair_order_def)
    moreover from this(1) d have "map_of (li_attempts l) ip = Some st'" by simp
    ultimately show False using assms(3,4) by simp
  qed
  then show "map_of (li_attempts (evictOldestLocked now l)) ip = Some st"
    using assms(3) by (auto simp: evictOldestLocked_def o map_of_drop)
qed

lemma make_room_keeps_lock:
  assumes "limiter_inv l" "fair_order l" "map_of (li_attempts l) ip = Some st" "active_lockout now st"
  shows "map_of (li_attempts (make_room now l)) ip = Some st"
proof -
  have i: "limiter_inv (evictIdleLocked now l)"
    by (rule inv_smaller [OF assms(1)]) (use assms(1) in \<open>auto simp: evictIdleLocked_def limiter_inv_def distinct_map_filter\<close>)
  have f: "fair_order (evictIdleLocked now l)" using assms(2) by (simp add: fair_order_def evictIdleLocked_def)
  note k = evict_keeps_lock(1) [OF assms]
  from k evict_keeps_lock(2) [OF i f k assms(4)] assms(3) show ?thesis by (simp add: make_room_def Let_def)
qed

lemma count_lookup:
  "map_of (li_attempts (snd (count_failure now ip st l))) k =
     (if k = ip then Some (st\<lparr>at_failures := at_failures st + 1, at_lastSeen := now,
        at_lockedUntil := (if at_failures st + 1 \<ge> li_maxFailures l then Some (now + li_lockout l) else at_lockedUntil st)\<rparr>)
      else map_of (li_attempts l) k)"
  by (simp add: count_failure_def Let_def map_of_put)

lemma step_keeps_lock:
  assumes "limiter_inv l" "fair_order l" "locked_until u ip l" "u - li_lockout l \<le> now" "now < u" "op \<noteq> LoginSucceeded ip"
  shows "locked_until u ip (limiter_step (now, op) l)"
proof -
  from assms(3) obtain st v where st: "map_of (li_attempts l) ip = Some st" "at_lockedUntil st = Some v" "u \<le> v"
    by (auto simp: locked_until_def)
  then have act: "active_lockout now st" using assms(5) by (simp add: active_lockout_def)
  have full: "li_maxFailures l \<le> at_failures st"
    using map_of_SomeD [OF st(1)] assms(1) st(2) by (auto simp: limiter_inv_def)
  show ?thesis
  proof (cases op)
    case (LoginAsk k)
    with st assms(5) show ?thesis
      by (cases "k = ip") (auto simp: locked_until_def limiter_allow_def map_of_drop split: option.split)
  next
    case (LoginFailed k)
    show ?thesis
    proof (cases "k = ip")
      case True
      with LoginFailed st(1) full assms(4) show ?thesis
        by (simp add: locked_until_def limiter_fail_def count_lookup)
    next
      case False
      have mr: "map_of (li_attempts (make_room now l)) ip = Some st"
        using assms(1,2) st(1) act by (rule make_room_keeps_lock)
      show ?thesis
      proof (cases "map_of (li_attempts l) k")
        case None
        with LoginFailed False st mr show ?thesis by (simp add: locked_until_def limiter_fail_def Let_def count_lookup)
      next
        case (Some sk)
        with LoginFailed False st show ?thesis by (simp add: locked_until_def limiter_fail_def count_lookup)
      qed
    qed
  next
    case (LoginSucceeded k)
    with st assms(6) show ?thesis by (auto simp: locked_until_def limiter_success_def map_of_drop)
  qed
qed

lemma run_keeps_lock:
  assumes "limiter_inv l" "fair_order l" "1 \<le> li_maxFailures l" "locked_until u ip l"
    "\<forall>(t, op) \<in> set ops. u - li_lockout l \<le> t \<and> t < u \<and> op \<noteq> LoginSucceeded ip"
  shows "locked_until u ip (limiter_run ops l)"
  using assms
proof (induction ops arbitrary: l)
  case (Cons p ops)
  obtain t op where p: "p = (t, op)" by fastforce
  have s: "limiter_inv (limiter_step p l)" using Cons.prems(1,3) by (rule inv_step)
  note se = settings_eq [OF settings_step [of p l]]
  have "locked_until u ip (limiter_step p l)"
    unfolding p using Cons.prems by (intro step_keeps_lock) (auto simp: p)
  with Cons.IH [OF s] Cons.prems se show ?case by (simp add: limiter_run_def fair_order_def)
qed (simp add: limiter_run_def)

lemma locked_refused: "locked_until u ip l \<Longrightarrow> now < u \<Longrightarrow> \<exists>d. fst (limiter_allow now ip l) = (False, d) \<and> u - now \<le> d"
  by (auto simp: locked_until_def limiter_allow_def)

section \<open>Guessing\<close>

text \<open>The failures of an address since a moment are counted as long as no one is evicted.\<close>

definition failures_of :: "string \<Rightarrow> (instant \<times> limiter_op) list \<Rightarrow> int" where
  "failures_of ip ops = int (length (filter (\<lambda>p. snd p = LoginFailed ip) ops))"

definition roomy :: "login_limiter \<Rightarrow> string set \<Rightarrow> bool" where
  "roomy l ips \<longleftrightarrow> finite ips \<and> fst ` set (li_attempts l) \<subseteq> ips \<and> int (card ips) \<le> li_maxEntries l"

fun address_of :: "limiter_op \<Rightarrow> string" where
  "address_of (LoginAsk ip) = ip"
| "address_of (LoginFailed ip) = ip"
| "address_of (LoginSucceeded ip) = ip"

lemma roomy_size:
  assumes "limiter_inv l" "roomy l ips" "k \<in> ips" "map_of (li_attempts l) k = None"
  shows "size_of l < li_maxEntries l"
proof -
  have "fst ` set (li_attempts l) \<subseteq> ips - {k}" using assms(2,4) by (auto simp: roomy_def map_of_eq_None_iff)
  then have "card (fst ` set (li_attempts l)) \<le> card (ips - {k})" using assms(2) by (intro card_mono) (auto simp: roomy_def)
  moreover have "card (ips - {k}) < card ips" using assms(2,3) by (intro card_Diff1_less) (auto simp: roomy_def)
  moreover have "card (fst ` set (li_attempts l)) = length (li_attempts l)"
    using assms(1) distinct_card [of "map fst (li_attempts l)"] by (simp add: limiter_inv_def)
  ultimately show ?thesis using assms(2) by (simp add: size_of_def roomy_def)
qed

lemma roomy_fail:
  assumes "limiter_inv l" "roomy l ips" "k \<in> ips"
  shows "snd (limiter_fail now k l) = snd (count_failure now k
     (case map_of (li_attempts l) k of Some st \<Rightarrow> st | None \<Rightarrow> \<lparr>at_failures = 0, at_lockedUntil = None, at_lastSeen = 0\<rparr>) l)"
proof (cases "map_of (li_attempts l) k")
  case None
  from roomy_size [OF assms None] have "make_room now l = l" "\<not> size_of l \<ge> li_maxEntries l" by (simp_all add: make_room_def)
  with None show ?thesis by (simp add: limiter_fail_def Let_def)
qed (simp add: limiter_fail_def)

lemma count_attempts:
  "li_attempts (snd (count_failure now ip st l)) = put_attempt ip (st\<lparr>at_failures := at_failures st + 1, at_lastSeen := now,
     at_lockedUntil := (if at_failures st + 1 \<ge> li_maxFailures l then Some (now + li_lockout l) else at_lockedUntil st)\<rparr>) (li_attempts l)"
  by (simp add: count_failure_def Let_def)

lemma roomy_step:
  assumes "limiter_inv l" "roomy l ips" "address_of op \<in> ips"
  shows "roomy (limiter_step (now, op) l) ips"
proof -
  have keys: "fst ` set (put_attempt k st m) \<subseteq> insert k (fst ` set m)" for k st m using set_put [of k st m] by auto
  show ?thesis
  proof (cases op)
    case (LoginAsk k)
    with assms(2) show ?thesis by (auto simp: roomy_def limiter_allow_def drop_attempt_def split: option.split)
  next
    case (LoginFailed k)
    then have "limiter_step (now, op) l = snd (count_failure now k
     (case map_of (li_attempts l) k of Some st \<Rightarrow> st | None \<Rightarrow> \<lparr>at_failures = 0, at_lockedUntil = None, at_lastSeen = 0\<rparr>) l)"
      using roomy_fail [OF assms(1,2)] assms(3) by simp
    moreover have "roomy (snd (count_failure now k st l)) ips" for st
    proof -
      have "fst ` set (li_attempts (snd (count_failure now k st l))) \<subseteq> insert k (fst ` set (li_attempts l))"
        unfolding count_attempts by (rule keys)
      moreover have "k \<in> ips" using assms(3) LoginFailed by simp
      ultimately show ?thesis
        using assms(2) settings_eq(1) [OF settings_count [of now k st l]] unfolding roomy_def by auto
    qed
    ultimately show ?thesis by simp
  next
    case (LoginSucceeded k)
    with assms(2) show ?thesis by (auto simp: roomy_def limiter_success_def drop_attempt_def)
  qed
qed


definition guesses :: "instant \<Rightarrow> string \<Rightarrow> int \<Rightarrow> login_limiter \<Rightarrow> bool" where
  "guesses u ip n l \<longleftrightarrow>
     (case map_of (li_attempts l) ip of
        None \<Rightarrow> n = 0
      | Some st \<Rightarrow> n \<le> at_failures st \<and> (\<forall>v. at_lockedUntil st = Some v \<longrightarrow> u \<le> v))"

lemma step_guesses:
  assumes "limiter_inv l" "roomy l ips" "address_of op \<in> ips" "guesses u ip n l"
    "u - li_lockout l \<le> now" "now < u" "op \<noteq> LoginSucceeded ip"
  shows "guesses u ip (n + (if op = LoginFailed ip then 1 else 0)) (limiter_step (now, op) l)"
proof (cases op)
  case (LoginAsk k)
  show ?thesis
  proof (cases "map_of (li_attempts l) k")
    case (Some st)
    show ?thesis
    proof (cases "at_lockedUntil st")
      case (Some v)
      with \<open>map_of (li_attempts l) k = Some st\<close> LoginAsk assms(4,6) show ?thesis
        by (cases "k = ip") (auto simp: guesses_def limiter_allow_def map_of_drop)
    qed (use \<open>map_of (li_attempts l) k = Some st\<close> LoginAsk assms(4) in \<open>simp add: limiter_allow_def\<close>)
  qed (use LoginAsk assms(4) in \<open>simp add: limiter_allow_def\<close>)
next
  case (LoginFailed k)
  then have "limiter_step (now, op) l = snd (count_failure now k
     (case map_of (li_attempts l) k of Some st \<Rightarrow> st | None \<Rightarrow> \<lparr>at_failures = 0, at_lockedUntil = None, at_lastSeen = 0\<rparr>) l)"
    using roomy_fail [OF assms(1,2)] assms(3) by simp
  with LoginFailed assms(4,5) show ?thesis
    by (cases "k = ip"; cases "map_of (li_attempts l) ip") (auto simp: guesses_def count_lookup)
next
  case (LoginSucceeded k)
  with assms(4,7) show ?thesis by (auto simp: guesses_def limiter_success_def map_of_drop)
qed

lemma run_guesses:
  assumes "limiter_inv l" "roomy l ips" "1 \<le> li_maxFailures l" "guesses u ip n l"
    "\<forall>(t, op) \<in> set ops. u - li_lockout l \<le> t \<and> t < u \<and> op \<noteq> LoginSucceeded ip \<and> address_of op \<in> ips"
  shows "guesses u ip (n + failures_of ip ops) (limiter_run ops l)"
  using assms
proof (induction ops arbitrary: l n)
  case (Cons p ops)
  obtain t op where p: "p = (t, op)" by fastforce
  note se = settings_eq [OF settings_step [of p l]]
  have a: "address_of op \<in> ips" "u - li_lockout l \<le> t" "t < u" "op \<noteq> LoginSucceeded ip" using Cons.prems(5) p by auto
  have "guesses u ip (n + (if op = LoginFailed ip then 1 else 0)) (limiter_step p l)"
    unfolding p by (rule step_guesses [OF Cons.prems(1,2) a(1) Cons.prems(4) a(2-4)])
  from Cons.IH [OF inv_step [OF Cons.prems(1,3)] roomy_step [OF Cons.prems(1,2) a(1), of t, folded p] _ this] Cons.prems(3,5) se
  show ?case by (simp add: limiter_run_def failures_of_def p algebra_simps split: if_splits)
qed (simp add: limiter_run_def failures_of_def)

section \<open>Back-off\<close>

lemma wrap_shift:
  assumes "shift < 62"
  shows "(let d = wrap64 (second * 2 ^ shift) in if d \<le> 0 \<or> d > 8 * second then 8 * second else d) = min (second * 2 ^ shift) (8 * second)"
proof -
  have all: "\<forall>k \<in> set [0..<62]. (let d = wrap64 (second * 2 ^ k) in if d \<le> 0 \<or> d > 8 * second then 8 * second else d) = min (second * 2 ^ k) (8 * second)"
    by (simp add: upt_rec wrap64_def)
  show ?thesis by (rule bspec [OF all]) (use assms in simp)
qed

section \<open>Properties\<close>

lemma limiter_inv_new: "limiter_inv (newLoginLimiter order)"
  by (simp add: limiter_inv_def newLoginLimiter_def size_of_def)

text \<open>
  C38. A lockout survives a flood: whatever logins fail, succeed or are asked for from other addresses,
  and however many addresses they come from, the table of attempts keeps within its bound and a locked
  address is refused, with at least the remaining time as the retry delay, until its lockout ends; only
  a success of that very address, which the refusal prevents, would clear it.
\<close>

theorem lockout_survives_flood:
  assumes "limiter_inv l" "fair_order l" "1 \<le> li_maxFailures l" "locked_until u ip l"
    and "\<forall>(t, op) \<in> set ops. u - li_lockout l \<le> t \<and> t < u \<and> op \<noteq> LoginSucceeded ip"
    and "now < u"
  shows "size_of (limiter_run ops l) \<le> li_maxEntries l
    \<and> (\<exists>d. fst (limiter_allow now ip (limiter_run ops l)) = (False, d) \<and> u - now \<le> d)"
proof -
  note r = run_inv [OF assms(1,3), of ops]
  then have "size_of (limiter_run ops l) \<le> li_maxEntries l" using settings_eq(1) [OF conjunct2 [OF r]] by (simp add: limiter_inv_def)
  moreover have "locked_until u ip (limiter_run ops l)" using assms(1-5) by (rule run_keeps_lock)
  ultimately show ?thesis using locked_refused [OF _ assms(6)] by blast
qed

text \<open>
  Guessing is locked out: from an address with a clean record, once \<open>maxFailures\<close> logins have
  failed without a success in between, all of them and everything else within one lockout window and
  from no more addresses than the table holds, every further attempt in that window is refused.
\<close>

theorem guessing_is_locked_out:
  assumes "limiter_inv l" "roomy l ips" "1 \<le> li_maxFailures l" "map_of (li_attempts l) ip = None"
    and "\<forall>(t, op) \<in> set ops. u - li_lockout l \<le> t \<and> t < u \<and> op \<noteq> LoginSucceeded ip \<and> address_of op \<in> ips"
    and "li_maxFailures l \<le> failures_of ip ops" "now < u"
  shows "\<exists>d. fst (limiter_allow now ip (limiter_run ops l)) = (False, d) \<and> u - now \<le> d"
proof -
  have "guesses u ip 0 l" by (simp add: guesses_def assms(4))
  from run_guesses [OF assms(1-3) this assms(5)] have g: "guesses u ip (failures_of ip ops) (limiter_run ops l)" by simp
  note r = run_inv [OF assms(1,3), of ops]
  obtain st where st: "map_of (li_attempts (limiter_run ops l)) ip = Some st"
    "failures_of ip ops \<le> at_failures st" "\<forall>v. at_lockedUntil st = Some v \<longrightarrow> u \<le> v"
    using g assms(3,6) by (auto simp: guesses_def split: option.splits)
  have "li_maxFailures (limiter_run ops l) \<le> at_failures st"
    using st(2) assms(6) settings_eq(2) [OF conjunct2 [OF r]] by simp
  with bspec [OF conjunct2 [OF conjunct2 [OF conjunct1 [OF r, unfolded limiter_inv_def]]] map_of_SomeD [OF st(1)]]
  have "at_lockedUntil st \<noteq> None" by simp
  with st have "locked_until u ip (limiter_run ops l)" by (auto simp: locked_until_def)
  then show ?thesis using assms(7) by (rule locked_refused)
qed

text \<open>
  C39. The back-off of the \<open>n\<close>th consecutive failure, computed with a shift on 64-bit durations, is the
  doubling one would write on unbounded integers: nothing for the first, then one second doubled with
  each failure and capped at eight seconds, for every count however large.
\<close>

theorem backoff_is_capped_doubling:
  "backoffFor (newLoginLimiter order) n = (if n \<le> 1 then 0 else min (1 * second * 2 ^ nat (n - 2)) (8 * second))"
proof (cases "n \<le> 1")
  case False
  show ?thesis
  proof (cases "n - 2 < 62")
    case True
    then have "nat (n - 2) < 62" by simp
    from wrap_shift [OF this] have
      "(if wrap64 (1 * second * 2 ^ nat (n - 2)) \<le> 0 \<or> wrap64 (1 * second * 2 ^ nat (n - 2)) > 8 * second then 8 * second
        else wrap64 (1 * second * 2 ^ nat (n - 2))) = min (1 * second * 2 ^ nat (n - 2)) (8 * second)"
      by (simp only: Let_def mult_1)
    with False True show ?thesis unfolding backoffFor_def newLoginLimiter_def Let_def login_limiter.simps by simp
  next
    case big: False
    then have "(2 :: int) ^ 62 \<le> 2 ^ nat (n - 2)" by (intro power_increasing) simp_all
    then have "8 * second \<le> 1 * second * 2 ^ nat (n - 2)" by simp
    with False big show ?thesis by (simp add: backoffFor_def newLoginLimiter_def Let_def min_def)
  qed
qed (simp add: backoffFor_def)

section \<open>Witnesses\<close>

definition sample_attempts :: "(instant \<times> limiter_op) list" where
  "sample_attempts = map (\<lambda>i. (int i, LoginFailed ''10.0.0.9'')) [0..<10]"

lemma sample_guesses: "failures_of ''10.0.0.9'' sample_attempts = 10"
  "\<forall>(t, op) \<in> set sample_attempts. 0 \<le> t \<and> t < 15 * minute \<and> op \<noteq> LoginSucceeded ''10.0.0.9'' \<and> address_of op \<in> {''10.0.0.9''}"
  by (auto simp: failures_of_def sample_attempts_def)

theorem guessing_is_locked_out_witness:
  "\<exists>d. fst (limiter_allow 20 ''10.0.0.9'' (limiter_run sample_attempts (newLoginLimiter id))) = (False, d) \<and> 15 * minute - 20 \<le> d"
  by (rule guessing_is_locked_out [where ips = "{''10.0.0.9''}"])
    (use limiter_inv_new sample_guesses in \<open>auto simp: roomy_def newLoginLimiter_def\<close>)

definition locked_limiter :: login_limiter where
  "locked_limiter = (newLoginLimiter id)
     \<lparr>li_attempts := [(''10.0.0.9'', \<lparr>at_failures = 10, at_lockedUntil = Some (15 * minute), at_lastSeen = 0\<rparr>)]\<rparr>"

theorem lockout_survives_flood_witness:
  "\<exists>d. fst (limiter_allow 20 ''10.0.0.9'' (limiter_run [(5, LoginFailed ''10.0.0.8''), (6, LoginAsk ''10.0.0.9'')] locked_limiter)) = (False, d)
     \<and> 15 * minute - 20 \<le> d"
  using lockout_survives_flood [of locked_limiter "15 * minute" "''10.0.0.9''" "[(5, LoginFailed ''10.0.0.8''), (6, LoginAsk ''10.0.0.9'')]" 20]
  by (simp add: locked_limiter_def limiter_inv_def fair_order_def locked_until_def newLoginLimiter_def size_of_def)

end
