(* ===== verification/Go_Net.thy ===== *)
theory Go_Net
  imports Go_Strings Go_Paths
begin

unbundle bit_operations_syntax

text \<open>
  What \<^verbatim>\<open>internal/trustnet/trustnet.go\<close> uses of Go's package \<open>net\<close>: splitting a host and port,
  parsing addresses (with \<open>netip.ParseAddr\<close> behind \<open>net.ParseIP\<close>) and CIDR blocks, and membership of an
  address in a block.  An address is the list of its bytes, 16 of them as \<open>ParseIP\<close> returns it.
\<close>

section \<open>Host and port\<close>

definition split_last :: "char \<Rightarrow> string \<Rightarrow> (string \<times> string) option" where
  "split_last c s =
     (if c \<notin> set s then None
      else let after = rev (takeWhile (\<lambda>x. x \<noteq> c) (rev s)) in Some (take (length s - length after - 1) s, after))"

definition split_first :: "char \<Rightarrow> string \<Rightarrow> (string \<times> string) option" where
  "split_first c s = (if c \<notin> set s then None else let b = takeWhile (\<lambda>x. x \<noteq> c) s in Some (b, drop (length b + 1) s))"

text \<open>\<open>net.SplitHostPort\<close>: the host and the port, or \<open>None\<close> for its error.\<close>

definition SplitHostPort :: "string \<Rightarrow> (string \<times> string) option" where
  "SplitHostPort hp =
     (case split_last (CHR '':'') hp of
        None \<Rightarrow> None
      | Some (host0, port) \<Rightarrow>
          if hd hp = CHR ''['' then
            (case split_first (CHR '']'') hp of
               None \<Rightarrow> None
             | Some (b, rest) \<Rightarrow>
                 if length b + 1 \<noteq> length host0 then None
                 else let host = tl b in
                   if CHR ''['' \<in> set (tl hp) \<or> CHR '']'' \<in> set rest then None else Some (host, port))
          else if CHR '':'' \<in> set host0 then None
          else if CHR ''['' \<in> set hp \<or> CHR '']'' \<in> set hp then None
          else Some (host0, port))"

section \<open>Addresses\<close>

type_synonym ip = "nat list"

definition digit_value :: "char \<Rightarrow> nat option" where
  "digit_value c = (let b = byte_of c in if 48 \<le> b \<and> b \<le> 57 then Some (b - 48) else None)"

definition hex_value :: "char \<Rightarrow> nat option" where
  "hex_value c =
     (let b = byte_of c in
      if 48 \<le> b \<and> b \<le> 57 then Some (b - 48)
      else if 97 \<le> b \<and> b \<le> 102 then Some (b - 87)
      else if 65 \<le> b \<and> b \<le> 70 then Some (b - 55) else None)"

fun decimal :: "nat \<Rightarrow> string \<Rightarrow> nat option" where
  "decimal acc [] = Some acc"
| "decimal acc (c # cs) = (case digit_value c of None \<Rightarrow> None | Some d \<Rightarrow> decimal (acc * 10 + d) cs)"

text \<open>One field of a dotted address: digits without a leading zero, at most 255.\<close>

definition octet :: "string \<Rightarrow> nat option" where
  "octet f =
     (if f = [] \<or> (hd f = CHR ''0'' \<and> length f > 1) then None
      else case decimal 0 f of None \<Rightarrow> None | Some n \<Rightarrow> if n \<le> 255 then Some n else None)"

fun all_some :: "'a option list \<Rightarrow> 'a list option" where
  "all_some [] = Some []"
| "all_some (None # xs) = None"
| "all_some (Some x # xs) = map_option (\<lambda>ys. x # ys) (all_some xs)"

definition parse_v4 :: "string \<Rightarrow> nat list option" where
  "parse_v4 s = (let fs = split_on (CHR ''.'') s in if length fs \<noteq> 4 then None else all_some (map octet fs))"

definition hex_prefix :: "string \<Rightarrow> string" where
  "hex_prefix s = takeWhile (\<lambda>c. hex_value c \<noteq> None) s"

definition hex_number :: "string \<Rightarrow> nat" where
  "hex_number ds = foldl (\<lambda>a c. a * 16 + (case hex_value c of None \<Rightarrow> 0 | Some d \<Rightarrow> d)) 0 ds"

text \<open>The loop over the fields of an IPv6 address: the bytes so far and the position of the \<open>::\<close>.\<close>

function v6_fields :: "string \<Rightarrow> nat list \<Rightarrow> nat option \<Rightarrow> (nat list \<times> nat option) option" where
  "v6_fields s bs ellipsis =
     (if length bs \<ge> 16 then (if s = [] then Some (bs, ellipsis) else None)
      else let ds = hex_prefix s; rest = drop (length ds) s in
        if ds = [] \<or> length ds > 4 then None
        else if rest \<noteq> [] \<and> hd rest = CHR ''.'' then
          (if (ellipsis = None \<and> length bs \<noteq> 12) \<or> length bs + 4 > 16 then None
           else case parse_v4 s of None \<Rightarrow> None | Some q \<Rightarrow> Some (bs @ q, ellipsis))
        else let bs' = bs @ [hex_number ds div 256, hex_number ds mod 256] in
          if rest = [] then Some (bs', ellipsis)
          else if hd rest \<noteq> CHR '':'' \<or> length rest = 1 then None
          else let s1 = tl rest in
            if hd s1 = CHR '':'' then
              (if ellipsis \<noteq> None then None
               else if length s1 = 1 then Some (bs', Some (length bs')) else v6_fields (tl s1) bs' (Some (length bs')))
            else v6_fields s1 bs' ellipsis)"
  by pat_completeness auto
termination by (relation "measure (\<lambda>(s, bs, e). 16 - length bs)") auto

declare v6_fields.simps [simp del]

definition parse_v6 :: "string \<Rightarrow> nat list option" where
  "parse_v6 s =
     (let lead = (take 2 s = ''::''); body = (if lead then drop 2 s else s) in
      if lead \<and> body = [] then Some (replicate 16 0)
      else case v6_fields body [] (if lead then Some 0 else None) of
        None \<Rightarrow> None
      | Some (bs, None) \<Rightarrow> if length bs < 16 then None else Some bs
      | Some (bs, Some e) \<Rightarrow>
          if length bs < 16 then Some (take e bs @ replicate (16 - length bs) 0 @ drop e bs) else None)"

definition v4_prefix :: "nat list" where
  "v4_prefix = replicate 10 0 @ [255, 255]"

text \<open>\<open>netip.ParseAddr\<close> for an address without a zone: whether it is an IPv4 address, and its 16 bytes.\<close>

definition parse_addr :: "string \<Rightarrow> (bool \<times> ip) option" where
  "parse_addr s =
     (case filter (\<lambda>c. c = CHR ''.'' \<or> c = CHR '':'' \<or> c = CHR ''%'') s of
        [] \<Rightarrow> None
      | c # _ \<Rightarrow>
          if c = CHR ''.'' then map_option (\<lambda>q. (True, v4_prefix @ q)) (parse_v4 s)
          else if c = CHR ''%'' \<or> CHR ''%'' \<in> set s then None
          else map_option (\<lambda>bs. (False, bs)) (parse_v6 s))"

definition ParseIP :: "string \<Rightarrow> ip option" where
  "ParseIP s = map_option snd (parse_addr s)"

definition To4 :: "ip \<Rightarrow> ip option" where
  "To4 ip = (if length ip = 4 then Some ip
             else if length ip = 16 \<and> take 12 ip = v4_prefix then Some (drop 12 ip) else None)"

definition IsLoopback :: "ip \<Rightarrow> bool" where
  "IsLoopback ip = (case To4 ip of Some q \<Rightarrow> hd q = 127 | None \<Rightarrow> ip = replicate 15 0 @ [1])"

section \<open>Blocks\<close>

record ip_net =
  net_ip :: ip
  net_mask :: "nat list"

definition mask_byte :: "nat \<Rightarrow> nat" where
  "mask_byte n = (if n \<ge> 8 then 255 else 256 - 2 ^ (8 - n))"

definition CIDRMask :: "nat \<Rightarrow> nat \<Rightarrow> nat list" where
  "CIDRMask ones bits = map (\<lambda>i. mask_byte (ones - 8 * i)) [0..<bits div 8]"

definition mask_ip :: "ip \<Rightarrow> nat list \<Rightarrow> ip" where
  "mask_ip ip m =
     (let ip' = (if length m = 4 \<and> length ip = 16 \<and> take 12 ip = v4_prefix then drop 12 ip else ip)
      in map2 (\<lambda>a b. a AND b) ip' m)"

definition ParseCIDR :: "string \<Rightarrow> ip_net option" where
  "ParseCIDR s =
     (case split_first (CHR ''/'') s of
        None \<Rightarrow> None
      | Some (addr, ones) \<Rightarrow>
          (case (parse_addr addr, if ones = [] then None else decimal 0 ones) of
             (Some (v4, ip), Some n) \<Rightarrow>
               (let bits = (if v4 then 32 else 128) in
                if n > bits then None else Some \<lparr>net_ip = mask_ip ip (CIDRMask n bits), net_mask = CIDRMask n bits\<rparr>)
           | _ \<Rightarrow> None))"

definition Contains :: "ip_net \<Rightarrow> ip \<Rightarrow> bool" where
  "Contains n ip =
     (let nn = (case To4 (net_ip n) of Some q \<Rightarrow> q | None \<Rightarrow> net_ip n);
          m = (if length (net_mask n) = 16 \<and> length nn = 4 then drop 12 (net_mask n) else net_mask n);
          x = (case To4 ip of Some q \<Rightarrow> q | None \<Rightarrow> ip)
      in length m = length nn \<and> length x = length nn
         \<and> list_all (\<lambda>((a, b), k). a AND k = b AND k) (zip (zip nn x) m))"

end
