(* ===== verification/Trust_Net.thy ===== *)
theory Trust_Net
  imports Go_Net
begin

text \<open>
  \<^verbatim>\<open>internal/trustnet/trustnet.go\<close>: whose request is it?  \<open>http_req\<close> is a request as \<open>net/http\<close> has
  decoded it: the peer address, the header lines by canonical name in the order received, the cookies,
  and the form values (\<open>None\<close> for a field that was not sent) and query values.
\<close>

section \<open>Requests\<close>

record http_req =
  rq_remote :: string
  rq_headers :: "(string \<times> string) list"
  rq_cookies :: "(string \<times> string) list"
  rq_form :: "string \<Rightarrow> string option"
  rq_query :: "string \<Rightarrow> string"
  rq_host :: string
  rq_uri :: string
  rq_tls :: bool

definition header_values :: "http_req \<Rightarrow> string \<Rightarrow> string list" where
  "header_values r k = map snd (filter (\<lambda>h. fst h = k) (rq_headers r))"

definition header_get :: "http_req \<Rightarrow> string \<Rightarrow> string" where
  "header_get r k = (case header_values r k of [] \<Rightarrow> [] | v # _ \<Rightarrow> v)"

definition cookie_of :: "http_req \<Rightarrow> string \<Rightarrow> string option" where
  "cookie_of r k = map_of (rq_cookies r) k"

section \<open>Client address\<close>

fun parse_cidrs :: "string list \<Rightarrow> ip_net list result" where
  "parse_cidrs [] = Inr []"
| "parse_cidrs (raw # raws) =
     (let entry = TrimSpace raw in
      if entry = [] then parse_cidrs raws
      else case ParseCIDR entry of
        None \<Rightarrow> Inl (wrapf (''invalid CIDR \"'' @ entry @ ''\"'') (errorf (''invalid CIDR address: '' @ entry)))
      | Some n \<Rightarrow> (case parse_cidrs raws of Inl e \<Rightarrow> Inl e | Inr ns \<Rightarrow> Inr (n # ns)))"

definition ipInAny :: "ip option \<Rightarrow> ip_net list \<Rightarrow> bool" where
  "ipInAny ip nets = (case ip of None \<Rightarrow> False | Some a \<Rightarrow> list_ex (\<lambda>n. Contains n a) nets)"

definition remoteAddrIP :: "string \<Rightarrow> ip option" where
  "remoteAddrIP remote =
     (let host = (case SplitHostPort remote of Some (h, _) \<Rightarrow> h | None \<Rightarrow> remote)
      in ParseIP (takeWhile (\<lambda>c. c \<noteq> CHR ''%'') (TrimSpace host)))"

definition splitXFF :: "string \<Rightarrow> string list" where
  "splitXFF header =
     (if TrimSpace header = [] then []
      else filter (\<lambda>e. e \<noteq> []) (map TrimSpace (rev (split_on (CHR '','') header))))"

definition xff_ip :: "string \<Rightarrow> ip option" where
  "xff_ip raw = ParseIP (case SplitHostPort raw of Some (h, _) \<Rightarrow> h | None \<Rightarrow> raw)"

fun first_client :: "ip_net list \<Rightarrow> string list \<Rightarrow> ip option" where
  "first_client proxies [] = None"
| "first_client proxies (raw # raws) =
     (case xff_ip raw of
        None \<Rightarrow> first_client proxies raws
      | Some a \<Rightarrow> if ipInAny (Some a) proxies then first_client proxies raws else Some a)"

definition XForwardedFor :: string where "XForwardedFor = ''X-Forwarded-For''"

definition ClientIP :: "http_req \<Rightarrow> ip_net list \<Rightarrow> ip option" where
  "ClientIP r proxies =
     (let remote = remoteAddrIP (rq_remote r) in
      if remote = None \<or> \<not> ipInAny remote proxies then remote
      else case first_client proxies (splitXFF (join_with (CHR '','') (header_values r XForwardedFor))) of
        Some a \<Rightarrow> Some a
      | None \<Rightarrow> remote)"

section \<open>Policies\<close>

record trust_policy =
  tp_allow :: "ip_net list"
  tp_proxies :: "ip_net list"

definition allow_contains :: "ip_net list \<Rightarrow> ip option \<Rightarrow> bool" where
  "allow_contains nets ip = (case ip of None \<Rightarrow> False | Some a \<Rightarrow> IsLoopback a \<or> ipInAny ip nets)"

definition NewPolicy :: "string list \<Rightarrow> string list \<Rightarrow> trust_policy result" where
  "NewPolicy cidrs proxies =
     (case parse_cidrs cidrs of
        Inl e \<Rightarrow> Inl (wrapf ''trusted_networks.cidrs'' e)
      | Inr allow \<Rightarrow>
          (case parse_cidrs proxies of
             Inl e \<Rightarrow> Inl (wrapf ''trusted_networks.trusted_proxies'' e)
           | Inr ps \<Rightarrow> Inr \<lparr>tp_allow = allow, tp_proxies = ps\<rparr>))"

definition LoopbackOnly :: trust_policy where
  "LoopbackOnly = \<lparr>tp_allow = [], tp_proxies = []\<rparr>"

definition policy_ClientIP :: "trust_policy \<Rightarrow> http_req \<Rightarrow> ip option" where
  "policy_ClientIP p r = ClientIP r (tp_proxies p)"

definition FromTrustedProxy :: "trust_policy \<Rightarrow> http_req \<Rightarrow> bool" where
  "FromTrustedProxy p r = ipInAny (remoteAddrIP (rq_remote r)) (tp_proxies p)"

definition Trusted :: "trust_policy \<Rightarrow> http_req \<Rightarrow> bool" where
  "Trusted p r = allow_contains (tp_allow p) (policy_ClientIP p r)"

section \<open>Forged headers\<close>

lemma join_with_append:
  "xs \<noteq> [] \<Longrightarrow> ys \<noteq> [] \<Longrightarrow> join_with c (xs @ ys) = join_with c xs @ c # join_with c ys"
proof (induction xs rule: join_with.induct)
  case (2 c x)
  then show ?case by (cases ys) auto
qed auto

lemma split_on_join2: "split_on c (s @ c # t) = split_on c s @ split_on c t"
proof (induction s)
  case (Cons x s)
  then show ?case by (cases "split_on c s") auto
qed simp

lemma comma_no_space: "p \<in> set space_forms \<Longrightarrow> CHR '','' \<notin> set p"
proof -
  assume "p \<in> set space_forms"
  then have "\<forall>c \<in> set p. byte_of c \<noteq> (44 :: nat)" by (auto simp: space_forms_def bytes_def)
  then show "CHR '','' \<notin> set p" by auto
qed

lemma comma_trim_left: "CHR '','' \<in> set s \<Longrightarrow> CHR '','' \<in> set (trim_left s)"
proof (induction s rule: trim_left.induct)
  case (1 s)
  show ?case
  proof (cases "leading_space s")
    case (Some p)
    then have p: "p \<in> set space_forms" "HasPrefix s p" by (auto simp: leading_space_def find_Some_iff)
    then obtain t where "s = p @ t" by (auto simp: HasPrefix_append)
    with comma_no_space [OF p(1)] 1 Some show ?thesis by (subst trim_left.simps) simp
  qed (use 1 in \<open>simp add: trim_left.simps [of s]\<close>)
qed

lemma comma_trim_right: "CHR '','' \<in> set s \<Longrightarrow> CHR '','' \<in> set (trim_right s)"
proof (induction s rule: trim_right.induct)
  case (1 s)
  show ?case
  proof (cases "trailing_space s")
    case (Some p)
    then have p: "p \<in> set space_forms" "HasSuffix s p" by (auto simp: trailing_space_def find_Some_iff)
    then obtain u where "rev s = rev p @ u" by (auto simp: HasSuffix_def HasPrefix_append)
    then have "s = rev u @ p" by (metis rev_append rev_rev_ident)
    with comma_no_space [OF p(1)] 1 Some show ?thesis by (subst trim_right.simps) simp
  qed (use 1 in \<open>simp add: trim_right.simps [of s]\<close>)
qed

text \<open>The entries of a header, right to left, with the blank ones dropped; a header that is blank as a
  whole has none, which is what the loop alone would give.\<close>

definition xff_entries :: "string \<Rightarrow> string list" where
  "xff_entries header = filter (\<lambda>e. e \<noteq> []) (map TrimSpace (rev (split_on (CHR '','') header)))"

lemma first_client_append:
  "first_client ps (xs @ ys) = (case first_client ps xs of Some a \<Rightarrow> Some a | None \<Rightarrow> first_client ps ys)"
  by (induction xs) (auto split: option.split)

lemma xff_entries_append:
  "xff_entries (s @ CHR '','' # t) = xff_entries t @ xff_entries s"
  by (simp add: xff_entries_def split_on_join2)


lemma splitXFF_entries: "splitXFF h = xff_entries h"
proof (cases "TrimSpace h = []")
  case True
  then have "CHR '','' \<notin> set h" using comma_trim_left [of h] comma_trim_right [of "trim_left h"] by (auto simp: TrimSpace_def)
  then show ?thesis using True by (simp add: splitXFF_def xff_entries_def split_on_free)
qed (simp add: splitXFF_def xff_entries_def)

definition forwarded :: "http_req \<Rightarrow> string" where
  "forwarded r = join_with (CHR '','') (header_values r XForwardedFor)"

definition client_entries :: "http_req \<Rightarrow> string list" where
  "client_entries r = xff_entries (forwarded r)"

lemma ClientIP_entries:
  "ClientIP r proxies =
     (let remote = remoteAddrIP (rq_remote r) in
      if ipInAny remote proxies then
        (case first_client proxies (client_entries r) of Some a \<Rightarrow> Some a | None \<Rightarrow> remote)
      else remote)"
  by (auto simp: ClientIP_def Let_def splitXFF_entries client_entries_def forwarded_def ipInAny_def)

text \<open>Text ahead of the chain of the proxies, on lines of its own or on the line a proxy appended to.\<close>

lemma forwarded_lines:
  "header_values r XForwardedFor = fs @ real \<Longrightarrow> fs \<noteq> [] \<Longrightarrow> real \<noteq> [] \<Longrightarrow> header_values h XForwardedFor = real
    \<Longrightarrow> forwarded r = join_with (CHR '','') fs @ CHR '','' # forwarded h"
  by (simp add: forwarded_def join_with_append)

lemma forwarded_line:
  "header_values r XForwardedFor = (f @ CHR '','' # x) # rest \<Longrightarrow> header_values h XForwardedFor = x # rest
    \<Longrightarrow> forwarded r = f @ CHR '','' # forwarded h"
  by (cases rest) (simp_all add: forwarded_def)

lemma client_entries_append: "forwarded r = forged @ CHR '','' # forwarded h \<Longrightarrow> client_entries r = client_entries h @ xff_entries forged"
  by (simp add: client_entries_def xff_entries_append)

lemma first_client_sound: "first_client ps es = Some a \<Longrightarrow> \<not> ipInAny (Some a) ps \<and> (\<exists>e \<in> set es. xff_ip e = Some a)"
  by (induction es) (auto split: option.splits if_splits)

text \<open>
  C40. What a client can forge: a request that does not come straight from a configured proxy has the
  address of its peer whatever its headers say.  Through a proxy, text that the client put ahead of
  the chain the proxies appended, on lines of its own or on theirs, makes no difference if that chain
  has an address outside the ranges of the proxies; only if every address of the chain is one of
  theirs, or none can be read, is the client's text looked at.  An address found in a header is never one
  of a proxy.
\<close>

theorem client_address_unforgeable:
  assumes "forwarded r = forged @ CHR '','' # forwarded honest" "rq_remote honest = rq_remote r"
  shows "(\<not> FromTrustedProxy p r \<longrightarrow> policy_ClientIP p r = remoteAddrIP (rq_remote r))
    \<and> (FromTrustedProxy p r \<longrightarrow> policy_ClientIP p r =
         (case first_client (tp_proxies p) (client_entries honest) of
            Some a \<Rightarrow> policy_ClientIP p honest
          | None \<Rightarrow> (case first_client (tp_proxies p) (xff_entries forged) of Some a \<Rightarrow> Some a | None \<Rightarrow> remoteAddrIP (rq_remote r))))
    \<and> (policy_ClientIP p r \<noteq> remoteAddrIP (rq_remote r) \<longrightarrow> \<not> ipInAny (policy_ClientIP p r) (tp_proxies p))"
  using client_entries_append [OF assms(1)] first_client_sound [of "tp_proxies p" "client_entries r"]
  by (auto simp: FromTrustedProxy_def policy_ClientIP_def ClientIP_entries Let_def assms(2) first_client_append split: option.splits)

section \<open>Witness\<close>

definition sample_req :: "string list \<Rightarrow> http_req" where
  "sample_req xff = \<lparr>rq_remote = ''10.0.0.2:4711'', rq_headers = map (\<lambda>v. (XForwardedFor, v)) xff, rq_cookies = [],
     rq_form = (\<lambda>_. None), rq_query = (\<lambda>_. []), rq_host = ''h'', rq_uri = ''/'', rq_tls = False\<rparr>"

definition sample_policy :: trust_policy where
  "sample_policy = \<lparr>tp_allow = [], tp_proxies = [\<lparr>net_ip = [10, 0, 0, 0], net_mask = [255, 0, 0, 0]\<rparr>]\<rparr>"

lemma sample_client:
  "first_client (tp_proxies sample_policy) (client_entries (sample_req [''203.0.113.7,10.0.0.3''])) = Some (v4_prefix @ [203, 0, 113, 7])"
proof -
  have h: "header_values (sample_req [''203.0.113.7,10.0.0.3'']) XForwardedFor = [''203.0.113.7,10.0.0.3'']"
    by (simp add: header_values_def sample_req_def)
  have "split_on (CHR '','') ''203.0.113.7,10.0.0.3'' = [''203.0.113.7'', ''10.0.0.3'']" by code_simp
  moreover have "TrimSpace ''203.0.113.7'' = ''203.0.113.7''" "TrimSpace ''10.0.0.3'' = ''10.0.0.3''"
    by (rule TrimSpace_graphic, simp add: graphic_def)+
  ultimately have e: "client_entries (sample_req [''203.0.113.7,10.0.0.3'']) = [''10.0.0.3'', ''203.0.113.7'']"
    by (simp add: client_entries_def forwarded_def h xff_entries_def)
  show ?thesis unfolding e by code_simp
qed

theorem client_address_unforgeable_witness:
  "policy_ClientIP sample_policy (sample_req [''127.0.0.1,203.0.113.7,10.0.0.3''])
   = policy_ClientIP sample_policy (sample_req [''203.0.113.7,10.0.0.3''])"
proof -
  let ?r = "sample_req [''127.0.0.1,203.0.113.7,10.0.0.3'']" and ?h = "sample_req [''203.0.113.7,10.0.0.3'']"
  have "forwarded ?r = ''127.0.0.1'' @ CHR '','' # forwarded ?h"
    by (simp add: forwarded_def header_values_def sample_req_def)
  moreover have "rq_remote ?h = rq_remote ?r" by (simp add: sample_req_def)
  ultimately have "FromTrustedProxy sample_policy ?r \<Longrightarrow> policy_ClientIP sample_policy ?r = policy_ClientIP sample_policy ?h"
    "\<not> FromTrustedProxy sample_policy ?r \<Longrightarrow> policy_ClientIP sample_policy ?r = remoteAddrIP (rq_remote ?r)"
    using client_address_unforgeable [of ?r "''127.0.0.1''" ?h sample_policy] sample_client by simp_all
  then show ?thesis
    by (cases "FromTrustedProxy sample_policy ?r")
      (auto simp: policy_ClientIP_def ClientIP_entries FromTrustedProxy_def Let_def sample_req_def)
qed

end
