(* ===== verification/Web_Auth.thy ===== *)
theory Web_Auth
  imports Go_Strings Queue_State
begin

text \<open>
  \<^verbatim>\<open>internal/webauth\<close>: the browser login.  The tables \<open>users\<close> and \<open>sessions\<close> with their constraints, the
  two stores over them, and \<open>Service\<close>.  Argon2id (\<open>HashPassword\<close>, \<open>VerifyPassword\<close>), SHA-256 and the
  random source are answers of the environment; every operation takes the instant its clock reads.
\<close>

section \<open>Tables\<close>

record user =
  u_ID :: string
  u_Username :: string
  u_PasswordHash :: string
  u_CreatedAt :: stamp
  u_UpdatedAt :: stamp

record session =
  se_TokenHash :: string
  se_UserID :: string
  se_CreatedAt :: stamp
  se_ExpiresAt :: stamp

record 'x auth_db =
  ad_users :: "user list"
  ad_sessions :: "session list"
  ad_x :: 'x

record 'x auth_env =
  ae_fault :: "'x \<Rightarrow> string option \<times> 'x"
  ae_rand :: "nat \<Rightarrow> 'x \<Rightarrow> string result \<times> 'x"
  ae_hash :: "string \<Rightarrow> 'x \<Rightarrow> string result \<times> 'x"
  ae_verify :: "string \<Rightarrow> string \<Rightarrow> bool result"
  ae_sha :: "string \<Rightarrow> string"

text \<open>A statement: the engine's fault, or its answer. \<open>StmtConstraint\<close> is a violated constraint.\<close>

datatype stmt_error = StmtFault string | StmtConstraint

definition stmt_run :: "'x auth_env \<Rightarrow> ('x auth_db \<Rightarrow> (stmt_error + 'a) \<times> 'x auth_db) \<Rightarrow> 'x auth_db \<Rightarrow> (stmt_error + 'a) \<times> 'x auth_db" where
  "stmt_run E f w =
     (case ae_fault E (ad_x w) of
        (Some m, x) \<Rightarrow> (Inl (StmtFault m), w\<lparr>ad_x := x\<rparr>)
      | (None, x) \<Rightarrow> f (w\<lparr>ad_x := x\<rparr>))"

definition stmt_goerr :: "stmt_error \<Rightarrow> goerr" where
  "stmt_goerr e = (case e of StmtFault m \<Rightarrow> errorf m | StmtConstraint \<Rightarrow> errorf ''constraint failed'')"

text \<open>The collation of the column \<open>username\<close>.\<close>

definition nocase :: "string \<Rightarrow> string" where
  "nocase s = map lower_byte s"

definition ErrUserExists :: goerr where "ErrUserExists = GoErr ''webauth: user already exists'' [WebUserExists]"
definition ErrInvalidCredentials :: goerr where
  "ErrInvalidCredentials = GoErr ''webauth: invalid credentials'' [WebInvalidCredentials]"
definition ErrInvalidSession :: goerr where "ErrInvalidSession = GoErr ''webauth: invalid session'' [WebInvalidSession]"
definition ErrPasswordTooShort :: goerr where
  "ErrPasswordTooShort = GoErr ''webauth: password must be at least 8 characters'' [WebPasswordTooShort]"

definition MinPasswordLength :: nat where "MinPasswordLength = 8"
definition DefaultSessionTTL :: duration where "DefaultSessionTTL = 7 * 24 * hour"
definition sessionTokenBytes :: nat where "sessionTokenBytes = 32"
definition userIDBytes :: nat where "userIDBytes = 16"

section \<open>Users\<close>

definition newID :: "'x auth_env \<Rightarrow> 'x auth_db \<Rightarrow> string result \<times> 'x auth_db" where
  "newID E w =
     (case ae_rand E userIDBytes (ad_x w) of
        (Inl e, x) \<Rightarrow> (Inl (wrapf ''webauth: generate user id'' e), w\<lparr>ad_x := x\<rparr>)
      | (Inr b, x) \<Rightarrow> (Inr (hex_encode b), w\<lparr>ad_x := x\<rparr>))"

definition select_user :: "'x auth_env \<Rightarrow> (user \<Rightarrow> bool) \<Rightarrow> 'x auth_db \<Rightarrow> user option result \<times> 'x auth_db" where
  "select_user E p w =
     (case stmt_run E (\<lambda>w. (Inr (first_where p (ad_users w)), w)) w of
        (Inl e, w1) \<Rightarrow> (Inl (wrapf ''webauth: get user'' (stmt_goerr e)), w1)
      | (Inr u, w1) \<Rightarrow> (Inr u, w1))"

definition GetByUsername :: "'x auth_env \<Rightarrow> string \<Rightarrow> 'x auth_db \<Rightarrow> user option result \<times> 'x auth_db" where
  "GetByUsername E name = select_user E (\<lambda>u. nocase (u_Username u) = nocase (TrimSpace name))"

definition GetByID :: "'x auth_env \<Rightarrow> string \<Rightarrow> 'x auth_db \<Rightarrow> user option result \<times> 'x auth_db" where
  "GetByID E i = select_user E (\<lambda>u. u_ID u = i)"

definition requireByID :: "'x auth_env \<Rightarrow> string \<Rightarrow> 'x auth_db \<Rightarrow> user result \<times> 'x auth_db" where
  "requireByID E i w =
     (case GetByID E i w of
        (Inl e, w1) \<Rightarrow> (Inl e, w1)
      | (Inr None, w1) \<Rightarrow> (Inl (errorf (''webauth: created user \"'' @ i @ ''\" not found on read-back'')), w1)
      | (Inr (Some u), w1) \<Rightarrow> (Inr u, w1))"

definition store_HasUsers :: "'x auth_env \<Rightarrow> 'x auth_db \<Rightarrow> bool result \<times> 'x auth_db" where
  "store_HasUsers E w =
     (case stmt_run E (\<lambda>w. (Inr (ad_users w \<noteq> []), w)) w of
        (Inl e, w1) \<Rightarrow> (Inl (wrapf ''webauth: has users'' (stmt_goerr e)), w1)
      | (Inr b, w1) \<Rightarrow> (Inr b, w1))"

definition insert_user :: "user \<Rightarrow> 'x auth_db \<Rightarrow> (stmt_error + unit) \<times> 'x auth_db" where
  "insert_user u w =
     (if list_ex (\<lambda>v. u_ID v = u_ID u \<or> nocase (u_Username v) = nocase (u_Username u)) (ad_users w)
      then (Inl StmtConstraint, w) else (Inr (), w\<lparr>ad_users := ad_users w @ [u]\<rparr>))"

definition new_user :: "instant \<Rightarrow> string \<Rightarrow> string \<Rightarrow> string \<Rightarrow> user" where
  "new_user now i name h = \<lparr>u_ID = i, u_Username = name, u_PasswordHash = h, u_CreatedAt = formatTime now, u_UpdatedAt = formatTime now\<rparr>"

definition CreateUser :: "'x auth_env \<Rightarrow> instant \<Rightarrow> string \<Rightarrow> string \<Rightarrow> 'x auth_db \<Rightarrow> user result \<times> 'x auth_db" where
  "CreateUser E now name0 h w =
     (let name = TrimSpace name0 in
      if name = [] then (Inl (errorf ''webauth: username must not be empty''), w)
      else if h = [] then (Inl (errorf ''webauth: password hash must not be empty''), w)
      else case newID E w of
        (Inl e, w1) \<Rightarrow> (Inl e, w1)
      | (Inr i, w1) \<Rightarrow>
          (case stmt_run E (insert_user (new_user now i name h)) w1 of
             (Inl StmtConstraint, w2) \<Rightarrow> (Inl ErrUserExists, w2)
           | (Inl e, w2) \<Rightarrow> (Inl (wrapf ''webauth: create user'' (stmt_goerr e)), w2)
           | (Inr _, w2) \<Rightarrow> requireByID E i w2))"

text \<open>The conditional insert: the number of rows it adds.\<close>

definition insert_first_user :: "user \<Rightarrow> 'x auth_db \<Rightarrow> (stmt_error + int) \<times> 'x auth_db" where
  "insert_first_user u w = (if ad_users w = [] then (Inr 1, w\<lparr>ad_users := [u]\<rparr>) else (Inr 0, w))"

definition CreateFirstUser :: "'x auth_env \<Rightarrow> instant \<Rightarrow> string \<Rightarrow> string \<Rightarrow> 'x auth_db \<Rightarrow> user result \<times> 'x auth_db" where
  "CreateFirstUser E now name0 h w =
     (let name = TrimSpace name0 in
      if name = [] then (Inl (errorf ''webauth: username must not be empty''), w)
      else if h = [] then (Inl (errorf ''webauth: password hash must not be empty''), w)
      else case newID E w of
        (Inl e, w1) \<Rightarrow> (Inl e, w1)
      | (Inr i, w1) \<Rightarrow>
          (case stmt_run E (insert_first_user (new_user now i name h)) w1 of
             (Inl StmtConstraint, w2) \<Rightarrow> (Inl ErrUserExists, w2)
           | (Inl e, w2) \<Rightarrow> (Inl (wrapf ''webauth: create first user'' (stmt_goerr e)), w2)
           | (Inr n, w2) \<Rightarrow> if n = 0 then (Inl ErrUserExists, w2) else requireByID E i w2))"

section \<open>Sessions\<close>

text \<open>\<open>base64.RawURLEncoding\<close>.\<close>

definition b64_digit :: "nat \<Rightarrow> char" where
  "b64_digit n = char_of (if n < 26 then 65 + n else if n < 52 then 71 + n else if n < 62 then n - 4
                          else if n = 62 then 45 else 95)"

fun b64url :: "nat list \<Rightarrow> string" where
  "b64url [] = []"
| "b64url [a] = [b64_digit (a div 4), b64_digit (a mod 4 * 16)]"
| "b64url [a, b] = [b64_digit (a div 4), b64_digit (a mod 4 * 16 + b div 16), b64_digit (b mod 16 * 4)]"
| "b64url (a # b # c # bs) =
     b64_digit (a div 4) # b64_digit (a mod 4 * 16 + b div 16) # b64_digit (b mod 16 * 4 + c div 64)
     # b64_digit (c mod 64) # b64url bs"

definition newToken :: "'x auth_env \<Rightarrow> 'x auth_db \<Rightarrow> string result \<times> 'x auth_db" where
  "newToken E w =
     (case ae_rand E sessionTokenBytes (ad_x w) of
        (Inl e, x) \<Rightarrow> (Inl (wrapf ''webauth: generate session token'' e), w\<lparr>ad_x := x\<rparr>)
      | (Inr b, x) \<Rightarrow> (Inr (b64url (map byte_of b)), w\<lparr>ad_x := x\<rparr>))"

definition insert_session :: "session \<Rightarrow> 'x auth_db \<Rightarrow> (stmt_error + unit) \<times> 'x auth_db" where
  "insert_session s w =
     (if list_ex (\<lambda>o'. se_TokenHash o' = se_TokenHash s) (ad_sessions w) \<or> length (se_TokenHash s) \<noteq> 64
         \<or> \<not> list_ex (\<lambda>u. u_ID u = se_UserID s) (ad_users w) \<or> se_ExpiresAt s \<le> se_CreatedAt s
      then (Inl StmtConstraint, w) else (Inr (), w\<lparr>ad_sessions := ad_sessions w @ [s]\<rparr>))"

definition CreateSession :: "'x auth_env \<Rightarrow> instant \<Rightarrow> string \<Rightarrow> instant \<Rightarrow> 'x auth_db \<Rightarrow> string result \<times> 'x auth_db" where
  "CreateSession E now userID expiresAt w =
     (if userID = [] then (Inl (errorf ''webauth: session user id must not be empty''), w)
      else case newToken E w of
        (Inl e, w1) \<Rightarrow> (Inl e, w1)
      | (Inr raw, w1) \<Rightarrow>
          (case stmt_run E (insert_session \<lparr>se_TokenHash = ae_sha E raw, se_UserID = userID,
                              se_CreatedAt = formatTime now, se_ExpiresAt = formatTime expiresAt\<rparr>) w1 of
             (Inl e, w2) \<Rightarrow> (Inl (wrapf ''webauth: create session'' (stmt_goerr e)), w2)
           | (Inr _, w2) \<Rightarrow> (Inr raw, w2)))"

definition GetSessionByToken :: "'x auth_env \<Rightarrow> instant \<Rightarrow> string \<Rightarrow> 'x auth_db \<Rightarrow> session option result \<times> 'x auth_db" where
  "GetSessionByToken E now raw w =
     (case stmt_run E (\<lambda>w. (Inr (first_where (\<lambda>s. se_TokenHash s = ae_sha E raw \<and> se_ExpiresAt s > formatTime now) (ad_sessions w)), w)) w of
        (Inl e, w1) \<Rightarrow> (Inl (wrapf ''webauth: get session'' (stmt_goerr e)), w1)
      | (Inr s, w1) \<Rightarrow> (Inr s, w1))"

definition DeleteSession :: "'x auth_env \<Rightarrow> string \<Rightarrow> 'x auth_db \<Rightarrow> unit result \<times> 'x auth_db" where
  "DeleteSession E raw w =
     (case stmt_run E (\<lambda>w. (Inr (), w\<lparr>ad_sessions := delete_where (\<lambda>s. se_TokenHash s = ae_sha E raw) (ad_sessions w)\<rparr>)) w of
        (Inl e, w1) \<Rightarrow> (Inl (wrapf ''webauth: delete session'' (stmt_goerr e)), w1)
      | (Inr _, w1) \<Rightarrow> (Inr (), w1))"

definition store_CleanExpired :: "'x auth_env \<Rightarrow> instant \<Rightarrow> 'x auth_db \<Rightarrow> int result \<times> 'x auth_db" where
  "store_CleanExpired E now w =
     (case stmt_run E (\<lambda>w. (Inr (count_where (\<lambda>s. se_ExpiresAt s \<le> formatTime now) (ad_sessions w)),
                           w\<lparr>ad_sessions := delete_where (\<lambda>s. se_ExpiresAt s \<le> formatTime now) (ad_sessions w)\<rparr>)) w of
        (Inl e, w1) \<Rightarrow> (Inl (wrapf ''webauth: clean expired sessions'' (stmt_goerr e)), w1)
      | (Inr n, w1) \<Rightarrow> (Inr n, w1))"

section \<open>The service\<close>

text \<open>What \<open>Setup\<close> does once its check found no user.\<close>

definition setup_create :: "'x auth_env \<Rightarrow> instant \<Rightarrow> string \<Rightarrow> string \<Rightarrow> 'x auth_db \<Rightarrow> user result \<times> 'x auth_db" where
  "setup_create E now name pw w =
     (case ae_hash E pw (ad_x w) of
        (Inl e, x) \<Rightarrow> (Inl (wrapf ''webauth: setup'' e), w\<lparr>ad_x := x\<rparr>)
      | (Inr h, x) \<Rightarrow>
          (case CreateFirstUser E now name h (w\<lparr>ad_x := x\<rparr>) of
             (Inl e, w1) \<Rightarrow> (Inl (wrapf ''webauth: setup'' e), w1)
           | (Inr u, w1) \<Rightarrow> (Inr u, w1)))"

definition web_Setup :: "'x auth_env \<Rightarrow> instant \<Rightarrow> string \<Rightarrow> string \<Rightarrow> 'x auth_db \<Rightarrow> user result \<times> 'x auth_db" where
  "web_Setup E now name pw w =
     (if TrimSpace name = [] then (Inl (errorf ''webauth: username must not be empty''), w)
      else if length pw < MinPasswordLength then (Inl ErrPasswordTooShort, w)
      else case store_HasUsers E w of
        (Inl e, w1) \<Rightarrow> (Inl (wrapf ''webauth: setup'' e), w1)
      | (Inr True, w1) \<Rightarrow> (Inl ErrUserExists, w1)
      | (Inr False, w1) \<Rightarrow> setup_create E now name pw w1)"

definition web_Login :: "'x auth_env \<Rightarrow> duration \<Rightarrow> instant \<Rightarrow> string \<Rightarrow> string \<Rightarrow> 'x auth_db \<Rightarrow> string result \<times> 'x auth_db" where
  "web_Login E ttl now name pw w =
     (case GetByUsername E name w of
        (Inl e, w1) \<Rightarrow> (Inl (wrapf ''webauth: login'' e), w1)
      | (Inr None, w1) \<Rightarrow> (Inl ErrInvalidCredentials, w1)
      | (Inr (Some u), w1) \<Rightarrow>
          (case ae_verify E (u_PasswordHash u) pw of
             Inr True \<Rightarrow>
               (case CreateSession E now (u_ID u) (now + ttl) w1 of
                  (Inl e, w2) \<Rightarrow> (Inl (wrapf ''webauth: login'' e), w2)
                | (Inr token, w2) \<Rightarrow> (Inr token, w2))
           | _ \<Rightarrow> (Inl ErrInvalidCredentials, w1)))"

definition web_ValidateSession :: "'x auth_env \<Rightarrow> instant \<Rightarrow> string \<Rightarrow> 'x auth_db \<Rightarrow> user result \<times> 'x auth_db" where
  "web_ValidateSession E now raw w =
     (if raw = [] then (Inl ErrInvalidSession, w)
      else case GetSessionByToken E now raw w of
        (Inl e, w1) \<Rightarrow> (Inl (wrapf ''webauth: validate session'' e), w1)
      | (Inr None, w1) \<Rightarrow> (Inl ErrInvalidSession, w1)
      | (Inr (Some s), w1) \<Rightarrow>
          (case GetByID E (se_UserID s) w1 of
             (Inl e, w2) \<Rightarrow> (Inl (wrapf ''webauth: validate session'' e), w2)
           | (Inr None, w2) \<Rightarrow> (Inl ErrInvalidSession, w2)
           | (Inr (Some u), w2) \<Rightarrow> (Inr u, w2)))"

definition web_Logout :: "'x auth_env \<Rightarrow> string \<Rightarrow> 'x auth_db \<Rightarrow> unit result \<times> 'x auth_db" where
  "web_Logout E raw w =
     (if raw = [] then (Inr (), w)
      else case DeleteSession E raw w of
        (Inl e, w1) \<Rightarrow> (Inl (wrapf ''webauth: logout'' e), w1)
      | (Inr _, w1) \<Rightarrow> (Inr (), w1))"

definition web_CleanExpired :: "'x auth_env \<Rightarrow> instant \<Rightarrow> 'x auth_db \<Rightarrow> int result \<times> 'x auth_db" where
  "web_CleanExpired E now w =
     (case store_CleanExpired E now w of
        (Inl e, w1) \<Rightarrow> (Inl (wrapf ''webauth: clean expired sessions'' e), w1)
      | (Inr n, w1) \<Rightarrow> (Inr n, w1))"

definition web_HasUsers :: "'x auth_env \<Rightarrow> 'x auth_db \<Rightarrow> bool result \<times> 'x auth_db" where
  "web_HasUsers E w =
     (case store_HasUsers E w of
        (Inl e, w1) \<Rightarrow> (Inl (wrapf ''webauth: has users'' e), w1)
      | (Inr b, w1) \<Rightarrow> (Inr b, w1))"

end
