(* ===== verification/Web_Auth_Props.thy ===== *)
theory Web_Auth_Props
  imports Web_Auth
begin

text \<open>
  What the browser login promises.  \<open>auth_trace\<close> are the histories of the service from an empty
  database, whatever the engine and the random source answer (\<open>drift\<close>: the rest of the program uses
  them in between); the facts below hold in every one.
\<close>

section \<open>Histories\<close>

text \<open>\<open>DoLateSetup\<close> is the second half of a \<open>Setup\<close> whose check was answered earlier: with it a history
  interleaves concurrent setups.\<close>

datatype auth_op =
    DoSetup string string
  | DoLateSetup string string
  | DoLogin string string
  | DoCheck string
  | DoLogout string
  | DoSweep
  | DoAskUsers

datatype auth_out =
    OutUser "user result"
  | OutToken "string result"
  | OutDone "unit result"
  | OutCount "int result"
  | OutBool "bool result"

fun auth_step :: "'x auth_env \<Rightarrow> duration \<Rightarrow> instant \<Rightarrow> auth_op \<Rightarrow> 'x auth_db \<Rightarrow> auth_out \<times> 'x auth_db" where
  "auth_step E ttl t (DoSetup name pw) w = (case web_Setup E t name pw w of (r, w1) \<Rightarrow> (OutUser r, w1))"
| "auth_step E ttl t (DoLateSetup name pw) w =
     (if TrimSpace name = [] \<or> length pw < MinPasswordLength then (OutUser (Inl ErrPasswordTooShort), w)
      else case setup_create E t name pw w of (r, w1) \<Rightarrow> (OutUser r, w1))"
| "auth_step E ttl t (DoLogin name pw) w = (case web_Login E ttl t name pw w of (r, w1) \<Rightarrow> (OutToken r, w1))"
| "auth_step E ttl t (DoCheck raw) w = (case web_ValidateSession E t raw w of (r, w1) \<Rightarrow> (OutUser r, w1))"
| "auth_step E ttl t (DoLogout raw) w = (case web_Logout E raw w of (r, w1) \<Rightarrow> (OutDone r, w1))"
| "auth_step E ttl t DoSweep w = (case web_CleanExpired E t w of (r, w1) \<Rightarrow> (OutCount r, w1))"
| "auth_step E ttl t DoAskUsers w = (case web_HasUsers E w of (r, w1) \<Rightarrow> (OutBool r, w1))"

type_synonym auth_history = "(instant \<times> auth_op \<times> auth_out) list"

inductive auth_trace :: "'x auth_env \<Rightarrow> duration \<Rightarrow> auth_history \<Rightarrow> 'x auth_db \<Rightarrow> bool" for E ttl where
  start: "ad_users w = [] \<Longrightarrow> ad_sessions w = [] \<Longrightarrow> auth_trace E ttl [] w"
| step: "auth_trace E ttl tr w \<Longrightarrow> auth_step E ttl t p w = (out, w') \<Longrightarrow> auth_trace E ttl (tr @ [(t, p, out)]) w'"
| drift: "auth_trace E ttl tr w \<Longrightarrow> auth_trace E ttl tr (w\<lparr>ad_x := x\<rparr>)"

section \<open>What the statements touch\<close>

definition same_tables :: "'x auth_db \<Rightarrow> 'x auth_db \<Rightarrow> bool" where
  "same_tables w w' \<longleftrightarrow> ad_users w' = ad_users w \<and> ad_sessions w' = ad_sessions w"

lemma same_tables_refl [simp]: "same_tables w w" "same_tables w (w\<lparr>ad_x := x\<rparr>)"
  by (simp_all add: same_tables_def)

lemma same_tables_trans: "same_tables w w1 \<Longrightarrow> same_tables w1 w2 \<Longrightarrow> same_tables w w2"
  by (simp add: same_tables_def)

lemma stmt_run_cases:
  assumes "stmt_run E f w = (r, w')"
  obtains (fault) m where "r = Inl (StmtFault m)" "same_tables w w'"
  | (ran) w1 where "same_tables w w1" "f w1 = (r, w')"
proof (cases "ae_fault E (ad_x w)")
  case (Pair m x)
  show ?thesis
  proof (cases m)
    case None
    with assms Pair show ?thesis by (intro ran [of "w\<lparr>ad_x := x\<rparr>"]) (simp_all add: stmt_run_def)
  next
    case (Some msg)
    with assms Pair show ?thesis by (intro fault [of msg]) (auto simp: stmt_run_def)
  qed
qed

lemma select_user_read:
  assumes "select_user E p w = (r, w')"
  shows "same_tables w w' \<and> (\<forall>u. r = Inr (Some u) \<longrightarrow> u \<in> set (ad_users w) \<and> p u)"
proof -
  obtain q w1 where q: "stmt_run E (\<lambda>w. (Inr (first_where p (ad_users w)), w)) w = (q, w1)" by fastforce
  then have "same_tables w w1 \<and> (\<forall>u. q = Inr (Some u) \<longrightarrow> u \<in> set (ad_users w) \<and> p u)"
    by (cases rule: stmt_run_cases) (auto simp: same_tables_def dest: first_where_Some)
  with assms q show ?thesis by (auto simp: select_user_def split: sum.splits)
qed

lemma requireByID_read:
  assumes "requireByID E i w = (r, w')"
  shows "same_tables w w' \<and> (\<forall>u. r = Inr u \<longrightarrow> u \<in> set (ad_users w) \<and> u_ID u = i)"
  using assms select_user_read [of E "\<lambda>u. u_ID u = i" w] by (fastforce simp: requireByID_def GetByID_def split: prod.splits sum.splits option.splits)

lemma store_HasUsers_read:
  assumes "store_HasUsers E w = (r, w')"
  shows "same_tables w w' \<and> (\<forall>b. r = Inr b \<longrightarrow> b = (ad_users w \<noteq> []))"
proof -
  obtain q w1 where q: "stmt_run E (\<lambda>w. (Inr (ad_users w \<noteq> []), w)) w = (q, w1)" by fastforce
  then have "same_tables w w1 \<and> (\<forall>b. q = Inr b \<longrightarrow> b = (ad_users w \<noteq> []))"
    by (cases rule: stmt_run_cases) (auto simp: same_tables_def)
  with assms q show ?thesis by (auto simp: store_HasUsers_def split: sum.splits)
qed

lemma newID_read: "newID E w = (r, w') \<Longrightarrow> same_tables w w'"
  by (auto simp: newID_def split: prod.splits sum.splits)

text \<open>The tables after the first user was created, or not.\<close>

lemma CreateFirstUser_tables:
  assumes "CreateFirstUser E now name h w = (r, w')"
  shows "same_tables w w' \<and> (\<forall>u. r \<noteq> Inr u)
    \<or> (\<exists>i. ad_users w = [] \<and> ad_users w' = [new_user now i (TrimSpace name) h] \<and> ad_sessions w' = ad_sessions w
          \<and> TrimSpace name \<noteq> [] \<and> h \<noteq> [] \<and> (\<forall>u. r = Inr u \<longrightarrow> u = new_user now i (TrimSpace name) h))"
proof (cases "TrimSpace name = [] \<or> h = []")
  case True
  with assms show ?thesis by (cases "TrimSpace name = []") (auto simp: CreateFirstUser_def Let_def)
next
  case False
  obtain i w1 where i: "newID E w = (i, w1)" by fastforce
  note s1 = newID_read [OF i]
  show ?thesis
  proof (cases i)
    case (Inl e)
    with assms False i s1 show ?thesis by (auto simp: CreateFirstUser_def Let_def)
  next
    case (Inr j)
    obtain q w2 where q: "stmt_run E (insert_first_user (new_user now j (TrimSpace name) h)) w1 = (q, w2)" by fastforce
    from q show ?thesis
    proof (cases rule: stmt_run_cases)
      case (fault m)
      with assms False i Inr q s1 show ?thesis
        by (auto simp: CreateFirstUser_def Let_def intro: same_tables_trans)
    next
      case (ran w0)
      show ?thesis
      proof (cases "ad_users w = []")
        case True
        then have w2: "q = Inr 1" "ad_users w2 = [new_user now j (TrimSpace name) h]" "ad_sessions w2 = ad_sessions w"
          using ran s1 by (auto simp: insert_first_user_def same_tables_def)
        then have "requireByID E j w2 = (r, w')" using assms False i Inr q by (auto simp: CreateFirstUser_def Let_def)
        from requireByID_read [OF this] w2 True False show ?thesis by (auto simp: same_tables_def)
      next
        case False
        then have "q = Inr 0" "same_tables w w2" using ran s1 by (auto simp: insert_first_user_def same_tables_def)
        with assms \<open>\<not> (TrimSpace name = [] \<or> h = [])\<close> i Inr q show ?thesis by (auto simp: CreateFirstUser_def Let_def)
      qed
    qed
  qed
qed

definition first_user_made :: "'x auth_env \<Rightarrow> instant \<Rightarrow> string \<Rightarrow> string \<Rightarrow> 'x auth_db \<Rightarrow> 'x auth_db \<Rightarrow> user result \<Rightarrow> bool" where
  "first_user_made E now name pw w w' r \<longleftrightarrow>
     (\<exists>i h x x'. ad_users w = [] \<and> ad_users w' = [new_user now i (TrimSpace name) h] \<and> ad_sessions w' = ad_sessions w
        \<and> TrimSpace name \<noteq> [] \<and> MinPasswordLength \<le> length pw \<and> ae_hash E pw x = (Inr h, x')
        \<and> (\<forall>u. r = Inr u \<longrightarrow> u = new_user now i (TrimSpace name) h))"

lemma setup_create_tables:
  assumes "setup_create E now name pw w = (r, w')" "TrimSpace name \<noteq> []" "MinPasswordLength \<le> length pw"
  shows "same_tables w w' \<and> (\<forall>u. r \<noteq> Inr u) \<or> first_user_made E now name pw w w' r"
proof -
  obtain h x where h: "ae_hash E pw (ad_x w) = (h, x)" by fastforce
  show ?thesis
  proof (cases h)
    case (Inl e)
    with assms h show ?thesis by (auto simp: setup_create_def)
  next
    case (Inr g)
    obtain c w2 where c: "CreateFirstUser E now name g (w\<lparr>ad_x := x\<rparr>) = (c, w2)" by fastforce
    have r: "w' = w2" "\<And>u. r = Inr u \<longleftrightarrow> c = Inr u" using assms h Inr c by (auto simp: setup_create_def split: sum.splits)
    have s: "same_tables (w\<lparr>ad_x := x\<rparr>) w2 \<longleftrightarrow> same_tables w w2" by (simp add: same_tables_def)
    show ?thesis unfolding first_user_made_def
      using CreateFirstUser_tables [OF c] assms(2,3) h [unfolded Inr] r by (fastforce simp: s)
  qed
qed

lemma Setup_tables:
  assumes "web_Setup E now name pw w = (r, w')"
  shows "same_tables w w' \<and> (\<forall>u. r \<noteq> Inr u) \<or> first_user_made E now name pw w w' r"
proof (cases "TrimSpace name = [] \<or> length pw < MinPasswordLength")
  case True
  with assms show ?thesis by (auto simp: web_Setup_def split: if_splits)
next
  case False
  obtain b w1 where b: "store_HasUsers E w = (b, w1)" by fastforce
  note s1 = store_HasUsers_read [OF b]
  show ?thesis
  proof (cases "b = Inr False")
    case no: False
    with assms False b s1 show ?thesis by (auto simp: web_Setup_def split: sum.splits bool.splits if_splits)
  next
    case True
    with assms False b have "setup_create E now name pw w1 = (r, w')" by (simp add: web_Setup_def)
    from setup_create_tables [OF this] False s1 show ?thesis
      by (auto simp: first_user_made_def same_tables_def)
  qed
qed

lemma CreateSession_tables:
  assumes "CreateSession E now uid ex w = (r, w')"
  shows "ad_users w' = ad_users w \<and> (case r of
      Inl _ \<Rightarrow> ad_sessions w' = ad_sessions w
    | Inr tok \<Rightarrow> ad_sessions w' = ad_sessions w @ [\<lparr>se_TokenHash = ae_sha E tok, se_UserID = uid,
                     se_CreatedAt = formatTime now, se_ExpiresAt = formatTime ex\<rparr>])"
proof (cases "uid = []")
  case True
  with assms show ?thesis by (auto simp: CreateSession_def)
next
  case False
  obtain tok w1 where tok: "newToken E w = (tok, w1)" by fastforce
  then have s1: "same_tables w w1" by (auto simp: newToken_def split: prod.splits sum.splits)
  show ?thesis
  proof (cases tok)
    case (Inl e)
    with assms False tok s1 show ?thesis by (auto simp: CreateSession_def same_tables_def)
  next
    case (Inr raw)
    let ?s = "\<lparr>se_TokenHash = ae_sha E raw, se_UserID = uid, se_CreatedAt = formatTime now, se_ExpiresAt = formatTime ex\<rparr>"
    obtain q w2 where q: "stmt_run E (insert_session ?s) w1 = (q, w2)" by fastforce
    then have "ad_users w2 = ad_users w1 \<and> ad_sessions w2 = (case q of Inl _ \<Rightarrow> ad_sessions w1 | Inr _ \<Rightarrow> ad_sessions w1 @ [?s])"
      by (cases rule: stmt_run_cases) (auto simp: insert_session_def same_tables_def split: if_splits)
    with assms False tok Inr q s1 show ?thesis by (auto simp: CreateSession_def same_tables_def split: sum.splits)
  qed
qed

lemma Login_tables:
  assumes "web_Login E ttl now name pw w = (r, w')"
  shows "ad_users w' = ad_users w \<and> (case r of
      Inl _ \<Rightarrow> ad_sessions w' = ad_sessions w
    | Inr tok \<Rightarrow> \<exists>u \<in> set (ad_users w). nocase (u_Username u) = nocase (TrimSpace name) \<and> ae_verify E (u_PasswordHash u) pw = Inr True
        \<and> ad_sessions w' = ad_sessions w @ [\<lparr>se_TokenHash = ae_sha E tok, se_UserID = u_ID u,
                     se_CreatedAt = formatTime now, se_ExpiresAt = formatTime (now + ttl)\<rparr>])"
proof -
  obtain g w1 where g: "GetByUsername E name w = (g, w1)" by fastforce
  note s1 = select_user_read [OF g [unfolded GetByUsername_def]]
  show ?thesis
  proof (cases "\<exists>u. g = Inr (Some u) \<and> ae_verify E (u_PasswordHash u) pw = Inr True")
    case False
    with assms g s1 show ?thesis
      by (auto simp: web_Login_def same_tables_def split: sum.splits option.splits bool.splits)
  next
    case True
    then obtain u where u: "g = Inr (Some u)" "ae_verify E (u_PasswordHash u) pw = Inr True" by blast
    obtain c w2 where c: "CreateSession E now (u_ID u) (now + ttl) w1 = (c, w2)" by fastforce
    from assms g u c have "w' = w2" "\<And>tok. r = Inr tok \<longleftrightarrow> c = Inr tok" by (auto simp: web_Login_def split: sum.splits)
    with CreateSession_tables [OF c] s1 u show ?thesis by (auto simp: same_tables_def split: sum.splits)
  qed
qed

lemma Logout_tables:
  assumes "web_Logout E raw w = (r, w')"
  shows "ad_users w' = ad_users w \<and> (ad_sessions w' = ad_sessions w \<and> (raw = [] \<or> r \<noteq> Inr ())
    \<or> raw \<noteq> [] \<and> ad_sessions w' = filter (\<lambda>s. se_TokenHash s \<noteq> ae_sha E raw) (ad_sessions w))"
proof (cases "raw = []")
  case True
  with assms show ?thesis by (simp add: web_Logout_def)
next
  case False
  let ?d = "\<lambda>w. (Inr (), w\<lparr>ad_sessions := delete_where (\<lambda>s. se_TokenHash s = ae_sha E raw) (ad_sessions w)\<rparr>)"
  obtain q w1 where q: "stmt_run E ?d w = (q, w1)" by fastforce
  then have "ad_users w1 = ad_users w \<and> (case q of Inl _ \<Rightarrow> ad_sessions w1 = ad_sessions w
      | Inr _ \<Rightarrow> ad_sessions w1 = filter (\<lambda>s. se_TokenHash s \<noteq> ae_sha E raw) (ad_sessions w))"
    by (cases rule: stmt_run_cases) (auto simp: same_tables_def delete_where_def)
  with assms False q show ?thesis by (auto simp: web_Logout_def DeleteSession_def split: sum.splits)
qed

lemma Sweep_tables:
  assumes "web_CleanExpired E now w = (r, w')"
  shows "ad_users w' = ad_users w
    \<and> (ad_sessions w' = ad_sessions w \<or> ad_sessions w' = filter (\<lambda>s. formatTime now < se_ExpiresAt s) (ad_sessions w))"
proof -
  let ?d = "\<lambda>w. (Inr (count_where (\<lambda>s. se_ExpiresAt s \<le> formatTime now) (ad_sessions w)),
                 w\<lparr>ad_sessions := delete_where (\<lambda>s. se_ExpiresAt s \<le> formatTime now) (ad_sessions w)\<rparr>)"
  obtain q w1 where q: "stmt_run E ?d w = (q, w1)" by fastforce
  then have "ad_users w1 = ad_users w \<and> (ad_sessions w1 = ad_sessions w
      \<or> ad_sessions w1 = filter (\<lambda>s. formatTime now < se_ExpiresAt s) (ad_sessions w))"
    by (cases rule: stmt_run_cases) (auto simp: same_tables_def delete_where_def not_le)
  with assms q show ?thesis by (auto simp: web_CleanExpired_def store_CleanExpired_def split: sum.splits)
qed

lemma Session_read:
  assumes "GetSessionByToken E now raw w = (r, w')"
  shows "same_tables w w' \<and> (\<forall>s. r = Inr (Some s) \<longrightarrow> s \<in> set (ad_sessions w) \<and> se_TokenHash s = ae_sha E raw
           \<and> formatTime now < se_ExpiresAt s)"
proof -
  let ?q = "\<lambda>w. (Inr (first_where (\<lambda>s. se_TokenHash s = ae_sha E raw \<and> se_ExpiresAt s > formatTime now) (ad_sessions w)), w)"
  obtain q w1 where q: "stmt_run E ?q w = (q, w1)" by fastforce
  then have "same_tables w w1 \<and> (\<forall>s. q = Inr (Some s) \<longrightarrow> s \<in> set (ad_sessions w) \<and> se_TokenHash s = ae_sha E raw
      \<and> formatTime now < se_ExpiresAt s)"
    by (cases rule: stmt_run_cases) (auto simp: same_tables_def dest: first_where_Some)
  with assms q show ?thesis by (auto simp: GetSessionByToken_def split: sum.splits)
qed

lemma Check_read:
  assumes "web_ValidateSession E now raw w = (r, w')"
  shows "same_tables w w' \<and> (\<forall>u. r = Inr u \<longrightarrow> raw \<noteq> [] \<and> u \<in> set (ad_users w)
    \<and> (\<exists>s \<in> set (ad_sessions w). se_TokenHash s = ae_sha E raw \<and> formatTime now < se_ExpiresAt s \<and> se_UserID s = u_ID u))"
proof -
  obtain g w1 where g: "GetSessionByToken E now raw w = (g, w1)" by fastforce
  note s1 = Session_read [OF g]
  show ?thesis
  proof (cases "\<exists>s. g = Inr (Some s) \<and> raw \<noteq> []")
    case False
    with assms g s1 show ?thesis by (auto simp: web_ValidateSession_def split: if_splits sum.splits option.splits)
  next
    case True
    then obtain s where s: "g = Inr (Some s)" "raw \<noteq> []" by blast
    obtain i w2 where i: "GetByID E (se_UserID s) w1 = (i, w2)" by fastforce
    note s2 = select_user_read [OF i [unfolded GetByID_def]]
    have "w' = w2" "\<And>u. r = Inr u \<longleftrightarrow> i = Inr (Some u)"
      using assms g s i by (auto simp: web_ValidateSession_def split: sum.splits option.splits)
    with s1 s2 s show ?thesis by (auto simp: same_tables_def)
  qed
qed

lemma AskUsers_read: "web_HasUsers E w = (r, w') \<Longrightarrow> same_tables w w'"
  using store_HasUsers_read [of E w] by (auto simp: web_HasUsers_def split: prod.splits sum.splits)

section \<open>Invariants\<close>

text \<open>A step keeps the users, or is a setup that makes the first one.\<close>

fun setup_of :: "auth_op \<Rightarrow> (string \<times> string) option" where
  "setup_of (DoSetup name pw) = Some (name, pw)"
| "setup_of (DoLateSetup name pw) = Some (name, pw)"
| "setup_of _ = None"

lemma step_users:
  assumes "auth_step E ttl t p w = (out, w')"
  shows "ad_users w' = ad_users w \<and> (\<forall>n pw u. setup_of p = Some (n, pw) \<longrightarrow> out \<noteq> OutUser (Inr u))
    \<or> (\<exists>name pw r. setup_of p = Some (name, pw) \<and> out = OutUser r \<and> first_user_made E t name pw w w' r)"
proof (cases p)
  case (DoSetup name pw)
  with assms show ?thesis using Setup_tables [of E t name pw w] by (fastforce simp: same_tables_def split: prod.splits)
next
  case (DoLateSetup name pw)
  with assms show ?thesis using setup_create_tables [of E t name pw w]
    by (fastforce simp: same_tables_def split: prod.splits if_splits)
next
  case (DoLogin name pw)
  with assms show ?thesis using Login_tables [of E ttl t name pw w] by (auto split: prod.splits)
next
  case (DoCheck raw)
  obtain r w1 where r: "web_ValidateSession E t raw w = (r, w1)" by fastforce
  with assms DoCheck conjunct1 [OF Check_read [OF r]] show ?thesis by (auto simp: same_tables_def)
next
  case (DoLogout raw)
  with assms show ?thesis using Logout_tables [of E raw w] by (auto split: prod.splits)
next
  case DoSweep
  with assms show ?thesis using Sweep_tables [of E t w] by (auto split: prod.splits)
next
  case DoAskUsers
  obtain r w1 where r: "web_HasUsers E w = (r, w1)" by fastforce
  with assms DoAskUsers AskUsers_read [OF r] show ?thesis by (auto simp: same_tables_def)
qed

text \<open>\<open>made_by\<close>: the only user, and the setup of the history that made it.\<close>

definition made_by :: "'x auth_env \<Rightarrow> auth_history \<Rightarrow> user \<Rightarrow> bool" where
  "made_by E tr u \<longleftrightarrow>
     (\<exists>t p out name pw i h x x'. (t, p, out) \<in> set tr \<and> setup_of p = Some (name, pw) \<and> TrimSpace name \<noteq> []
        \<and> MinPasswordLength \<le> length pw \<and> ae_hash E pw x = (Inr h, x') \<and> u = new_user t i (TrimSpace name) h)"

definition admin_inv :: "'x auth_env \<Rightarrow> auth_history \<Rightarrow> 'x auth_db \<Rightarrow> bool" where
  "admin_inv E tr w \<longleftrightarrow>
     (ad_users w = [] \<and> (\<forall>(t, p, out) \<in> set tr. setup_of p \<noteq> None \<longrightarrow> (\<forall>u. out \<noteq> OutUser (Inr u))))
     \<or> (\<exists>u. ad_users w = [u] \<and> made_by E tr u
          \<and> (\<forall>(t, p, out) \<in> set tr. setup_of p \<noteq> None \<longrightarrow> (\<forall>v. out = OutUser (Inr v) \<longrightarrow> v = u))
          \<and> length (filter (\<lambda>(t, p, out). setup_of p \<noteq> None \<and> (\<exists>v. out = OutUser (Inr v))) tr) \<le> 1)"

lemma made_by_append: "made_by E tr u \<Longrightarrow> made_by E (tr @ tr') u"
  unfolding made_by_def set_append by blast

lemma trace_admin: "auth_trace E ttl tr w \<Longrightarrow> admin_inv E tr w"
proof (induction rule: auth_trace.induct)
  case (start w)
  then show ?case by (simp add: admin_inv_def)
next
  case (step tr w t p out w')
  from step_users [OF step.hyps(2)] show ?case
  proof
    assume a: "ad_users w' = ad_users w \<and> (\<forall>n pw u. setup_of p = Some (n, pw) \<longrightarrow> out \<noteq> OutUser (Inr u))"
    then show ?thesis using step.IH made_by_append [of E tr _ "[(t, p, out)]"] unfolding admin_inv_def by (cases "setup_of p") auto
  next
    assume "\<exists>name pw r. setup_of p = Some (name, pw) \<and> out = OutUser r \<and> first_user_made E t name pw w w' r"
    then obtain name pw r i h x x' where a: "setup_of p = Some (name, pw)" "out = OutUser r" "ad_users w = []"
      "ad_users w' = [new_user t i (TrimSpace name) h]" "TrimSpace name \<noteq> []" "MinPasswordLength \<le> length pw"
      "ae_hash E pw x = (Inr h, x')" "\<forall>u. r = Inr u \<longrightarrow> u = new_user t i (TrimSpace name) h"
      unfolding first_user_made_def by blast
    have "made_by E (tr @ [(t, p, out)]) (new_user t i (TrimSpace name) h)" using a unfolding made_by_def by fastforce
    moreover have none: "\<forall>(t, p, out) \<in> set tr. setup_of p \<noteq> None \<longrightarrow> (\<forall>u. out \<noteq> OutUser (Inr u))"
      using step.IH a(3) unfolding admin_inv_def by auto
    then have "filter (\<lambda>(t, p, out). setup_of p \<noteq> None \<and> (\<exists>v. out = OutUser (Inr v))) tr = []"
      by (auto simp: filter_empty_conv)
    ultimately show ?thesis using a none unfolding admin_inv_def by auto
  qed
qed (simp add: admin_inv_def)

text \<open>\<open>stems\<close>: the login a session comes from, since when no logout of its token succeeded.\<close>

definition no_logout :: "'x auth_env \<Rightarrow> auth_history \<Rightarrow> string \<Rightarrow> bool" where
  "no_logout E tr h \<longleftrightarrow> (\<forall>t raw. (t, DoLogout raw, OutDone (Inr ())) \<in> set tr \<longrightarrow> raw = [] \<or> ae_sha E raw \<noteq> h)"

definition stems :: "'x auth_env \<Rightarrow> duration \<Rightarrow> auth_history \<Rightarrow> user list \<Rightarrow> session \<Rightarrow> bool" where
  "stems E ttl tr us s \<longleftrightarrow>
     (\<exists>tr1 t name pw tok tr2 u. tr = tr1 @ (t, DoLogin name pw, OutToken (Inr tok)) # tr2 \<and> u \<in> set us
        \<and> nocase (u_Username u) = nocase (TrimSpace name) \<and> ae_verify E (u_PasswordHash u) pw = Inr True
        \<and> se_TokenHash s = ae_sha E tok \<and> se_UserID s = u_ID u \<and> se_ExpiresAt s = formatTime (t + ttl)
        \<and> no_logout E tr2 (se_TokenHash s))"

lemma no_logout_snoc:
  "no_logout E tr h \<Longrightarrow> (\<And>raw. p = DoLogout raw \<Longrightarrow> out = OutDone (Inr ()) \<Longrightarrow> raw = [] \<or> ae_sha E raw \<noteq> h)
    \<Longrightarrow> no_logout E (tr @ [(t, p, out)]) h"
  by (auto simp: no_logout_def)

lemma stems_snoc:
  assumes "stems E ttl tr us s" "set us \<subseteq> set us'"
    "\<And>raw. p = DoLogout raw \<Longrightarrow> out = OutDone (Inr ()) \<Longrightarrow> raw = [] \<or> ae_sha E raw \<noteq> se_TokenHash s"
  shows "stems E ttl (tr @ [(t, p, out)]) us' s"
proof -
  obtain tr1 t0 name pw tok tr2 u where s: "tr = tr1 @ (t0, DoLogin name pw, OutToken (Inr tok)) # tr2" "u \<in> set us"
    "nocase (u_Username u) = nocase (TrimSpace name)" "ae_verify E (u_PasswordHash u) pw = Inr True"
    "se_TokenHash s = ae_sha E tok" "se_UserID s = u_ID u" "se_ExpiresAt s = formatTime (t0 + ttl)" "no_logout E tr2 (se_TokenHash s)"
    using assms(1) unfolding stems_def by blast
  have "no_logout E (tr2 @ [(t, p, out)]) (se_TokenHash s)" using s(8) assms(3) by (rule no_logout_snoc)
  with s assms(2) show ?thesis unfolding stems_def
    by (intro exI [of _ tr1] exI [of _ t0] exI [of _ name] exI [of _ pw] exI [of _ tok] exI [of _ "tr2 @ [(t, p, out)]"] exI [of _ u]) auto
qed

text \<open>The sessions after a step: old ones that no logout of the step removed, and the one a login makes.\<close>

definition made_session :: "'x auth_env \<Rightarrow> duration \<Rightarrow> instant \<Rightarrow> auth_op \<Rightarrow> auth_out \<Rightarrow> user list \<Rightarrow> session \<Rightarrow> bool" where
  "made_session E ttl t p out us s \<longleftrightarrow>
     (\<exists>name pw tok. \<exists>u \<in> set us. p = DoLogin name pw \<and> out = OutToken (Inr tok) \<and> nocase (u_Username u) = nocase (TrimSpace name)
        \<and> ae_verify E (u_PasswordHash u) pw = Inr True \<and> se_TokenHash s = ae_sha E tok \<and> se_UserID s = u_ID u
        \<and> se_ExpiresAt s = formatTime (t + ttl))"

lemma step_sessions:
  assumes "auth_step E ttl t p w = (out, w')" "s \<in> set (ad_sessions w')"
  shows "s \<in> set (ad_sessions w) \<and> (\<forall>raw. p = DoLogout raw \<and> out = OutDone (Inr ()) \<longrightarrow> raw = [] \<or> ae_sha E raw \<noteq> se_TokenHash s)
    \<or> made_session E ttl t p out (ad_users w) s"
proof (cases p)
  case (DoSetup name pw)
  with assms show ?thesis using Setup_tables [of E t name pw w]
    by (fastforce simp: same_tables_def first_user_made_def split: prod.splits)
next
  case (DoLateSetup name pw)
  with assms show ?thesis using setup_create_tables [of E t name pw w]
    by (fastforce simp: same_tables_def first_user_made_def split: prod.splits if_splits)
next
  case (DoLogin name pw)
  obtain r w1 where r: "web_Login E ttl t name pw w = (r, w1)" by fastforce
  with assms DoLogin Login_tables [OF r] show ?thesis by (cases r) (auto simp: made_session_def)
next
  case (DoLogout raw)
  obtain r w1 where r: "web_Logout E raw w = (r, w1)" by fastforce
  with assms DoLogout Logout_tables [OF r] show ?thesis by auto
next
  case DoSweep
  obtain r w1 where r: "web_CleanExpired E t w = (r, w1)" by fastforce
  with assms DoSweep Sweep_tables [OF r] show ?thesis by auto
next
  case (DoCheck raw)
  obtain r w1 where r: "web_ValidateSession E t raw w = (r, w1)" by fastforce
  with assms DoCheck conjunct1 [OF Check_read [OF r]] show ?thesis by (auto simp: same_tables_def)
next
  case DoAskUsers
  obtain r w1 where r: "web_HasUsers E w = (r, w1)" by fastforce
  with assms DoAskUsers AskUsers_read [OF r] show ?thesis by (auto simp: same_tables_def)
qed

lemma step_users_mono: "auth_step E ttl t p w = (out, w') \<Longrightarrow> set (ad_users w) \<subseteq> set (ad_users w')"
  using step_users [of E ttl t p w out w'] by (auto simp: first_user_made_def)

lemma made_session_stems:
  assumes "made_session E ttl t p out us s" "set us \<subseteq> set us'"
  shows "stems E ttl (tr @ [(t, p, out)]) us' s"
proof -
  obtain name pw tok u where "u \<in> set us" "p = DoLogin name pw" "out = OutToken (Inr tok)" "nocase (u_Username u) = nocase (TrimSpace name)"
    "ae_verify E (u_PasswordHash u) pw = Inr True" "se_TokenHash s = ae_sha E tok" "se_UserID s = u_ID u" "se_ExpiresAt s = formatTime (t + ttl)"
    using assms(1) unfolding made_session_def by blast
  moreover from this have "tr @ [(t, p, out)] = tr @ (t, DoLogin name pw, OutToken (Inr tok)) # []" "u \<in> set us'" using assms(2) by auto
  moreover have "no_logout E [] (se_TokenHash s)" by (simp add: no_logout_def)
  ultimately show ?thesis unfolding stems_def by blast
qed

lemma trace_sessions: "auth_trace E ttl tr w \<Longrightarrow> s \<in> set (ad_sessions w) \<Longrightarrow> stems E ttl tr (ad_users w) s"
proof (induction arbitrary: s rule: auth_trace.induct)
  case (step tr w t p out w')
  note m = step_users_mono [OF step.hyps(2)]
  from step_sessions [OF step.hyps(2) step.prems] show ?case
  proof
    assume "made_session E ttl t p out (ad_users w) s"
    then show ?thesis using m by (rule made_session_stems)
  qed (use stems_snoc [OF step.IH m] in blast)
qed auto

lemma check_stems:
  assumes "auth_trace E ttl tr w" "web_ValidateSession E now raw w = (Inr u, w')"
  shows "\<exists>s. ad_users w = [u] \<and> se_TokenHash s = ae_sha E raw \<and> formatTime now < se_ExpiresAt s \<and> stems E ttl tr [u] s"
proof -
  from Check_read [OF assms(2)] obtain s where s: "u \<in> set (ad_users w)" "s \<in> set (ad_sessions w)" "se_TokenHash s = ae_sha E raw"
    "formatTime now < se_ExpiresAt s" by auto
  have "ad_users w = [u]" using trace_admin [OF assms(1)] s(1) unfolding admin_inv_def by auto
  with trace_sessions [OF assms(1) s(2)] s(3,4) show ?thesis by metis
qed

text \<open>A session outlives every step but a logout of its token and a sweep after its end.\<close>

definition undisturbed :: "'x auth_env \<Rightarrow> string \<Rightarrow> stamp \<Rightarrow> instant \<times> auth_op \<times> auth_out \<Rightarrow> bool" where
  "undisturbed E h ex e \<longleftrightarrow> (case e of (t, p, _) \<Rightarrow>
     (\<forall>raw. p = DoLogout raw \<longrightarrow> raw = [] \<or> ae_sha E raw \<noteq> h) \<and> (p = DoSweep \<longrightarrow> formatTime t < ex))"

lemma step_keeps_session:
  assumes "auth_step E ttl t p w = (out, w')" "s \<in> set (ad_sessions w)" "undisturbed E (se_TokenHash s) (se_ExpiresAt s) (t, p, out)"
  shows "s \<in> set (ad_sessions w')"
proof (cases p)
  case (DoSetup name pw)
  with assms show ?thesis using Setup_tables [of E t name pw w]
    by (fastforce simp: same_tables_def first_user_made_def split: prod.splits)
next
  case (DoLateSetup name pw)
  with assms show ?thesis using setup_create_tables [of E t name pw w]
    by (fastforce simp: same_tables_def first_user_made_def split: prod.splits if_splits)
next
  case (DoLogin name pw)
  obtain r w1 where r: "web_Login E ttl t name pw w = (r, w1)" by fastforce
  with assms DoLogin Login_tables [OF r] show ?thesis by (cases r) auto
next
  case (DoLogout raw)
  obtain r w1 where r: "web_Logout E raw w = (r, w1)" by fastforce
  with assms DoLogout Logout_tables [OF r] show ?thesis by (auto simp: undisturbed_def)
next
  case DoSweep
  obtain r w1 where r: "web_CleanExpired E t w = (r, w1)" by fastforce
  with assms DoSweep Sweep_tables [OF r] show ?thesis by (auto simp: undisturbed_def)
next
  case (DoCheck raw)
  obtain r w1 where r: "web_ValidateSession E t raw w = (r, w1)" by fastforce
  with assms DoCheck conjunct1 [OF Check_read [OF r]] show ?thesis by (auto simp: same_tables_def)
next
  case DoAskUsers
  obtain r w1 where r: "web_HasUsers E w = (r, w1)" by fastforce
  with assms DoAskUsers AskUsers_read [OF r] show ?thesis by (auto simp: same_tables_def)
qed

lemma trace_keeps_session:
  assumes "auth_trace E ttl tr w" "tr = tr1 @ (t, DoLogin name pw, OutToken (Inr tok)) # tr2"
    "list_all (undisturbed E (ae_sha E tok) (formatTime (t + ttl))) tr2"
  shows "\<exists>s \<in> set (ad_sessions w). se_TokenHash s = ae_sha E tok \<and> se_ExpiresAt s = formatTime (t + ttl)"
  using assms
proof (induction arbitrary: tr2 rule: auth_trace.induct)
  case (step tr w t1 p out w')
  show ?case
  proof (cases tr2 rule: rev_cases)
    case Nil
    then have "p = DoLogin name pw" "out = OutToken (Inr tok)" "t1 = t" using step.prems(1) by auto
    with step.hyps(2) have "web_Login E ttl t name pw w = (Inr tok, w')" by (auto split: prod.splits)
    from Login_tables [OF this] show ?thesis by auto
  next
    case (snoc tr3 e)
    with step.prems have tr: "tr = tr1 @ (t, DoLogin name pw, OutToken (Inr tok)) # tr3" "e = (t1, p, out)"
      "list_all (undisturbed E (ae_sha E tok) (formatTime (t + ttl))) tr3"
      "undisturbed E (ae_sha E tok) (formatTime (t + ttl)) (t1, p, out)" by auto
    from step.IH [OF tr(1,3)] obtain s where s: "s \<in> set (ad_sessions w)" "se_TokenHash s = ae_sha E tok"
      "se_ExpiresAt s = formatTime (t + ttl)" by blast
    with step_keeps_session [OF step.hyps(2) s(1)] tr(4) show ?thesis by auto
  qed
qed auto

definition answering :: "'x auth_env \<Rightarrow> bool" where
  "answering E \<longleftrightarrow> (\<forall>x. fst (ae_fault E x) = None)"

lemma stmt_run_answering: "answering E \<Longrightarrow> \<exists>w1. same_tables w w1 \<and> stmt_run E f w = f w1"
proof -
  assume a: "answering E"
  obtain m x where m: "ae_fault E (ad_x w) = (m, x)" by fastforce
  with a have "m = None" unfolding answering_def by (metis fst_conv)
  with m have "stmt_run E f w = f (w\<lparr>ad_x := x\<rparr>)" by (simp add: stmt_run_def)
  then show ?thesis by (intro exI [of _ "w\<lparr>ad_x := x\<rparr>"]) simp
qed

lemma first_where_ex: "x \<in> set xs \<Longrightarrow> P x \<Longrightarrow> \<exists>y. first_where P xs = Some y \<and> y \<in> set xs \<and> P y"
  by (cases "first_where P xs") (auto simp: first_where_None dest: first_where_Some)

section \<open>Properties\<close>

text \<open>
  C33. One admin: in every history of the login service, however setups interleave and whatever the
  engine answers, there is at most one user, made by a setup with a name and a password of at least
  the minimal length and carrying the hash of that password; no other setup succeeds, and once it is
  there no operation changes it.
\<close>

theorem at_most_one_admin:
  assumes "auth_trace E ttl tr w"
  shows "admin_inv E tr w \<and> (ad_users w \<noteq> [] \<longrightarrow> (\<forall>t p. ad_users (snd (auth_step E ttl t p w)) = ad_users w))"
proof -
  have "ad_users w' = ad_users w" if "ad_users w \<noteq> []" "auth_step E ttl t p w = (out, w')" for t p out w'
    using step_users [OF that(2)] that(1) by (auto simp: first_user_made_def)
  then show ?thesis using trace_admin [OF assms] by (metis prod.collapse)
qed

text \<open>
  A session needs a login: a token that validates, at any point of any history, has the hash of a
  token that an earlier login returned; the password of that login verified against the user the
  check returns; its lifetime has not passed; and since that login no logout of the token succeeded.
\<close>

theorem sessions_need_login:
  assumes "auth_trace E ttl tr w" "web_ValidateSession E now raw w = (Inr u, w')"
  shows "\<exists>tr1 t name pw tok tr2. tr = tr1 @ (t, DoLogin name pw, OutToken (Inr tok)) # tr2 \<and> ae_sha E tok = ae_sha E raw
    \<and> ad_users w = [u] \<and> nocase (u_Username u) = nocase (TrimSpace name) \<and> ae_verify E (u_PasswordHash u) pw = Inr True
    \<and> formatTime now < formatTime (t + ttl) \<and> no_logout E tr2 (ae_sha E raw)"
proof -
  from check_stems [OF assms] obtain s where "ad_users w = [u]" "se_TokenHash s = ae_sha E raw" "formatTime now < se_ExpiresAt s"
    "stems E ttl tr [u] s" by blast
  then show ?thesis unfolding stems_def by force
qed

text \<open>
  C34. A login lasts: as long as the engine answers, the token a login returned validates to the admin
  until its lifetime has passed, after any further history in which the token is not logged out and
  no sweep runs later than the end of the lifetime.
\<close>

theorem logins_last:
  assumes "auth_trace E ttl (tr1 @ (t, DoLogin name pw, OutToken (Inr tok)) # tr2) w"
    and "list_all (undisturbed E (ae_sha E tok) (formatTime (t + ttl))) tr2"
    and "formatTime now < formatTime (t + ttl)" "tok \<noteq> []" "answering E"
  shows "\<exists>u w'. web_ValidateSession E now tok w = (Inr u, w') \<and> ad_users w = [u]"
proof -
  obtain s where s: "s \<in> set (ad_sessions w)" "se_TokenHash s = ae_sha E tok" "se_ExpiresAt s = formatTime (t + ttl)"
    using trace_keeps_session [OF assms(1) refl assms(2)] by blast
  obtain u where u: "ad_users w = [u]"
    using trace_sessions [OF assms(1) s(1)] trace_admin [OF assms(1)] unfolding stems_def admin_inv_def by force
  let ?p = "\<lambda>s. se_TokenHash s = ae_sha E tok \<and> se_ExpiresAt s > formatTime now"
  obtain s' where s': "first_where ?p (ad_sessions w) = Some s'" "s' \<in> set (ad_sessions w)"
    using first_where_ex [of s "ad_sessions w" ?p] s assms(3) by auto
  have id: "se_UserID s' = u_ID u" using trace_sessions [OF assms(1) s'(2)] u unfolding stems_def by auto
  obtain w1 where w1: "same_tables w w1" "GetSessionByToken E now tok w = (Inr (Some s'), w1)"
    using stmt_run_answering [OF assms(5), of w "\<lambda>w. (Inr (first_where ?p (ad_sessions w)), w)"] s'(1)
    by (auto simp: GetSessionByToken_def same_tables_def)
  obtain w2 where "GetByID E (se_UserID s') w1 = (Inr (Some u), w2)"
    using stmt_run_answering [OF assms(5), of w1 "\<lambda>w. (Inr (first_where (\<lambda>v. u_ID v = se_UserID s') (ad_users w)), w)"] w1(1) u id
    by (auto simp: GetByID_def select_user_def same_tables_def first_where_def)
  with w1(2) assms(4) u show ?thesis by (simp add: web_ValidateSession_def)
qed

section \<open>Witnesses\<close>

definition sample_auth :: "unit auth_env" where
  "sample_auth = \<lparr>ae_fault = (\<lambda>x. (None, x)), ae_rand = (\<lambda>n x. (Inr (replicate n (CHR ''a'')), x)),
     ae_hash = (\<lambda>pw x. (Inr (CHR ''h'' # pw), x)), ae_verify = (\<lambda>h pw. Inr (h = CHR ''h'' # pw)),
     ae_sha = (\<lambda>s. take 64 (s @ replicate 64 (CHR ''x'')))\<rparr>"

definition sample_admin :: user where
  "sample_admin = new_user 0 (hex_encode (replicate 16 (CHR ''a''))) ''root'' ''hpassword''"

definition sample_token :: string where
  "sample_token = b64url (map byte_of (replicate 32 (CHR ''a'')))"

definition sample_session :: session where
  "sample_session = \<lparr>se_TokenHash = ae_sha sample_auth sample_token, se_UserID = u_ID sample_admin,
     se_CreatedAt = formatTime 0, se_ExpiresAt = formatTime (0 + DefaultSessionTTL)\<rparr>"

definition auth_state :: "user list \<Rightarrow> session list \<Rightarrow> unit auth_db" where
  "auth_state us ss = \<lparr>ad_users = us, ad_sessions = ss, ad_x = ()\<rparr>"

lemma auth_state_simps [simp]: "ad_users (auth_state us ss) = us" "ad_sessions (auth_state us ss) = ss"
  "(auth_state us ss)\<lparr>ad_users := us'\<rparr> = auth_state us' ss" "(auth_state us ss)\<lparr>ad_sessions := ss'\<rparr> = auth_state us ss'"
  "(auth_state us ss)\<lparr>ad_x := y\<rparr> = auth_state us ss"
  by (simp_all add: auth_state_def)

lemma sample_stmt [simp]: "stmt_run sample_auth f (auth_state us ss) = f (auth_state us ss)"
  by (simp add: stmt_run_def sample_auth_def)

lemma sample_root: "TrimSpace ''root'' = ''root''"
  by (rule TrimSpace_plain) (simp add: plain_def)

lemma sample_setup: "auth_step sample_auth DefaultSessionTTL 0 (DoSetup ''root'' ''password'') (auth_state [] []) = (OutUser (Inr sample_admin), auth_state [sample_admin] [])"
proof -
  have "newID sample_auth (auth_state [] []) = (Inr (hex_encode (replicate 16 (CHR ''a''))), auth_state [] [])"
    by (simp add: newID_def sample_auth_def userIDBytes_def)
  moreover have "u_ID sample_admin = hex_encode (replicate 16 (CHR ''a''))" by (simp add: sample_admin_def new_user_def)
  moreover have "ae_hash sample_auth ''password'' (ad_x (auth_state [] [])) = (Inr ''hpassword'', ())" by (simp add: sample_auth_def)
  ultimately show ?thesis
    by (simp add: web_Setup_def setup_create_def store_HasUsers_def CreateFirstUser_def Let_def sample_root MinPasswordLength_def
        insert_first_user_def requireByID_def GetByID_def select_user_def first_where_def sample_admin_def)
qed

lemma sample_login: "auth_step sample_auth DefaultSessionTTL 0 (DoLogin ''root'' ''password'') (auth_state [sample_admin] []) =
    (OutToken (Inr sample_token), auth_state [sample_admin] [sample_session])"
proof -
  have "newToken sample_auth (auth_state [sample_admin] []) = (Inr sample_token, auth_state [sample_admin] [])"
    by (simp add: newToken_def sample_auth_def sessionTokenBytes_def sample_token_def)
  moreover have "length (ae_sha sample_auth sample_token) = 64" by (simp add: sample_auth_def)
  moreover have "hex_encode s \<noteq> []" if "s \<noteq> []" for s using that by (cases s) (simp_all add: hex_encode_def)
  then have "u_ID sample_admin \<noteq> []" by (simp add: sample_admin_def new_user_def)
  moreover have "u_Username sample_admin = ''root''" "ae_verify sample_auth (u_PasswordHash sample_admin) ''password'' = Inr True"
    by (simp_all add: sample_admin_def new_user_def sample_auth_def)
  moreover have "formatTime 0 < formatTime (0 + DefaultSessionTTL)" by code_simp
  moreover have "u_ID u \<noteq> [] \<Longrightarrow> length (ae_sha sample_auth tok) = 64 \<Longrightarrow> formatTime 0 < formatTime (0 + DefaultSessionTTL)
      \<Longrightarrow> newToken sample_auth (auth_state [u] []) = (Inr tok, auth_state [u] [])
      \<Longrightarrow> CreateSession sample_auth 0 (u_ID u) (0 + DefaultSessionTTL) (auth_state [u] [])
        = (Inr tok, auth_state [u] [\<lparr>se_TokenHash = ae_sha sample_auth tok, se_UserID = u_ID u, se_CreatedAt = formatTime 0,
             se_ExpiresAt = formatTime (0 + DefaultSessionTTL)\<rparr>])" for u tok
    by (simp add: CreateSession_def insert_session_def not_le)
  ultimately show ?thesis
    by (simp add: web_Login_def GetByUsername_def select_user_def first_where_def sample_root sample_session_def)
qed

abbreviation sample_history :: auth_history where
  "sample_history \<equiv> [(0, DoSetup ''root'' ''password'', OutUser (Inr sample_admin)), (0, DoLogin ''root'' ''password'', OutToken (Inr sample_token))]"

lemma sample_auth_trace: "auth_trace sample_auth DefaultSessionTTL sample_history (auth_state [sample_admin] [sample_session])"
proof -
  have "auth_trace sample_auth DefaultSessionTTL [] (auth_state [] [])" by (rule auth_trace.start) simp_all
  from auth_trace.step [OF auth_trace.step [OF this sample_setup] sample_login] show ?thesis by simp
qed

theorem at_most_one_admin_witness:
  "ad_users (snd (auth_step sample_auth DefaultSessionTTL second (DoLateSetup ''eve'' ''password'') (auth_state [sample_admin] [sample_session]))) = [sample_admin]"
  using at_most_one_admin [OF sample_auth_trace] by (simp del: auth_step.simps)

theorem logins_last_witness:
  "\<exists>u w'. web_ValidateSession sample_auth second sample_token (auth_state [sample_admin] [sample_session]) = (Inr u, w') \<and> u = sample_admin"
proof -
  have "formatTime second < formatTime (0 + DefaultSessionTTL)" by code_simp
  moreover have "sample_token \<noteq> []" by code_simp
  moreover have "answering sample_auth" by (simp add: answering_def sample_auth_def)
  moreover have "auth_trace sample_auth DefaultSessionTTL ([(0, DoSetup ''root'' ''password'', OutUser (Inr sample_admin))]
      @ (0, DoLogin ''root'' ''password'', OutToken (Inr sample_token)) # []) (auth_state [sample_admin] [sample_session])"
    using sample_auth_trace by simp
  ultimately show ?thesis using logins_last [of sample_auth DefaultSessionTTL _ 0 _ _ sample_token "[]" _ second] by fastforce
qed

lemma sample_check:
  "\<exists>u w'. web_ValidateSession sample_auth second sample_token (auth_state [sample_admin] [sample_session]) = (Inr u, w')"
proof -
  have "formatTime second < formatTime (0 + DefaultSessionTTL)" "sample_token \<noteq> []" by code_simp+
  then show ?thesis
    by (simp add: web_ValidateSession_def GetSessionByToken_def GetByID_def select_user_def first_where_def sample_session_def)
qed

theorem sessions_need_login_witness:
  "\<exists>t name pw. (t, DoLogin name pw, OutToken (Inr sample_token)) \<in> set sample_history \<and> formatTime second < formatTime (t + DefaultSessionTTL)"
proof -
  obtain u w' where c: "web_ValidateSession sample_auth second sample_token (auth_state [sample_admin] [sample_session]) = (Inr u, w')"
    using sample_check by blast
  from sessions_need_login [OF sample_auth_trace c] obtain tr1 t name pw tok tr2 where
    h: "sample_history = tr1 @ (t, DoLogin name pw, OutToken (Inr tok)) # tr2" "formatTime second < formatTime (t + DefaultSessionTTL)" by blast
  then have "(t, DoLogin name pw, OutToken (Inr tok)) \<in> set sample_history" by simp
  with h(2) show ?thesis by auto
qed

end
