(* ===== verification/Webhook.thy ===== *)
theory Webhook
  imports Trust_Net Scan Api_Keys "HOL-Library.Sublist"
begin

text \<open>
  \<^verbatim>\<open>internal/server/server.go\<close>: the HTTP API.  \<open>api_handler\<close> is \<open>Handler\<close> with its collaborators, the
  operations over the state \<open>'w\<close> of the process.  A handler returns the reply it writes; the decoding
  of the JSON body is done by the caller, so a payload of \<open>None\<close> is a body that does not decode.
\<close>

section \<open>Requests and replies\<close>

record lidarr_webhook =
  lh_EventType :: string
  lh_ArtistName :: string
  lh_AlbumTitle :: string
  lh_TrackTitle :: string
  lh_Tracks :: "string list"
  lh_TrackFiles :: "string list"

datatype api_reply =
    ReplyError int string
  | ReplyText int string
  | ReplyReady int "bool option"
  | ReplyStatus "(string \<Rightarrow> int) option"

fun reply_status :: "api_reply \<Rightarrow> int" where
  "reply_status (ReplyError n _) = n"
| "reply_status (ReplyText n _) = n"
| "reply_status (ReplyReady n _) = n"
| "reply_status (ReplyStatus _) = 200"

record 'w webhook_queue =
  hq_Enqueue :: "inputs \<Rightarrow> int \<Rightarrow> 'w \<Rightarrow> work_item result \<times> 'w"
  hq_Cleanup :: "inputs \<Rightarrow> 'w \<Rightarrow> int result \<times> 'w"

record 'w api_handler =
  ah_auth :: "(string \<Rightarrow> string \<Rightarrow> 'w \<Rightarrow> api_key result \<times> 'w) option"
  ah_queue :: "'w webhook_queue option"
  ah_outdir :: string
  ah_priority :: int
  ah_ready :: "('w \<Rightarrow> unit result \<times> 'w) option"
  ah_stats :: "('w \<Rightarrow> (string \<Rightarrow> int) result \<times> 'w) option"
  ah_inventory :: "(string \<Rightarrow> string \<Rightarrow> 'w \<Rightarrow> scan_result list result \<times> 'w) option"
  ah_allowedRoots :: "string list"
  ah_pathChecker :: "string \<Rightarrow> bool"
  ah_resolve :: "string \<Rightarrow> string option"
  ah_text :: text_lib
  ah_trusted :: trust_policy

definition WithAllowedRoots :: "string list \<Rightarrow> 'w api_handler \<Rightarrow> 'w api_handler" where
  "WithAllowedRoots roots h = h\<lparr>ah_allowedRoots := map Clean (filter (\<lambda>r. r \<noteq> []) (map TrimSpace roots))\<rparr>"

definition WithTrustedNetworks :: "trust_policy option \<Rightarrow> 'w api_handler \<Rightarrow> 'w api_handler" where
  "WithTrustedNetworks p h = (case p of None \<Rightarrow> h | Some tp \<Rightarrow> h\<lparr>ah_trusted := tp\<rparr>)"

text \<open>\<open>NewHandler\<close> before its options; \<open>is_file\<close> is \<open>defaultPathChecker\<close>.\<close>

definition NewHandler :: "text_lib \<Rightarrow> (string \<Rightarrow> string option) \<Rightarrow> (string \<Rightarrow> bool)
    \<Rightarrow> (string \<Rightarrow> string \<Rightarrow> 'w \<Rightarrow> api_key result \<times> 'w) option \<Rightarrow> 'w webhook_queue option \<Rightarrow> string \<Rightarrow> 'w api_handler" where
  "NewHandler T evalsym is_file a q outdir =
     \<lparr>ah_auth = a, ah_queue = q, ah_outdir = outdir, ah_priority = PriorityWebhook, ah_ready = None, ah_stats = None,
      ah_inventory = None, ah_allowedRoots = [], ah_pathChecker = is_file, ah_resolve = evalsym, ah_text = T,
      ah_trusted = LoopbackOnly\<rparr>"

definition cut_at :: "char \<Rightarrow> string \<Rightarrow> (string \<times> string) option" where
  "cut_at c s = (if c \<in> set s then Some (takeWhile (\<lambda>x. x \<noteq> c) s, tl (dropWhile (\<lambda>x. x \<noteq> c) s)) else None)"

text \<open>\<open>strings.EqualFold\<close> against an ASCII word with none of the letters k and s, whose foldings are all ASCII.\<close>

definition equal_fold_ascii :: "string \<Rightarrow> string \<Rightarrow> bool" where
  "equal_fold_ascii a b \<longleftrightarrow> map lower_byte a = map lower_byte b"

definition apiKey :: "http_req \<Rightarrow> string" where
  "apiKey r =
     (let v = TrimSpace (rq_query r ''apikey'') in
      if v \<noteq> [] then v
      else let a = TrimSpace (header_get r ''Authorization'') in
        if a = [] then []
        else case cut_at (CHR '' '') a of
          None \<Rightarrow> []
        | Some (scheme, token) \<Rightarrow> if equal_fold_ascii scheme ''Bearer'' then TrimSpace token else [])"

definition payloadPaths :: "lidarr_webhook \<Rightarrow> string list" where
  "payloadPaths p = filter (\<lambda>v. v \<noteq> []) (map TrimSpace (lh_TrackFiles p))"

section \<open>Inputs\<close>

fun track_titles :: "string list \<Rightarrow> string list result" where
  "track_titles [] = Inr []"
| "track_titles (t # ts) =
     (let title = TrimSpace t in
      if title = [] then Inl (errorf ''missing track title'')
      else case track_titles ts of Inl e \<Rightarrow> Inl e | Inr titles \<Rightarrow> Inr (title # titles))"

definition webhookTracks :: "lidarr_webhook \<Rightarrow> (string \<times> string \<times> string list) result" where
  "webhookTracks p =
     (let artist = TrimSpace (lh_ArtistName p);
          tracks = (if lh_Tracks p = [] \<and> lh_TrackTitle p \<noteq> [] then [lh_TrackTitle p] else lh_Tracks p)
      in if artist = [] then Inl (errorf ''missing artist'')
         else if tracks = [] then Inl (errorf ''missing tracks'')
         else case track_titles tracks of
           Inl e \<Rightarrow> Inl e
         | Inr titles \<Rightarrow> Inr (artist, TrimSpace (lh_AlbumTitle p), titles))"

definition hook_track :: "string \<Rightarrow> string \<Rightarrow> string \<Rightarrow> track" where
  "hook_track artist title album = zero_track\<lparr>ArtistName := artist, TrackName := title, AlbumName := album\<rparr>"

definition metadataInput :: "'w api_handler \<Rightarrow> string \<Rightarrow> string \<Rightarrow> string \<Rightarrow> inputs" where
  "metadataInput h artist title album =
     \<lparr>in_Track = hook_track artist title album, in_Outdir = ah_outdir h, in_Filename = [], in_SourcePath = [],
      in_OutputPaths = [\<lparr>op_Outdir = ah_outdir h, op_Filename = []\<rparr>], in_ScanResultID = 0, in_DetectInstrumental = None\<rparr>"

definition metadataInputs :: "'w api_handler \<Rightarrow> lidarr_webhook \<Rightarrow> inputs list result" where
  "metadataInputs h p =
     (case webhookTracks p of
        Inl e \<Rightarrow> Inl e
      | Inr (artist, album, titles) \<Rightarrow> Inr (map (\<lambda>t. metadataInput h artist t album) titles))"

definition pathInput :: "string \<Rightarrow> string \<Rightarrow> string \<Rightarrow> string \<Rightarrow> inputs" where
  "pathInput artist title album p =
     (let filename = TrimSuffix (Base p) (Ext (Base p)) @ ''.lrc''
      in \<lparr>in_Track = hook_track artist title album, in_Outdir = Dir p, in_Filename = filename, in_SourcePath = p,
          in_OutputPaths = [\<lparr>op_Outdir = Dir p, op_Filename = filename\<rparr>], in_ScanResultID = 0, in_DetectInstrumental = None\<rparr>)"

definition confinedPayloadPath :: "'w api_handler \<Rightarrow> string \<Rightarrow> string option" where
  "confinedPayloadPath h p =
     (case filter (\<lambda>o'. o' \<noteq> None) (map (\<lambda>rt. ResolveWithinRoot (ah_resolve h) rt p) (ah_allowedRoots h)) of
        [] \<Rightarrow> None
      | o' # _ \<Rightarrow> o')"

definition names_title :: "text_lib \<Rightarrow> string \<Rightarrow> string \<Rightarrow> bool" where
  "names_title T titleKey p \<longleftrightarrow> titleKey \<noteq> [] \<and> sublist titleKey (NormalizeKey T (TrimSuffix (Base p) (Ext p)))"

fun first_usable :: "'w api_handler \<Rightarrow> string \<Rightarrow> string list \<Rightarrow> string" where
  "first_usable h titleKey [] = []"
| "first_usable h titleKey (p # ps) =
     (case confinedPayloadPath h p of
        None \<Rightarrow> first_usable h titleKey ps
      | Some safe \<Rightarrow> if names_title (ah_text h) titleKey safe \<and> ah_pathChecker h safe then safe
                     else first_usable h titleKey ps)"

definition usablePath :: "'w api_handler \<Rightarrow> string list \<Rightarrow> string \<Rightarrow> bool \<Rightarrow> string" where
  "usablePath h paths title single =
     (case paths of
        [] \<Rightarrow> []
      | [p] \<Rightarrow>
          if single then
            (case confinedPayloadPath h p of None \<Rightarrow> [] | Some safe \<Rightarrow> if ah_pathChecker h safe then safe else [])
          else first_usable h (NormalizeKey (ah_text h) title) paths
      | _ \<Rightarrow> first_usable h (NormalizeKey (ah_text h) title) paths)"

definition pickByAlbum :: "text_lib \<Rightarrow> scan_result list \<Rightarrow> string \<Rightarrow> scan_result option" where
  "pickByAlbum T results album =
     (case results of
        [] \<Rightarrow> None
      | res # _ \<Rightarrow>
          let albumKey = NormalizeKey T album in
          if albumKey = [] then Some res
          else case find (\<lambda>res. sublist albumKey (NormalizeKey T (res_FilePath res))) results of
            Some hit \<Rightarrow> Some hit
          | None \<Rightarrow> Some res)"

text \<open>What is left when the inventory gives nothing.\<close>

definition fallback_input :: "'w api_handler \<Rightarrow> string \<Rightarrow> string \<Rightarrow> string \<Rightarrow> string list \<Rightarrow> bool \<Rightarrow> inputs" where
  "fallback_input h artist title album paths single =
     (let p = usablePath h paths title single
      in if p \<noteq> [] then pathInput artist title album p else metadataInput h artist title album)"

definition resolveTrack :: "'w api_handler \<Rightarrow> string \<Rightarrow> string \<Rightarrow> string \<Rightarrow> string list \<Rightarrow> bool \<Rightarrow> 'w \<Rightarrow> inputs \<times> 'w" where
  "resolveTrack h artist title album paths single w =
     (case ah_inventory h of
        None \<Rightarrow> (fallback_input h artist title album paths single, w)
      | Some find_track \<Rightarrow>
          (case find_track artist title w of
             (Inl e, w1) \<Rightarrow> (fallback_input h artist title album paths single, w1)
           | (Inr results, w1) \<Rightarrow>
               (case pickByAlbum (ah_text h) results album of
                  None \<Rightarrow> (fallback_input h artist title album paths single, w1)
                | Some best \<Rightarrow>
                    (case ResultInputs best of
                       Inr inp \<Rightarrow> (inp, w1)
                     | Inl e \<Rightarrow> (fallback_input h artist title album paths single, w1)))))"

fun resolve_each :: "'w api_handler \<Rightarrow> string \<Rightarrow> string \<Rightarrow> string list \<Rightarrow> bool \<Rightarrow> string list \<Rightarrow> 'w \<Rightarrow> inputs list \<times> 'w" where
  "resolve_each h artist album paths single [] w = ([], w)"
| "resolve_each h artist album paths single (t # ts) w =
     (case resolveTrack h artist t album paths single w of
        (inp, w1) \<Rightarrow> (case resolve_each h artist album paths single ts w1 of (inps, w2) \<Rightarrow> (inp # inps, w2)))"

definition resolveInputs :: "'w api_handler \<Rightarrow> lidarr_webhook \<Rightarrow> 'w \<Rightarrow> inputs list result \<times> 'w" where
  "resolveInputs h p w =
     (case webhookTracks p of
        Inl e \<Rightarrow> (Inl e, w)
      | Inr (artist, album, titles) \<Rightarrow>
          (case resolve_each h artist album (payloadPaths p) (length titles = 1) titles w of (inps, w1) \<Rightarrow> (Inr inps, w1)))"

section \<open>Handlers\<close>

definition auth_failed :: "goerr \<Rightarrow> api_reply" where
  "auth_failed e =
     (if errors_is e AuthForbiddenScope then ReplyError 403 ''Forbidden''
      else if errors_is e AuthInvalidKey \<or> errors_is e AuthRevokedKey then ReplyError 401 ''Unauthorized''
      else ReplyError 500 ''Internal Server Error'')"

fun enqueue_all :: "'w webhook_queue \<Rightarrow> int \<Rightarrow> inputs list \<Rightarrow> 'w \<Rightarrow> bool \<times> 'w" where
  "enqueue_all q prio [] w = (True, w)"
| "enqueue_all q prio (inp # inps) w =
     (case hq_Enqueue q inp prio w of
        (Inl e, w1) \<Rightarrow> (False, w1)
      | (Inr _, w1) \<Rightarrow> enqueue_all q prio inps w1)"

fun cleanup_all :: "'w webhook_queue \<Rightarrow> inputs list \<Rightarrow> 'w \<Rightarrow> bool \<times> 'w" where
  "cleanup_all q [] w = (True, w)"
| "cleanup_all q (inp # inps) w =
     (case hq_Cleanup q inp w of
        (Inl e, w1) \<Rightarrow> (False, w1)
      | (Inr _, w1) \<Rightarrow> cleanup_all q inps w1)"

definition reply_ok :: api_reply where
  "reply_ok = ReplyText 200 (''ok'' @ [CHR 0x0A])"

text \<open>The switch on the event, after the key and the body were accepted.\<close>

definition lidarr_event :: "'w api_handler \<Rightarrow> 'w webhook_queue \<Rightarrow> lidarr_webhook \<Rightarrow> 'w \<Rightarrow> api_reply \<times> 'w" where
  "lidarr_event h q p w =
     (let event = TrimSpace (lh_EventType p) in
      if event \<in> {''Download'', ''TrackRetag''} then
        (case resolveInputs h p w of
           (Inl e, w1) \<Rightarrow> (ReplyError 400 (err_msg e), w1)
         | (Inr inps, w1) \<Rightarrow>
             (case enqueue_all q (ah_priority h) inps w1 of
                (False, w2) \<Rightarrow> (ReplyError 500 ''enqueue failed'', w2)
              | (True, w2) \<Rightarrow> (reply_ok, w2)))
      else if event \<in> {''Grab'', ''Rename''} then (reply_ok, w)
      else if event = ''Delete'' then
        (case metadataInputs h p of
           Inl e \<Rightarrow> (reply_ok, w)
         | Inr inps \<Rightarrow>
             (case cleanup_all q inps w of
                (False, w1) \<Rightarrow> (ReplyError 500 ''cleanup failed'', w1)
              | (True, w1) \<Rightarrow> (reply_ok, w1)))
      else (ReplyError 400 ''unsupported lidarr event'', w))"

definition handleLidarr :: "'w api_handler \<Rightarrow> http_req \<Rightarrow> lidarr_webhook option \<Rightarrow> 'w \<Rightarrow> api_reply \<times> 'w" where
  "handleLidarr h r payload w =
     (case ah_auth h of None \<Rightarrow> (ReplyError 500 ''auth unavailable'', w) | Some validate \<Rightarrow>
      (case ah_queue h of None \<Rightarrow> (ReplyError 500 ''queue unavailable'', w) | Some q \<Rightarrow>
       (case validate (apiKey r) ScopeWebhook w of
          (Inl e, w1) \<Rightarrow> (auth_failed e, w1)
        | (Inr _, w1) \<Rightarrow>
            (case payload of
               None \<Rightarrow> (ReplyError 400 ''invalid lidarr webhook payload'', w1)
             | Some p \<Rightarrow> lidarr_event h q p w1))))"

definition handleHealthz :: "'w \<Rightarrow> api_reply \<times> 'w" where
  "handleHealthz w = (ReplyText 200 ''ok'', w)"

definition handleReadyz :: "'w api_handler \<Rightarrow> 'w \<Rightarrow> api_reply \<times> 'w" where
  "handleReadyz h w =
     (case ah_ready h of
        None \<Rightarrow> (ReplyReady 200 None, w)
      | Some ping \<Rightarrow>
          (case ping w of (Inl e, w1) \<Rightarrow> (ReplyReady 503 (Some False), w1) | (Inr _, w1) \<Rightarrow> (ReplyReady 200 (Some True), w1)))"

definition handleStatus :: "'w api_handler \<Rightarrow> http_req \<Rightarrow> 'w \<Rightarrow> api_reply \<times> 'w" where
  "handleStatus h r w =
     (case ah_auth h of None \<Rightarrow> (ReplyError 500 ''auth unavailable'', w) | Some validate \<Rightarrow>
      (case validate (apiKey r) ScopeAdmin w of
         (Inl e, w1) \<Rightarrow> (auth_failed e, w1)
       | (Inr _, w1) \<Rightarrow>
           (case ah_stats h of
              None \<Rightarrow> (ReplyStatus None, w1)
            | Some count \<Rightarrow>
                (case count w1 of
                   (Inl e, w2) \<Rightarrow> (ReplyError 500 ''status unavailable'', w2)
                 | (Inr n, w2) \<Rightarrow> (ReplyStatus (Some n), w2)))))"

end
