(* ===== verification/Webhook_Props.thy ===== *)
theory Webhook_Props
  imports Webhook Api_Keys_Props Scan_Service Service_Props Lyrics_Props
begin

text \<open>
  What the webhook promises.  \<open>webhook_service\<close> is what \<open>handleLidarr\<close> asks of the key service, the
  work queue and the inventory; its interpretation \<open>hook\<close> is the process as it is wired, the key table
  beside the queue database.
\<close>

section \<open>The contract\<close>

definition hook_key :: "text_lib \<Rightarrow> track \<Rightarrow> string \<times> string" where
  "hook_key T tr = (NormalizeKey T (ArtistName tr), NormalizeKey T (TrackName tr))"

definition payload_keys :: "text_lib \<Rightarrow> lidarr_webhook \<Rightarrow> (string \<times> string) set" where
  "payload_keys T p =
     (case webhookTracks p of
        Inl _ \<Rightarrow> {}
      | Inr (artist, _, titles) \<Rightarrow> (\<lambda>t. (NormalizeKey T artist, NormalizeKey T t)) ` set titles)"

definition is_fetch :: "lidarr_webhook \<Rightarrow> bool" where
  "is_fetch p \<longleftrightarrow> TrimSpace (lh_EventType p) \<in> {''Download'', ''TrackRetag''}"

definition is_delete :: "lidarr_webhook \<Rightarrow> bool" where
  "is_delete p \<longleftrightarrow> TrimSpace (lh_EventType p) = ''Delete''"

lemma hook_key_track [simp]: "hook_key T (hook_track a t b) = (NormalizeKey T a, NormalizeKey T t)"
  by (simp add: hook_key_def hook_track_def)

lemma fallback_track: "in_Track (fallback_input h a t b paths s) = hook_track a t b"
  by (simp add: fallback_input_def pathInput_def metadataInput_def Let_def)

lemma scanInputs_track: "scanInputs res = Inr inp \<Longrightarrow> in_Track inp = res_Track res"
  by (auto simp: scanInputs_def Let_def split: if_splits)

lemma pickByAlbum_mem: "pickByAlbum T rs album = Some res \<Longrightarrow> res \<in> set rs"
  by (auto simp: pickByAlbum_def Let_def find_Some_iff split: list.splits if_splits option.splits)

locale webhook_service =
  fixes validate :: "string \<Rightarrow> string \<Rightarrow> 'w \<Rightarrow> api_key result \<times> 'w" and q :: "'w webhook_queue"
    and inventory :: "string \<Rightarrow> string \<Rightarrow> 'w \<Rightarrow> scan_result list result \<times> 'w" and T :: text_lib
    and ok :: "'w \<Rightarrow> bool" and store :: "'w \<Rightarrow> 'v" and holds :: "'v \<Rightarrow> string \<times> string \<Rightarrow> bool"
    and idle :: "'v \<Rightarrow> string \<times> string \<Rightarrow> bool"
  assumes validates: "\<And>w raw sc r w'. ok w \<Longrightarrow> validate raw sc w = (r, w') \<Longrightarrow> ok w' \<and> store w' = store w"
    and inventories: "\<And>w a t r w'. ok w \<Longrightarrow> inventory a t w = (r, w') \<Longrightarrow> ok w' \<and> store w' = store w
      \<and> (\<forall>rs. r = Inr rs \<longrightarrow> (\<forall>res \<in> set rs. hook_key T (res_Track res) = (NormalizeKey T a, NormalizeKey T t)))"
    and enqueues: "\<And>w inp prio r w'. ok w \<Longrightarrow> hq_Enqueue q inp prio w = (r, w') \<Longrightarrow> ok w'
      \<and> (\<forall>k. holds (store w) k \<longrightarrow> holds (store w') k) \<and> (r \<in> range Inr \<longrightarrow> holds (store w') (hook_key T (in_Track inp)))"
    and cleans: "\<And>w inp r w'. ok w \<Longrightarrow> hq_Cleanup q inp w = (r, w') \<Longrightarrow> ok w'
      \<and> (\<forall>k. idle (store w') k \<longrightarrow> idle (store w) k) \<and> (r \<in> range Inr \<longrightarrow> \<not> idle (store w') (hook_key T (in_Track inp)))"
begin

definition wired :: "'w api_handler \<Rightarrow> bool" where
  "wired h \<longleftrightarrow> ah_auth h = Some validate \<and> ah_queue h = Some q \<and> ah_text h = T \<and> ah_inventory h \<in> {None, Some inventory}"

lemma resolveTrack_keeps:
  assumes "wired h" "ok w" "resolveTrack h a t b paths s w = (inp, w')"
  shows "ok w' \<and> store w' = store w \<and> hook_key T (in_Track inp) = (NormalizeKey T a, NormalizeKey T t)"
proof (cases "ah_inventory h")
  case None
  with assms show ?thesis by (auto simp: resolveTrack_def fallback_track)
next
  case (Some f)
  with assms(1) have f: "f = inventory" by (simp add: wired_def)
  obtain r w1 where r: "inventory a t w = (r, w1)" by fastforce
  note inv = inventories [OF assms(2) r]
  show ?thesis
  proof (cases "\<exists>rs res. r = Inr rs \<and> pickByAlbum T rs b = Some res \<and> scanInputs res = Inr inp")
    case True
    then obtain rs res where rs: "r = Inr rs" "pickByAlbum T rs b = Some res" "scanInputs res = Inr inp" by blast
    with assms Some f r have "w' = w1" by (simp add: resolveTrack_def ResultInputs_def wired_def)
    with inv rs pickByAlbum_mem [OF rs(2)] scanInputs_track [OF rs(3)] show ?thesis by auto
  next
    case False
    with assms Some f r have "w' = w1 \<and> inp = fallback_input h a t b paths s"
      by (auto simp: resolveTrack_def ResultInputs_def wired_def split: sum.splits option.splits)
    with inv show ?thesis by (auto simp: fallback_track)
  qed
qed

lemma resolve_each_keeps:
  assumes "wired h" "ok w" "resolve_each h a b paths s ts w = (inps, w')"
  shows "ok w' \<and> store w' = store w \<and> map (\<lambda>i. hook_key T (in_Track i)) inps = map (\<lambda>t. (NormalizeKey T a, NormalizeKey T t)) ts"
  using assms(2,3)
proof (induction ts arbitrary: w inps)
  case (Cons t ts)
  from Cons.prems(2) show ?case
    using resolveTrack_keeps [OF assms(1) Cons.prems(1)] Cons.IH by (force split: prod.splits)
qed simp

lemma enqueue_all_keeps:
  assumes "ok w" "enqueue_all q prio inps w = (b, w')"
  shows "ok w' \<and> (\<forall>k. holds (store w) k \<longrightarrow> holds (store w') k) \<and> (b \<longrightarrow> (\<forall>i \<in> set inps. holds (store w') (hook_key T (in_Track i))))"
  using assms
proof (induction inps arbitrary: w)
  case (Cons i js)
  obtain r w1 where r: "hq_Enqueue q i prio w = (r, w1)" by fastforce
  note e = enqueues [OF Cons.prems(1) r]
  show ?case
  proof (cases r)
    case (Inl x)
    with Cons.prems r e show ?thesis by auto
  next
    case (Inr x)
    with Cons.prems(2) r have "enqueue_all q prio js w1 = (b, w')" by simp
    from Cons.IH [OF _ this] e Inr show ?thesis by (auto simp del: split_paired_All)
  qed
qed simp

lemma cleanup_all_keeps:
  assumes "ok w" "cleanup_all q inps w = (b, w')"
  shows "ok w' \<and> (\<forall>k. idle (store w') k \<longrightarrow> idle (store w) k) \<and> (b \<longrightarrow> (\<forall>i \<in> set inps. \<not> idle (store w') (hook_key T (in_Track i))))"
  using assms
proof (induction inps arbitrary: w)
  case (Cons i js)
  obtain r w1 where r: "hq_Cleanup q i w = (r, w1)" by fastforce
  note e = cleans [OF Cons.prems(1) r]
  show ?case
  proof (cases r)
    case (Inl x)
    with Cons.prems r e show ?thesis by auto
  next
    case (Inr x)
    with Cons.prems(2) r have "cleanup_all q js w1 = (b, w')" by simp
    from Cons.IH [OF _ this] e Inr show ?thesis by (auto simp del: split_paired_All)
  qed
qed simp

text \<open>The event handler.\<close>

lemma event_fetch:
  assumes "wired h" "ok w" "is_fetch p" "lidarr_event h q p w = (rep, w')" "reply_status rep = 200"
  shows "payload_keys T p \<noteq> {} \<and> (\<forall>k \<in> payload_keys T p. holds (store w') k)"
proof -
  have ev: "TrimSpace (lh_EventType p) \<in> {''Download'', ''TrackRetag''}" using assms(3) by (simp add: is_fetch_def)
  obtain r w1 where r: "resolveInputs h p w = (r, w1)" by fastforce
  show ?thesis
  proof (cases r)
    case (Inl e)
    with assms(4,5) ev r show ?thesis by (auto simp: lidarr_event_def Let_def)
  next
    case (Inr inps)
    obtain b w2 where b: "enqueue_all q (ah_priority h) inps w1 = (b, w2)" by fastforce
    with assms(4,5) ev r Inr have "b" "w' = w2" by (cases b; auto simp: lidarr_event_def Let_def)+
    from r Inr obtain a al ts where ts: "webhookTracks p = Inr (a, al, ts)"
      "resolve_each h a al (payloadPaths p) (length ts = 1) ts w = (inps, w1)"
      by (auto simp: resolveInputs_def split: sum.splits prod.splits)
    note k = resolve_each_keeps [OF assms(1,2) ts(2)]
    then have keys: "payload_keys T p = (\<lambda>i. hook_key T (in_Track i)) ` set inps"
      using ts(1) by (simp add: payload_keys_def) (metis (no_types, lifting) list.set_map)
    have "ts \<noteq> []" using ts(1) by (auto simp: webhookTracks_def Let_def split: if_splits sum.splits elim!: track_titles.elims)
    then have "payload_keys T p \<noteq> {}" using ts(1) by (simp add: payload_keys_def)
    moreover have "\<forall>i \<in> set inps. holds (store w2) (hook_key T (in_Track i))"
      using enqueue_all_keeps [OF conjunct1 [OF k] b] \<open>b\<close> by blast
    ultimately show ?thesis using keys \<open>w' = w2\<close> by simp
  qed
qed

lemma event_delete:
  assumes "wired h" "ok w" "is_delete p" "lidarr_event h q p w = (rep, w')" "reply_status rep = 200"
  shows "\<forall>k \<in> payload_keys T p. \<not> idle (store w') k"
proof (cases "metadataInputs h p")
  case (Inl e)
  then show ?thesis by (auto simp: metadataInputs_def payload_keys_def split: sum.splits)
next
  case (Inr inps)
  obtain b w1 where b: "cleanup_all q inps w = (b, w1)" by fastforce
  with assms(3-5) Inr have "b" "w' = w1" by (cases b; auto simp: lidarr_event_def Let_def is_delete_def)+
  moreover have "payload_keys T p = (\<lambda>i. hook_key T (in_Track i)) ` set inps"
    using Inr by (auto simp: metadataInputs_def payload_keys_def metadataInput_def image_image split: sum.splits)
  ultimately show ?thesis using cleanup_all_keeps [OF assms(2) b] by auto
qed

lemma handle_cases:
  assumes "wired h" "handleLidarr h r payload w = (rep, w')"
  obtains (refused) e where "validate (apiKey r) ScopeWebhook w = (Inl e, w')" "rep = auth_failed e"
  | (garbled) k where "validate (apiKey r) ScopeWebhook w = (Inr k, w')" "reply_status rep = 400"
  | (event) k w1 p where "validate (apiKey r) ScopeWebhook w = (Inr k, w1)" "payload = Some p" "lidarr_event h q p w1 = (rep, w')"
  using assms by (auto simp: wired_def handleLidarr_def split: prod.splits sum.splits option.splits)

lemma changes_need_key:
  assumes "wired h" "ok w" "handleLidarr h r payload w = (rep, w')" "store w' \<noteq> store w \<or> reply_status rep = 200"
  shows "\<exists>k w1. validate (apiKey r) ScopeWebhook w = (Inr k, w1)"
  using assms(1,3)
proof (cases rule: handle_cases)
  case (refused e)
  then have "reply_status rep \<noteq> 200" by (simp add: auth_failed_def)
  with refused assms(4) validates [OF assms(2) refused(1)] show ?thesis by simp
qed blast+

lemma success_settles:
  assumes "wired h" "ok w" "handleLidarr h r (Some p) w = (rep, w')" "reply_status rep = 200"
  shows "(is_fetch p \<longrightarrow> payload_keys T p \<noteq> {} \<and> (\<forall>k \<in> payload_keys T p. holds (store w') k))
    \<and> (is_delete p \<longrightarrow> (\<forall>k \<in> payload_keys T p. \<not> idle (store w') k))"
  using assms(1,3)
proof (cases rule: handle_cases)
  case (refused e)
  then show ?thesis using assms(4) by (simp add: auth_failed_def split: if_splits)
next
  case (garbled k)
  then show ?thesis using assms(4) by simp
next
  case (event k w1 p')
  with validates [OF assms(2) event(1)] have "ok w1" by simp
  with event event_fetch [OF assms(1) this _ _ assms(4)] event_delete [OF assms(1) this _ _ assms(4)] show ?thesis by blast
qed

end


section \<open>The process\<close>

text \<open>The state a request meets: the key table and the rest of the service.\<close>

record ('k, 'x) node =
  nd_keys :: "'k key_table"
  nd_sys :: "'x system"

definition on_sys :: "('x system \<Rightarrow> 'a \<times> 'x system) \<Rightarrow> ('k, 'x) node \<Rightarrow> 'a \<times> ('k, 'x) node" where
  "on_sys f w = (case f (nd_sys w) of (r, s) \<Rightarrow> (r, w\<lparr>nd_sys := s\<rparr>))"

definition node_validate :: "'k key_table key_service \<Rightarrow> string \<Rightarrow> string \<Rightarrow> ('k, 'x) node \<Rightarrow> api_key result \<times> ('k, 'x) node" where
  "node_validate S raw sc w = (case ValidateKey S raw sc (nd_keys w) of (r, k) \<Rightarrow> (r, w\<lparr>nd_keys := k\<rparr>))"

definition node_queue :: "dbqueue \<Rightarrow> 'x outside \<Rightarrow> ('k, 'x) node webhook_queue" where
  "node_queue q E =
     \<lparr>hq_Enqueue = (\<lambda>inp prio. on_sys (db_enqueue q E inp prio)),
      hq_Cleanup = (\<lambda>inp. on_sys (db_call E (\<lambda>t d. case Cleanup q inp d of (n, d') \<Rightarrow> (Inr n, d'))))\<rparr>"

definition node_inventory :: "text_lib \<Rightarrow> 'x outside \<Rightarrow> string \<Rightarrow> string \<Rightarrow> ('k, 'x) node \<Rightarrow> scan_result list result \<times> ('k, 'x) node" where
  "node_inventory T E a t = on_sys (db_call E (\<lambda>now d. (Inr (FindByTrack T a t d), d)))"

definition node_handler :: "(string \<Rightarrow> string option) \<Rightarrow> (string \<Rightarrow> bool) \<Rightarrow> string list \<Rightarrow> string \<Rightarrow> 'k key_table key_service
    \<Rightarrow> dbqueue \<Rightarrow> 'x outside \<Rightarrow> ('k, 'x) node api_handler" where
  "node_handler evalsym is_file roots outdir S q E =
     WithAllowedRoots roots
       (NewHandler (dq_text q) evalsym is_file (Some (node_validate S)) (Some (node_queue q E)) outdir)
       \<lparr>ah_inventory := Some (node_inventory (dq_text q) E)\<rparr>"

text \<open>The key columns of every scan result are the normal forms of its names, as every upsert writes them.\<close>

definition keyed_scans :: "text_lib \<Rightarrow> db \<Rightarrow> bool" where
  "keyed_scans T d \<longleftrightarrow>
     list_all (\<lambda>r. s_artist_key r = NormalizeKey T (s_artist r) \<and> s_title_key r = NormalizeKey T (s_title r)) (scan_results d)"

lemma keyed_upsert_row: "s_artist_key (upsert_row T res r) = NormalizeKey T (s_artist (upsert_row T res r))
    \<and> s_title_key (upsert_row T res r) = NormalizeKey T (s_title (upsert_row T res r))"
  by (simp add: upsert_row_def)

lemma keyed_upsert_one: "keyed_scans T d \<Longrightarrow> keyed_scans T (snd (upsert_one T libs now lib force res d))"
  by (auto simp: upsert_one_def keyed_scans_def list_all_iff new_scan_row_def keyed_upsert_row Let_def update_where_def
      split: option.splits if_splits)

lemma keyed_Upsert: "keyed_scans T (fst s) \<Longrightarrow> keyed_scans T (fst (snd (Upsert T E libs lib results force s)))"
  by (rule Upsert_inv) (rule keyed_upsert_one)

definition queued :: "db \<Rightarrow> string \<times> string \<Rightarrow> bool" where
  "queued d k \<longleftrightarrow> k \<in> (\<lambda>r. row_key r) ` set (work_queue d)"

definition idle_row :: "db \<Rightarrow> string \<times> string \<Rightarrow> bool" where
  "idle_row d k \<longleftrightarrow> (\<exists>r \<in> set (work_queue d). row_key r = k \<and> q_status r \<in> {Pending, Failed, Deferred})"

lemma FindByTrack_key:
  "keyed_scans T d \<Longrightarrow> res \<in> set (FindByTrack T a t d) \<Longrightarrow> hook_key T (res_Track res) = (NormalizeKey T a, NormalizeKey T t)"
  by (auto simp: FindByTrack_def Let_def scanResultRows_def scan_result_of_def hook_key_def keyed_scans_def list_all_iff
      split: if_splits)

lemma Enqueue_queued:
  assumes "Enqueue q now inp pr d = (r, d')"
  shows "(queued d k \<longrightarrow> queued d' k) \<and> (r \<in> range Inr \<longrightarrow> queued d' (hook_key (dq_text q) (in_Track inp)))"
  using assms
proof (cases rule: Enqueue_cases)
  case (ok item e d1)
  let ?e = "enqueue_row q now inp pr (wq_seq d)"
  have key: "row_key ?e = hook_key (dq_text q) (in_Track inp)" by (simp add: hook_key_def enqueue_row_def Let_def)
  have "work_queue d' = work_queue d1" using ok(4) by (simp add: add_link_def)
  moreover have "(queued d k \<longrightarrow> queued d1 k) \<and> queued d1 (row_key ?e)"
  proof (cases "first_where (same_key ?e) (work_queue d)")
    case None
    then show ?thesis using ok(3) by (auto simp: upsert_wq_def queued_def)
  next
    case (Some w)
    let ?f = "\<lambda>x. if same_key ?e x then touch now (enqueue_conflict (pr \<ge> PriorityWebhook) ?e x) else x"
    have d1: "work_queue d1 = map ?f (work_queue d)" using ok(3) Some by (auto simp: upsert_wq_def update_wq_def update_where_def)
    have row: "row_key (?f x) = row_key x" for x by (simp add: touch_def enqueue_conflict_def Let_def)
    have "(\<lambda>r. row_key r) ` set (work_queue d1) = (\<lambda>r. row_key r) ` set (work_queue d)"
      unfolding d1 set_map image_image row ..
    moreover from first_where_Some [OF Some] have "w \<in> set (work_queue d)" "row_key w = row_key ?e" by (auto simp: same_key_def)
    then have "row_key ?e \<in> (\<lambda>r. row_key r) ` set (work_queue d)" by (metis (no_types, lifting) image_eqI)
    ultimately show ?thesis unfolding queued_def by simp
  qed
  ultimately show ?thesis using key by (simp add: queued_def)
qed auto

lemma Cleanup_rows:
  "work_queue (snd (Cleanup q inp d)) =
     filter (\<lambda>r. \<not> (row_key r = hook_key (dq_text q) (in_Track inp) \<and> q_status r \<in> {Pending, Failed, Deferred})) (work_queue d)"
  unfolding Cleanup_def Let_def delete_wq_def delete_where_def hook_key_def
  by (simp add: conj_assoc)

lemma Cleanup_idle:
  assumes "Cleanup q inp d = (n, d')"
  shows "(idle_row d' k \<longrightarrow> idle_row d k) \<and> \<not> idle_row d' (hook_key (dq_text q) (in_Track inp))"
  using Cleanup_rows [of q inp d] assms by (auto simp: idle_row_def)

lemma Cleanup_scans: "scan_results (snd (Cleanup q inp d)) = scan_results d"
  by (simp add: Cleanup_def Let_def delete_wq_def)

lemma scans_kept: "keyed_scans T d' = keyed_scans T d" if "scan_results d' = scan_results d"
  using that by (simp add: keyed_scans_def)

interpretation hook: webhook_service "node_validate S" "node_queue q E" "node_inventory (dq_text q) E" "dq_text q"
    "\<lambda>w. wf_db (sys_db (nd_sys w)) \<and> keyed_scans (dq_text q) (sys_db (nd_sys w))" "\<lambda>w. sys_db (nd_sys w)" queued idle_row
  for S :: "'k key_table key_service" and q and E :: "'x outside"
proof (unfold_locales, goal_cases)
  case (1 w raw sc r w')
  then show ?case by (auto simp: node_validate_def split: prod.splits)
next
  case (2 w a t r w')
  then obtain s where s: "db_call E (\<lambda>now d. (Inr (FindByTrack (dq_text q) a t d), d)) (nd_sys w) = (r, s)" "w' = w\<lparr>nd_sys := s\<rparr>"
    by (auto simp: node_inventory_def on_sys_def split: prod.splits)
  from s(1) show ?case using s(2) 2(1) FindByTrack_key by (cases rule: db_call_cases) auto
next
  case (3 w inp prio r w')
  then obtain s where s: "db_call E (\<lambda>t. Enqueue q t inp prio) (nd_sys w) = (r, s)" "w' = w\<lparr>nd_sys := s\<rparr>"
    by (auto simp: node_queue_def on_sys_def db_enqueue_def split: prod.splits)
  from s(1) show ?case
  proof (cases rule: db_call_cases)
    case (run t)
    have "wf_db (sys_db s)" "keyed_scans (dq_text q) (sys_db s)"
      using wf_Enqueue [OF _ run(1)] scans_kept [OF Enqueue_frame(1) [OF run(1)]] 3(1) by blast+
    moreover have "\<forall>k. queued (sys_db (nd_sys w)) k \<longrightarrow> queued (sys_db s) k" using Enqueue_queued [OF run(1)] by blast
    moreover have "r \<in> range Inr \<longrightarrow> queued (sys_db s) (hook_key (dq_text q) (in_Track inp))" using Enqueue_queued [OF run(1)] by blast
    moreover have n: "nd_sys w' = s" using s(2) by simp
    ultimately show ?thesis unfolding n by (intro conjI)
  next
    case (fault e)
    then show ?thesis using 3(1) s(2) by (simp del: split_paired_All) blast
  qed
next
  case (4 w inp r w')
  then obtain s where s: "db_call E (\<lambda>t d. case Cleanup q inp d of (n, d') \<Rightarrow> (Inr n, d')) (nd_sys w) = (r, s)" "w' = w\<lparr>nd_sys := s\<rparr>"
    by (auto simp: node_queue_def on_sys_def split: prod.splits)
  from s(1) show ?case
  proof (cases rule: db_call_cases)
    case (run t)
    then obtain n where n: "Cleanup q inp (sys_db (nd_sys w)) = (n, sys_db s)" by (auto split: prod.splits)
    note kept = Cleanup_scans [of q inp "sys_db (nd_sys w)", unfolded n snd_conv]
    have "wf_db (sys_db s)" "keyed_scans (dq_text q) (sys_db s)"
      using wf_Cleanup [of "sys_db (nd_sys w)" q inp, unfolded n snd_conv] scans_kept [OF kept] 4(1) by blast+
    moreover have "\<forall>k. idle_row (sys_db s) k \<longrightarrow> idle_row (sys_db (nd_sys w)) k"
      "\<not> idle_row (sys_db s) (hook_key (dq_text q) (in_Track inp))" using Cleanup_idle [OF n] by blast+
    moreover have n: "nd_sys w' = s" using s(2) by simp
    ultimately show ?thesis unfolding n by blast
  next
    case (fault e)
    then show ?thesis using 4(1) s(2) by (simp del: split_paired_All) blast
  qed
qed

lemma node_wired: "hook.wired S q E (node_handler evalsym is_file roots outdir S q E)"
  by (simp add: hook.wired_def node_handler_def WithAllowedRoots_def NewHandler_def)

section \<open>Destinations\<close>

text \<open>Where an input may point: at what the inventory recorded, at the output directory, or at the
  directory of a file that resolves within an allowed root.\<close>

definition below :: "string \<Rightarrow> string \<Rightarrow> bool" where
  "below rr p \<longleftrightarrow> rooted p = rooted rr \<and> (\<exists>rest. comps p = comps rr @ rest \<and> ''..'' \<notin> set rest)"

definition outdir_input :: "'w api_handler \<Rightarrow> inputs \<Rightarrow> bool" where
  "outdir_input h inp \<longleftrightarrow> in_Outdir inp = ah_outdir h \<and> in_SourcePath inp = []
     \<and> in_OutputPaths inp = [\<lparr>op_Outdir = ah_outdir h, op_Filename = []\<rparr>]"

definition confined_input :: "'w api_handler \<Rightarrow> inputs \<Rightarrow> bool" where
  "confined_input h inp \<longleftrightarrow>
     (let p = in_SourcePath inp in
      in_Outdir inp = Dir p \<and> in_OutputPaths inp = [\<lparr>op_Outdir = Dir p, op_Filename = in_Filename inp\<rparr>] \<and> ah_pathChecker h p
      \<and> (\<exists>p0. ah_resolve h p0 = Some p)
      \<and> (\<exists>rt \<in> set (ah_allowedRoots h). \<exists>rr. ah_resolve h (Clean rt) = Some rr \<and> below rr p))"

lemma confinedPayloadPath_root:
  assumes "confinedPayloadPath h p = Some safe"
  shows "(\<exists>p0. ah_resolve h p0 = Some safe)
    \<and> (\<exists>rt \<in> set (ah_allowedRoots h). \<exists>rr. ah_resolve h (Clean rt) = Some rr \<and> below rr safe)"
proof -
  have "Some safe \<in> set (filter (\<lambda>o'. o' \<noteq> None) (map (\<lambda>rt. ResolveWithinRoot (ah_resolve h) rt p) (ah_allowedRoots h)))"
    using assms unfolding confinedPayloadPath_def by (metis (no_types, lifting) list.case(1) list.case(2) list.set_intros(1) neq_Nil_conv option.distinct(1))
  then obtain rt where rt: "rt \<in> set (ah_allowedRoots h)" "ResolveWithinRoot (ah_resolve h) rt p = Some safe" by auto
  from rt(2) have "\<exists>p0. ah_resolve h p0 = Some safe"
    by (auto simp: ResolveWithinRoot_def split: if_splits option.splits)
  moreover from ResolveWithinRoot_Some [OF rt(2)] relWithin_comps rt(1) have
    "\<exists>rt \<in> set (ah_allowedRoots h). \<exists>rr. ah_resolve h (Clean rt) = Some rr \<and> below rr safe"
    unfolding below_def by blast
  ultimately show ?thesis ..
qed

lemma first_usable_confined:
  "first_usable h k ps = safe \<Longrightarrow> safe \<noteq> [] \<Longrightarrow> ah_pathChecker h safe \<and> (\<exists>p. confinedPayloadPath h p = Some safe)"
  by (induction ps) (auto split: option.splits if_splits)

lemma usablePath_confined:
  "usablePath h ps t single = safe \<Longrightarrow> safe \<noteq> [] \<Longrightarrow> ah_pathChecker h safe \<and> (\<exists>p. confinedPayloadPath h p = Some safe)"
  using first_usable_confined [of h _ _ safe]
  by (auto simp: usablePath_def simp del: first_usable.simps split: list.splits if_splits option.splits)

lemma fallback_confined: "outdir_input h (fallback_input h a t b ps s) \<or> confined_input h (fallback_input h a t b ps s)"
proof (cases "usablePath h ps t s = []")
  case True
  then show ?thesis by (simp add: fallback_input_def metadataInput_def outdir_input_def)
next
  case False
  let ?p = "usablePath h ps t s"
  from usablePath_confined [OF refl False] confinedPayloadPath_root have
    "ah_pathChecker h ?p \<and> (\<exists>p0. ah_resolve h p0 = Some ?p)
      \<and> (\<exists>rt \<in> set (ah_allowedRoots h). \<exists>rr. ah_resolve h (Clean rt) = Some rr \<and> below rr ?p)"
    by blast
  with False show ?thesis by (simp add: fallback_input_def pathInput_def confined_input_def Let_def)
qed

text \<open>Resolving reads the inventory and leaves the database as it was.\<close>

lemma node_inventory_cases:
  assumes "node_inventory T E a t w = (r, w')"
  shows "sys_db (nd_sys w') = sys_db (nd_sys w)" "r = Inr rs \<Longrightarrow> rs = FindByTrack T a t (sys_db (nd_sys w))"
proof -
  from assms obtain s where s: "db_call E (\<lambda>now d. (Inr (FindByTrack T a t d), d)) (nd_sys w) = (r, s)" "w' = w\<lparr>nd_sys := s\<rparr>"
    by (auto simp: node_inventory_def on_sys_def split: prod.splits)
  from s(1) have "sys_db s = sys_db (nd_sys w) \<and> (\<forall>rs. r = Inr rs \<longrightarrow> rs = FindByTrack T a t (sys_db (nd_sys w)))"
    by (auto simp: db_call_def sys_call_def split: prod.splits option.splits)
  with s(2) show "sys_db (nd_sys w') = sys_db (nd_sys w)" "r = Inr rs \<Longrightarrow> rs = FindByTrack T a t (sys_db (nd_sys w))"
    by simp_all
qed

definition recorded_input :: "text_lib \<Rightarrow> db \<Rightarrow> string \<Rightarrow> string \<Rightarrow> inputs \<Rightarrow> bool" where
  "recorded_input T d artist t inp \<longleftrightarrow> (\<exists>res \<in> set (FindByTrack T artist t d). ResultInputs res = Inr inp)"

lemma resolveTrack_confined:
  assumes h: "ah_inventory h = Some (node_inventory T E)" and r: "resolveTrack h a t b ps s w = (inp, w')"
  shows "sys_db (nd_sys w') = sys_db (nd_sys w)
    \<and> (recorded_input T (sys_db (nd_sys w)) a t inp \<or> outdir_input h inp \<or> confined_input h inp)"
proof -
  obtain v w1 where v: "node_inventory T E a t w = (v, w1)" by fastforce
  note inv = node_inventory_cases [OF v]
  have w': "w' = w1" using r v by (auto simp: resolveTrack_def h split: sum.splits option.splits)
  have "recorded_input T (sys_db (nd_sys w)) a t inp \<or> inp = fallback_input h a t b ps s"
    using r v inv(2) pickByAlbum_mem unfolding recorded_input_def
    by (fastforce simp: resolveTrack_def h split: sum.splits option.splits)
  with inv(1) w' fallback_confined show ?thesis by metis
qed

lemma resolve_each_confined:
  assumes "ah_inventory h = Some (node_inventory T E)" "resolve_each h a b ps s ts w = (inps, w')" "inp \<in> set inps"
  shows "(\<exists>t \<in> set ts. recorded_input T (sys_db (nd_sys w)) a t inp) \<or> outdir_input h inp \<or> confined_input h inp"
  using assms(2,3)
proof (induction ts arbitrary: w inps w')
  case (Cons t ts)
  obtain i w1 where i: "resolveTrack h a t b ps s w = (i, w1)" by fastforce
  obtain js w2 where js: "resolve_each h a b ps s ts w1 = (js, w2)" by fastforce
  with Cons.prems i have "inp = i \<or> inp \<in> set js" by auto
  with resolveTrack_confined [OF assms(1) i] Cons.IH [OF js] show ?case by auto
qed simp

text \<open>A file below a root that is not itself a file has its directory below the root.\<close>

lemma below_Dir:
  assumes "below rr p" "Clean p = p" "Clean rr = rr" "p \<noteq> rr"
  shows "below rr (Dir p)"
proof -
  obtain rest where rest: "rooted p = rooted rr" "comps p = comps rr @ rest" "''..'' \<notin> set rest"
    using assms(1) by (auto simp: below_def)
  have "rest \<noteq> []"
    using rest assms(2-4) Clean_eq [of p rr] by auto
  with rest comps_Dir [OF assms(2)] show ?thesis
    unfolding below_def by (auto simp: butlast_append dest: in_set_butlastD)
qed

section \<open>Properties\<close>

text \<open>
  C4. No webhook without an issued key: whatever the key service was asked to do before and whichever
  statements fail, a webhook request that changes the database or is answered with success carries a
  key whose hash is stored unrevoked from the start or was issued by that service, whose scopes allow
  the webhook, and no revocation of which succeeded.
\<close>

theorem webhook_needs_issued_key:
  assumes "wf_keys t" "key_run (sql_key_service rand now derive F) ops \<lparr>kt_rows = t, kt_x = x\<rparr> = (tr, kt)"
    and "wf_db (sys_db s)" "keyed_scans (dq_text q) (sys_db s)"
    and "handleLidarr (node_handler evalsym is_file roots outdir (sql_key_service rand now derive F) q E) r payload
           \<lparr>nd_keys = kt, nd_sys = s\<rparr> = (rep, w')"
    and "sys_db (nd_sys w') \<noteq> sys_db s \<or> reply_status rep = 200"
  shows "\<exists>k. rightful_key derive t tr ScopeWebhook (apiKey r) k"
proof -
  let ?S = "sql_key_service rand now derive F" and ?w = "\<lparr>nd_keys = kt, nd_sys = s\<rparr>"
  obtain k w1 where "node_validate ?S (apiKey r) ScopeWebhook ?w = (Inr k, w1)"
    using hook.changes_need_key [OF node_wired _ assms(5)] assms(3,4,6) by auto
  then obtain kt' where v: "ValidateKey ?S (apiKey r) ScopeWebhook kt = (Inr k, kt')"
    by (auto simp: node_validate_def split: prod.splits)
  from validated_rightful [OF assms(1,2) v] show ?thesis by blast
qed

text \<open>
  C26. A webhook settles what it names: a successful answer to a download or a retag means that every
  track of the payload, at least one, has its row in the queue, and to a delete that no row of a
  named track is waiting any more; this holds under any database faults.
\<close>

theorem webhook_success_settles:
  assumes "wf_db (sys_db (nd_sys w))" "keyed_scans (dq_text q) (sys_db (nd_sys w))"
    and "handleLidarr (node_handler evalsym is_file roots outdir S q E) r (Some p) w = (rep, w')" "reply_status rep = 200"
  shows "(is_fetch p \<longrightarrow> payload_keys (dq_text q) p \<noteq> {} \<and> (\<forall>k \<in> payload_keys (dq_text q) p. queued (sys_db (nd_sys w')) k))
    \<and> (is_delete p \<longrightarrow> (\<forall>k \<in> payload_keys (dq_text q) p. \<not> idle_row (sys_db (nd_sys w')) k))"
  by (rule hook.success_settles [OF node_wired _ assms(3,4)]) (simp add: assms)

text \<open>
  C27. A webhook payload cannot choose a place outside the library: of every input the request resolves
  to, the destination is the one the scan inventory holds for a track of that name, or the configured
  output directory, or the directory of an existing file that the payload names; and that directory,
  symbolic links resolved, is an allowed root or below one.  That \<open>EvalSymlinks\<close> returns cleaned paths and
  that no allowed root is a regular file are the hypotheses.
\<close>

theorem webhook_destinations_confined:
  assumes "\<And>x y. evalsym x = Some y \<Longrightarrow> Clean y = y"
    and "\<And>rt rr. rt \<in> set roots \<Longrightarrow> evalsym (Clean (TrimSpace rt)) = Some rr \<Longrightarrow> \<not> is_file rr"
    and "resolveInputs (node_handler evalsym is_file roots outdir S q E) p w = (Inr inps, w')" "inp \<in> set inps"
  shows "(\<exists>artist album titles. webhookTracks p = Inr (artist, album, titles)
      \<and> (\<exists>t \<in> set titles. recorded_input (dq_text q) (sys_db (nd_sys w)) artist t inp))
    \<or> in_Outdir inp = outdir \<and> in_SourcePath inp = [] \<and> in_OutputPaths inp = [\<lparr>op_Outdir = outdir, op_Filename = []\<rparr>]
    \<or> is_file (in_SourcePath inp) \<and> in_Outdir inp = Dir (in_SourcePath inp)
        \<and> in_OutputPaths inp = [\<lparr>op_Outdir = in_Outdir inp, op_Filename = in_Filename inp\<rparr>]
        \<and> (\<exists>rt \<in> set roots. \<exists>rr. evalsym (Clean (TrimSpace rt)) = Some rr \<and> below rr (in_Outdir inp))"
proof -
  let ?h = "node_handler evalsym is_file roots outdir S q E"
  have h: "ah_inventory ?h = Some (node_inventory (dq_text q) E)" "ah_outdir ?h = outdir" "ah_pathChecker ?h = is_file"
    "ah_resolve ?h = evalsym" "ah_allowedRoots ?h = map Clean (filter (\<lambda>r. r \<noteq> []) (map TrimSpace roots))"
    by (simp_all add: node_handler_def WithAllowedRoots_def NewHandler_def)
  obtain artist album titles where t: "webhookTracks p = Inr (artist, album, titles)"
    "resolve_each ?h artist album (payloadPaths p) (length titles = 1) titles w = (inps, w')"
    using assms(3) by (auto simp: resolveInputs_def split: sum.splits prod.splits)
  have "is_file (in_SourcePath inp) \<and> in_Outdir inp = Dir (in_SourcePath inp)
      \<and> in_OutputPaths inp = [\<lparr>op_Outdir = in_Outdir inp, op_Filename = in_Filename inp\<rparr>]
      \<and> (\<exists>rt \<in> set roots. \<exists>rr. evalsym (Clean (TrimSpace rt)) = Some rr \<and> below rr (in_Outdir inp))"
    if conf: "confined_input ?h inp"
  proof -
    let ?p = "in_SourcePath inp"
    have c: "in_Outdir inp = Dir ?p" "in_OutputPaths inp = [\<lparr>op_Outdir = Dir ?p, op_Filename = in_Filename inp\<rparr>]"
      "is_file ?p" "\<exists>p0. evalsym p0 = Some ?p"
      using conf by (auto simp: confined_input_def Let_def h)
    obtain r0 rr where r0: "r0 \<in> set (ah_allowedRoots ?h)" "evalsym (Clean r0) = Some rr" "below rr ?p"
      using conf unfolding confined_input_def Let_def h(4) by blast
    then obtain rt where rt: "rt \<in> set roots" "evalsym (Clean (TrimSpace rt)) = Some rr" "below rr ?p"
      unfolding h(5) by auto
    have "?p \<noteq> rr" using assms(2) [OF rt(1,2)] c(3) by auto
    with c(4) assms(1) rt have "below rr (Dir ?p)" by (blast intro: below_Dir)
    with c rt show ?thesis by auto
  qed
  with resolve_each_confined [OF h(1) t(2) assms(4)] t(1) show ?thesis by (auto simp: outdir_input_def h)
qed

section \<open>Witnesses\<close>

definition hook_req :: http_req where
  "hook_req = \<lparr>rq_remote = ''10.0.0.2:4711'', rq_headers = [], rq_cookies = [], rq_form = (\<lambda>_. None),
     rq_query = (\<lambda>k. if k = ''apikey'' then sample_raw else []), rq_host = ''h'', rq_uri = ''/'', rq_tls = False\<rparr>"

definition hook_payload :: "string \<Rightarrow> string list \<Rightarrow> lidarr_webhook" where
  "hook_payload event files = \<lparr>lh_EventType = event, lh_ArtistName = ''a'', lh_AlbumTitle = ''c'', lh_TrackTitle = [],
     lh_Tracks = [''b''], lh_TrackFiles = files\<rparr>"

definition hook_node :: "(nat, instant) node" where
  "hook_node = \<lparr>nd_keys = \<lparr>kt_rows = [row_of_key sample_key], kt_x = 1\<rparr>, nd_sys = sample_sys empty_db\<rparr>"

abbreviation hook_handler :: "(nat, instant) node api_handler" where
  "hook_handler \<equiv> node_handler Some (\<lambda>_. True) [''/m''] ''/out'' sample_keys sample_queue sample_env"

lemma hook_words: "TrimSpace ''a'' = ''a''" "TrimSpace ''b'' = ''b''" "TrimSpace ''c'' = ''c''"
  "TrimSpace ''Grab'' = ''Grab''" "TrimSpace ''Download'' = ''Download''" "TrimSpace ''/m'' = ''/m''"
  "TrimSpace ''/m/a/b.flac'' = ''/m/a/b.flac''"
  by (rule TrimSpace_graphic, simp add: graphic_def)+

lemma hook_key_sent: "apiKey hook_req = sample_raw"
proof -
  have "graphic sample_raw" unfolding sample_raw_def graphic_def KeyPrefix_def by (simp add: list_all_iff)
  moreover have "sample_raw \<noteq> []" by (simp add: sample_raw_def KeyPrefix_def)
  ultimately show ?thesis by (simp add: apiKey_def hook_req_def TrimSpace_graphic)
qed

lemma hook_validated: "node_validate sample_keys (apiKey hook_req) ScopeWebhook hook_node = (Inr sample_key, hook_node)"
  using sample_validated by (simp add: node_validate_def hook_node_def hook_key_sent ScopeWebhook_def)

lemma hook_node_ok: "wf_db (sys_db (nd_sys hook_node))" "keyed_scans (dq_text sample_queue) (sys_db (nd_sys hook_node))"
  using wf_empty_db by (simp_all add: hook_node_def keyed_scans_def empty_db_def)

lemma hook_handled:
  "handleLidarr hook_handler hook_req (Some p) hook_node = lidarr_event hook_handler (node_queue sample_queue sample_env) p hook_node"
  using hook_validated by (simp add: handleLidarr_def node_handler_def NewHandler_def WithAllowedRoots_def)

theorem webhook_needs_issued_key_witness:
  "\<exists>k. rightful_key sample_derive [] [(DoCreate ''lidarr'' [''webhook''], Created (Inr \<lparr>ck_Raw = sample_raw, ck_Key = sample_key\<rparr>))]
     ScopeWebhook sample_raw k"
proof -
  have run: "key_run sample_keys [DoCreate ''lidarr'' [''webhook'']] \<lparr>kt_rows = [], kt_x = 0\<rparr> =
      ([(DoCreate ''lidarr'' [''webhook''], Created (Inr \<lparr>ck_Raw = sample_raw, ck_Key = sample_key\<rparr>))],
       \<lparr>kt_rows = [row_of_key sample_key], kt_x = 1\<rparr>)"
    using sample_created by (simp add: sample_table_def)
  have "handleLidarr hook_handler hook_req (Some (hook_payload ''Grab'' [])) hook_node = (reply_ok, hook_node)"
    unfolding hook_handled by (simp add: lidarr_event_def hook_payload_def hook_words)
  from webhook_needs_issued_key [OF sample_wf(2) run [unfolded sample_keys_def] hook_node_ok [unfolded hook_node_def node.simps]
      this [unfolded sample_keys_def hook_node_def]]
  show ?thesis by (simp add: hook_key_sent reply_ok_def)
qed

lemma hook_tracks: "webhookTracks (hook_payload ev fs) = Inr (''a'', ''c'', [''b''])"
  by (simp add: webhookTracks_def hook_payload_def hook_words)

lemma hook_inventory: "\<exists>w'. node_inventory (dq_text sample_queue) sample_env a t hook_node = (Inr [], w') \<and> sys_db (nd_sys w') = empty_db"
  by (simp add: node_inventory_def on_sys_def hook_node_def db_call_def sys_call_def sample_env_def sample_sys_def FindByTrack_def
      Let_def scanResultRows_def empty_db_def)

lemma hook_resolved:
  "\<exists>w'. resolveInputs hook_handler (hook_payload ev fs) hook_node
       = (Inr [fallback_input hook_handler ''a'' ''b'' ''c'' (payloadPaths (hook_payload ev fs)) True], w')
     \<and> sys_db (nd_sys w') = empty_db"
proof -
  obtain w' where "node_inventory (dq_text sample_queue) sample_env ''a'' ''b'' hook_node = (Inr [], w')"
    "sys_db (nd_sys w') = empty_db" using hook_inventory by blast
  moreover have "ah_inventory hook_handler = Some (node_inventory (dq_text sample_queue) sample_env)"
    by (simp add: node_handler_def WithAllowedRoots_def)
  ultimately show ?thesis by (simp add: resolveInputs_def hook_tracks resolveTrack_def pickByAlbum_def)
qed

theorem webhook_success_settles_witness:
  "\<exists>w'. handleLidarr hook_handler hook_req (Some (hook_payload ''Download'' [])) hook_node = (reply_ok, w')
     \<and> queued (sys_db (nd_sys w')) (NormalizeKey (dq_text sample_queue) ''a'', NormalizeKey (dq_text sample_queue) ''b'')"
proof -
  let ?p = "hook_payload ''Download'' []" and ?h = hook_handler
  let ?i = "fallback_input ?h ''a'' ''b'' ''c'' (payloadPaths ?p) True"
  obtain w1 where w1: "resolveInputs ?h ?p hook_node = (Inr [?i], w1)" "sys_db (nd_sys w1) = empty_db" using hook_resolved by blast
  have "in_ScanResultID ?i = 0" by (simp add: fallback_input_def pathInput_def metadataInput_def Let_def)
  then obtain it d' where "\<And>now pr. \<exists>it d'. Enqueue sample_queue now ?i pr empty_db = (Inr it, d')"
    using Enqueue_ok [OF wf_empty_db, of ?i] by (metis less_irrefl)
  then obtain it d' where e: "Enqueue sample_queue (ox_now sample_env (sys_x (nd_sys w1))) ?i (ah_priority ?h) empty_db = (Inr it, d')"
    by blast
  have "\<exists>w2. hq_Enqueue (node_queue sample_queue sample_env) ?i (ah_priority ?h) w1 = (Inr it, w2)"
    using e w1(2) by (simp add: node_queue_def on_sys_def db_enqueue_def db_call_def sys_call_def sample_env_def)
  then have "\<exists>w'. lidarr_event ?h (node_queue sample_queue sample_env) ?p hook_node = (reply_ok, w')"
    using w1(1) by (auto simp: lidarr_event_def hook_payload_def hook_words)
  then obtain w' where w': "handleLidarr ?h hook_req (Some ?p) hook_node = (reply_ok, w')" unfolding hook_handled by blast
  have "is_fetch ?p" by (simp add: is_fetch_def hook_payload_def hook_words)
  with webhook_success_settles [OF hook_node_ok w'] w' show ?thesis
    by (simp add: reply_ok_def payload_keys_def hook_tracks)
qed

theorem webhook_destinations_confined_witness:
  "\<exists>inp w'. resolveInputs (node_handler (Some \<circ> Clean) (\<lambda>p. p = ''/m/a/b.flac'') [''/m''] ''/out'' sample_keys sample_queue sample_env)
       (hook_payload ''Download'' [''/m/a/b.flac'']) hook_node = (Inr [inp], w')
     \<and> in_Outdir inp = ''/m/a'' \<and> below ''/m'' (in_Outdir inp)"
proof -
  let ?p = "hook_payload ''Download'' [''/m/a/b.flac'']"
  let ?h = "node_handler (Some \<circ> Clean) (\<lambda>p. p = ''/m/a/b.flac'') [''/m''] ''/out'' sample_keys sample_queue sample_env"
  let ?i = "fallback_input ?h ''a'' ''b'' ''c'' (payloadPaths ?p) True"
  obtain w1 where inv: "node_inventory (dq_text sample_queue) sample_env ''a'' ''b'' hook_node = (Inr [], w1)"
    using hook_inventory by blast
  have h: "ah_inventory ?h = Some (node_inventory (dq_text sample_queue) sample_env)" "ah_allowedRoots ?h = [Clean ''/m'']"
    "ah_resolve ?h = Some \<circ> Clean" "ah_pathChecker ?h = (\<lambda>p. p = ''/m/a/b.flac'')"
    by (simp_all add: node_handler_def WithAllowedRoots_def NewHandler_def hook_words)
  have r: "resolveInputs ?h ?p hook_node = (Inr [?i], w1)"
    using inv by (simp add: h resolveInputs_def hook_tracks resolveTrack_def pickByAlbum_def)
  have paths: "payloadPaths ?p = [''/m/a/b.flac'']" by (simp add: payloadPaths_def hook_payload_def hook_words)
  have "ResolveWithinRoot (Some \<circ> Clean) (Clean ''/m'') ''/m/a/b.flac'' = Some ''/m/a/b.flac''" by code_simp
  then have "usablePath ?h (payloadPaths ?p) ''b'' True = ''/m/a/b.flac''"
    unfolding paths by (simp add: usablePath_def confinedPayloadPath_def h)
  moreover have d: "Dir ''/m/a/b.flac'' = ''/m/a''" "Clean ''/m'' = ''/m''" by code_simp+
  ultimately have i: "in_Outdir ?i = ''/m/a''" "in_SourcePath ?i = ''/m/a/b.flac''" by (simp_all add: fallback_input_def pathInput_def Let_def)
  have nr: "\<not> recorded_input (dq_text sample_queue) (sys_db (nd_sys hook_node)) ''a'' ''b'' ?i"
    using node_inventory_cases(2) [OF inv refl] by (simp add: recorded_input_def)
  have "below ''/m'' (in_Outdir ?i)"
    using webhook_destinations_confined [OF _ _ r, of ?i] i nr d by (auto simp: hook_tracks hook_words)
  with r i show ?thesis by blast
qed

end
