(* ===== verification/Web_Gate.thy ===== *)
theory Web_Gate
  imports Trust_Net Login_Limiter Web_Auth Go_Paths "HOL-Library.Sublist"
begin

text \<open>
  \<^verbatim>\<open>internal/web/csrf.go\<close>, \<^verbatim>\<open>auth.go\<close> and \<^verbatim>\<open>setup.go\<close>: who gets to the pages.  A handler maps the
  request, the instant of its clock and the state to the reply and the new state.  \<open>web_lib\<close> holds what
  \<open>net/url\<close>, \<open>net\<close> and the Unicode folding of \<open>strings\<close> answer, and the random source.  The back-off the
  code sleeps before a refusal is a field of the reply, and \<open>wr_Location\<close> is the header that
  \<open>http.Redirect\<close> writes.  The handlers' own \<open>ParseForm\<close> has no branch: the token check has parsed the form
  before, and a second parse reports no error.
\<close>

section \<open>State\<close>

record 'w web_lib =
  wl_parse :: "string \<Rightarrow> (bool \<times> string) option"
  wl_fold :: "string \<Rightarrow> string"
  wl_ip :: "ip \<Rightarrow> string"
  wl_rand :: "nat \<Rightarrow> 'w \<Rightarrow> string result \<times> 'w"

record 'w web_world =
  ww_svc :: 'w
  ww_limiter :: login_limiter
  ww_adminExists :: bool

record set_cookie =
  co_Name :: string
  co_Value :: string
  co_Secure :: bool
  co_MaxAge :: int

datatype web_page =
    NoPage
  | ErrorPage string
  | LoginPage string string string string
  | SetupPage string string string
  | Content string

record web_reply =
  wr_Status :: int
  wr_Location :: "string option"
  wr_Cookies :: "set_cookie list"
  wr_RetryAfter :: "string option"
  wr_Slept :: duration
  wr_Page :: web_page

definition reply :: "int \<Rightarrow> web_page \<Rightarrow> web_reply" where
  "reply st p = \<lparr>wr_Status = st, wr_Location = None, wr_Cookies = [], wr_RetryAfter = None, wr_Slept = 0, wr_Page = p\<rparr>"

text \<open>
  \<open>url.Parse\<close> refuses a control byte before the fragment; the rest of it is \<open>wl_parse\<close>: whether the
  address is absolute, and its host.
\<close>

definition ctl_byte :: "char \<Rightarrow> bool" where
  "ctl_byte c \<longleftrightarrow> byte_of c < 32 \<or> byte_of c = 127"

definition url_Parse :: "'w web_lib \<Rightarrow> string \<Rightarrow> (bool \<times> string) option" where
  "url_Parse L raw = (if list_ex ctl_byte (takeWhile (\<lambda>c. c \<noteq> CHR ''#'') raw) then None else wl_parse L raw)"

text \<open>
  The header \<open>http.Redirect\<close> writes for a target that starts with a slash: a target without scheme and
  host is cleaned up to its first question mark, and bytes beyond ASCII are escaped.
\<close>

definition hexEscapeNonASCII :: "string \<Rightarrow> string" where
  "hexEscapeNonASCII s = concat (map (\<lambda>c. if byte_of c < 128 then [c]
     else [CHR ''%'', hex_digit (byte_of c div 16), hex_digit (byte_of c mod 16)]) s)"

definition clean_target :: "string \<Rightarrow> string" where
  "clean_target target =
     (let path = takeWhile (\<lambda>c. c \<noteq> CHR ''?'') target; query = dropWhile (\<lambda>c. c \<noteq> CHR ''?'') target;
          cleaned = Clean path
      in (if HasSuffix path ''/'' \<and> \<not> HasSuffix cleaned ''/'' then cleaned @ ''/'' else cleaned) @ query)"

definition location_header :: "'w web_lib \<Rightarrow> string \<Rightarrow> string" where
  "location_header L target =
     hexEscapeNonASCII (case url_Parse L target of
        None \<Rightarrow> target
      | Some (is_abs, host) \<Rightarrow> if is_abs \<or> host \<noteq> [] then target else clean_target target)"

definition redirect :: "'w web_lib \<Rightarrow> string \<Rightarrow> web_reply" where
  "redirect L target = (reply 303 NoPage)\<lparr>wr_Location := Some (location_header L target)\<rparr>"

definition forbidden_reply :: web_reply where "forbidden_reply = reply 403 (ErrorPage ''Forbidden'')"
definition internal_error :: web_reply where "internal_error = reply 500 (ErrorPage ''Internal Server Error'')"
definition not_found :: web_reply where "not_found = reply 404 (ErrorPage ''404 page not found'')"

type_synonym 'w handler = "http_req \<Rightarrow> instant \<Rightarrow> 'w web_world \<Rightarrow> web_reply \<times> 'w web_world"

definition EqualFold :: "'w web_lib \<Rightarrow> string \<Rightarrow> string \<Rightarrow> bool" where
  "EqualFold L a b \<longleftrightarrow> wl_fold L a = wl_fold L b"

definition PostFormValue :: "http_req \<Rightarrow> string \<Rightarrow> string" where
  "PostFormValue r k = (case rq_form r k of None \<Rightarrow> [] | Some v \<Rightarrow> v)"

definition FormValue :: "http_req \<Rightarrow> string \<Rightarrow> string" where
  "FormValue r k = (case rq_form r k of None \<Rightarrow> rq_query r k | Some v \<Rightarrow> v)"

text \<open>An operation of the service behind the pages.\<close>

definition on_svc :: "('w \<Rightarrow> 'a \<times> 'w) \<Rightarrow> 'w web_world \<Rightarrow> 'a \<times> 'w web_world" where
  "on_svc f w = (case f (ww_svc w) of (a, s) \<Rightarrow> (a, w\<lparr>ww_svc := s\<rparr>))"

section \<open>Cross-site requests\<close>

definition CSRFCookieName :: string where "CSRFCookieName = ''mxlrc_csrf''"
definition SessionCookieName :: string where "SessionCookieName = ''mxlrc_session''"
definition csrfTokenMaxAge :: int where "csrfTokenMaxAge = 3600"
definition csrfTokenLen :: nat where "csrfTokenLen = 64"

definition generateCSRFToken :: "'w web_lib \<Rightarrow> 'w web_world \<Rightarrow> string result \<times> 'w web_world" where
  "generateCSRFToken L w =
     (case on_svc (wl_rand L 32) w of
        (Inl e, w1) \<Rightarrow> (Inl (wrapf ''csrf: generate token'' e), w1)
      | (Inr b, w1) \<Rightarrow> (Inr (hex_encode b), w1))"

definition csrf_cookie :: "string \<Rightarrow> bool \<Rightarrow> set_cookie" where
  "csrf_cookie token secure = \<lparr>co_Name = CSRFCookieName, co_Value = token, co_Secure = secure, co_MaxAge = csrfTokenMaxAge\<rparr>"

text \<open>Whether the submitted token is the one of the cookie.\<close>

definition csrf_token_ok :: "http_req \<Rightarrow> bool" where
  "csrf_token_ok r \<longleftrightarrow>
     (case cookie_of r CSRFCookieName of
        None \<Rightarrow> False
      | Some v \<Rightarrow> v \<noteq> [] \<and> length (PostFormValue r ''csrf_token'') = csrfTokenLen \<and> v = PostFormValue r ''csrf_token'')"

definition enforceCSRFToken :: "http_req \<Rightarrow> web_reply option" where
  "enforceCSRFToken r = (if csrf_token_ok r then None else Some forbidden_reply)"

text \<open>The token for a form and the cookie to set, if a new one was made.\<close>

definition ensureCSRFToken :: "'w web_lib \<Rightarrow> http_req \<Rightarrow> bool \<Rightarrow> 'w web_world \<Rightarrow> (string \<times> set_cookie list) result \<times> 'w web_world" where
  "ensureCSRFToken L r secure w =
     (case cookie_of r CSRFCookieName of
        Some v \<Rightarrow>
          if length v = csrfTokenLen then (Inr (v, []), w)
          else (case generateCSRFToken L w of
                  (Inl e, w1) \<Rightarrow> (Inl e, w1) | (Inr t, w1) \<Rightarrow> (Inr (t, [csrf_cookie t secure]), w1))
      | None \<Rightarrow> (case generateCSRFToken L w of
                  (Inl e, w1) \<Rightarrow> (Inl e, w1) | (Inr t, w1) \<Rightarrow> (Inr (t, [csrf_cookie t secure]), w1)))"

definition host_matches :: "'w web_lib \<Rightarrow> http_req \<Rightarrow> string \<Rightarrow> bool" where
  "host_matches L r u =
     (case url_Parse L u of None \<Rightarrow> False | Some (_, host) \<Rightarrow> host \<noteq> [] \<and> EqualFold L host (rq_host r))"

definition isSameOriginRequest :: "'w web_lib \<Rightarrow> http_req \<Rightarrow> bool" where
  "isSameOriginRequest L r =
     (let site = TrimSpace (header_get r ''Sec-Fetch-Site'');
          origin = TrimSpace (header_get r ''Origin'');
          referer = TrimSpace (header_get r ''Referer'')
      in if site \<noteq> [] then site = ''same-origin'' \<or> site = ''none''
         else if origin \<noteq> [] then host_matches L r origin
         else if referer \<noteq> [] then host_matches L r referer
         else (case cookie_of r SessionCookieName of None \<Rightarrow> True | Some v \<Rightarrow> v = []))"

definition enforceSameOrigin :: "'w web_lib \<Rightarrow> http_req \<Rightarrow> web_reply option" where
  "enforceSameOrigin L r = (if isSameOriginRequest L r then None else Some forbidden_reply)"

section \<open>Return paths\<close>

definition dashboardPath :: string where "dashboardPath = ''/dashboard''"

definition safeNext :: "'w web_lib \<Rightarrow> string \<Rightarrow> string" where
  "safeNext L raw0 =
     (let raw = TrimSpace raw0 in
      if raw = [] \<or> hd raw \<noteq> CHR ''/'' then dashboardPath
      else if HasPrefix raw ''//'' \<or> HasPrefix raw [CHR ''/'', CHR 0x5C] then dashboardPath
      else if CHR 0x5C \<in> set raw \<or> CHR 0x0D \<in> set raw \<or> CHR 0x0A \<in> set raw then dashboardPath
      else case url_Parse L raw of
        None \<Rightarrow> dashboardPath
      | Some (is_abs, host) \<Rightarrow> if is_abs \<or> host \<noteq> [] then dashboardPath else raw)"

definition safeReturnPath :: "'w web_lib \<Rightarrow> http_req \<Rightarrow> string" where
  "safeReturnPath L r = safeNext L (rq_uri r)"

text \<open>\<open>url.QueryEscape\<close>.\<close>

definition unreserved :: "char \<Rightarrow> bool" where
  "unreserved c \<longleftrightarrow> (let n = byte_of c in 48 \<le> n \<and> n \<le> 57 \<or> 65 \<le> n \<and> n \<le> 90 \<or> 97 \<le> n \<and> n \<le> 122 \<or> n \<in> {45, 95, 46, 126})"

definition upper_hex :: "nat \<Rightarrow> char" where
  "upper_hex n = char_of (if n < 10 then 48 + n else 55 + n)"

definition QueryEscape :: "string \<Rightarrow> string" where
  "QueryEscape s = concat (map (\<lambda>c. if unreserved c then [c] else if c = CHR '' '' then ''+''
     else [CHR ''%'', upper_hex (byte_of c div 16), upper_hex (byte_of c mod 16)]) s)"

definition wantsJSON :: "'w web_lib \<Rightarrow> http_req \<Rightarrow> bool" where
  "wantsJSON L r \<longleftrightarrow> EqualFold L (header_get r ''X-Requested-With'') ''XMLHttpRequest''
     \<or> (sublist ''application/json'' (header_get r ''Accept'') \<and> \<not> sublist ''text/html'' (header_get r ''Accept''))"

section \<open>Sessions\<close>

record 'w web_auth =
  wa_Login :: "instant \<Rightarrow> string \<Rightarrow> string \<Rightarrow> 'w \<Rightarrow> string result \<times> 'w"
  wa_ValidateSession :: "instant \<Rightarrow> string \<Rightarrow> 'w \<Rightarrow> user result \<times> 'w"
  wa_Logout :: "string \<Rightarrow> 'w \<Rightarrow> unit result \<times> 'w"
  wa_policy :: "trust_policy option"
  wa_cookieTTL :: duration
  wa_lib :: "'w web_lib"

definition secureRequest :: "'w web_auth \<Rightarrow> http_req \<Rightarrow> bool" where
  "secureRequest a r \<longleftrightarrow> rq_tls r
     \<or> (case wa_policy a of
          None \<Rightarrow> False
        | Some p \<Rightarrow> FromTrustedProxy p r \<and> EqualFold (wa_lib a) (TrimSpace (header_get r ''X-Forwarded-Proto'')) ''https'')"

definition session_cookie :: "'w web_auth \<Rightarrow> http_req \<Rightarrow> string \<Rightarrow> set_cookie" where
  "session_cookie a r token = \<lparr>co_Name = SessionCookieName, co_Value = token, co_Secure = secureRequest a r,
     co_MaxAge = wa_cookieTTL a div second\<rparr>"

definition cleared_cookie :: "'w web_auth \<Rightarrow> http_req \<Rightarrow> set_cookie" where
  "cleared_cookie a r = \<lparr>co_Name = SessionCookieName, co_Value = [], co_Secure = secureRequest a r, co_MaxAge = -1\<rparr>"

definition hasValidSession :: "'w web_auth \<Rightarrow> http_req \<Rightarrow> instant \<Rightarrow> 'w web_world \<Rightarrow> bool \<times> 'w web_world" where
  "hasValidSession a r now w =
     (case cookie_of r SessionCookieName of
        None \<Rightarrow> (False, w)
      | Some v \<Rightarrow>
          if v = [] then (False, w)
          else (case on_svc (wa_ValidateSession a now v) w of (Inl e, w1) \<Rightarrow> (False, w1) | (Inr u, w1) \<Rightarrow> (True, w1)))"

definition RequireSession :: "'w web_auth \<Rightarrow> 'w handler \<Rightarrow> 'w handler" where
  "RequireSession a page r now w =
     (if (case wa_policy a of None \<Rightarrow> False | Some p \<Rightarrow> Trusted p r) then page r now w
      else case hasValidSession a r now w of
        (True, w1) \<Rightarrow> page r now w1
      | (False, w1) \<Rightarrow>
          (if wantsJSON (wa_lib a) r then reply 401 (ErrorPage ''Unauthorized'')
           else redirect (wa_lib a) (''/login?next='' @ QueryEscape (safeReturnPath (wa_lib a) r)), w1))"

definition clientKey :: "'w web_auth \<Rightarrow> http_req \<Rightarrow> string" where
  "clientKey a r =
     (case (case wa_policy a of None \<Rightarrow> None | Some p \<Rightarrow> policy_ClientIP p r) of
        Some i \<Rightarrow> wl_ip (wa_lib a) i
      | None \<Rightarrow> (case SplitHostPort (rq_remote r) of Some (h, _) \<Rightarrow> h | None \<Rightarrow> rq_remote r))"

definition renderLoginStatus :: "'w web_auth \<Rightarrow> http_req \<Rightarrow> int \<Rightarrow> string \<Rightarrow> string \<Rightarrow> string \<Rightarrow> 'w web_world \<Rightarrow> web_reply \<times> 'w web_world" where
  "renderLoginStatus a r st msg to name w =
     (case ensureCSRFToken (wa_lib a) r (secureRequest a r) w of
        (Inl e, w1) \<Rightarrow> (internal_error, w1)
      | (Inr (token, cs), w1) \<Rightarrow> ((reply st (LoginPage msg to name token))\<lparr>wr_Cookies := cs\<rparr>, w1))"

definition handleLoginForm :: "'w web_auth \<Rightarrow> 'w handler" where
  "handleLoginForm a r now w =
     (case hasValidSession a r now w of
        (True, w1) \<Rightarrow> (redirect (wa_lib a) (safeNext (wa_lib a) (rq_query r ''next'')), w1)
      | (False, w1) \<Rightarrow> renderLoginStatus a r 200 [] (safeNext (wa_lib a) (rq_query r ''next'')) [] w1)"

definition retryAfterSeconds :: "duration \<Rightarrow> string" where
  "retryAfterSeconds d = itoa (let secs = d div second in if secs < 1 then 1 else secs)"

definition defaultLoginError :: string where
  "defaultLoginError = ''Invalid username or password.''"

text \<open>The credential check of an attempt that the limiter lets through.\<close>

definition attempt_login :: "'w web_auth \<Rightarrow> string \<Rightarrow> 'w handler" where
  "attempt_login a ip r now w =
     (let username = TrimSpace (PostFormValue r ''username''); to = safeNext (wa_lib a) (PostFormValue r ''next'')
      in case on_svc (wa_Login a now username (PostFormValue r ''password'')) w of
           (Inl e, w1) \<Rightarrow>
             (let (backoff, l) = limiter_fail now ip (ww_limiter w1);
                  (rep, w2) = renderLoginStatus a r 401 defaultLoginError to username (w1\<lparr>ww_limiter := l\<rparr>)
              in (rep\<lparr>wr_Slept := backoff\<rparr>, w2))
         | (Inr token, w1) \<Rightarrow>
             ((redirect (wa_lib a) to)\<lparr>wr_Cookies := [session_cookie a r token]\<rparr>,
              w1\<lparr>ww_limiter := limiter_success ip (ww_limiter w1)\<rparr>))"

definition handleLogin :: "'w web_auth \<Rightarrow> 'w handler" where
  "handleLogin a r now w =
     (case enforceSameOrigin (wa_lib a) r of Some rep \<Rightarrow> (rep, w) | None \<Rightarrow>
      (case enforceCSRFToken r of Some rep \<Rightarrow> (rep, w) | None \<Rightarrow>
       (let ip = clientKey a r; ((allowed, retryAfter), l) = limiter_allow now ip (ww_limiter w); w1 = w\<lparr>ww_limiter := l\<rparr>
        in if allowed then attempt_login a ip r now w1
           else (let (rep, w2) = renderLoginStatus a r 429 ''Too many failed attempts. Try again later.''
                                   (safeNext (wa_lib a) (FormValue r ''next'')) [] w1
                 in (rep\<lparr>wr_RetryAfter := Some (retryAfterSeconds retryAfter)\<rparr>, w2)))))"

definition handleLogout :: "'w web_auth \<Rightarrow> 'w handler" where
  "handleLogout a r now w =
     (case enforceSameOrigin (wa_lib a) r of Some rep \<Rightarrow> (rep, w) | None \<Rightarrow>
      (let w1 = (case cookie_of r SessionCookieName of
                   None \<Rightarrow> w | Some v \<Rightarrow> if v = [] then w else snd (on_svc (wa_Logout a v) w))
       in ((redirect (wa_lib a) ''/login'')\<lparr>wr_Cookies := [cleared_cookie a r]\<rparr>, w1)))"

section \<open>First-run setup\<close>

record 'w onboarding =
  ob_HasUsers :: "'w \<Rightarrow> bool result \<times> 'w"
  ob_Setup :: "instant \<Rightarrow> string \<Rightarrow> string \<Rightarrow> 'w \<Rightarrow> user result \<times> 'w"
  ob_Login :: "instant \<Rightarrow> string \<Rightarrow> string \<Rightarrow> 'w \<Rightarrow> string result \<times> 'w"
  ob_secrets :: "(string \<Rightarrow> string \<Rightarrow> 'w \<Rightarrow> unit result \<times> 'w) option"
  ob_auth :: "'w web_auth"
  ob_policy :: trust_policy

definition hasAdmin :: "'w onboarding \<Rightarrow> 'w web_world \<Rightarrow> bool result \<times> 'w web_world" where
  "hasAdmin ob w =
     (if ww_adminExists w then (Inr True, w)
      else case on_svc (ob_HasUsers ob) w of
        (Inl e, w1) \<Rightarrow> (Inl e, w1)
      | (Inr has, w1) \<Rightarrow> (Inr has, if has then w1\<lparr>ww_adminExists := True\<rparr> else w1))"

definition FirstRunGate :: "'w onboarding \<Rightarrow> 'w handler \<Rightarrow> 'w handler" where
  "FirstRunGate ob page r now w =
     (case hasAdmin ob w of
        (Inl e, w1) \<Rightarrow> (internal_error, w1)
      | (Inr has, w1) \<Rightarrow> if has then page r now w1 else (redirect (wa_lib (ob_auth ob)) ''/setup'', w1))"

definition renderSetup :: "'w onboarding \<Rightarrow> http_req \<Rightarrow> int \<Rightarrow> string \<Rightarrow> string \<Rightarrow> 'w web_world \<Rightarrow> web_reply \<times> 'w web_world" where
  "renderSetup ob r st msg name w =
     (case ensureCSRFToken (wa_lib (ob_auth ob)) r (secureRequest (ob_auth ob) r) w of
        (Inl e, w1) \<Rightarrow> (internal_error, w1)
      | (Inr (token, cs), w1) \<Rightarrow> ((reply st (SetupPage msg name token))\<lparr>wr_Cookies := cs\<rparr>, w1))"

definition handleSetupForm :: "'w onboarding \<Rightarrow> 'w handler" where
  "handleSetupForm ob r now w =
     (if \<not> Trusted (ob_policy ob) r then (not_found, w)
      else case hasAdmin ob w of
        (Inl e, w1) \<Rightarrow> (internal_error, w1)
      | (Inr has, w1) \<Rightarrow> if has then (redirect (wa_lib (ob_auth ob)) ''/login'', w1) else renderSetup ob r 200 [] [] w1)"

definition NameMusixmatchToken :: string where "NameMusixmatchToken = ''musixmatch_token''"
definition NameWebhookAPIKey :: string where "NameWebhookAPIKey = ''webhook_api_key''"

definition write_secret :: "(string \<Rightarrow> string \<Rightarrow> 'w \<Rightarrow> unit result \<times> 'w) \<Rightarrow> string \<Rightarrow> string \<Rightarrow> 'w web_world \<Rightarrow> 'w web_world" where
  "write_secret put name v w = (if v = [] then w else snd (on_svc (put name v) w))"

definition writeSecrets :: "'w onboarding \<Rightarrow> string \<Rightarrow> string \<Rightarrow> 'w web_world \<Rightarrow> 'w web_world" where
  "writeSecrets ob mxToken webhookKey w =
     (case ob_secrets ob of
        None \<Rightarrow> w
      | Some put \<Rightarrow> write_secret put NameWebhookAPIKey webhookKey (write_secret put NameMusixmatchToken mxToken w))"

definition passwordTooShortMsg :: string where
  "passwordTooShortMsg = ''Password must be at least '' @ itoa (int MinPasswordLength) @ '' characters.''"

text \<open>After the admin was created: the secrets, and the session that saves a second prompt.\<close>

definition finish_setup :: "'w onboarding \<Rightarrow> string \<Rightarrow> string \<Rightarrow> 'w handler" where
  "finish_setup ob username password r now w =
     (let w1 = writeSecrets ob (TrimSpace (PostFormValue r ''musixmatch_token'')) (TrimSpace (PostFormValue r ''webhook_api_key''))
                 (w\<lparr>ww_adminExists := True\<rparr>)
      in case on_svc (ob_Login ob now username password) w1 of
           (Inl e, w2) \<Rightarrow> (redirect (wa_lib (ob_auth ob)) ''/login'', w2)
         | (Inr token, w2) \<Rightarrow> ((redirect (wa_lib (ob_auth ob)) ''/settings'')\<lparr>wr_Cookies := [session_cookie (ob_auth ob) r token]\<rparr>, w2))"

text \<open>The submitted form, once the request has passed the gates and no admin is known.\<close>

definition create_admin :: "'w onboarding \<Rightarrow> 'w handler" where
  "create_admin ob r now w =
     (let username = TrimSpace (PostFormValue r ''username''); password = PostFormValue r ''password''
      in if username = [] then renderSetup ob r 400 ''Username is required.'' username w
         else if length password < MinPasswordLength then renderSetup ob r 400 passwordTooShortMsg username w
         else if password \<noteq> PostFormValue r ''confirm'' then renderSetup ob r 400 ''Passwords do not match.'' username w
         else case on_svc (ob_Setup ob now username password) w of
           (Inr u, w1) \<Rightarrow> finish_setup ob username password r now w1
         | (Inl e, w1) \<Rightarrow>
             if errors_is e WebUserExists then (redirect (wa_lib (ob_auth ob)) ''/login'', w1\<lparr>ww_adminExists := True\<rparr>)
             else if errors_is e WebPasswordTooShort then renderSetup ob r 400 passwordTooShortMsg username w1
             else renderSetup ob r 500 ''Could not create the admin account. Please try again.'' username w1)"

definition handleSetup :: "'w onboarding \<Rightarrow> 'w handler" where
  "handleSetup ob r now w =
     (case enforceSameOrigin (wa_lib (ob_auth ob)) r of Some rep \<Rightarrow> (rep, w) | None \<Rightarrow>
      if \<not> Trusted (ob_policy ob) r then (not_found, w)
      else (case enforceCSRFToken r of Some rep \<Rightarrow> (rep, w) | None \<Rightarrow>
       (case hasAdmin ob w of
          (Inl e, w1) \<Rightarrow> (internal_error, w1)
        | (Inr has, w1) \<Rightarrow> if has then (redirect (wa_lib (ob_auth ob)) ''/login'', w1) else create_admin ob r now w1)))"

text \<open>The wrapping of every page by \<open>Register\<close>.\<close>

definition page_guard :: "'w onboarding option \<Rightarrow> 'w web_auth \<Rightarrow> 'w handler \<Rightarrow> 'w handler" where
  "page_guard ob a page =
     (case ob of None \<Rightarrow> RequireSession a page | Some o' \<Rightarrow> FirstRunGate o' (RequireSession a page))"

section \<open>Start-up and routes\<close>

text \<open>The admin named by the environment, created before the program serves.\<close>

definition envWebAdminPass :: string where "envWebAdminPass = ''MXLRC_WEBAUTH_ADMIN_PASSWORD''"

definition bootstrapAdminFromEnv :: "'x auth_env \<Rightarrow> instant \<Rightarrow> string \<Rightarrow> string \<Rightarrow> 'x auth_db \<Rightarrow> unit result \<times> 'x auth_db" where
  "bootstrapAdminFromEnv E now user0 pass w =
     (let user = TrimSpace user0 in
      if user = [] \<or> pass = [] then (Inr (), w)
      else case web_HasUsers E w of
        (Inl e, w1) \<Rightarrow> (Inl (wrapf ''check for existing admin'' e), w1)
      | (Inr True, w1) \<Rightarrow> (Inr (), w1)
      | (Inr False, w1) \<Rightarrow>
          if length pass < MinPasswordLength
          then (Inl (errorf (envWebAdminPass @ '' must be at least '' @ itoa (int MinPasswordLength) @ '' characters'')), w1)
          else (case web_Setup E now user pass w1 of
                  (Inr _, w2) \<Rightarrow> (Inr (), w2)
                | (Inl e, w2) \<Rightarrow> (if errors_is e WebUserExists then Inr () else Inl (wrapf ''create admin'' e), w2)))"

text \<open>The wiring of \<open>buildWebAuth\<close>: the login service under the pages, with one policy for both.  The
  random source and the secret store use the rest of the state.\<close>

definition on_rest :: "('x \<Rightarrow> 'a \<times> 'x) \<Rightarrow> 'x auth_db \<Rightarrow> 'a \<times> 'x auth_db" where
  "on_rest f w = (case f (ad_x w) of (a, x) \<Rightarrow> (a, w\<lparr>ad_x := x\<rparr>))"

record 'x web_site =
  ws_env :: "'x auth_env"
  ws_policy :: trust_policy
  ws_lib :: "'x auth_db web_lib"
  ws_put :: "(string \<Rightarrow> string \<Rightarrow> 'x \<Rightarrow> unit result \<times> 'x) option"
  ws_page :: "string \<Rightarrow> http_req \<Rightarrow> 'x \<Rightarrow> string \<times> 'x"

definition site_auth :: "'x web_site \<Rightarrow> 'x auth_db web_auth" where
  "site_auth S =
     \<lparr>wa_Login = web_Login (ws_env S) DefaultSessionTTL, wa_ValidateSession = web_ValidateSession (ws_env S),
      wa_Logout = web_Logout (ws_env S), wa_policy = Some (ws_policy S), wa_cookieTTL = DefaultSessionTTL,
      wa_lib = (ws_lib S)\<lparr>wl_rand := \<lambda>n. on_rest (ae_rand (ws_env S) n)\<rparr>\<rparr>"

definition site_onboarding :: "'x web_site \<Rightarrow> 'x auth_db onboarding" where
  "site_onboarding S =
     \<lparr>ob_HasUsers = web_HasUsers (ws_env S), ob_Setup = web_Setup (ws_env S), ob_Login = web_Login (ws_env S) DefaultSessionTTL,
      ob_secrets = map_option (\<lambda>put name v. on_rest (put name v)) (ws_put S),
      ob_auth = site_auth S, ob_policy = ws_policy S\<rparr>"

text \<open>The routes.  A page computes its content from the request and the rest of the state.\<close>

datatype web_route = LoginForm | LoginPost | LogoutPost | SetupForm | SetupPost | PageAt string

definition site_page :: "'x web_site \<Rightarrow> string \<Rightarrow> 'x auth_db handler" where
  "site_page S name r now w = (case on_svc (on_rest (ws_page S name r)) w of (c, w1) \<Rightarrow> (reply 200 (Content c), w1))"

fun serve_web :: "'x web_site \<Rightarrow> web_route \<Rightarrow> 'x auth_db handler" where
  "serve_web S LoginForm = handleLoginForm (site_auth S)"
| "serve_web S LoginPost = handleLogin (site_auth S)"
| "serve_web S LogoutPost = handleLogout (site_auth S)"
| "serve_web S SetupForm = handleSetupForm (site_onboarding S)"
| "serve_web S SetupPost = handleSetup (site_onboarding S)"
| "serve_web S (PageAt name) = page_guard (Some (site_onboarding S)) (site_auth S) (site_page S name)"

end
