(* ===== verification/Web_Gate_Props.thy ===== *)
theory Web_Gate_Props
  imports Web_Gate Web_Auth_Props
begin

text \<open>
  What guards the pages.  \<open>web_run\<close> are the histories of a served site; \<open>reach\<close> reads one request as a
  piece of a history of the login service, so that the facts of \<open>Web_Auth_Props\<close> hold of the site.
\<close>

section \<open>Requests as histories of the login service\<close>

fun login_ok :: "instant \<times> auth_op \<times> auth_out \<Rightarrow> bool" where
  "login_ok (t, DoLogin name pw, OutToken (Inr tok)) = True"
| "login_ok _ = False"

definition reach :: "'x auth_env \<Rightarrow> auth_history \<Rightarrow> 'x auth_db \<Rightarrow> 'x auth_db \<Rightarrow> bool" where
  "reach E ls s s' \<longleftrightarrow> (\<exists>ops. filter login_ok ops = ls
     \<and> (\<forall>tr. auth_trace E DefaultSessionTTL tr s \<longrightarrow> auth_trace E DefaultSessionTTL (tr @ ops) s'))"

definition keeps :: "'x auth_env \<Rightarrow> auth_history \<Rightarrow> 'x auth_db \<Rightarrow> 'x auth_db \<Rightarrow> bool" where
  "keeps E ls s s' \<longleftrightarrow> reach E ls s s' \<and> ad_users s' = ad_users s"

definition drifted :: "'x auth_db web_world \<Rightarrow> 'x auth_db web_world \<Rightarrow> bool" where
  "drifted w w' \<longleftrightarrow> (\<exists>x. w' = w\<lparr>ww_svc := (ww_svc w)\<lparr>ad_x := x\<rparr>\<rparr>)"

lemma reach_step: "auth_step E DefaultSessionTTL t p s = (out, s') \<Longrightarrow> reach E (filter login_ok [(t, p, out)]) s s'"
  unfolding reach_def using auth_trace.step by blast

lemma reach_trans: "reach E ls s s1 \<Longrightarrow> reach E ls' s1 s' \<Longrightarrow> reach E (ls @ ls') s s'"
  unfolding reach_def by (metis append_assoc filter_append)

lemma reach_refl: "reach E [] s s"
  unfolding reach_def by (intro exI [of _ "[]"]) simp

lemma reach_rest: "reach E [] s (s\<lparr>ad_x := x\<rparr>)"
  unfolding reach_def by (intro exI [of _ "[]"]) (simp add: auth_trace.drift)

lemma keeps_trans: "keeps E ls s s1 \<Longrightarrow> keeps E ls' s1 s' \<Longrightarrow> keeps E (ls @ ls') s s'"
  unfolding keeps_def using reach_trans by metis

lemma keeps_refl [simp]: "keeps E [] s s" "keeps E [] s (s\<lparr>ad_x := x\<rparr>)"
  by (simp_all add: keeps_def reach_refl reach_rest)

lemma keeps_quiet: "keeps E [] s s1 \<Longrightarrow> keeps E ls s1 s' \<Longrightarrow> keeps E ls s s'"
  using keeps_trans [of E "[]" s s1 ls s'] by simp

lemma keeps_then: "keeps E ls s s1 \<Longrightarrow> keeps E [] s1 s' \<Longrightarrow> keeps E ls s s'"
  using keeps_trans [of E ls s s1 "[]" s'] by simp

lemma drifted_refl [simp]: "drifted w w" by (simp add: drifted_def exI [of _ "ad_x (ww_svc w)"])

lemma drifted_keeps: "drifted w w' \<Longrightarrow> keeps E [] (ww_svc w) (ww_svc w')"
  by (auto simp: drifted_def)

lemma drifted_same: "drifted w w' \<Longrightarrow> ww_limiter w' = ww_limiter w \<and> ww_adminExists w' = ww_adminExists w \<and> same_tables (ww_svc w) (ww_svc w')"
  by (auto simp: drifted_def same_tables_def)

lemma check_keeps: "web_ValidateSession E now raw s = (r, s') \<Longrightarrow> keeps E [] s s'"
  using reach_step [of E now "DoCheck raw" s "OutUser r" s'] conjunct1 [OF Check_read [of E now raw s r s']]
  by (simp add: keeps_def same_tables_def)

lemma ask_keeps: "web_HasUsers E s = (r, s') \<Longrightarrow> keeps E [] s s'"
  using reach_step [of E 0 DoAskUsers s "OutBool r" s'] AskUsers_read [of E s r s'] by (simp add: keeps_def same_tables_def)

lemma logout_keeps: "web_Logout E raw s = (r, s') \<Longrightarrow> keeps E [] s s'"
  using reach_step [of E 0 "DoLogout raw" s "OutDone r" s'] conjunct1 [OF Logout_tables [of E raw s r s']] by (simp add: keeps_def)

lemma sweep_keeps: "web_CleanExpired E now s = (r, s') \<Longrightarrow> keeps E [] s s'"
  using reach_step [of E now DoSweep s "OutCount r" s'] conjunct1 [OF Sweep_tables [of E now s r s']] by (simp add: keeps_def)

lemma setup_reach: "web_Setup E now name pw s = (r, s') \<Longrightarrow> reach E [] s s'"
  using reach_step [of E now "DoSetup name pw" s "OutUser r" s'] by simp

lemma login_keeps: "web_Login E DefaultSessionTTL now name pw s = (r, s')
    \<Longrightarrow> keeps E (case r of Inl e \<Rightarrow> [] | Inr tok \<Rightarrow> [(now, DoLogin name pw, OutToken (Inr tok))]) s s'"
  using reach_step [of E now "DoLogin name pw" s "OutToken r" s'] conjunct1 [OF Login_tables [of E DefaultSessionTTL now name pw s r s']]
  by (cases r) (simp_all add: keeps_def)

section \<open>The parts of the handlers\<close>

lemma on_svc_eq: "on_svc f w = (a, w') \<longleftrightarrow> f (ww_svc w) = (a, ww_svc w') \<and> w' = w\<lparr>ww_svc := ww_svc w'\<rparr>"
  by (auto simp: on_svc_def split: prod.splits)

lemma on_rest_drifted: "on_svc (on_rest f) w = (a, w') \<Longrightarrow> drifted w w'"
  by (auto simp: on_svc_def on_rest_def drifted_def split: prod.splits)

lemma site_auth_simps [simp]:
  "wa_Login (site_auth S) = web_Login (ws_env S) DefaultSessionTTL" "wa_ValidateSession (site_auth S) = web_ValidateSession (ws_env S)"
  "wa_Logout (site_auth S) = web_Logout (ws_env S)" "wa_policy (site_auth S) = Some (ws_policy S)"
  "ob_HasUsers (site_onboarding S) = web_HasUsers (ws_env S)" "ob_Setup (site_onboarding S) = web_Setup (ws_env S)"
  "ob_Login (site_onboarding S) = web_Login (ws_env S) DefaultSessionTTL" "ob_auth (site_onboarding S) = site_auth S"
  "ob_policy (site_onboarding S) = ws_policy S" "wl_rand (wa_lib (site_auth S)) n = on_rest (ae_rand (ws_env S) n)"
  by (simp_all add: site_auth_def site_onboarding_def)

definition session_token :: "web_reply \<Rightarrow> string option" where
  "session_token rep = map_of (map (\<lambda>c. (co_Name c, co_Value c)) (filter (\<lambda>c. co_MaxAge c \<ge> 0) (wr_Cookies rep))) SessionCookieName"

lemma generate_drifted: "generateCSRFToken (wa_lib (site_auth S)) w = (res, w') \<Longrightarrow> drifted w w'"
  by (auto simp: generateCSRFToken_def dest: on_rest_drifted split: prod.splits sum.splits)

lemma ensure_drifted:
  assumes "ensureCSRFToken (wa_lib (site_auth S)) r b w = (res, w')"
  shows "drifted w w' \<and> (\<forall>tok cs. res = Inr (tok, cs) \<longrightarrow> set cs \<subseteq> {csrf_cookie tok b})"
  using assms by (auto simp: ensureCSRFToken_def dest: generate_drifted split: prod.splits sum.splits option.splits if_splits)

lemma no_session_csrf: "set cs \<subseteq> {csrf_cookie tok b} \<Longrightarrow> session_token (rep\<lparr>wr_Cookies := cs\<rparr>) = None"
  by (induction cs) (auto simp: session_token_def csrf_cookie_def CSRFCookieName_def SessionCookieName_def)

lemma session_token_simps [simp]:
  "session_token (reply st p) = None" "session_token (redirect L path) = None"
  "session_token internal_error = None" "session_token forbidden_reply = None" "session_token not_found = None"
  "session_token (rep\<lparr>wr_Slept := d\<rparr>) = session_token rep" "session_token (rep\<lparr>wr_RetryAfter := ra\<rparr>) = session_token rep"
  "session_token (rep\<lparr>wr_Cookies := [session_cookie (site_auth S) r tok]\<rparr>) = Some tok"
  "session_token (rep\<lparr>wr_Cookies := [cleared_cookie a r]\<rparr>) = None"
  by (simp_all add: session_token_def reply_def redirect_def internal_error_def forbidden_reply_def not_found_def
      session_cookie_def cleared_cookie_def site_auth_def DefaultSessionTTL_def)

lemma reply_simps [simp]:
  "wr_Location (reply st p) = None" "wr_Page (reply st p) = p" "wr_Status (reply st p) = st" "wr_Cookies (reply st p) = []"
  "wr_Location (redirect L path) = Some (location_header L path)" "wr_Page (redirect L path) = NoPage" "wr_Status (redirect L path) = 303"
  "wr_Location internal_error = None" "wr_Page internal_error = ErrorPage ''Internal Server Error''" "wr_Status internal_error = 500"
  "wr_Location forbidden_reply = None" "wr_Page forbidden_reply = ErrorPage ''Forbidden''" "wr_Status forbidden_reply = 403"
  "wr_Cookies forbidden_reply = []"
  "wr_Location not_found = None" "wr_Page not_found = ErrorPage ''404 page not found''" "wr_Status not_found = 404" "wr_Cookies not_found = []"
  by (simp_all add: reply_def redirect_def internal_error_def forbidden_reply_def not_found_def)

text \<open>A rendered form: nothing but the random source moves, no session is handed out, no redirect.\<close>

definition plain_form :: "web_reply \<Rightarrow> bool" where
  "plain_form rep \<longleftrightarrow> session_token rep = None \<and> wr_Location rep = None \<and> (\<forall>c. wr_Page rep \<noteq> Content c)"

lemma render_login:
  assumes "renderLoginStatus (site_auth S) r st msg to name w = (rep, w')"
  shows "drifted w w' \<and> plain_form rep \<and> wr_Status rep \<in> {st, 500}"
proof -
  obtain res w1 where e: "ensureCSRFToken (wa_lib (site_auth S)) r (secureRequest (site_auth S) r) w = (res, w1)" by fastforce
  with assms ensure_drifted [OF e] show ?thesis
    by (auto simp: renderLoginStatus_def plain_form_def no_session_csrf split: sum.splits)
qed

lemma render_setup:
  assumes "renderSetup (site_onboarding S) r st msg name w = (rep, w')"
  shows "drifted w w' \<and> plain_form rep \<and> wr_Status rep \<in> {st, 500}"
proof -
  obtain res w1 where e: "ensureCSRFToken (wa_lib (site_auth S)) r (secureRequest (site_auth S) r) w = (res, w1)" by fastforce
  with assms ensure_drifted [OF e] show ?thesis
    by (auto simp: renderSetup_def plain_form_def no_session_csrf split: sum.splits)
qed

lemma session_check:
  assumes "hasValidSession (site_auth S) r now w = (b, w')"
  shows "keeps (ws_env S) [] (ww_svc w) (ww_svc w') \<and> ww_limiter w' = ww_limiter w \<and> ww_adminExists w' = ww_adminExists w
    \<and> (b \<longrightarrow> (\<exists>v u. cookie_of r SessionCookieName = Some v \<and> web_ValidateSession (ws_env S) now v (ww_svc w) = (Inr u, ww_svc w')))"
proof (cases "cookie_of r SessionCookieName")
  case None
  with assms show ?thesis by (auto simp: hasValidSession_def)
next
  case (Some v)
  obtain q w1 where q: "on_svc (web_ValidateSession (ws_env S) now v) w = (q, w1)" by fastforce
  then have "web_ValidateSession (ws_env S) now v (ww_svc w) = (q, ww_svc w1)" "ww_limiter w1 = ww_limiter w"
    "ww_adminExists w1 = ww_adminExists w" by (auto simp: on_svc_def split: prod.splits)
  with assms Some q check_keeps [OF this(1)] show ?thesis
    by (auto simp: hasValidSession_def split: if_splits sum.splits)
qed

lemma admin_check:
  assumes "hasAdmin (site_onboarding S) w = (b, w')"
  shows "keeps (ws_env S) [] (ww_svc w) (ww_svc w') \<and> ww_limiter w' = ww_limiter w \<and> (b = Inr True \<longrightarrow> ww_adminExists w')
    \<and> (b = Inr False \<longrightarrow> ad_users (ww_svc w) = [])"
proof (cases "ww_adminExists w")
  case True
  with assms show ?thesis by (auto simp: hasAdmin_def)
next
  case False
  obtain q w1 where q: "on_svc (web_HasUsers (ws_env S)) w = (q, w1)" by fastforce
  then have h: "web_HasUsers (ws_env S) (ww_svc w) = (q, ww_svc w1)" "ww_limiter w1 = ww_limiter w"
    by (auto simp: on_svc_def split: prod.splits)
  then have "q = Inr False \<Longrightarrow> ad_users (ww_svc w) = []"
    using store_HasUsers_read [of "ws_env S" "ww_svc w"] by (auto simp: web_HasUsers_def split: prod.splits sum.splits)
  with assms False q h(2) ask_keeps [OF h(1)] show ?thesis
    by (auto simp: hasAdmin_def split: sum.splits if_splits)
qed

section \<open>The handlers\<close>

definition posted_name :: "http_req \<Rightarrow> string" where "posted_name r = TrimSpace (PostFormValue r ''username'')"
definition posted_password :: "http_req \<Rightarrow> string" where "posted_password r = PostFormValue r ''password''"

lemma posted_trimmed [simp]: "TrimSpace (posted_name r) = posted_name r"
  by (simp add: posted_name_def)

text \<open>The login a reply proves: it hands out a session token.\<close>

definition proven_login :: "instant \<Rightarrow> http_req \<Rightarrow> web_reply \<Rightarrow> auth_history" where
  "proven_login t r rep =
     (case session_token rep of None \<Rightarrow> [] | Some tok \<Rightarrow> [(t, DoLogin (posted_name r) (posted_password r), OutToken (Inr tok))])"

lemma proven_none [simp]: "session_token rep = None \<Longrightarrow> proven_login t r rep = []"
  by (simp add: proven_login_def)

lemma svc_updates [simp]: "ww_svc (w\<lparr>ww_limiter := l\<rparr>) = ww_svc w" "ww_svc (w\<lparr>ww_adminExists := b\<rparr>) = ww_svc w"
  by simp_all

lemma on_login:
  assumes "on_svc (web_Login E DefaultSessionTTL now name pw) w = (q, w')"
  shows "keeps E (case q of Inl e \<Rightarrow> [] | Inr tok \<Rightarrow> [(now, DoLogin name pw, OutToken (Inr tok))]) (ww_svc w) (ww_svc w')"
  using assms login_keeps [of E now name pw "ww_svc w" q "ww_svc w'"] unfolding on_svc_eq by blast

lemma attempt_spec:
  assumes "attempt_login (site_auth S) ip r now w = (rep, w')"
  shows "keeps (ws_env S) (proven_login now r rep) (ww_svc w) (ww_svc w') \<and> (\<forall>c. wr_Page rep \<noteq> Content c)"
proof -
  obtain q w1 where q: "on_svc (web_Login (ws_env S) DefaultSessionTTL now (posted_name r) (posted_password r)) w = (q, w1)" by fastforce
  note k = on_login [OF q]
  show ?thesis
  proof (cases q)
    case (Inr tok)
    with assms q k show ?thesis
      by (auto simp: attempt_login_def Let_def posted_name_def posted_password_def proven_login_def)
  next
    case (Inl e)
    obtain b l where l: "limiter_fail now ip (ww_limiter w1) = (b, l)" by fastforce
    obtain rep1 w2 where f: "renderLoginStatus (site_auth S) r 401 defaultLoginError (safeNext (wa_lib (site_auth S)) (PostFormValue r ''next''))
        (posted_name r) (w1\<lparr>ww_limiter := l\<rparr>) = (rep1, w2)" by fastforce
    have "rep = rep1\<lparr>wr_Slept := b\<rparr>" "w' = w2"
      using assms q Inl l f by (auto simp: attempt_login_def Let_def posted_name_def posted_password_def)
    moreover have "keeps (ws_env S) [] (ww_svc w1) (ww_svc w2)"
      using drifted_keeps [of "w1\<lparr>ww_limiter := l\<rparr>" w2] render_login [OF f] by simp
    ultimately show ?thesis using k Inl render_login [OF f] keeps_trans [of "ws_env S" "[]" "ww_svc w" "ww_svc w1" "[]" "ww_svc w2"]
      by (simp add: plain_form_def)
  qed
qed

lemma login_spec:
  assumes "handleLogin (site_auth S) r now w = (rep, w')"
  shows "keeps (ws_env S) (proven_login now r rep) (ww_svc w) (ww_svc w') \<and> (\<forall>c. wr_Page rep \<noteq> Content c)"
proof (cases "isSameOriginRequest (wa_lib (site_auth S)) r \<and> csrf_token_ok r")
  case False
  with assms show ?thesis by (auto simp: handleLogin_def enforceSameOrigin_def enforceCSRFToken_def split: if_splits)
next
  case True
  let ?ip = "clientKey (site_auth S) r"
  obtain ok ra l where l: "limiter_allow now ?ip (ww_limiter w) = ((ok, ra), l)" by (metis prod.collapse)
  show ?thesis
  proof (cases ok)
    case ok: True
    with assms True l have "attempt_login (site_auth S) ?ip r now (w\<lparr>ww_limiter := l\<rparr>) = (rep, w')"
      by (simp add: handleLogin_def enforceSameOrigin_def enforceCSRFToken_def Let_def)
    from attempt_spec [OF this] show ?thesis by simp
  next
    case no: False
    let ?m = "''Too many failed attempts. Try again later.''"
    let ?to = "safeNext (wa_lib (site_auth S)) (FormValue r ''next'')"
    obtain rep1 w2 where f: "renderLoginStatus (site_auth S) r 429 ?m ?to [] (w\<lparr>ww_limiter := l\<rparr>) = (rep1, w2)" by fastforce
    have "rep = rep1\<lparr>wr_RetryAfter := Some (retryAfterSeconds ra)\<rparr>" "w' = w2"
      using assms True no l f by (auto simp: handleLogin_def enforceSameOrigin_def enforceCSRFToken_def Let_def)
    then show ?thesis using render_login [OF f] drifted_keeps [of "w\<lparr>ww_limiter := l\<rparr>" w2 "ws_env S"] by (simp add: plain_form_def)
  qed
qed

lemma login_form_spec:
  assumes "handleLoginForm (site_auth S) r now w = (rep, w')"
  shows "keeps (ws_env S) [] (ww_svc w) (ww_svc w') \<and> session_token rep = None \<and> (\<forall>c. wr_Page rep \<noteq> Content c)"
proof -
  obtain b w1 where b: "hasValidSession (site_auth S) r now w = (b, w1)" by fastforce
  obtain rep1 w2 where f: "renderLoginStatus (site_auth S) r 200 [] (safeNext (wa_lib (site_auth S)) (rq_query r ''next'')) [] w1 = (rep1, w2)"
    by fastforce
  have "keeps (ws_env S) [] (ww_svc w1) (ww_svc w2)" using render_login [OF f] drifted_keeps by blast
  with assms b f session_check [OF b] render_login [OF f] show ?thesis
    by (cases b) (auto simp: handleLoginForm_def plain_form_def elim: keeps_quiet)
qed

lemma logout_spec:
  assumes "handleLogout (site_auth S) r now w = (rep, w')"
  shows "keeps (ws_env S) [] (ww_svc w) (ww_svc w') \<and> session_token rep = None \<and> (\<forall>c. wr_Page rep \<noteq> Content c)"
proof -
  have "keeps (ws_env S) [] (ww_svc w) (ww_svc (snd (on_svc (web_Logout (ws_env S) v) w)))" for v
    using logout_keeps [of "ws_env S" v "ww_svc w"] by (simp add: on_svc_def split: prod.splits)
  with assms show ?thesis
    by (auto simp: handleLogout_def enforceSameOrigin_def Let_def split: if_splits option.splits)
qed

lemma setup_form_spec:
  assumes "handleSetupForm (site_onboarding S) r now w = (rep, w')"
  shows "keeps (ws_env S) [] (ww_svc w) (ww_svc w') \<and> session_token rep = None \<and> (\<forall>c. wr_Page rep \<noteq> Content c)"
proof -
  obtain b w1 where b: "hasAdmin (site_onboarding S) w = (b, w1)" by fastforce
  obtain rep1 w2 where f: "renderSetup (site_onboarding S) r 200 [] [] w1 = (rep1, w2)" by fastforce
  have "keeps (ws_env S) [] (ww_svc w1) (ww_svc w2)" using render_setup [OF f] drifted_keeps by blast
  with assms b f admin_check [OF b] render_setup [OF f] show ?thesis
    by (auto simp: handleSetupForm_def plain_form_def elim: keeps_quiet split: if_splits sum.splits)
qed

lemma secrets_drifted: "drifted w (writeSecrets (site_onboarding S) a b w)"
proof -
  have one: "drifted w (write_secret (\<lambda>name v. on_rest (put name v)) name v w)" for put name v and w :: "'a auth_db web_world"
    using on_rest_drifted [of "put name v" w] by (cases "on_svc (on_rest (put name v)) w") (auto simp: write_secret_def)
  have two: "drifted w w1 \<Longrightarrow> drifted w1 w2 \<Longrightarrow> drifted w w2" for w w1 w2 :: "'a auth_db web_world"
    by (auto simp: drifted_def)
  show ?thesis
    using two [OF one one] by (auto simp: writeSecrets_def site_onboarding_def split: option.splits)
qed

lemma finish_spec:
  assumes "finish_setup (site_onboarding S) (posted_name r) (posted_password r) r now w = (rep, w')"
  shows "keeps (ws_env S) (proven_login now r rep) (ww_svc w) (ww_svc w') \<and> (\<forall>c. wr_Page rep \<noteq> Content c)"
proof -
  let ?w1 = "writeSecrets (site_onboarding S) (TrimSpace (PostFormValue r ''musixmatch_token''))
    (TrimSpace (PostFormValue r ''webhook_api_key'')) (w\<lparr>ww_adminExists := True\<rparr>)"
  have "keeps (ws_env S) [] (ww_svc w) (ww_svc ?w1)"
    using drifted_keeps [OF secrets_drifted, of "ws_env S" "w\<lparr>ww_adminExists := True\<rparr>"] by simp
  moreover obtain q w2 where q: "on_svc (web_Login (ws_env S) DefaultSessionTTL now (posted_name r) (posted_password r)) ?w1 = (q, w2)" by fastforce
  ultimately show ?thesis using assms q on_login [OF q]
    by (cases q) (auto simp: finish_setup_def Let_def proven_login_def elim: keeps_quiet)
qed

text \<open>The submitted form creates a user only if it is complete, and only as the first one.\<close>

definition complete_form :: "http_req \<Rightarrow> bool" where
  "complete_form r \<longleftrightarrow> posted_name r \<noteq> [] \<and> MinPasswordLength \<le> length (posted_password r)
     \<and> posted_password r = PostFormValue r ''confirm''"

lemma create_complete:
  "complete_form r \<Longrightarrow> create_admin (site_onboarding S) r now w =
    (case on_svc (web_Setup (ws_env S) now (posted_name r) (posted_password r)) w of
       (Inr u, w1) \<Rightarrow> finish_setup (site_onboarding S) (posted_name r) (posted_password r) r now w1
     | (Inl e, w1) \<Rightarrow>
         if errors_is e WebUserExists then (redirect (wa_lib (ob_auth (site_onboarding S))) ''/login'', w1\<lparr>ww_adminExists := True\<rparr>)
         else if errors_is e WebPasswordTooShort then renderSetup (site_onboarding S) r 400 passwordTooShortMsg (posted_name r) w1
         else renderSetup (site_onboarding S) r 500 ''Could not create the admin account. Please try again.'' (posted_name r) w1)"
proof -
  assume "complete_form r"
  then have f: "posted_name r \<noteq> []" "\<not> length (posted_password r) < MinPasswordLength" "PostFormValue r ''confirm'' = posted_password r"
    unfolding complete_form_def by (metis, metis not_less, metis)
  then show ?thesis by (simp add: create_admin_def Let_def f posted_name_def [symmetric] posted_password_def [symmetric])
qed

lemma create_spec:
  assumes "create_admin (site_onboarding S) r now w = (rep, w')"
  shows "reach (ws_env S) (proven_login now r rep) (ww_svc w) (ww_svc w') \<and> (\<forall>c. wr_Page rep \<noteq> Content c)
    \<and> (ad_users (ww_svc w') \<noteq> ad_users (ww_svc w) \<longrightarrow> complete_form r \<and> ad_users (ww_svc w) = []
        \<and> map u_Username (ad_users (ww_svc w')) = [posted_name r])"
proof (cases "complete_form r")
  case False
  obtain st m where f: "renderSetup (site_onboarding S) r st m (posted_name r) w = (rep, w')"
    using assms False by (auto simp: create_admin_def Let_def complete_form_def posted_name_def posted_password_def split: if_splits)
  have "keeps (ws_env S) [] (ww_svc w) (ww_svc w')" using render_setup [OF f] drifted_keeps by blast
  with render_setup [OF f] show ?thesis by (simp add: keeps_def plain_form_def)
next
  case True
  obtain q w1 where q: "on_svc (web_Setup (ws_env S) now (posted_name r) (posted_password r)) w = (q, w1)" by fastforce
  then have s: "web_Setup (ws_env S) now (posted_name r) (posted_password r) (ww_svc w) = (q, ww_svc w1)" by (simp add: on_svc_eq)
  have "\<exists>ls. ls = proven_login now r rep \<and> keeps (ws_env S) ls (ww_svc w1) (ww_svc w') \<and> (\<forall>c. wr_Page rep \<noteq> Content c)"
  proof (cases q)
    case (Inr u)
    with assms True q have "finish_setup (site_onboarding S) (posted_name r) (posted_password r) r now w1 = (rep, w')"
      by (simp add: create_complete)
    from finish_spec [OF this] show ?thesis by simp
  next
    case (Inl e)
    have k: "renderSetup (site_onboarding S) r st m (posted_name r) w1 = (rep, w')
        \<Longrightarrow> keeps (ws_env S) [] (ww_svc w1) (ww_svc w') \<and> session_token rep = None \<and> (\<forall>c. wr_Page rep \<noteq> Content c)" for st m
      using render_setup [of S r st m "posted_name r" w1 rep w'] drifted_keeps by (fastforce simp: plain_form_def)
    with assms q Inl show ?thesis unfolding create_complete [OF True] by (auto split: if_splits)
  qed
  then have k: "keeps (ws_env S) (proven_login now r rep) (ww_svc w1) (ww_svc w')" "\<forall>c. wr_Page rep \<noteq> Content c" by blast+
  have "reach (ws_env S) (proven_login now r rep) (ww_svc w) (ww_svc w')"
    using reach_trans [OF setup_reach [OF s]] k(1) by (fastforce simp: keeps_def)
  moreover have "ad_users (ww_svc w') = ad_users (ww_svc w1)" using k(1) by (simp add: keeps_def)
  ultimately show ?thesis using k(2) Setup_tables [OF s] True
    by (auto simp: first_user_made_def same_tables_def new_user_def)
qed

lemma page_spec:
  assumes "serve_web S (PageAt name) r now w = (rep, w')"
  shows "keeps (ws_env S) [] (ww_svc w) (ww_svc w') \<and> session_token rep = None
    \<and> (\<forall>c. wr_Page rep = Content c \<longrightarrow> ww_adminExists w' \<and> (Trusted (ws_policy S) r \<or> (\<exists>v u s s1. cookie_of r SessionCookieName = Some v
          \<and> keeps (ws_env S) [] (ww_svc w) s \<and> web_ValidateSession (ws_env S) now v s = (Inr u, s1))))"
proof -
  obtain b w1 where b: "hasAdmin (site_onboarding S) w = (b, w1)" by fastforce
  note k1 = admin_check [OF b]
  have page: "site_page S name r now v = (rep, w') \<Longrightarrow> drifted v w' \<and> session_token rep = None" for v
    by (auto simp: site_page_def dest: on_rest_drifted split: prod.splits)
  show ?thesis
  proof (cases "b = Inr True")
    case False
    with assms b k1 show ?thesis by (auto simp: page_guard_def FirstRunGate_def split: sum.splits if_splits)
  next
    case True
    show ?thesis
    proof (cases "Trusted (ws_policy S) r")
      case t: True
      with assms b True have "site_page S name r now w1 = (rep, w')" by (simp add: page_guard_def FirstRunGate_def RequireSession_def)
      from page [OF this] k1 True t drifted_keeps [of w1 w' "ws_env S"] drifted_same [of w1 w'] show ?thesis by (auto elim: keeps_quiet)
    next
      case no: False
      obtain v w2 where v: "hasValidSession (site_auth S) r now w1 = (v, w2)" by fastforce
      note k2 = session_check [OF v]
      show ?thesis
      proof (cases v)
        case False
        with assms b True no v k1 k2 show ?thesis
          by (auto simp: page_guard_def FirstRunGate_def RequireSession_def elim: keeps_quiet split: if_splits)
      next
        case vt: True
        with assms b True no v have "site_page S name r now w2 = (rep, w')" by (simp add: page_guard_def FirstRunGate_def RequireSession_def)
        note p = page [OF this]
        have "keeps (ws_env S) [] (ww_svc w1) (ww_svc w')" using k2 p drifted_keeps [of w2 w' "ws_env S"] keeps_quiet by blast
        with k1 k2 p vt True drifted_same [of w2 w'] keeps_quiet show ?thesis by metis
      qed
    qed
  qed
qed

text \<open>What one request does to the login service.\<close>

definition may_create :: "'x web_site \<Rightarrow> web_route \<Rightarrow> http_req \<Rightarrow> bool" where
  "may_create S q r \<longleftrightarrow> q = SetupPost \<and> Trusted (ws_policy S) r \<and> isSameOriginRequest (wa_lib (site_auth S)) r \<and> csrf_token_ok r
     \<and> complete_form r"

lemma serve_setup:
  assumes "handleSetup (site_onboarding S) r now w = (rep, w')"
  shows "reach (ws_env S) (proven_login now r rep) (ww_svc w) (ww_svc w') \<and> (\<forall>c. wr_Page rep \<noteq> Content c)
    \<and> (ad_users (ww_svc w') \<noteq> ad_users (ww_svc w) \<longrightarrow> may_create S SetupPost r \<and> ad_users (ww_svc w) = []
        \<and> map u_Username (ad_users (ww_svc w')) = [posted_name r])"
proof (cases "isSameOriginRequest (wa_lib (site_auth S)) r \<and> Trusted (ws_policy S) r \<and> csrf_token_ok r")
  case False
  with assms show ?thesis
    by (auto simp: handleSetup_def enforceSameOrigin_def enforceCSRFToken_def reach_refl split: if_splits)
next
  case True
  obtain b w1 where b: "hasAdmin (site_onboarding S) w = (b, w1)" by fastforce
  note k = admin_check [OF b]
  show ?thesis
  proof (cases "b = Inr False")
    case no: False
    with assms True b k show ?thesis
      by (auto simp: handleSetup_def enforceSameOrigin_def enforceCSRFToken_def keeps_def split: sum.splits)
  next
    case yes: True
    with assms True b have "create_admin (site_onboarding S) r now w1 = (rep, w')"
      by (simp add: handleSetup_def enforceSameOrigin_def enforceCSRFToken_def)
    from create_spec [OF this] k True reach_trans [of "ws_env S" "[]" "ww_svc w" "ww_svc w1" _ "ww_svc w'"] show ?thesis
      by (auto simp: may_create_def keeps_def)
  qed
qed

lemma serve_spec:
  assumes "serve_web S q r now w = (rep, w')"
  shows "reach (ws_env S) (proven_login now r rep) (ww_svc w) (ww_svc w')
    \<and> (ad_users (ww_svc w') \<noteq> ad_users (ww_svc w) \<longrightarrow> may_create S q r \<and> ad_users (ww_svc w) = []
        \<and> map u_Username (ad_users (ww_svc w')) = [posted_name r])"
proof (cases q)
  case LoginForm
  with assms login_form_spec [of S r now w rep w'] show ?thesis by (simp add: keeps_def)
next
  case LoginPost
  with assms login_spec [of S r now w rep w'] show ?thesis by (simp add: keeps_def)
next
  case LogoutPost
  with assms logout_spec [of S r now w rep w'] show ?thesis by (simp add: keeps_def)
next
  case SetupForm
  with assms setup_form_spec [of S r now w rep w'] show ?thesis by (simp add: keeps_def)
next
  case SetupPost
  with assms serve_setup [of S r now w rep w'] show ?thesis by simp
next
  case (PageAt name)
  with assms page_spec [of S name r now w rep w'] show ?thesis by (simp add: keeps_def del: serve_web.simps)
qed

section \<open>Histories of a site\<close>

datatype web_event = Served web_route http_req web_reply | Started string string

type_synonym web_history = "(instant \<times> web_event) list"

text \<open>Requests, restarts (which forget the latch and the failed attempts), sweeps of the sessions, and
  whatever the rest of the program does with the rest of the state.\<close>

inductive web_run :: "'x web_site \<Rightarrow> web_history \<Rightarrow> 'x auth_db web_world \<Rightarrow> bool" for S where
  start: "ad_users (ww_svc w) = [] \<Longrightarrow> ad_sessions (ww_svc w) = [] \<Longrightarrow> \<not> ww_adminExists w \<Longrightarrow> web_run S [] w"
| serve: "web_run S h w \<Longrightarrow> serve_web S q r t w = (rep, w') \<Longrightarrow> web_run S (h @ [(t, Served q r rep)]) w'"
| restart: "web_run S h w \<Longrightarrow> bootstrapAdminFromEnv (ws_env S) t user pass (ww_svc w) = (res, s)
    \<Longrightarrow> web_run S (h @ [(t, Started user pass)]) (w\<lparr>ww_svc := s, ww_adminExists := False, ww_limiter := l\<rparr>)"
| sweep: "web_run S h w \<Longrightarrow> web_CleanExpired (ws_env S) t (ww_svc w) = (n, s) \<Longrightarrow> web_run S h (w\<lparr>ww_svc := s\<rparr>)"
| other: "web_run S h w \<Longrightarrow> drifted w w' \<Longrightarrow> web_run S h w'"

fun event_logins :: "instant \<times> web_event \<Rightarrow> auth_history" where
  "event_logins (t, Served q r rep) = proven_login t r rep"
| "event_logins (t, Started user pass) = []"

lemma bootstrap_reach:
  assumes "bootstrapAdminFromEnv E t user pass s = (res, s')"
  shows "reach E [] s s'"
proof -
  obtain b s1 where b: "web_HasUsers E s = (b, s1)" by fastforce
  obtain u s2 where u: "web_Setup E t (TrimSpace user) pass s1 = (u, s2)" by fastforce
  have k: "reach E [] s s1" using ask_keeps [OF b] by (simp add: keeps_def)
  moreover have "reach E [] s s2" using reach_trans [OF k setup_reach [OF u]] by simp
  ultimately show ?thesis using assms b u reach_refl [of E s]
    by (auto simp: bootstrapAdminFromEnv_def Let_def split: if_splits sum.splits bool.splits)
qed

lemma site_run_trace:
  "web_run S h w \<Longrightarrow> \<exists>tr. auth_trace (ws_env S) DefaultSessionTTL tr (ww_svc w) \<and> filter login_ok tr = concat (map event_logins h)"
proof (induction rule: web_run.induct)
  case (start w)
  then show ?case by (intro exI [of _ "[]"]) (simp add: auth_trace.start)
next
  case (serve h w q r t rep w')
  then obtain tr ops where "auth_trace (ws_env S) DefaultSessionTTL (tr @ ops) (ww_svc w')" "filter login_ok tr = concat (map event_logins h)"
    "filter login_ok ops = proven_login t r rep" using serve_spec [OF serve.hyps(2)] unfolding reach_def by blast
  then show ?case by (intro exI [of _ "tr @ ops"]) simp
next
  case (restart h w t user pass res s l)
  then obtain tr ops where "auth_trace (ws_env S) DefaultSessionTTL (tr @ ops) s" "filter login_ok tr = concat (map event_logins h)"
    "filter login_ok ops = []" using bootstrap_reach [OF restart.hyps(2)] unfolding reach_def by blast
  then show ?case by (intro exI [of _ "tr @ ops"]) simp
next
  case (sweep h w t n s)
  then obtain tr ops where "auth_trace (ws_env S) DefaultSessionTTL (tr @ ops) s" "filter login_ok tr = concat (map event_logins h)"
    "filter login_ok ops = []" using sweep_keeps [OF sweep.hyps(2)] unfolding keeps_def reach_def by blast
  then show ?case by (intro exI [of _ "tr @ ops"]) simp
next
  case (other h w w')
  then show ?case using auth_trace.drift by (fastforce simp: drifted_def)
qed

section \<open>Where replies send the browser\<close>

text \<open>A browser drops tabs and line breaks from an address before it reads it.\<close>

definition browser_view :: "string \<Rightarrow> string" where
  "browser_view p = filter (\<lambda>c. c \<noteq> CHR 0x09 \<and> c \<noteq> CHR 0x0A \<and> c \<noteq> CHR 0x0D) p"

definition local_path :: "string \<Rightarrow> bool" where
  "local_path p \<longleftrightarrow> CHR 0x0A \<notin> set p \<and> CHR 0x0D \<notin> set p \<and>
     (case browser_view p of [] \<Rightarrow> False
      | c # rest \<Rightarrow> c = CHR ''/'' \<and> (case rest of [] \<Rightarrow> True | d # _ \<Rightarrow> d \<noteq> CHR ''/'' \<and> d \<noteq> CHR 0x5C))"

text \<open>What \<open>http.Redirect\<close> cannot turn into an address elsewhere.\<close>

definition rooted_tail :: "string \<Rightarrow> bool" where
  "rooted_tail rest \<longleftrightarrow> (rest = [] \<or> hd rest \<noteq> CHR ''/'') \<and> set rest \<inter> {CHR 0x5C, CHR 0x09, CHR 0x0A, CHR 0x0D} = {}"

definition safe_target :: "string \<Rightarrow> bool" where
  "safe_target p \<longleftrightarrow> (\<exists>rest. p = CHR ''/'' # rest \<and> rooted_tail rest)"

lemma safe_target_local: "safe_target p \<Longrightarrow> local_path p"
proof -
  assume "safe_target p"
  then obtain rest where r: "p = CHR ''/'' # rest" "rest = [] \<or> hd rest \<noteq> CHR ''/''" "set rest \<inter> {CHR 0x5C, CHR 0x09, CHR 0x0A, CHR 0x0D} = {}"
    by (auto simp: safe_target_def rooted_tail_def)
  then have "browser_view p = p" by (auto simp: browser_view_def intro!: filter_True)
  with r show ?thesis by (cases rest) (auto simp: local_path_def)
qed

lemma safe_targets [simp]: "safe_target ''/dashboard''" "safe_target ''/login''" "safe_target ''/setup''" "safe_target ''/settings''"
  by (simp_all add: safe_target_def rooted_tail_def)

definition fragment_tab :: "string \<Rightarrow> bool" where
  "fragment_tab raw \<longleftrightarrow> CHR 0x09 \<in> set (dropWhile (\<lambda>c. c \<noteq> CHR ''#'') (TrimSpace raw))"

lemma tab_before_fragment:
  "\<not> list_ex ctl_byte (takeWhile (\<lambda>c. c \<noteq> CHR ''#'') raw) \<Longrightarrow> CHR 0x09 \<notin> set (dropWhile (\<lambda>c. c \<noteq> CHR ''#'') raw) \<Longrightarrow> CHR 0x09 \<notin> set raw"
proof -
  assume a: "\<not> list_ex ctl_byte (takeWhile (\<lambda>c. c \<noteq> CHR ''#'') raw)" "CHR 0x09 \<notin> set (dropWhile (\<lambda>c. c \<noteq> CHR ''#'') raw)"
  have "ctl_byte (CHR 0x09)" by (simp add: ctl_byte_def)
  with a(1) have "CHR 0x09 \<notin> set (takeWhile (\<lambda>c. c \<noteq> CHR ''#'') raw)" unfolding list_ex_iff by blast
  with a(2) show ?thesis by (metis Un_iff set_append takeWhile_dropWhile_id)
qed

lemma safeNext_safe: "\<not> fragment_tab s \<Longrightarrow> safe_target (safeNext L s)"
proof -
  assume tab: "\<not> fragment_tab s"
  define raw where "raw = TrimSpace s"
  have ok: "safe_target raw" if "raw \<noteq> []" "hd raw = CHR ''/''" "\<not> HasPrefix raw ''//''"
    "\<not> (CHR 0x5C \<in> set raw \<or> CHR 0x0D \<in> set raw \<or> CHR 0x0A \<in> set raw)"
    "\<not> list_ex ctl_byte (takeWhile (\<lambda>c. c \<noteq> CHR ''#'') raw)"
  proof -
    have "CHR 0x09 \<notin> set raw" using tab_before_fragment [OF that(5)] tab by (simp add: fragment_tab_def raw_def)
    with that show ?thesis
      by (cases raw; cases "tl raw") (auto simp: safe_target_def rooted_tail_def HasPrefix_def)
  qed
  show ?thesis
    using ok by (auto simp: safeNext_def Let_def dashboardPath_def raw_def [symmetric] url_Parse_def split: option.splits if_splits)
qed

section \<open>The header of a redirect\<close>

lemma split_on_chars: "x \<in> set (split_on c s) \<Longrightarrow> set x \<subseteq> set s"
  by (induction s arbitrary: x) (auto split: list.splits if_splits, force+)

lemma clean_loop_mem: "set (clean_loop r out cs) \<subseteq> set out \<union> set cs \<union> {''..''}"
  by (induction r out cs rule: clean_loop.induct) (auto split: list.splits if_splits)

lemma comps_chars: "x \<in> set (comps p) \<Longrightarrow> set x \<subseteq> set p \<union> {CHR ''.''}"
proof -
  assume "x \<in> set (comps p)"
  then have "x \<in> set (split_on slash p) \<or> x = ''..''" using clean_loop_mem [of "rooted p" "[]" "split_on slash p"] by (auto simp: comps_def)
  then show ?thesis using split_on_chars by fastforce
qed

lemma join_chars: "set (join_with c xs) \<subseteq> insert c (\<Union>x \<in> set xs. set x)"
  by (induction xs rule: join_with.induct) auto

lemma hd_join: "c \<noteq> [] \<Longrightarrow> hd (join_with slash (c # cs)) = hd c \<and> join_with slash (c # cs) \<noteq> []"
  by (cases cs) auto

lemma rooted_tail_append: "rooted_tail x \<Longrightarrow> x \<noteq> [] \<Longrightarrow> set y \<inter> {CHR 0x5C, CHR 0x09, CHR 0x0A, CHR 0x0D} = {} \<Longrightarrow> rooted_tail (x @ y)"
  by (auto simp: rooted_tail_def)

lemma disjoint_mono: "A \<subseteq> B \<Longrightarrow> B \<inter> C = {} \<Longrightarrow> A \<inter> C = {}"
  by blast

lemma disjoint_UN: "\<forall>x \<in> A. F x \<inter> C = {} \<Longrightarrow> (\<Union>x \<in> A. F x) \<inter> C = {}"
  by blast

lemma clean_target_safe:
  assumes "safe_target t"
  shows "safe_target (clean_target t)"
proof -
  let ?bad = "{CHR 0x5C, CHR 0x09, CHR 0x0A, CHR 0x0D}"
  define path where "path = takeWhile (\<lambda>c. c \<noteq> CHR ''?'') t"
  define query where "query = dropWhile (\<lambda>c. c \<noteq> CHR ''?'') t"
  obtain rest where t: "t = CHR ''/'' # rest" "rooted_tail rest" using assms by (auto simp: safe_target_def)
  have bad: "set t \<inter> ?bad = {}" using t by (auto simp: rooted_tail_def)
  have "set path \<subseteq> set t" "set query \<subseteq> set t" by (auto simp: path_def query_def dest: set_takeWhileD set_dropWhileD)
  then have chars: "set path \<inter> ?bad = {}" "set query \<inter> ?bad = {}"
    using disjoint_mono [OF _ bad] by blast+
  have q: "query = [] \<or> hd query = CHR ''?''" using hd_dropWhile [of "\<lambda>c. c \<noteq> CHR ''?''" t] by (auto simp: query_def)
  have r: "rooted path" using t by (simp add: path_def rooted_def HasPrefix_def)
  then have C: "Clean path = slash # join_with slash (comps path)" by (simp add: Clean_def of_comps_def)
  show ?thesis
  proof (cases "comps path")
    case Nil
    then have "clean_target t = slash # query" using C by (simp add: clean_target_def Let_def path_def query_def HasSuffix_def HasPrefix_def)
    moreover have "rooted_tail query" using q chars(2) by (auto simp: rooted_tail_def)
    ultimately show ?thesis by (auto simp: safe_target_def)
  next
    case (Cons c cs)
    have c: "c \<noteq> []" "slash \<notin> set c" using nf_comps [of path] Cons by (auto simp: nf_def comp_ok_def)
    have "set (join_with slash (comps path)) \<subseteq> insert slash (set path \<union> {CHR ''.''})"
      using join_chars [of slash "comps path"] comps_chars [of _ path] by fastforce
    with chars(1) have j: "set (join_with slash (comps path)) \<inter> ?bad = {}" by auto
    have "rooted_tail (join_with slash (comps path))" using j hd_join [OF c(1), of cs] c Cons by (cases c) (auto simp: rooted_tail_def)
    moreover have "join_with slash (comps path) \<noteq> []" using hd_join [OF c(1), of cs] Cons by simp
    moreover define e where "e = (if HasSuffix path ''/'' \<and> \<not> HasSuffix (Clean path) ''/'' then ''/'' else []) @ query"
    have ct: "clean_target t = slash # join_with slash (comps path) @ e"
      unfolding clean_target_def Let_def path_def [symmetric] query_def [symmetric] e_def C by simp
    have eb: "set e \<inter> ?bad = {}" using chars(2) by (simp add: e_def)
    ultimately have "rooted_tail (join_with slash (comps path) @ e)" using rooted_tail_append eb by blast
    then show ?thesis unfolding safe_target_def ct by blast
  qed
qed

lemma hex_digits_fine: "n < 16 \<Longrightarrow> hex_digit n \<notin> {CHR 0x5C, CHR 0x09, CHR 0x0A, CHR 0x0D, CHR ''/''}"
proof -
  assume "n < 16"
  then have "byte_of (hex_digit n) \<in> {48..57} \<union> {97..102}" by (auto simp: hex_digit_def)
  then show ?thesis by auto
qed

lemma escape_safe:
  assumes "safe_target t"
  shows "safe_target (hexEscapeNonASCII t)"
proof -
  let ?bad = "{CHR 0x5C, CHR 0x09, CHR 0x0A, CHR 0x0D}"
  let ?f = "\<lambda>c. if byte_of c < 128 then [c] else [CHR ''%'', hex_digit (byte_of c div 16), hex_digit (byte_of c mod 16)]"
  have one: "set (?f c) \<inter> ?bad = {}" if "c \<notin> ?bad" for c
  proof -
    have "byte_of c div 16 < 16" "byte_of c mod 16 < 16" using nat_of_char_less_256 [of c] by (simp_all add: less_mult_imp_div_less)
    from hex_digits_fine [OF this(1)] hex_digits_fine [OF this(2)] that show ?thesis by auto
  qed
  obtain rest where t: "t = CHR ''/'' # rest" "rooted_tail rest" using assms by (auto simp: safe_target_def)
  have "\<forall>c \<in> set rest. set (?f c) \<inter> ?bad = {}" using t(2) one unfolding rooted_tail_def by (metis disjoint_iff)
  then have "set (concat (map ?f rest)) \<inter> ?bad = {}" unfolding set_concat set_map image_image by (rule disjoint_UN)
  moreover have "concat (map ?f rest) = [] \<or> hd (concat (map ?f rest)) \<noteq> CHR ''/''"
  proof (cases rest)
    case (Cons c cs)
    then have "c \<noteq> CHR ''/''" using t(2) by (simp add: rooted_tail_def)
    then show ?thesis unfolding Cons by simp
  qed simp
  ultimately have "rooted_tail (concat (map ?f rest))" by (simp add: rooted_tail_def)
  then show ?thesis using t(1) by (auto simp: safe_target_def hexEscapeNonASCII_def)
qed

lemma location_local [simp]: "safe_target t \<Longrightarrow> local_path (location_header L t)"
  by (auto simp: location_header_def clean_target_safe intro!: safe_target_local escape_safe split: option.splits)

section \<open>Replies\<close>

definition clean_byte :: "char \<Rightarrow> bool" where
  "clean_byte c \<longleftrightarrow> unreserved c \<or> c = CHR ''+'' \<or> c = CHR ''%''"

lemma upper_hex_clean: "n < 16 \<Longrightarrow> clean_byte (upper_hex n)"
  by (auto simp: clean_byte_def unreserved_def upper_hex_def Let_def)

lemma QueryEscape_clean: "list_all clean_byte (QueryEscape s)"
proof -
  have "byte_of c div 16 < 16" "byte_of c mod 16 < 16" for c
    using nat_of_char_less_256 [of c] by (simp_all add: less_mult_imp_div_less)
  then show ?thesis unfolding QueryEscape_def
    by (induction s) (auto simp: upper_hex_clean, simp_all add: clean_byte_def)
qed

lemma clean_bytes: "clean_byte c \<Longrightarrow> c \<notin> {CHR 0x5C, CHR 0x09, CHR 0x0A, CHR 0x0D}"
  by (auto simp: clean_byte_def unreserved_def Let_def)

lemma login_target_safe [simp]: "safe_target (''/login?next='' @ QueryEscape s)"
  using QueryEscape_clean [of s] clean_bytes by (fastforce simp: safe_target_def rooted_tail_def list_all_iff)

lemmas login_target_cons [simp] = login_target_safe [simplified]

definition stays_local :: "web_reply \<Rightarrow> bool" where
  "stays_local rep \<longleftrightarrow> pred_option local_path (wr_Location rep)"

lemma stays_local_simps [simp]:
  "stays_local (reply st p)" "safe_target path \<Longrightarrow> stays_local (redirect L path)" "stays_local internal_error"
  "stays_local forbidden_reply" "stays_local not_found"
  "stays_local (rep\<lparr>wr_Slept := d\<rparr>) \<longleftrightarrow> stays_local rep" "stays_local (rep\<lparr>wr_RetryAfter := ra\<rparr>) \<longleftrightarrow> stays_local rep"
  "stays_local (rep\<lparr>wr_Cookies := cs\<rparr>) \<longleftrightarrow> stays_local rep"
  by (simp_all add: stays_local_def)

lemma render_local [simp]: "stays_local (fst (renderLoginStatus a r st msg to name w))" "stays_local (fst (renderSetup ob r st msg name w))"
  by (auto simp: renderLoginStatus_def renderSetup_def split: prod.splits sum.splits)

lemma enforce_local: "enforceSameOrigin L r = Some rep \<Longrightarrow> stays_local rep" "enforceCSRFToken r = Some rep \<Longrightarrow> stays_local rep"
  by (auto simp: enforceSameOrigin_def enforceCSRFToken_def split: if_splits)

text \<open>The return paths a request names.\<close>

definition return_paths :: "http_req \<Rightarrow> string list" where
  "return_paths r = [rq_query r ''next'', PostFormValue r ''next'']"

lemma safe_returns:
  "\<not> list_ex fragment_tab (return_paths r) \<Longrightarrow> safe_target (safeNext L (rq_query r ''next'')) \<and> safe_target (safeNext L (PostFormValue r ''next''))"
  by (simp add: return_paths_def safeNext_safe)

lemma attempt_local: "\<not> list_ex fragment_tab (return_paths r) \<Longrightarrow> stays_local (fst (attempt_login a ip r now w))"
proof -
  assume "\<not> list_ex fragment_tab (return_paths r)"
  then have n: "safe_target (safeNext L (rq_query r ''next''))" "safe_target (safeNext L (PostFormValue r ''next''))" for L
    using safe_returns by blast+
  have "stays_local rep" if "renderLoginStatus a r st msg to name v = (rep, v')" for rep st msg to name v v'
    using render_local(1) [of a r st msg to name v] that by simp
  then show ?thesis by (auto simp: attempt_login_def Let_def n split: prod.splits sum.splits)
qed

lemma login_local:
  assumes "\<not> list_ex fragment_tab (return_paths r)"
  shows "stays_local (fst (handleLogin a r now w))" "stays_local (fst (handleLoginForm a r now w))"
    "stays_local (fst (handleLogout a r now w))"
proof -
  have n: "safe_target (safeNext L (rq_query r ''next''))" "safe_target (safeNext L (PostFormValue r ''next''))" for L
    using safe_returns [OF assms] by blast+
  have f: "stays_local rep" if "renderLoginStatus a r st msg to name v = (rep, v')" for rep st msg to name v v'
    using render_local(1) [of a r st msg to name v] that by simp
  show "stays_local (fst (handleLogin a r now w))"
    by (auto simp: handleLogin_def Let_def attempt_local [OF assms] enforce_local f split: option.splits prod.splits)
  show "stays_local (fst (handleLoginForm a r now w))"
    by (auto simp: handleLoginForm_def f n split: prod.splits bool.splits)
  show "stays_local (fst (handleLogout a r now w))"
    by (auto simp: handleLogout_def Let_def enforce_local split: option.splits)
qed

lemma create_local: "stays_local (fst (create_admin ob r now w))"
proof -
  have f: "stays_local rep" if "renderSetup ob r st msg name v = (rep, v')" for rep st msg name v v'
    using render_local(2) [of ob r st msg name v] that by simp
  have g: "stays_local (fst (finish_setup ob name pw r now v))" for name pw v
    by (auto simp: finish_setup_def Let_def split: prod.splits sum.splits)
  show ?thesis by (auto simp: create_admin_def Let_def f g split: prod.splits sum.splits)
qed

lemma setup_local: "stays_local (fst (handleSetup ob r now w))" "stays_local (fst (handleSetupForm ob r now w))"
proof -
  have f: "stays_local rep" if "renderSetup ob r st msg name v = (rep, v')" for rep st msg name v v'
    using render_local(2) [of ob r st msg name v] that by simp
  have g: "stays_local rep" if "create_admin ob r now v = (rep, v')" for rep v v'
    using create_local [of ob r now v] that by simp
  show "stays_local (fst (handleSetup ob r now w))"
    by (auto simp: handleSetup_def enforce_local g create_local split: option.splits prod.splits sum.splits)
  show "stays_local (fst (handleSetupForm ob r now w))"
    by (auto simp: handleSetupForm_def f split: prod.splits sum.splits)
qed

lemma page_local: "stays_local (fst (page_guard (Some ob) a (site_page S name) r now w))"
proof -
  have p: "stays_local rep" if "site_page S name r now v = (rep, v')" for rep v v'
    using that by (auto simp: site_page_def split: prod.splits)
  have p': "stays_local (fst (site_page S name r now v))" for v
    using p [of v] by (metis prod.collapse)
  have q: "stays_local (fst (RequireSession a (site_page S name) r now v))" for v
    by (auto simp: RequireSession_def p p' split: prod.splits bool.splits if_splits)
  show ?thesis by (auto simp: page_guard_def FirstRunGate_def q split: prod.splits sum.splits)
qed

section \<open>Properties\<close>

text \<open>
  C3. A page needs a login: in every history of a site, a page that is shown to a client outside the
  trusted networks is shown for a session cookie; an earlier reply of the site handed out a token with
  the hash of that cookie, to a request whose name and password are those of the one admin, and the
  lifetime of that login has not passed.
\<close>

theorem pages_need_login:
  assumes "web_run S h w" "serve_web S (PageAt name) r now w = (rep, w')" "wr_Page rep = Content c"
    and "\<not> Trusted (ws_policy S) r"
  shows "\<exists>v t q r0 rep0 tok u. cookie_of r SessionCookieName = Some v \<and> (t, Served q r0 rep0) \<in> set h
    \<and> session_token rep0 = Some tok \<and> ae_sha (ws_env S) tok = ae_sha (ws_env S) v \<and> ad_users (ww_svc w) = [u]
    \<and> nocase (u_Username u) = nocase (posted_name r0) \<and> ae_verify (ws_env S) (u_PasswordHash u) (posted_password r0) = Inr True
    \<and> formatTime now < formatTime (t + DefaultSessionTTL)"
proof -
  obtain v u s s1 where v: "cookie_of r SessionCookieName = Some v" "keeps (ws_env S) [] (ww_svc w) s"
    "web_ValidateSession (ws_env S) now v s = (Inr u, s1)" using page_spec [OF assms(2)] assms(3,4) by blast
  obtain tr ops where tr: "auth_trace (ws_env S) DefaultSessionTTL (tr @ ops) s" "filter login_ok (tr @ ops) = concat (map event_logins h)"
    using site_run_trace [OF assms(1)] v(2) unfolding keeps_def reach_def by (metis append_Nil2 filter_append)
  obtain x where x: "ad_users s = [u]" "se_TokenHash x = ae_sha (ws_env S) v" "formatTime now < se_ExpiresAt x"
    "stems (ws_env S) DefaultSessionTTL (tr @ ops) [u] x" using check_stems [OF tr(1) v(3)] by blast
  then obtain t name pw tok where l: "(t, DoLogin name pw, OutToken (Inr tok)) \<in> set (filter login_ok (tr @ ops))"
    "nocase (u_Username u) = nocase (TrimSpace name)" "ae_verify (ws_env S) (u_PasswordHash u) pw = Inr True"
    "ae_sha (ws_env S) tok = ae_sha (ws_env S) v" "formatTime now < formatTime (t + DefaultSessionTTL)"
    unfolding stems_def by fastforce
  then obtain e where "e \<in> set h" "(t, DoLogin name pw, OutToken (Inr tok)) \<in> set (event_logins e)" unfolding tr(2) by auto
  then obtain q r0 rep0 where "(t, Served q r0 rep0) \<in> set h" "session_token rep0 = Some tok" "name = posted_name r0" "pw = posted_password r0"
    by (cases e rule: event_logins.cases) (auto simp: proven_login_def split: option.splits)
  moreover have "ad_users (ww_svc w) = [u]" using x(1) v(2) by (simp add: keeps_def)
  ultimately show ?thesis using v(1) l by (metis posted_trimmed)
qed

text \<open>
  C36. Where a redirect leads: whatever return path a request names, in the query, in the form or as
  its own address, the header of a reply is read by a browser, which drops tabs and line breaks
  from it, as a path of this site, one slash and then neither a slash nor a backslash; the one
  exception is a return path that has a tab behind a number sign.
\<close>

theorem redirects_stay_local:
  "pred_option local_path (wr_Location (fst (serve_web S q r now w))) \<or> list_ex fragment_tab (return_paths r)"
proof (cases "list_ex fragment_tab (return_paths r)")
  case False
  then have "stays_local (fst (serve_web S q r now w))"
    by (cases q) (simp_all add: login_local [OF False] setup_local page_local)
  then show ?thesis by (simp add: stays_local_def)
qed simp

lemma TrimSpace_ends:
  assumes "s \<noteq> []" "33 \<le> byte_of (hd s) \<and> byte_of (hd s) \<le> 126" "33 \<le> byte_of (last s) \<and> byte_of (last s) \<le> 126"
  shows "TrimSpace s = s"
proof -
  have "\<not> HasPrefix s p" if "p \<in> set space_forms" for p
    using space_forms_not_graphic(1) [OF that] space_forms_nonempty [OF that] assms(1,2) by (cases p; cases s) (auto simp: HasPrefix_def)
  then have "leading_space s = None" by (auto simp: leading_space_def find_None_iff)
  moreover have "\<not> HasSuffix s p" if "p \<in> set space_forms" for p
  proof
    assume "HasSuffix s p"
    then obtain u where "rev s = rev p @ u" by (auto simp: HasSuffix_def HasPrefix_append)
    then have "s = rev u @ p" by (metis rev_append rev_rev_ident)
    with assms(3) space_forms_not_graphic(2) [OF that] space_forms_nonempty [OF that] show False by simp
  qed
  then have "trailing_space s = None" by (auto simp: trailing_space_def find_None_iff)
  ultimately show ?thesis by (simp add: TrimSpace_def trim_left_id trim_right_id)
qed

definition offsite_path :: string where
  "offsite_path = ''/#/../'' @ CHR 0x09 # ''/evil.example''"

lemma offsite_kept: "wl_parse L offsite_path = Some (False, []) \<Longrightarrow> safeNext L offsite_path = offsite_path"
proof -
  have "TrimSpace offsite_path = offsite_path" by (rule TrimSpace_ends) (simp_all add: offsite_path_def)
  moreover assume "wl_parse L offsite_path = Some (False, [])"
  ultimately show ?thesis by (simp add: safeNext_def Let_def url_Parse_def) (simp add: offsite_path_def HasPrefix_def ctl_byte_def)
qed

lemma offsite_cleaned: "hexEscapeNonASCII (clean_target offsite_path) = ''/'' @ CHR 0x09 # ''/evil.example''"
  by code_simp

lemma offsite_header:
  "wl_parse L offsite_path = Some (False, []) \<Longrightarrow> location_header L offsite_path = ''/'' @ CHR 0x09 # ''/evil.example''"
  by (simp add: location_header_def url_Parse_def offsite_cleaned) (simp add: offsite_path_def ctl_byte_def)

text \<open>
  The exception is real: a link to the login page whose return path hides a tab behind a number
  sign takes a logged-in user off the site.  The path passes the checks, because the parser of
  addresses looks for control bytes only before the fragment; the redirect then cleans it, dropping
  the number sign, and a browser that drops the tab reads the address of another host.
\<close>

theorem tab_in_fragment_leaves_site:
  assumes "hasValidSession (site_auth S) r now w = (True, w1)" "rq_query r ''next'' = offsite_path"
    and "wl_parse (wa_lib (site_auth S)) offsite_path = Some (False, [])"
  shows "\<exists>p. wr_Location (fst (serve_web S LoginForm r now w)) = Some p \<and> browser_view p = ''//evil.example''"
  using assms by (simp add: handleLoginForm_def offsite_kept offsite_header browser_view_def)

text \<open>
  C35. One way to an admin: no request to any route changes the users, unless it is a setup posted from a
  trusted network, by a page of this site, with the token of its cookie and a complete form, and there
  was no user before; then the named user is the only one.
\<close>

theorem setup_is_the_only_door:
  "ad_users (ww_svc (snd (serve_web S q r now w))) = ad_users (ww_svc w)
   \<or> may_create S q r \<and> ad_users (ww_svc w) = [] \<and> map u_Username (ad_users (ww_svc (snd (serve_web S q r now w)))) = [posted_name r]"
  using serve_spec [of S q r now w] by (metis prod.collapse)

text \<open>
  Forged posts do nothing: a login or a setup posted from another site, or without the token of its
  cookie, and a logout from another site are refused, set no cookie, and leave everything as it was,
  the failed attempts included.
\<close>

theorem forged_posts_do_nothing:
  assumes "q \<in> {LoginPost, SetupPost, LogoutPost}"
    and "\<not> isSameOriginRequest (wa_lib (site_auth S)) r \<or> q \<noteq> LogoutPost \<and> \<not> csrf_token_ok r"
  shows "\<exists>rep. serve_web S q r now w = (rep, w) \<and> wr_Status rep \<in> {403, 404} \<and> wr_Cookies rep = []"
  using assms by (auto simp: handleLogin_def handleSetup_def handleLogout_def enforceSameOrigin_def enforceCSRFToken_def)

text \<open>
  C37. A locked address is not even checked: until its lockout ends, a login posted from it is refused
  without a look at the credentials, right or wrong: no session, no change of the tables or of the
  lockout.
\<close>

theorem locked_address_cannot_login:
  assumes "locked_until u (clientKey (site_auth S) r) (ww_limiter w)" "now < u"
    and "serve_web S LoginPost r now w = (rep, w')"
  shows "wr_Status rep \<in> {403, 429, 500} \<and> session_token rep = None \<and> same_tables (ww_svc w) (ww_svc w') \<and> ww_limiter w' = ww_limiter w"
proof (cases "isSameOriginRequest (wa_lib (site_auth S)) r \<and> csrf_token_ok r")
  case False
  with assms(3) show ?thesis by (auto simp: handleLogin_def enforceSameOrigin_def enforceCSRFToken_def split: if_splits)
next
  case True
  let ?ip = "clientKey (site_auth S) r" and ?m = "''Too many failed attempts. Try again later.''"
  obtain d l where d: "limiter_allow now ?ip (ww_limiter w) = ((False, d), l)"
    using locked_refused [OF assms(1,2)] by (metis prod.collapse)
  have l: "l = ww_limiter w" using d by (auto simp: limiter_allow_def split: option.splits if_splits)
  obtain rep1 w2 where f: "renderLoginStatus (site_auth S) r 429 ?m (safeNext (wa_lib (site_auth S)) (FormValue r ''next'')) [] (w\<lparr>ww_limiter := l\<rparr>)
      = (rep1, w2)" by fastforce
  have "rep = rep1\<lparr>wr_RetryAfter := Some (retryAfterSeconds d)\<rparr>" "w' = w2"
    using assms(3) True d f by (auto simp: handleLogin_def enforceSameOrigin_def enforceCSRFToken_def Let_def)
  then show ?thesis using render_login [OF f] drifted_same [of "w\<lparr>ww_limiter := l\<rparr>" w2] l by (auto simp: plain_form_def)
qed

section \<open>Witnesses\<close>

definition sample_site :: "unit web_site" where
  "sample_site = \<lparr>ws_env = sample_auth, ws_policy = LoopbackOnly,
     ws_lib = \<lparr>wl_parse = (\<lambda>s. Some (False, [])), wl_fold = map lower_byte, wl_ip = (\<lambda>_. ''10.0.0.9''), wl_rand = (\<lambda>n w. (Inr [], w))\<rparr>,
     ws_put = None, ws_page = (\<lambda>name r x. (name, x))\<rparr>"

definition web_req :: "string \<Rightarrow> (string \<times> string) list \<Rightarrow> (string \<times> string) list \<Rightarrow> http_req" where
  "web_req site cookies form = \<lparr>rq_remote = ''10.0.0.9:4711'', rq_headers = [(''Sec-Fetch-Site'', site)], rq_cookies = cookies,
     rq_form = map_of form, rq_query = (\<lambda>_. []), rq_host = ''h'', rq_uri = ''/dashboard'', rq_tls = True\<rparr>"

definition sample_csrf :: string where "sample_csrf = replicate csrfTokenLen (CHR ''0'')"

definition login_req :: http_req where
  "login_req = web_req ''same-origin'' [(CSRFCookieName, sample_csrf)]
     [(''csrf_token'', sample_csrf), (''username'', ''root''), (''password'', ''password'')]"

definition page_req :: http_req where
  "page_req = web_req ''same-origin'' [(SessionCookieName, sample_token)] []"

definition site_state :: "user list \<Rightarrow> session list \<Rightarrow> unit auth_db web_world" where
  "site_state us ss = \<lparr>ww_svc = auth_state us ss, ww_limiter = newLoginLimiter id, ww_adminExists = False\<rparr>"

lemma site_state_simps [simp]:
  "ww_svc (site_state us ss) = auth_state us ss" "ww_limiter (site_state us ss) = newLoginLimiter id"
  "\<not> ww_adminExists (site_state us ss)" "(site_state us ss)\<lparr>ww_svc := auth_state us' ss'\<rparr> = site_state us' ss'"
  "(site_state us ss)\<lparr>ww_limiter := newLoginLimiter id\<rparr> = site_state us ss"
  "(site_state us ss)\<lparr>ww_adminExists := False, ww_limiter := newLoginLimiter id\<rparr> = site_state us ss"
  by (simp_all add: site_state_def)

lemma sample_site_simps [simp]: "ws_env sample_site = sample_auth" "ws_policy sample_site = LoopbackOnly"
  by (simp_all add: sample_site_def)

lemma req_words: "TrimSpace ''same-origin'' = ''same-origin''" "TrimSpace ''cross-site'' = ''cross-site''"
  by (rule TrimSpace_graphic, simp add: graphic_def)+

lemma same_origin_req: "isSameOriginRequest L (web_req ''same-origin'' cs fs)" "\<not> isSameOriginRequest L (web_req ''cross-site'' cs fs)"
  by (simp_all add: isSameOriginRequest_def Let_def header_get_def header_values_def web_req_def req_words)

lemma login_req_facts: "csrf_token_ok login_req" "posted_name login_req = ''root''" "posted_password login_req = ''password''"
  by (simp_all add: csrf_token_ok_def cookie_of_def login_req_def web_req_def PostFormValue_def sample_csrf_def csrfTokenLen_def
      CSRFCookieName_def posted_name_def posted_password_def sample_root)

lemma sample_boot: "bootstrapAdminFromEnv sample_auth 0 ''root'' ''password'' (auth_state [] []) = (Inr (), auth_state [sample_admin] [])"
  using sample_setup by (simp add: bootstrapAdminFromEnv_def Let_def sample_root web_HasUsers_def store_HasUsers_def MinPasswordLength_def
      split: prod.splits)

definition login_reply :: web_reply where
  "login_reply = (redirect (wa_lib (site_auth sample_site)) (safeNext (wa_lib (site_auth sample_site)) []))\<lparr>wr_Cookies := [session_cookie (site_auth sample_site) login_req sample_token]\<rparr>"

lemma web_login_now: "web_Login sample_auth DefaultSessionTTL 0 ''root'' ''password'' (auth_state [sample_admin] [])
    = (Inr sample_token, auth_state [sample_admin] [sample_session])"
  using sample_login by (simp split: prod.splits)

lemma sample_login_post:
  "serve_web sample_site LoginPost login_req 0 (site_state [sample_admin] []) = (login_reply, site_state [sample_admin] [sample_session])"
proof -
  have a: "fst (limiter_allow 0 ip (newLoginLimiter id)) = (True, 0)" "snd (limiter_allow 0 ip (newLoginLimiter id)) = newLoginLimiter id"
    "limiter_success ip (newLoginLimiter id) = newLoginLimiter id" for ip
    by (simp_all add: limiter_allow_def newLoginLimiter_def limiter_success_def drop_attempt_def)
  have b: "on_svc (web_Login sample_auth DefaultSessionTTL 0 ''root'' ''password'') (site_state [sample_admin] [])
      = (Inr sample_token, site_state [sample_admin] [sample_session])"
    by (simp add: on_svc_def web_login_now)
  have c: "isSameOriginRequest (wa_lib (site_auth sample_site)) login_req" "PostFormValue login_req ''next'' = []"
    unfolding login_req_def by (rule same_origin_req(1)) (simp add: PostFormValue_def web_req_def)
  show ?thesis
    using login_req_facts b
    by (simp add: handleLogin_def enforceSameOrigin_def enforceCSRFToken_def c Let_def split_beta a attempt_login_def
        posted_name_def [symmetric] posted_password_def [symmetric] login_reply_def)
qed

abbreviation sample_visits :: web_history where
  "sample_visits \<equiv> [(0, Started ''root'' ''password''), (0, Served LoginPost login_req login_reply)]"

lemma sample_run: "web_run sample_site sample_visits (site_state [sample_admin] [sample_session])"
proof -
  have "web_run sample_site [] (site_state [] [])" by (rule web_run.start) simp_all
  from web_run.restart [OF this, of 0 "''root''" "''password''" "Inr ()" "auth_state [sample_admin] []" "newLoginLimiter id"]
  have "web_run sample_site [(0, Started ''root'' ''password'')] (site_state [sample_admin] [])" by (simp add: sample_boot)
  from web_run.serve [OF this sample_login_post] show ?thesis by simp
qed

lemma sample_address: "remoteAddrIP ''10.0.0.9:4711'' = Some (v4_prefix @ [10, 0, 0, 9])"
proof -
  have "TrimSpace ''10.0.0.9'' = ''10.0.0.9''" by (rule TrimSpace_graphic) (simp add: graphic_def)
  moreover have "SplitHostPort ''10.0.0.9:4711'' = Some (''10.0.0.9'', ''4711'')" by code_simp
  moreover have "takeWhile (\<lambda>c. c \<noteq> CHR ''%'') ''10.0.0.9'' = ''10.0.0.9''" by simp
  moreover have "ParseIP ''10.0.0.9'' = Some (v4_prefix @ [10, 0, 0, 9])" by code_simp
  ultimately show ?thesis by (simp add: remoteAddrIP_def)
qed

lemma page_stranger: "\<not> Trusted LoopbackOnly (web_req site cs fs)"
proof -
  have "\<not> IsLoopback (v4_prefix @ [10, 0, 0, 9])" by code_simp
  then show ?thesis
    by (simp add: sample_address Trusted_def LoopbackOnly_def policy_ClientIP_def ClientIP_def allow_contains_def ipInAny_def web_req_def)
qed

lemma sample_page:
  "\<exists>rep w'. serve_web sample_site (PageAt ''queue'') page_req second (site_state [sample_admin] [sample_session]) = (rep, w')
     \<and> wr_Page rep = Content ''queue''"
proof -
  let ?s = "auth_state [sample_admin] [sample_session]"
  obtain u s' where u: "web_ValidateSession sample_auth second sample_token ?s = (Inr u, s')" using sample_check by blast
  have "web_HasUsers sample_auth ?s = (Inr True, ?s)" by (simp add: web_HasUsers_def store_HasUsers_def)
  moreover have "cookie_of page_req SessionCookieName = Some sample_token" "sample_token \<noteq> []"
    by (simp add: cookie_of_def page_req_def web_req_def) code_simp
  moreover have "\<not> Trusted LoopbackOnly page_req" unfolding page_req_def by (rule page_stranger)
  ultimately show ?thesis using u
    by (simp add: page_guard_def FirstRunGate_def hasAdmin_def on_svc_def RequireSession_def hasValidSession_def site_page_def on_rest_def
        sample_site_def reply_def)
qed

theorem pages_need_login_witness:
  "\<exists>t q r0 rep0. (t, Served q r0 rep0) \<in> set sample_visits \<and> posted_name r0 = ''root'' \<and> formatTime second < formatTime (t + DefaultSessionTTL)"
proof -
  obtain rep w' where p: "serve_web sample_site (PageAt ''queue'') page_req second (site_state [sample_admin] [sample_session]) = (rep, w')"
    "wr_Page rep = Content ''queue''" using sample_page by blast
  have "\<not> Trusted (ws_policy sample_site) page_req" by (simp add: page_req_def page_stranger)
  from pages_need_login [OF sample_run p this] obtain t q r0 rep0 where
    t: "(t, Served q r0 rep0) \<in> set sample_visits" "formatTime second < formatTime (t + DefaultSessionTTL)" by blast
  then have "posted_name r0 = ''root''" using login_req_facts by auto
  with t show ?thesis by blast
qed

theorem tab_in_fragment_leaves_site_witness:
  "\<exists>p. wr_Location (fst (serve_web sample_site LoginForm (page_req\<lparr>rq_query := \<lambda>_. offsite_path\<rparr>) second
      (site_state [sample_admin] [sample_session]))) = Some p \<and> browser_view p = ''//evil.example''"
proof -
  let ?r = "page_req\<lparr>rq_query := \<lambda>_. offsite_path\<rparr>" and ?s = "auth_state [sample_admin] [sample_session]"
  obtain u s' where u: "web_ValidateSession sample_auth second sample_token ?s = (Inr u, s')" using sample_check by blast
  moreover have "cookie_of ?r SessionCookieName = Some sample_token" "sample_token \<noteq> []"
    by (simp add: cookie_of_def page_req_def web_req_def) code_simp
  ultimately obtain w1 where "hasValidSession (site_auth sample_site) ?r second (site_state [sample_admin] [sample_session]) = (True, w1)"
    by (simp add: hasValidSession_def on_svc_def)
  moreover have "wl_parse (wa_lib (site_auth sample_site)) offsite_path = Some (False, [])" by (simp add: site_auth_def sample_site_def)
  ultimately show ?thesis by (intro tab_in_fragment_leaves_site) simp_all
qed

theorem forged_posts_do_nothing_witness:
  "\<exists>rep. serve_web sample_site LogoutPost (web_req ''cross-site'' [(SessionCookieName, sample_token)] []) second
       (site_state [sample_admin] [sample_session]) = (rep, site_state [sample_admin] [sample_session]) \<and> wr_Cookies rep = []"
  using forged_posts_do_nothing [of LogoutPost sample_site "web_req ''cross-site'' [(SessionCookieName, sample_token)] []" second
      "site_state [sample_admin] [sample_session]"] same_origin_req(2) by auto

theorem locked_address_cannot_login_witness:
  "session_token (fst (serve_web sample_site LoginPost login_req 20 ((site_state [sample_admin] [])\<lparr>ww_limiter := locked_limiter\<rparr>))) = None"
proof -
  have "clientKey (site_auth sample_site) login_req = ''10.0.0.9''"
    by (simp add: sample_address clientKey_def LoopbackOnly_def policy_ClientIP_def ClientIP_def ipInAny_def login_req_def web_req_def)
      (simp add: site_auth_def sample_site_def)
  then have "locked_until (15 * minute) (clientKey (site_auth sample_site) login_req)
      (ww_limiter ((site_state [sample_admin] [])\<lparr>ww_limiter := locked_limiter\<rparr>))"
    by (simp add: locked_until_def locked_limiter_def)
  from locked_address_cannot_login [OF this, of 20] show ?thesis by (simp del: serve_web.simps) (metis prod.collapse)
qed

end
