(* ===== verification/Spec2Isabelle.thy ===== *)
theory Spec2Isabelle
  imports Circuit Orch_Props Scan_Flow Lyrics_Provenance Api_Keys_Props Login_Limiter Trust_Net Web_Auth_Props Webhook_Props Web_Gate_Props
begin

text \<open>
  Verification development for the lyrics service (Go module under \<^verbatim>\<open>src/\<close>).
\<close>

end
